(* ===== verification/Cluster_Prelude.thy ===== *)
theory Cluster_Prelude
  imports Main "HOL-Library.Word" "HOL-Library.Char_ord"
begin

text \<open>
  Shared vocabulary of the development.

  \<^item> Machine integers: \<open>u32\<close> and \<open>u64\<close> stand for C's \<open>uint32_t\<close> and \<open>unsigned long\<close>;
    a C \<open>int\<close> is a HOL \<open>int\<close> where its value stays in range, and a \<open>32 word\<close> read with
    \<open>sint\<close> where the code can wrap.
  \<^item> Memory: buffers are \<open>string\<close>s (lists of 8-bit characters). A failing allocation is an
    outcome the program handles, so every allocating operation takes an allocator script
    (\<open>alloc\<close>), the outcomes of the coming calls of \<open>hi_malloc\<close>, \<open>hi_calloc\<close>,
    \<open>hi_realloc\<close> or of an sds constructor, and returns the rest of it. A script that has run
    out grants every request. \<open>no_oom\<close> says that no coming request is refused.
  \<^item> The functions of the C library that the sources call on strings: \<open>strlen\<close> (through
    \<open>cstr\<close>), \<open>strncmp\<close>, \<open>strncasecmp\<close>, \<open>strchr\<close>, \<open>strrchr\<close>, \<open>isdigit\<close>.
  \<^item> \<open>decimal\<close> and \<open>dval\<close>, the reference rendering and reading of decimal numbers.
\<close>

named_theorems cstring \<open>C string functions on the buffers of the model\<close>
named_theorems alloc_simps \<open>allocator scripts\<close>

type_synonym u16 = "16 word"
type_synonym u32 = "32 word"
type_synonym u64 = "64 word"
type_synonym addr = nat

lemma unat_u32_of_nat: "n < 2 ^ 32 \<Longrightarrow> unat (word_of_nat n :: u32) = n"
  unfolding unat_of_nat by simp

lemma sint_u32_of_nat:
  assumes "n < 2 ^ 31"
  shows "sint (word_of_nat n :: 32 word) = int n"
proof -
  from assms have "int n < 2 ^ 31" by simp
  then have "signed_take_bit 31 (int n) = int n"
    by (intro signed_take_bit_int_eq_self) auto
  then show ?thesis by (simp add: signed_of_nat)
qed

section \<open>Allocator scripts\<close>

type_synonym alloc = "bool list"

fun hi_alloc :: "alloc \<Rightarrow> bool \<times> alloc" where
  "hi_alloc [] = (True, [])"
| "hi_alloc (b # bs) = (b, bs)"

definition no_oom :: "alloc \<Rightarrow> bool" where
  "no_oom al \<longleftrightarrow> False \<notin> set al"

lemma no_oom_Nil [simp, alloc_simps]: "no_oom []"
  by (simp add: no_oom_def)

lemma no_oom_Cons [simp, alloc_simps]: "no_oom (b # al) \<longleftrightarrow> b \<and> no_oom al"
  by (auto simp: no_oom_def)

lemma hi_alloc_no_oom [simp, alloc_simps]:
  "no_oom al \<Longrightarrow> fst (hi_alloc al)"
  "no_oom al \<Longrightarrow> no_oom (snd (hi_alloc al))"
  by (cases al; simp)+

lemma hi_alloc_no_oomE:
  assumes "no_oom al"
  obtains al' where "hi_alloc al = (True, al')" and "no_oom al'"
  using assms by (cases al) auto

section \<open>Bytes and C strings\<close>

abbreviation NUL :: char where "NUL \<equiv> CHR 0x00"
abbreviation CR :: char where "CR \<equiv> CHR 0x0D"
abbreviation LF :: char where "LF \<equiv> CHR 0x0A"

definition CRLF :: string where "CRLF = [CR, LF]"

definition ord_of :: "char \<Rightarrow> nat" where
  "ord_of c = of_char c"

lemma ord_of_less_256 [simp]: "ord_of c < 256"
  by (simp add: ord_of_def)

lemma ord_of_eq_iff [simp]: "ord_of c = ord_of d \<longleftrightarrow> c = d"
  by (simp add: ord_of_def)

lemma ord_of_NUL [simp]: "ord_of NUL = 0"
  by (simp add: ord_of_def)

lemma ord_of_eq_0 [simp]: "ord_of c = 0 \<longleftrightarrow> c = NUL"
  using ord_of_eq_iff [of c NUL] by simp

lemma ord_of_char_of [simp]: "n < 256 \<Longrightarrow> ord_of (char_of n) = n"
  by (simp add: ord_of_def)

definition c_isdigit :: "char \<Rightarrow> bool" where
  "c_isdigit c \<longleftrightarrow> 48 \<le> ord_of c \<and> ord_of c \<le> 57"

definition digit_val :: "char \<Rightarrow> nat" where
  "digit_val c = ord_of c - 48"

definition c_toupper :: "char \<Rightarrow> char" where
  "c_toupper c = (if 97 \<le> ord_of c \<and> ord_of c \<le> 122 then char_of (ord_of c - 32) else c)"

text \<open>
  \<open>cstr\<close> is what a C function that stops at the terminating zero sees of a buffer; the end
  of the list plays the part of a terminator that lies just behind the modelled bytes.
\<close>

definition cstr :: "string \<Rightarrow> string" where
  "cstr s = takeWhile (\<lambda>c. c \<noteq> NUL) s"

abbreviation nul_free :: "string \<Rightarrow> bool" where
  "nul_free s \<equiv> NUL \<notin> set s"

lemma cstr_nul_free [simp, cstring]: "nul_free s \<Longrightarrow> cstr s = s"
  by (auto simp: cstr_def takeWhile_eq_all_conv)

lemma nul_free_cstr [simp, cstring]: "nul_free (cstr s)"
  by (auto simp: cstr_def dest: set_takeWhileD)

lemma cstr_append_NUL [simp, cstring]: "nul_free s \<Longrightarrow> cstr (s @ NUL # t) = s"
  by (auto simp: cstr_def takeWhile_append)

fun strncmp :: "string \<Rightarrow> string \<Rightarrow> nat \<Rightarrow> int" where
  "strncmp a b 0 = 0"
| "strncmp a b (Suc n) =
     (let x = (case a of [] \<Rightarrow> NUL | c # _ \<Rightarrow> c);
          y = (case b of [] \<Rightarrow> NUL | c # _ \<Rightarrow> c)
      in if ord_of x < ord_of y then -1
         else if ord_of y < ord_of x then 1
         else if x = NUL then 0
         else strncmp (tl a) (tl b) n)"

definition strncasecmp :: "string \<Rightarrow> string \<Rightarrow> nat \<Rightarrow> int" where
  "strncasecmp a b n = strncmp (map c_toupper a) (map c_toupper b) n"

text \<open>Position of the first or last occurrence of a character in a C string.\<close>

fun find_idx :: "('a \<Rightarrow> bool) \<Rightarrow> 'a list \<Rightarrow> nat option" where
  "find_idx P [] = None"
| "find_idx P (x # xs) = (if P x then Some 0 else map_option Suc (find_idx P xs))"

definition strchr :: "string \<Rightarrow> char \<Rightarrow> nat option" where
  "strchr s c = find_idx (\<lambda>x. x = c) (cstr s)"

definition strrchr :: "string \<Rightarrow> char \<Rightarrow> nat option" where
  "strrchr s c =
     (case find_idx (\<lambda>x. x = c) (rev (cstr s)) of
        None \<Rightarrow> None
      | Some i \<Rightarrow> Some (length (cstr s) - 1 - i))"

lemma find_idx_None: "find_idx P xs = None \<longleftrightarrow> (\<forall>x \<in> set xs. \<not> P x)"
  by (induction xs) auto

lemma find_idx_Some:
  "find_idx P xs = Some i \<longleftrightarrow> i < length xs \<and> P (xs ! i) \<and> (\<forall>j < i. \<not> P (xs ! j))"
proof (induction xs arbitrary: i)
  case Nil
  then show ?case by simp
next
  case (Cons x xs)
  show ?case
    by (cases i) (auto simp: Cons.IH less_Suc_eq_0_disj)
qed

lemma find_idx_append_hit: "\<forall>x \<in> set xs. \<not> P x \<Longrightarrow> P y \<Longrightarrow> find_idx P (xs @ y # ys) = Some (length xs)"
  by (induction xs) auto

lemma strrchr_append:
  assumes "nul_free (s @ c # t)" and "c \<notin> set t"
  shows "strrchr (s @ c # t) c = Some (length s)"
proof -
  have "find_idx (\<lambda>x. x = c) (rev t @ c # rev s) = Some (length (rev t))"
    using assms(2) by (intro find_idx_append_hit) auto
  with assms(1) show ?thesis by (simp add: strrchr_def)
qed

lemma strrchr_None: "nul_free s \<Longrightarrow> strrchr s c = None \<longleftrightarrow> c \<notin> set s"
proof -
  assume "nul_free s"
  then have "strrchr s c = None \<longleftrightarrow> find_idx (\<lambda>x. x = c) (rev s) = None"
    by (simp add: strrchr_def split: option.splits)
  then show ?thesis by (auto simp: find_idx_None)
qed

lemma strrchr_Some_split:
  assumes "strrchr s c = Some i"
  shows "i < length (cstr s)" and "cstr s = take i (cstr s) @ c # drop (Suc i) (cstr s)"
    and "c \<notin> set (drop (Suc i) (cstr s))"
proof -
  let ?s = "cstr s"
  from assms obtain j where j: "find_idx (\<lambda>x. x = c) (rev ?s) = Some j"
    and i: "i = length ?s - 1 - j"
    by (auto simp: strrchr_def split: option.splits)
  from j have jl: "j < length ?s" and cj: "rev ?s ! j = c"
    and before: "\<forall>k < j. rev ?s ! k \<noteq> c"
    by (auto simp: find_idx_Some)
  show il: "i < length ?s" using i jl by simp
  have "?s ! i = c" using cj jl i by (simp add: rev_nth)
  then show "?s = take i ?s @ c # drop (Suc i) ?s"
    using il id_take_nth_drop by metis
  show "c \<notin> set (drop (Suc i) ?s)"
  proof
    assume "c \<in> set (drop (Suc i) ?s)"
    then obtain k where k: "k < length (drop (Suc i) ?s)" "drop (Suc i) ?s ! k = c"
      by (auto simp: in_set_conv_nth)
    let ?m = "length ?s - 1 - (Suc i + k)"
    have "rev ?s ! ?m = ?s ! (Suc i + k)" using k(1) by (simp add: rev_nth)
    moreover have "?m < j" using k(1) i jl by simp
    ultimately show False using k before by simp
  qed
qed

section \<open>Decimal numbers\<close>

definition digit_char :: "nat \<Rightarrow> char" where
  "digit_char d = char_of (48 + d)"

fun decimal :: "nat \<Rightarrow> string" where
  "decimal n = (if n < 10 then [digit_char n] else decimal (n div 10) @ [digit_char (n mod 10)])"

declare decimal.simps [simp del]

fun dval :: "nat \<Rightarrow> string \<Rightarrow> nat" where
  "dval a [] = a"
| "dval a (c # cs) = dval (a * 10 + digit_val c) cs"

lemma digit_char_facts [simp]:
  assumes "d < 10"
  shows "c_isdigit (digit_char d)" and "digit_val (digit_char d) = d" and "digit_char d \<noteq> NUL"
proof -
  from assms have *: "ord_of (digit_char d) = 48 + d" by (simp add: digit_char_def)
  then show "c_isdigit (digit_char d)" "digit_val (digit_char d) = d"
    using assms by (auto simp: c_isdigit_def digit_val_def)
  show "digit_char d \<noteq> NUL"
  proof
    assume "digit_char d = NUL"
    with * have "ord_of NUL = 48 + d" by simp
    then show False by (simp add: ord_of_def)
  qed
qed

lemma digit_val_less_10: "c_isdigit c \<Longrightarrow> digit_val c < 10"
  by (auto simp: c_isdigit_def digit_val_def)

lemma digit_char_digit_val [simp]: "c_isdigit c \<Longrightarrow> digit_char (digit_val c) = c"
  by (simp add: c_isdigit_def digit_val_def digit_char_def ord_of_def)

lemma dval_append: "dval a (s @ t) = dval (dval a s) t"
  by (induction s arbitrary: a) auto

lemma dval_decimal [simp]: "dval 0 (decimal n) = n"
proof (induction n rule: decimal.induct)
  case (1 n)
  show ?case
  proof (cases "n < 10")
    case True
    then show ?thesis by (simp add: decimal.simps [of n])
  next
    case False
    with 1 show ?thesis by (simp add: decimal.simps [of n] dval_append)
  qed
qed

lemma decimal_digits: "\<forall>c \<in> set (decimal n). c_isdigit c"
proof (induction n rule: decimal.induct)
  case (1 n)
  then show ?case by (simp add: decimal.simps [of n])
qed

lemma decimal_not_Nil [simp]: "decimal n \<noteq> []"
  by (subst decimal.simps) simp

lemma c_isdigit_not [simp]:
  "\<not> c_isdigit NUL" "\<not> c_isdigit CR" "\<not> c_isdigit LF" "\<not> c_isdigit CHR ''$''" "\<not> c_isdigit CHR ''-''"
  "\<not> c_isdigit CHR '':''" "\<not> c_isdigit CHR ''*''" "\<not> c_isdigit CHR '' ''" "\<not> c_isdigit CHR ''@''"
  by (simp_all add: c_isdigit_def ord_of_def)

lemma nul_free_decimal [simp, cstring]: "nul_free (decimal n)"
  using decimal_digits [of n] by (auto dest: bspec)

lemma length_decimal_le: "n < 10 ^ Suc k \<Longrightarrow> length (decimal n) \<le> Suc k"
proof (induction k arbitrary: n)
  case 0
  then show ?case by (simp add: decimal.simps [of n])
next
  case (Suc k)
  then have "n div 10 < 10 ^ Suc k" by auto
  with Suc.IH have "length (decimal (n div 10)) \<le> Suc k" .
  then show ?case by (simp add: decimal.simps [of n])
qed

text \<open>Reading digits up to the first other character, as the parsing loops of the code do.\<close>

lemma takeWhile_digits_decimal [simp]:
  "\<not> c_isdigit c \<Longrightarrow> takeWhile c_isdigit (decimal n @ c # t) = decimal n"
  "\<not> c_isdigit c \<Longrightarrow> dropWhile c_isdigit (decimal n @ c # t) = c # t"
  using decimal_digits [of n] by (auto simp: takeWhile_append dropWhile_append)

end
