(* ===== verification/Adlist.thy ===== *)
theory Adlist
  imports Cluster_Prelude "HOL-Library.Monad_Syntax"
begin

text \<open>
  The doubly linked list of \<^verbatim>\<open>adlist.c\<close>, on an explicit store. A node lives at an
  address, \<open>cells\<close> maps the allocated addresses to nodes, \<open>freed\<close> collects the values handed
  to the list's \<open>free\<close> method. Every dereference goes through the store, so an operation that
  follows a null or dangling pointer returns \<open>None\<close>. \<open>lrep\<close> relates a store and a list header
  to the HOL list it stands for; the operations are proved to implement the list operations,
  and to follow no dangling pointer, on every represented list.
\<close>

section \<open>Nodes, headers, iterators\<close>

record 'v listNode =
  ln_prev :: "addr option"
  ln_next :: "addr option"
  ln_value :: 'v

record listIter =
  it_next :: "addr option"
  it_direction :: nat

record 'v hilist =
  l_head :: "addr option"
  l_tail :: "addr option"
  l_dup :: "('v \<Rightarrow> 'v option) option"
  l_free :: bool
  l_match :: "('v \<Rightarrow> 'v \<Rightarrow> bool) option"
  l_len :: nat

record 'v lheap =
  cells :: "addr \<rightharpoonup> 'v listNode"
  brk :: addr
  script :: alloc
  freed :: "'v list"

abbreviation (input) AL_START_HEAD :: nat where "AL_START_HEAD \<equiv> 0"
abbreviation (input) AL_START_TAIL :: nat where "AL_START_TAIL \<equiv> 1"

definition heap_alloc :: "'v lheap \<Rightarrow> addr option \<times> 'v lheap" where
  "heap_alloc h =
     (case hi_alloc (script h) of
        (False, al) \<Rightarrow> (None, h\<lparr>script := al\<rparr>)
      | (True, al) \<Rightarrow> (Some (brk h), h\<lparr>script := al, brk := brk h + 1\<rparr>))"

definition put_node :: "'v lheap \<Rightarrow> addr \<Rightarrow> 'v listNode \<Rightarrow> 'v lheap" where
  "put_node h a nd = h\<lparr>cells := (cells h)(a \<mapsto> nd)\<rparr>"

definition set_next :: "'v lheap \<Rightarrow> addr \<Rightarrow> addr option \<Rightarrow> 'v lheap option" where
  "set_next h a x = do { nd \<leftarrow> cells h a; Some (put_node h a (nd\<lparr>ln_next := x\<rparr>)) }"

definition set_prev :: "'v lheap \<Rightarrow> addr \<Rightarrow> addr option \<Rightarrow> 'v lheap option" where
  "set_prev h a x = do { nd \<leftarrow> cells h a; Some (put_node h a (nd\<lparr>ln_prev := x\<rparr>)) }"

definition free_node :: "'v lheap \<Rightarrow> addr \<Rightarrow> 'v lheap" where
  "free_node h a = h\<lparr>cells := (cells h)(a := None)\<rparr>"

definition list_free :: "bool \<Rightarrow> 'v \<Rightarrow> 'v lheap \<Rightarrow> 'v lheap" where
  "list_free has v h = (if has then h\<lparr>freed := freed h @ [v]\<rparr> else h)"

section \<open>Operations\<close>

definition empty_hilist :: "'v hilist" where
  "empty_hilist = \<lparr>l_head = None, l_tail = None, l_dup = None, l_free = False, l_match = None, l_len = 0\<rparr>"

definition listCreate :: "'v lheap \<Rightarrow> 'v hilist option \<times> 'v lheap" where
  "listCreate h =
     (case hi_alloc (script h) of
        (False, al) \<Rightarrow> (None, h\<lparr>script := al\<rparr>)
      | (True, al) \<Rightarrow> (Some empty_hilist, h\<lparr>script := al\<rparr>))"

text \<open>The loop of \<open>listRelease\<close>: \<open>len\<close> nodes from \<open>current\<close> on are freed.\<close>

fun release_nodes :: "nat \<Rightarrow> bool \<Rightarrow> 'v lheap \<Rightarrow> addr option \<Rightarrow> 'v lheap option" where
  "release_nodes 0 has h current = Some h"
| "release_nodes (Suc len) has h current =
     do { a \<leftarrow> current;
          nd \<leftarrow> cells h a;
          release_nodes len has (free_node (list_free has (ln_value nd) h) a) (ln_next nd) }"

definition listRelease :: "'v lheap \<Rightarrow> 'v hilist \<Rightarrow> 'v lheap option" where
  "listRelease h l = release_nodes (l_len l) (l_free l) h (l_head l)"

text \<open>The adding operations return whether the list was returned (\<open>False\<close>: \<open>NULL\<close>).\<close>

definition listAddNodeHead :: "'v lheap \<Rightarrow> 'v hilist \<Rightarrow> 'v \<Rightarrow> (bool \<times> 'v lheap \<times> 'v hilist) option" where
  "listAddNodeHead h l v =
     (case heap_alloc h of
        (None, h1) \<Rightarrow> Some (False, h1, l)
      | (Some node, h1) \<Rightarrow>
          if l_len l = 0 then
            Some (True, put_node h1 node \<lparr>ln_prev = None, ln_next = None, ln_value = v\<rparr>,
                  l\<lparr>l_head := Some node, l_tail := Some node, l_len := l_len l + 1\<rparr>)
          else
            do { hd \<leftarrow> l_head l;
                 h2 \<leftarrow> set_prev (put_node h1 node \<lparr>ln_prev = None, ln_next = l_head l, ln_value = v\<rparr>)
                         hd (Some node);
                 Some (True, h2, l\<lparr>l_head := Some node, l_len := l_len l + 1\<rparr>) })"

definition listAddNodeTail :: "'v lheap \<Rightarrow> 'v hilist \<Rightarrow> 'v \<Rightarrow> (bool \<times> 'v lheap \<times> 'v hilist) option" where
  "listAddNodeTail h l v =
     (case heap_alloc h of
        (None, h1) \<Rightarrow> Some (False, h1, l)
      | (Some node, h1) \<Rightarrow>
          if l_len l = 0 then
            Some (True, put_node h1 node \<lparr>ln_prev = None, ln_next = None, ln_value = v\<rparr>,
                  l\<lparr>l_head := Some node, l_tail := Some node, l_len := l_len l + 1\<rparr>)
          else
            do { tl \<leftarrow> l_tail l;
                 h2 \<leftarrow> set_next (put_node h1 node \<lparr>ln_prev = l_tail l, ln_next = None, ln_value = v\<rparr>)
                         tl (Some node);
                 Some (True, h2, l\<lparr>l_tail := Some node, l_len := l_len l + 1\<rparr>) })"

definition listInsertNode ::
  "'v lheap \<Rightarrow> 'v hilist \<Rightarrow> addr \<Rightarrow> 'v \<Rightarrow> bool \<Rightarrow> (bool \<times> 'v lheap \<times> 'v hilist) option" where
  "listInsertNode h l old_node v after =
     (case heap_alloc h of
        (None, h1) \<Rightarrow> Some (False, h1, l)
      | (Some node, h1) \<Rightarrow>
          do { old \<leftarrow> cells h1 old_node;
               let nd = (if after then \<lparr>ln_prev = Some old_node, ln_next = ln_next old, ln_value = v\<rparr>
                         else \<lparr>ln_prev = ln_prev old, ln_next = Some old_node, ln_value = v\<rparr>);
               let l1 = (if after then (if l_tail l = Some old_node then l\<lparr>l_tail := Some node\<rparr> else l)
                         else (if l_head l = Some old_node then l\<lparr>l_head := Some node\<rparr> else l));
               let h2 = put_node h1 node nd;
               h3 \<leftarrow> (case ln_prev nd of None \<Rightarrow> Some h2 | Some p \<Rightarrow> set_next h2 p (Some node));
               h4 \<leftarrow> (case ln_next nd of None \<Rightarrow> Some h3 | Some n \<Rightarrow> set_prev h3 n (Some node));
               Some (True, h4, l1\<lparr>l_len := l_len l + 1\<rparr>) })"

definition listDelNode :: "'v lheap \<Rightarrow> 'v hilist \<Rightarrow> addr \<Rightarrow> ('v lheap \<times> 'v hilist) option" where
  "listDelNode h l node =
     do { nd \<leftarrow> cells h node;
          (h1, l1) \<leftarrow> (case ln_prev nd of
                        Some p \<Rightarrow> do { h' \<leftarrow> set_next h p (ln_next nd); Some (h', l) }
                      | None \<Rightarrow> Some (h, l\<lparr>l_head := ln_next nd\<rparr>));
          (h2, l2) \<leftarrow> (case ln_next nd of
                        Some n \<Rightarrow> do { h' \<leftarrow> set_prev h1 n (ln_prev nd); Some (h', l1) }
                      | None \<Rightarrow> Some (h1, l1\<lparr>l_tail := ln_prev nd\<rparr>));
          Some (free_node (list_free (l_free l) (ln_value nd) h2) node, l2\<lparr>l_len := l_len l - 1\<rparr>) }"

definition listGetIterator :: "'v lheap \<Rightarrow> 'v hilist \<Rightarrow> nat \<Rightarrow> listIter option \<times> 'v lheap" where
  "listGetIterator h l direction =
     (case hi_alloc (script h) of
        (False, al) \<Rightarrow> (None, h\<lparr>script := al\<rparr>)
      | (True, al) \<Rightarrow>
          (Some \<lparr>it_next = (if direction = AL_START_HEAD then l_head l else l_tail l),
                 it_direction = direction\<rparr>, h\<lparr>script := al\<rparr>))"

definition listRewind :: "'v hilist \<Rightarrow> listIter" where
  "listRewind l = \<lparr>it_next = l_head l, it_direction = AL_START_HEAD\<rparr>"

definition listRewindTail :: "'v hilist \<Rightarrow> listIter" where
  "listRewindTail l = \<lparr>it_next = l_tail l, it_direction = AL_START_TAIL\<rparr>"

definition listNext :: "'v lheap \<Rightarrow> listIter \<Rightarrow> (addr option \<times> listIter) option" where
  "listNext h iter =
     (case it_next iter of
        None \<Rightarrow> Some (None, iter)
      | Some current \<Rightarrow>
          do { nd \<leftarrow> cells h current;
               Some (Some current,
                     iter\<lparr>it_next := (if it_direction iter = AL_START_HEAD then ln_next nd else ln_prev nd)\<rparr>) })"

text \<open>
  The loops over an iterator may follow pointers for ever on a corrupt store, so they are
  partial; \<open>None\<close> is a dangling pointer or no end.
\<close>

partial_function (option) listDup_loop ::
  "'v lheap \<Rightarrow> 'v hilist \<Rightarrow> listIter \<Rightarrow> ('v hilist option \<times> 'v lheap) option" where
  "listDup_loop h copy iter =
     do { (node, iter') \<leftarrow> listNext h iter;
          case node of
            None \<Rightarrow> Some (Some copy, h)
          | Some a \<Rightarrow>
              do { nd \<leftarrow> cells h a;
                   case (case l_dup copy of Some d \<Rightarrow> d (ln_value nd) | None \<Rightarrow> Some (ln_value nd)) of
                     None \<Rightarrow> do { h' \<leftarrow> listRelease h copy; Some (None, h') }
                   | Some value \<Rightarrow>
                       do { (ok, h', copy') \<leftarrow> listAddNodeTail h copy value;
                            if ok then listDup_loop h' copy' iter'
                            else do { h'' \<leftarrow> listRelease h' copy'; Some (None, h'') } } } }"

definition listDup :: "'v lheap \<Rightarrow> 'v hilist \<Rightarrow> ('v hilist option \<times> 'v lheap) option" where
  "listDup h orig =
     (case listCreate h of
        (None, h1) \<Rightarrow> Some (None, h1)
      | (Some copy, h1) \<Rightarrow>
          listDup_loop h1 (copy\<lparr>l_dup := l_dup orig, l_free := l_free orig, l_match := l_match orig\<rparr>)
            (listRewind orig))"

definition key_matches :: "'v hilist \<Rightarrow> 'v \<Rightarrow> 'v \<Rightarrow> bool" where
  "key_matches l key v = (case l_match l of Some m \<Rightarrow> m v key | None \<Rightarrow> key = v)"

partial_function (option) listSearchKey_loop ::
  "'v lheap \<Rightarrow> 'v hilist \<Rightarrow> 'v \<Rightarrow> listIter \<Rightarrow> addr option option" where
  "listSearchKey_loop h l key iter =
     do { (node, iter') \<leftarrow> listNext h iter;
          case node of
            None \<Rightarrow> Some None
          | Some a \<Rightarrow>
              do { nd \<leftarrow> cells h a;
                   if key_matches l key (ln_value nd) then Some (Some a)
                   else listSearchKey_loop h l key iter' } }"

definition listSearchKey :: "'v lheap \<Rightarrow> 'v hilist \<Rightarrow> 'v \<Rightarrow> addr option option" where
  "listSearchKey h l key = listSearchKey_loop h l key (listRewind l)"

text \<open>\<open>while (index-- && n) n = n->link\<close>\<close>

fun walk :: "('v listNode \<Rightarrow> addr option) \<Rightarrow> 'v lheap \<Rightarrow> nat \<Rightarrow> addr option \<Rightarrow> addr option option" where
  "walk link h 0 n = Some n"
| "walk link h (Suc index) n =
     (case n of None \<Rightarrow> Some None
      | Some a \<Rightarrow> do { nd \<leftarrow> cells h a; walk link h index (link nd) })"

definition listIndex :: "'v lheap \<Rightarrow> 'v hilist \<Rightarrow> int \<Rightarrow> addr option option" where
  "listIndex h l index =
     (if index < 0 then walk ln_prev h (nat (- index - 1)) (l_tail l)
      else walk ln_next h (nat index) (l_head l))"

definition listRotate :: "'v lheap \<Rightarrow> 'v hilist \<Rightarrow> ('v lheap \<times> 'v hilist) option" where
  "listRotate h l =
     (if l_len l \<le> 1 then Some (h, l)
      else
        do { tail \<leftarrow> l_tail l;
             nd \<leftarrow> cells h tail;
             new_tail \<leftarrow> ln_prev nd;
             h1 \<leftarrow> set_next h new_tail None;
             head \<leftarrow> l_head l;
             h2 \<leftarrow> set_prev h1 head (Some tail);
             h3 \<leftarrow> set_prev h2 tail None;
             h4 \<leftarrow> set_next h3 tail (l_head l);
             Some (h4, l\<lparr>l_tail := Some new_tail, l_head := Some tail\<rparr>) })"

section \<open>The represented list\<close>

text \<open>
  \<open>dseg c p f xs l n\<close>: from \<open>f\<close> on, the cells \<open>c\<close> hold the nodes and values \<open>xs\<close>, linked
  both ways, the first node's predecessor being \<open>p\<close>, the last node being \<open>l\<close> and its
  successor \<open>n\<close>.
\<close>

fun dseg :: "(addr \<rightharpoonup> 'v listNode) \<Rightarrow> addr option \<Rightarrow> addr option \<Rightarrow> (addr \<times> 'v) list \<Rightarrow>
             addr option \<Rightarrow> addr option \<Rightarrow> bool" where
  "dseg c p f [] l n \<longleftrightarrow> f = n \<and> l = p"
| "dseg c p f ((a, v) # xs) l n \<longleftrightarrow>
     f = Some a \<and> (\<exists>m. c a = Some \<lparr>ln_prev = p, ln_next = m, ln_value = v\<rparr> \<and> dseg c (Some a) m xs l n)"

definition lrep :: "'v lheap \<Rightarrow> 'v hilist \<Rightarrow> (addr \<times> 'v) list \<Rightarrow> bool" where
  "lrep h l xs \<longleftrightarrow>
     dseg (cells h) None (l_head l) xs (l_tail l) None \<and> distinct (map fst xs) \<and>
     l_len l = length xs \<and> (\<forall>a \<in> dom (cells h). a < brk h)"

lemma dseg_append:
  "dseg c p f (xs @ ys) l n \<longleftrightarrow> (\<exists>l' f'. dseg c p f xs l' f' \<and> dseg c l' f' ys l n)"
proof (induction xs arbitrary: p f)
  case Nil
  then show ?case by auto
next
  case (Cons x xs)
  then show ?case by (cases x) (simp, blast)
qed

lemma dseg_frame:
  "dseg c p f xs l n \<Longrightarrow> a \<notin> fst ` set xs \<Longrightarrow> dseg (c(a := x)) p f xs l n"
  by (induction xs arbitrary: p f) auto

lemma dseg_dom: "dseg c p f xs l n \<Longrightarrow> fst ` set xs \<subseteq> dom c"
proof (induction xs arbitrary: p f)
  case Nil
  then show ?case by simp
next
  case (Cons x xs)
  obtain a v where x: "x = (a, v)" by (cases x)
  with Cons.prems obtain m where "c a = Some \<lparr>ln_prev = p, ln_next = m, ln_value = v\<rparr>"
    and "dseg c (Some a) m xs l n" by auto
  with Cons.IH [of "Some a" m] x show ?case by auto
qed

lemma dseg_snoc:
  "dseg c p f (xs @ [(a, v)]) l n \<longleftrightarrow>
     l = Some a \<and> (\<exists>q. dseg c p f xs q (Some a) \<and> c a = Some \<lparr>ln_prev = q, ln_next = n, ln_value = v\<rparr>)"
  by (auto simp: dseg_append)

lemma lrep_fresh: "lrep h l xs \<Longrightarrow> brk h \<notin> fst ` set xs"
  by (auto simp: lrep_def dest!: dseg_dom)

lemma lrep_head_node:
  "lrep h l ((a, v) # xs) \<Longrightarrow> l_head l = Some a \<and> (\<exists>nd. cells h a = Some nd \<and> ln_value nd = v)"
  by (auto simp: lrep_def)

lemma heap_alloc_cases:
  obtains (fail) h1 where "heap_alloc h = (None, h1)" "cells h1 = cells h" "brk h1 = brk h" "freed h1 = freed h"
  | (ok) h1 where "heap_alloc h = (Some (brk h), h1)" "cells h1 = cells h" "brk h1 = Suc (brk h)" "freed h1 = freed h"
  by (cases "hi_alloc (script h)"; cases "fst (hi_alloc (script h))") (auto simp: heap_alloc_def)

lemmas heap_defs = put_node_def set_next_def set_prev_def free_node_def list_free_def

text \<open>Relinking the ends of a segment.\<close>

lemma dseg_relink_prev:
  assumes "dseg c p f xs l n" and "xs = (a, v) # ys" and "distinct (map fst xs)"
  shows "\<exists>nd. c a = Some nd \<and> dseg (c(a \<mapsto> nd\<lparr>ln_prev := q\<rparr>)) q f xs l n"
  using assms by (auto intro: dseg_frame)

lemma dseg_relink_next:
  assumes "dseg c p f (ys @ [(a, v)]) l n" and "distinct (map fst (ys @ [(a, v)]))"
  shows "\<exists>nd. c a = Some nd \<and> dseg (c(a \<mapsto> nd\<lparr>ln_next := q\<rparr>)) p f (ys @ [(a, v)]) l q"
  using assms by (auto simp: dseg_snoc intro: dseg_frame)

lemma lrep_singleton:
  assumes "lrep h l []" and "cells h1 = cells h" and "brk h1 = Suc (brk h)"
  shows "lrep (put_node h1 (brk h) \<lparr>ln_prev = None, ln_next = None, ln_value = v\<rparr>)
           (l\<lparr>l_head := Some (brk h), l_tail := Some (brk h), l_len := l_len l + 1\<rparr>) [(brk h, v)]"
  using assms by (auto simp: lrep_def put_node_def less_Suc_eq)

lemma listAddNodeHead_lrep:
  assumes "lrep h l xs"
  shows "\<exists>ok h' l'. listAddNodeHead h l v = Some (ok, h', l') \<and>
           (if ok then lrep h' l' ((brk h, v) # xs) else l' = l \<and> lrep h' l xs) \<and>
           freed h' = freed h \<and> l_free l' = l_free l"
proof (cases h rule: heap_alloc_cases)
  case (fail h1)
  with assms show ?thesis by (auto simp: listAddNodeHead_def lrep_def)
next
  case (ok h1)
  let ?nd = "\<lparr>ln_prev = None, ln_next = l_head l, ln_value = v\<rparr>"
  let ?c = "(cells h)(brk h \<mapsto> ?nd)"
  have fresh: "brk h \<notin> fst ` set xs" using assms by (rule lrep_fresh)
  show ?thesis
  proof (cases xs)
    case Nil
    then have "lrep h l []" using assms by simp
    note one = lrep_singleton [OF this ok(2,3), of v]
    have "l_len l = 0" using Nil assms by (simp add: lrep_def)
    then have "listAddNodeHead h l v = Some (True, put_node h1 (brk h) \<lparr>ln_prev = None, ln_next = None, ln_value = v\<rparr>,
        l\<lparr>l_head := Some (brk h), l_tail := Some (brk h), l_len := l_len l + 1\<rparr>)"
      using ok(1) by (simp add: listAddNodeHead_def)
    with one Nil ok(4) show ?thesis by (auto simp: put_node_def)
  next
    case (Cons x ys)
    obtain a w where x: "x = (a, w)" by (cases x)
    have seg: "dseg ?c None (l_head l) xs (l_tail l) None"
      using assms fresh by (auto simp: lrep_def intro: dseg_frame)
    have dist: "distinct (map fst xs)" using assms by (simp add: lrep_def)
    have xs: "xs = (a, w) # ys" using Cons x by simp
    obtain nd where nd: "?c a = Some nd"
      "dseg (?c(a \<mapsto> nd\<lparr>ln_prev := Some (brk h)\<rparr>)) (Some (brk h)) (l_head l) xs (l_tail l) None"
      using dseg_relink_prev [OF seg xs dist, of "Some (brk h)"] by blast
    have ab: "a \<noteq> brk h" using fresh Cons x by auto
    from assms Cons x have hd: "l_head l = Some a" and len: "l_len l = Suc (length ys)"
      by (auto simp: lrep_def)
    let ?c' = "?c(a \<mapsto> nd\<lparr>ln_prev := Some (brk h)\<rparr>)"
    let ?l' = "l\<lparr>l_head := Some (brk h), l_len := l_len l + 1\<rparr>"
    have res: "listAddNodeHead h l v = Some (True, h1\<lparr>cells := ?c'\<rparr>, ?l')"
      using ok nd ab hd len by (simp add: listAddNodeHead_def heap_defs)
    have "?c' (brk h) = Some ?nd" using ab by simp
    moreover have "\<forall>b \<in> dom ?c'. b < Suc (brk h)"
      using assms nd(1) ab by (auto simp: lrep_def less_Suc_eq)
    ultimately have "lrep (h1\<lparr>cells := ?c'\<rparr>) ?l' ((brk h, v) # xs)"
      using assms nd(2) ok fresh by (simp add: lrep_def)
    with res ok(4) show ?thesis by auto
  qed
qed

lemma listAddNodeTail_lrep:
  assumes "lrep h l xs"
  shows "\<exists>ok h' l'. listAddNodeTail h l v = Some (ok, h', l') \<and>
           (if ok then lrep h' l' (xs @ [(brk h, v)]) else l' = l \<and> lrep h' l xs) \<and>
           freed h' = freed h \<and> l_free l' = l_free l"
proof (cases h rule: heap_alloc_cases)
  case (fail h1)
  with assms show ?thesis by (auto simp: listAddNodeTail_def lrep_def)
next
  case (ok h1)
  let ?nd = "\<lparr>ln_prev = l_tail l, ln_next = None, ln_value = v\<rparr>"
  let ?c = "(cells h)(brk h \<mapsto> ?nd)"
  have fresh: "brk h \<notin> fst ` set xs" using assms by (rule lrep_fresh)
  show ?thesis
  proof (cases xs rule: rev_cases)
    case Nil
    then have "lrep h l []" using assms by simp
    note one = lrep_singleton [OF this ok(2,3), of v]
    have "l_len l = 0" using Nil assms by (simp add: lrep_def)
    then have "listAddNodeTail h l v = Some (True, put_node h1 (brk h) \<lparr>ln_prev = None, ln_next = None, ln_value = v\<rparr>,
        l\<lparr>l_head := Some (brk h), l_tail := Some (brk h), l_len := l_len l + 1\<rparr>)"
      using ok(1) by (simp add: listAddNodeTail_def)
    with one Nil ok(4) show ?thesis by (auto simp: put_node_def)
  next
    case (snoc ys x)
    obtain a w where x: "x = (a, w)" by (cases x)
    have seg: "dseg ?c None (l_head l) (ys @ [(a, w)]) (l_tail l) None"
      using assms dseg_frame [OF _ fresh] snoc x by (simp add: lrep_def)
    have dist: "distinct (map fst (ys @ [(a, w)]))" using assms snoc x by (simp add: lrep_def)
    obtain nd where nd: "?c a = Some nd"
      "dseg (?c(a \<mapsto> nd\<lparr>ln_next := Some (brk h)\<rparr>)) None (l_head l) xs (l_tail l) (Some (brk h))"
      using dseg_relink_next [OF seg dist] snoc x by blast
    have ab: "a \<noteq> brk h" using fresh snoc x by auto
    from assms snoc x have tl: "l_tail l = Some a" and len: "l_len l = Suc (length ys)"
      by (auto simp: lrep_def dseg_snoc)
    let ?c' = "?c(a \<mapsto> nd\<lparr>ln_next := Some (brk h)\<rparr>)"
    let ?l' = "l\<lparr>l_tail := Some (brk h), l_len := l_len l + 1\<rparr>"
    have res: "listAddNodeTail h l v = Some (True, h1\<lparr>cells := ?c'\<rparr>, ?l')"
      using ok nd ab tl len by (simp add: listAddNodeTail_def heap_defs)
    have "?c' (brk h) = Some ?nd" using ab by simp
    moreover have "\<forall>b \<in> dom ?c'. b < Suc (brk h)"
      using assms nd(1) ab by (auto simp: lrep_def less_Suc_eq)
    ultimately have "lrep (h1\<lparr>cells := ?c'\<rparr>) ?l' (xs @ [(brk h, v)])"
      using assms nd(2) ok fresh by (simp add: lrep_def dseg_snoc)
    with res ok(4) show ?thesis by auto
  qed
qed

lemma dseg_last_cases:
  assumes "dseg c None f ys q n" and "distinct (map fst ys)"
  obtains (empty) "ys = []" "q = None" "f = n"
  | (snoc) b nd where "q = Some b" "c b = Some nd" "b \<in> fst ` set ys"
      "\<And>n'. dseg (c(b \<mapsto> nd\<lparr>ln_next := n'\<rparr>)) None f ys q n'"
proof (cases ys rule: rev_cases)
  case Nil
  with assms empty show ?thesis by simp
next
  case (snoc zs x)
  obtain b w where x: "x = (b, w)" by (cases x)
  from assms snoc x obtain r where q: "q = Some b" "dseg c None f zs r (Some b)"
    and cb: "c b = Some \<lparr>ln_prev = r, ln_next = n, ln_value = w\<rparr>"
    by (auto simp: dseg_snoc)
  have "b \<notin> fst ` set zs" using assms(2) snoc x by auto
  with q snoc x have "dseg (c(b \<mapsto> \<lparr>ln_prev = r, ln_next = n', ln_value = w\<rparr>)) None f ys q n'" for n'
    by (simp add: dseg_snoc dseg_frame)
  with q cb snoc x that(2) show ?thesis by simp
qed

lemma dseg_first_cases:
  assumes "dseg c p m zs l None" and "distinct (map fst zs)"
  obtains (empty) "zs = []" "m = None" "l = p"
  | (cons) b nd where "m = Some b" "c b = Some nd" "b \<in> fst ` set zs"
      "\<And>p'. dseg (c(b \<mapsto> nd\<lparr>ln_prev := p'\<rparr>)) p' m zs l None"
proof (cases zs)
  case Nil
  with assms empty show ?thesis by simp
next
  case (Cons x ys)
  obtain b w where x: "x = (b, w)" by (cases x)
  from assms Cons x obtain r where m: "m = Some b" "dseg c (Some b) r ys l None"
    and cb: "c b = Some \<lparr>ln_prev = p, ln_next = r, ln_value = w\<rparr>" by auto
  have "b \<notin> fst ` set ys" using assms(2) Cons x by auto
  with m Cons x have "dseg (c(b \<mapsto> \<lparr>ln_prev = p', ln_next = r, ln_value = w\<rparr>)) p' m zs l None" for p'
    by (simp add: dseg_frame)
  with m cb Cons x that(2) show ?thesis by simp
qed

lemma lrep_split:
  assumes "lrep h l (ys @ (a, v) # zs)"
  obtains q m where "dseg (cells h) None (l_head l) ys q (Some a)"
    and "cells h a = Some \<lparr>ln_prev = q, ln_next = m, ln_value = v\<rparr>"
    and "dseg (cells h) (Some a) m zs (l_tail l) None"
    and "distinct (map fst ys)" "distinct (map fst zs)" "a \<notin> fst ` set ys" "a \<notin> fst ` set zs"
    and "fst ` set ys \<inter> fst ` set zs = {}"
  using assms by (auto simp: lrep_def dseg_append)

lemma listDelNode_lrep:
  assumes "lrep h l (ys @ (a, v) # zs)"
  shows "\<exists>h' l'. listDelNode h l a = Some (h', l') \<and> lrep h' l' (ys @ zs) \<and> cells h' a = None \<and>
           freed h' = freed h @ (if l_free l then [v] else []) \<and> l_free l' = l_free l"
proof -
  from assms obtain q m where ys: "dseg (cells h) None (l_head l) ys q (Some a)"
    and ca: "cells h a = Some \<lparr>ln_prev = q, ln_next = m, ln_value = v\<rparr>"
    and zs: "dseg (cells h) (Some a) m zs (l_tail l) None"
    and dys: "distinct (map fst ys)" and dzs: "distinct (map fst zs)"
    and ay: "a \<notin> fst ` set ys" and az: "a \<notin> fst ` set zs" and yz: "fst ` set ys \<inter> fst ` set zs = {}"
    by (rule lrep_split)
  from assms have len: "l_len l = Suc (length (ys @ zs))" and dom: "\<forall>x \<in> dom (cells h). x < brk h"
    by (auto simp: lrep_def)
  \<comment> \<open>unlinking from the predecessor\<close>
  obtain c1 f1 where step1: "(case q of Some p \<Rightarrow> do { h' \<leftarrow> set_next h p m; Some (h', l) }
        | None \<Rightarrow> Some (h, l\<lparr>l_head := m\<rparr>)) = Some (h\<lparr>cells := c1\<rparr>, l\<lparr>l_head := f1\<rparr>)"
    and ys1: "dseg c1 None f1 ys q m" and zs1: "dseg c1 (Some a) m zs (l_tail l) None"
    and dom1: "dom c1 = dom (cells h)"
    using ys dys
  proof (cases rule: dseg_last_cases)
    case empty
    then show ?thesis using that [of "cells h" m] zs by simp
  next
    case (snoc b nd)
    then have "b \<notin> fst ` set zs" using yz by auto
    then show ?thesis using that [of "(cells h)(b \<mapsto> nd\<lparr>ln_next := m\<rparr>)" "l_head l"] snoc zs
      by (simp add: set_next_def put_node_def dseg_frame insert_absorb domI)
  qed
  \<comment> \<open>unlinking from the successor\<close>
  let ?h1 = "h\<lparr>cells := c1\<rparr>" and ?l1 = "l\<lparr>l_head := f1\<rparr>"
  obtain c2 t2 where step2: "(case m of Some n \<Rightarrow> do { h' \<leftarrow> set_prev ?h1 n q; Some (h', ?l1) }
        | None \<Rightarrow> Some (?h1, ?l1\<lparr>l_tail := q\<rparr>)) = Some (h\<lparr>cells := c2\<rparr>, ?l1\<lparr>l_tail := t2\<rparr>)"
    and ys2: "dseg c2 None f1 ys q m" and zs2: "dseg c2 q m zs t2 None" and dom2: "dom c2 = dom (cells h)"
    using zs1 dzs
  proof (cases rule: dseg_first_cases)
    case empty
    then show ?thesis using that [of c1 q] ys1 dom1 by simp
  next
    case (cons b nd)
    then have "b \<notin> fst ` set ys" using yz by auto
    moreover have "b \<in> dom (cells h)" using cons(2) dom1 by blast
    ultimately show ?thesis using that [of "c1(b \<mapsto> nd\<lparr>ln_prev := q\<rparr>)" "l_tail l"] cons ys1 dom1
      by (simp add: set_prev_def put_node_def dseg_frame insert_absorb)
  qed
  let ?h' = "free_node (list_free (l_free l) v (h\<lparr>cells := c2\<rparr>)) a"
  let ?l' = "?l1\<lparr>l_tail := t2, l_len := l_len l - 1\<rparr>"
  have res: "listDelNode h l a = Some (?h', ?l')"
    using step1 step2 ca by (simp add: listDelNode_def cong: option.case_cong)
  have "dseg (c2(a := None)) None f1 (ys @ zs) t2 None"
    using dseg_frame [OF ys2 ay] dseg_frame [OF zs2 az] unfolding dseg_append by blast
  then have "lrep ?h' ?l' (ys @ zs)"
    using len dom dom2 dys dzs yz by (auto simp: lrep_def free_node_def list_free_def)
  with res show ?thesis by (auto simp: free_node_def list_free_def)
qed

text \<open>Releasing a list frees every node once and hands the values to \<open>free\<close> in order.\<close>

lemma release_nodes_dseg:
  assumes "dseg (cells h) p f xs t n" and "distinct (map fst xs)"
  shows "\<exists>h'. release_nodes (length xs) has h f = Some h' \<and>
           cells h' = cells h |` (- fst ` set xs) \<and>
           freed h' = freed h @ (if has then map snd xs else []) \<and> brk h' = brk h"
  using assms
proof (induction xs arbitrary: h p f)
  case Nil
  then show ?case by simp
next
  case (Cons x xs)
  obtain a v where x: "x = (a, v)" by (cases x)
  with Cons.prems obtain m where f: "f = Some a"
    and ca: "cells h a = Some \<lparr>ln_prev = p, ln_next = m, ln_value = v\<rparr>"
    and rest: "dseg (cells h) (Some a) m xs t n" by auto
  let ?h = "free_node (list_free has v h) a"
  have "dseg (cells ?h) (Some a) m xs t n"
    using rest Cons.prems(2) x by (auto simp: free_node_def list_free_def intro: dseg_frame)
  then obtain h' where "release_nodes (length xs) has ?h m = Some h'"
    "cells h' = cells ?h |` (- fst ` set xs)"
    "freed h' = freed ?h @ (if has then map snd xs else [])" "brk h' = brk ?h"
    using Cons.IH [of ?h "Some a" m] Cons.prems(2) x by auto
  then show ?case
    using f ca x by (auto simp: free_node_def list_free_def restrict_map_def fun_eq_iff)
qed

lemma listRelease_lrep:
  assumes "lrep h l xs"
  shows "\<exists>h'. listRelease h l = Some h' \<and> cells h' = cells h |` (- fst ` set xs) \<and>
           freed h' = freed h @ (if l_free l then map snd xs else [])"
proof -
  from assms have "dseg (cells h) None (l_head l) xs (l_tail l) None" "distinct (map fst xs)"
    "l_len l = length xs" by (auto simp: lrep_def)
  with release_nodes_dseg [of h None "l_head l" xs "l_tail l" None "l_free l"] show ?thesis
    unfolding listRelease_def by auto
qed

text \<open>Iterating forwards from a node of the list visits the rest of the list.\<close>

lemma listNext_dseg:
  assumes "dseg (cells h) p f xs t None"
  shows "listNext h \<lparr>it_next = f, it_direction = AL_START_HEAD\<rparr> =
           (case xs of [] \<Rightarrow> Some (None, \<lparr>it_next = None, it_direction = AL_START_HEAD\<rparr>)
            | (a, v) # ys \<Rightarrow> Some (Some a, \<lparr>it_next = (case ys of [] \<Rightarrow> None | y # _ \<Rightarrow> Some (fst y)),
                                           it_direction = AL_START_HEAD\<rparr>))"
  using assms by (cases xs; cases "tl xs") (auto simp: listNext_def)

lemma dseg_first: "dseg c p f xs t None \<Longrightarrow> f = (case xs of [] \<Rightarrow> None | y # _ \<Rightarrow> Some (fst y))"
  by (cases xs) auto

lemma listSearchKey_loop_dseg:
  assumes "dseg (cells h) p f xs t None"
  shows "listSearchKey_loop h l key \<lparr>it_next = f, it_direction = AL_START_HEAD\<rparr> =
           Some (map_option fst (find (\<lambda>(a, v). key_matches l key v) xs))"
  using assms
proof (induction xs arbitrary: p f)
  case Nil
  then show ?case by (subst listSearchKey_loop.simps) (simp add: listNext_def)
next
  case (Cons x xs)
  obtain a v where x: "x = (a, v)" by (cases x)
  with Cons.prems obtain m where f: "f = Some a"
    and ca: "cells h a = Some \<lparr>ln_prev = p, ln_next = m, ln_value = v\<rparr>"
    and rest: "dseg (cells h) (Some a) m xs t None" by auto
  show ?case
    using Cons.IH [OF rest] f ca x
    by (subst listSearchKey_loop.simps) (simp add: listNext_def)
qed

lemma listSearchKey_lrep:
  assumes "lrep h l xs"
  shows "listSearchKey h l key =
           Some (map_option fst (find (\<lambda>(a, v). key_matches l key v) xs))"
  using assms listSearchKey_loop_dseg [of h None "l_head l" xs "l_tail l" l key]
  by (simp add: listSearchKey_def listRewind_def lrep_def)

lemma walk_next_dseg:
  assumes "dseg (cells h) p f xs t None"
  shows "walk ln_next h i f = Some (if i < length xs then Some (fst (xs ! i)) else None)"
  using assms
proof (induction i arbitrary: p f xs)
  case 0
  then show ?case by (cases xs) auto
next
  case (Suc i)
  show ?case
  proof (cases xs)
    case Nil
    with Suc.prems show ?thesis by simp
  next
    case (Cons x ys)
    obtain a v where x: "x = (a, v)" by (cases x)
    from Suc.prems Cons x obtain m where "f = Some a"
      "cells h a = Some \<lparr>ln_prev = p, ln_next = m, ln_value = v\<rparr>"
      and rest: "dseg (cells h) (Some a) m ys t None" by auto
    with Suc.IH [OF rest] Cons show ?thesis by simp
  qed
qed

lemma walk_prev_dseg:
  assumes "dseg (cells h) None f xs t n"
  shows "walk ln_prev h i t = Some (if i < length xs then Some (fst (rev xs ! i)) else None)"
  using assms
proof (induction i arbitrary: t n xs)
  case 0
  then show ?case by (cases xs rule: rev_cases) (auto simp: dseg_append)
next
  case (Suc i)
  show ?case
  proof (cases xs rule: rev_cases)
    case Nil
    with Suc.prems show ?thesis by simp
  next
    case (snoc ys x)
    obtain a v where x: "x = (a, v)" by (cases x)
    from Suc.prems snoc x obtain q where "t = Some a"
      "cells h a = Some \<lparr>ln_prev = q, ln_next = n, ln_value = v\<rparr>"
      and rest: "dseg (cells h) None f ys q (Some a)" by (auto simp: dseg_snoc)
    with Suc.IH [OF rest] snoc show ?thesis by simp
  qed
qed

lemma listIndex_lrep:
  assumes "lrep h l xs"
  shows "listIndex h l i =
           Some (if 0 \<le> i \<and> i < int (length xs) then Some (fst (xs ! nat i))
                 else if - int (length xs) \<le> i \<and> i < 0 then Some (fst (xs ! nat (int (length xs) + i)))
                 else None)"
proof -
  have seg: "dseg (cells h) None (l_head l) xs (l_tail l) None" using assms by (simp add: lrep_def)
  show ?thesis
  proof (cases "i < 0")
    case True
    then have "rev xs ! nat (- i - 1) = xs ! nat (int (length xs) + i)" if "- int (length xs) \<le> i"
      using that by (subst rev_nth) (auto intro: arg_cong [where f = "\<lambda>k. xs ! k"])
    with True walk_prev_dseg [OF seg, of "nat (- i - 1)"] show ?thesis
      by (auto simp: listIndex_def)
  next
    case False
    with walk_next_dseg [OF seg, of "nat i"] show ?thesis by (auto simp: listIndex_def)
  qed
qed

text \<open>A fresh node linked in between two adjoining segments.\<close>

lemma dseg_insert_between:
  assumes ys: "dseg c None f ys q m" and zs: "dseg c q m zs t None"
    and dist: "distinct (map fst (ys @ zs))" and n: "n \<notin> fst ` set (ys @ zs)"
  shows "\<exists>c'. (case q of None \<Rightarrow> Some (c(n \<mapsto> \<lparr>ln_prev = q, ln_next = m, ln_value = w\<rparr>))
               | Some p \<Rightarrow> do { nd \<leftarrow> (c(n \<mapsto> \<lparr>ln_prev = q, ln_next = m, ln_value = w\<rparr>)) p;
                               Some ((c(n \<mapsto> \<lparr>ln_prev = q, ln_next = m, ln_value = w\<rparr>))(p \<mapsto> nd\<lparr>ln_next := Some n\<rparr>)) })
             = Some c' \<and>
             (\<exists>c''. (case m of None \<Rightarrow> Some c'
                     | Some x \<Rightarrow> do { nd \<leftarrow> c' x; Some (c'(x \<mapsto> nd\<lparr>ln_prev := Some n\<rparr>)) }) = Some c'' \<and>
               dseg c'' None (if q = None then Some n else f) (ys @ (n, w) # zs)
                 (if m = None then Some n else t) None \<and>
               dom c'' = insert n (dom c))"
proof -
  let ?c = "c(n \<mapsto> \<lparr>ln_prev = q, ln_next = m, ln_value = w\<rparr>)"
  have dys: "distinct (map fst ys)" and dzs: "distinct (map fst zs)"
    and yz: "fst ` set ys \<inter> fst ` set zs = {}" and ny: "n \<notin> fst ` set ys" and nz: "n \<notin> fst ` set zs"
    using dist n by auto
  have ys0: "dseg ?c None f ys q m" and zs0: "dseg ?c q m zs t None"
    using ys zs ny nz by (auto intro: dseg_frame)
  obtain c' where s1: "(case q of None \<Rightarrow> Some ?c
        | Some p \<Rightarrow> do { nd \<leftarrow> ?c p; Some (?c(p \<mapsto> nd\<lparr>ln_next := Some n\<rparr>)) }) = Some c'"
    and ys1: "dseg c' None (if q = None then Some n else f) ys q (Some n)"
    and zs1: "dseg c' q m zs t None"
    and n1: "c' n = ?c n" and dom1: "dom c' = insert n (dom c)"
    using ys0 dys
  proof (cases rule: dseg_last_cases)
    case empty
    then show ?thesis using that [of ?c] zs0 by simp
  next
    case (snoc b nd)
    then have "b \<notin> fst ` set zs" "b \<noteq> n" using yz ny by auto
    then show ?thesis using that [of "?c(b \<mapsto> nd\<lparr>ln_next := Some n\<rparr>)"] snoc zs0
      by (simp add: dseg_frame insert_absorb insert_commute domI)
  qed
  obtain c'' where s2: "(case m of None \<Rightarrow> Some c'
        | Some x \<Rightarrow> do { nd \<leftarrow> c' x; Some (c'(x \<mapsto> nd\<lparr>ln_prev := Some n\<rparr>)) }) = Some c''"
    and ys2: "dseg c'' None (if q = None then Some n else f) ys q (Some n)"
    and zs2: "dseg c'' (Some n) m zs (if m = None then Some n else t) None"
    and n2: "c'' n = ?c n" and dom2: "dom c'' = insert n (dom c)"
    using zs1 dzs
  proof (cases rule: dseg_first_cases)
    case empty
    then show ?thesis using that [of c'] ys1 n1 dom1 by simp
  next
    case (cons b nd)
    then have "b \<notin> fst ` set ys" "b \<noteq> n" using yz nz by auto
    moreover have "b \<in> insert n (dom c)" using cons(2) dom1 by blast
    ultimately show ?thesis using that [of "c'(b \<mapsto> nd\<lparr>ln_prev := Some n\<rparr>)"] cons ys1 n1 dom1
      by (simp add: dseg_frame insert_absorb)
  qed
  have "dseg c'' None (if q = None then Some n else f) (ys @ (n, w) # zs) (if m = None then Some n else t) None"
    unfolding dseg_append using ys2 zs2 n2 by auto
  with s1 s2 dom2 show ?thesis by blast
qed

lemma listInsertNode_lrep:
  assumes "lrep h l (ys @ (a, v) # zs)"
  shows "\<exists>ok h' l'. listInsertNode h l a w after = Some (ok, h', l') \<and>
           (if ok then lrep h' l' (if after then ys @ (a, v) # (brk h, w) # zs
                                   else ys @ (brk h, w) # (a, v) # zs)
            else l' = l \<and> lrep h' l (ys @ (a, v) # zs))"
proof (cases h rule: heap_alloc_cases)
  case (fail h1)
  with assms show ?thesis by (auto simp: listInsertNode_def lrep_def)
next
  case (ok h1)
  from assms obtain q m where ys: "dseg (cells h) None (l_head l) ys q (Some a)"
    and ca: "cells h a = Some \<lparr>ln_prev = q, ln_next = m, ln_value = v\<rparr>"
    and zs: "dseg (cells h) (Some a) m zs (l_tail l) None" by (rule lrep_split)
  have fresh: "brk h \<notin> fst ` set (ys @ (a, v) # zs)" using assms by (rule lrep_fresh)
  have dist: "distinct (map fst (ys @ (a, v) # zs))" and len: "l_len l = length (ys @ (a, v) # zs)"
    and dom: "\<forall>x \<in> dom (cells h). x < brk h" using assms by (auto simp: lrep_def)
  show ?thesis
  proof (cases after)
    case True
    let ?h2 = "put_node h1 (brk h) \<lparr>ln_prev = Some a, ln_next = m, ln_value = w\<rparr>"
    have "dseg (cells h) None (l_head l) (ys @ [(a, v)]) (Some a) m" using ys ca by (simp add: dseg_snoc)
    from dseg_insert_between [OF this zs, of "brk h" w] fresh dist obtain c' c'' where
      c': "set_next ?h2 a (Some (brk h)) = Some (?h2\<lparr>cells := c'\<rparr>)"
      and c'': "(case m of None \<Rightarrow> Some (?h2\<lparr>cells := c'\<rparr>)
        | Some x \<Rightarrow> set_prev (?h2\<lparr>cells := c'\<rparr>) x (Some (brk h))) = Some (?h2\<lparr>cells := c''\<rparr>)"
      and seg: "dseg c'' None (l_head l) (ys @ (a, v) # (brk h, w) # zs) (if m = None then Some (brk h) else l_tail l) None"
      and dom'': "dom c'' = insert (brk h) (dom (cells h))"
      using ok(2) by (cases m) (auto simp: set_next_def set_prev_def put_node_def bind_eq_Some_conv split: if_splits)
    have tl: "(l_tail l = Some a) = (m = None)"
      using zs dist by (cases zs rule: rev_cases) (auto simp: dseg_append elim: dseg.elims)
    let ?l' = "(if m = None then l\<lparr>l_tail := Some (brk h)\<rparr> else l)\<lparr>l_len := l_len l + 1\<rparr>"
    have res: "listInsertNode h l a w True = Some (True, ?h2\<lparr>cells := c''\<rparr>, ?l')"
      using ok ca c' c'' tl by (simp add: listInsertNode_def cong: option.case_cong)
    have "lrep (?h2\<lparr>cells := c''\<rparr>) ?l' (ys @ (a, v) # (brk h, w) # zs)"
      using seg dom'' dom dist fresh len ok(3)
      by (auto simp: lrep_def put_node_def intro: less_SucI split: if_splits)
    with res True show ?thesis
      by (intro exI [of _ True] exI [of _ "?h2\<lparr>cells := c''\<rparr>"] exI [of _ ?l']) simp
  next
    case False
    let ?h2 = "put_node h1 (brk h) \<lparr>ln_prev = q, ln_next = Some a, ln_value = w\<rparr>"
    have "dseg (cells h) q (Some a) ((a, v) # zs) (l_tail l) None" using zs ca by simp
    from dseg_insert_between [OF ys this, of "brk h" w] fresh dist obtain c' c'' where
      c': "(case q of None \<Rightarrow> Some ?h2 | Some p \<Rightarrow> set_next ?h2 p (Some (brk h))) = Some (?h2\<lparr>cells := c'\<rparr>)"
      and c'': "set_prev (?h2\<lparr>cells := c'\<rparr>) a (Some (brk h)) = Some (?h2\<lparr>cells := c''\<rparr>)"
      and seg: "dseg c'' None (if q = None then Some (brk h) else l_head l) (ys @ (brk h, w) # (a, v) # zs) (l_tail l) None"
      and dom'': "dom c'' = insert (brk h) (dom (cells h))"
      using ok(2) by (cases q) (auto simp: set_next_def set_prev_def put_node_def bind_eq_Some_conv split: if_splits)
    have hd: "(l_head l = Some a) = (q = None)"
    proof (cases "ys = []")
      case True
      with ys show ?thesis by simp
    next
      case False
      have "q \<noteq> None" using ys False by (cases ys rule: rev_cases) (auto simp: dseg_append)
      moreover have "l_head l \<noteq> Some a" using ys dist False by (cases ys) auto
      ultimately show ?thesis by simp
    qed
    let ?l' = "(if q = None then l\<lparr>l_head := Some (brk h)\<rparr> else l)\<lparr>l_len := l_len l + 1\<rparr>"
    have res: "listInsertNode h l a w False = Some (True, ?h2\<lparr>cells := c''\<rparr>, ?l')"
      using ok ca c' c'' hd by (simp add: listInsertNode_def cong: option.case_cong)
    have "lrep (?h2\<lparr>cells := c''\<rparr>) ?l' (ys @ (brk h, w) # (a, v) # zs)"
      using seg dom'' dom dist fresh len ok(3)
      by (auto simp: lrep_def put_node_def intro: less_SucI split: if_splits)
    with res False show ?thesis
      by (intro exI [of _ True] exI [of _ "?h2\<lparr>cells := c''\<rparr>"] exI [of _ ?l']) simp
  qed
qed

lemma listRotate_lrep:
  assumes "lrep h l (ys @ [(a, v)])"
  shows "\<exists>h' l'. listRotate h l = Some (h', l') \<and> lrep h' l' ((a, v) # ys)"
proof (cases ys)
  case Nil
  with assms show ?thesis by (simp add: listRotate_def lrep_def)
next
  case (Cons y ys')
  let ?c = "cells h"
  from assms obtain q where ys: "dseg ?c None (l_head l) ys q (Some a)"
    and ca: "?c a = Some \<lparr>ln_prev = q, ln_next = None, ln_value = v\<rparr>"
    and tl: "l_tail l = Some a"
    and dys: "distinct (map fst ys)" and ay: "a \<notin> fst ` set ys" and len: "l_len l = Suc (length ys)"
    and dom: "\<forall>x \<in> dom ?c. x < brk h"
    by (auto simp: lrep_def dseg_snoc)
  from ys dys obtain p nd where q: "q = Some p" and p: "?c p = Some nd" "p \<in> fst ` set ys"
    and ys1: "dseg (?c(p \<mapsto> nd\<lparr>ln_next := None\<rparr>)) None (l_head l) ys q None"
    using Cons by (elim dseg_last_cases) auto
  let ?c1 = "?c(p \<mapsto> nd\<lparr>ln_next := None\<rparr>)"
  from ys1 dys obtain b nb where hd: "l_head l = Some b" and b: "?c1 b = Some nb" "b \<in> fst ` set ys"
    and ys2: "dseg (?c1(b \<mapsto> nb\<lparr>ln_prev := Some a\<rparr>)) (Some a) (l_head l) ys q None"
    using Cons by (elim dseg_first_cases) auto
  let ?c2 = "?c1(b \<mapsto> nb\<lparr>ln_prev := Some a\<rparr>)"
  let ?c4 = "?c2(a \<mapsto> \<lparr>ln_prev = None, ln_next = Some b, ln_value = v\<rparr>)"
  let ?l = "l\<lparr>l_tail := Some p, l_head := Some a\<rparr>"
  have ne: "a \<noteq> p" "a \<noteq> b" using ay p b by auto
  have "listRotate h l = Some (h\<lparr>cells := ?c4\<rparr>, ?l)"
    using len tl ca q p hd b ne Cons by (simp add: listRotate_def set_next_def set_prev_def put_node_def)
  moreover have "dseg ?c4 (Some a) (Some b) ys (Some p) None"
    using dseg_frame [OF ys2 ay] hd q by simp
  then have "lrep (h\<lparr>cells := ?c4\<rparr>) ?l ((a, v) # ys)"
    using len dys ay dom p(1) b(1) ca by (auto simp: lrep_def split: if_splits)
  ultimately show ?thesis by blast
qed

section \<open>The interface of the list\<close>

text \<open>
  What a client of the list relies on: a relation \<open>rep\<close> between a list header and the
  represented list, and the laws of the operations. \<open>drain\<close> is how \<open>cc->requests\<close> is used:
  commands are added at the tail and taken from the head.
\<close>

locale linked_list =
  fixes rep :: "'h \<Rightarrow> 'l \<Rightarrow> ('p \<times> 'v) list \<Rightarrow> bool"
    and add_head :: "'h \<Rightarrow> 'l \<Rightarrow> 'v \<Rightarrow> (bool \<times> 'h \<times> 'l) option"
    and add_tail :: "'h \<Rightarrow> 'l \<Rightarrow> 'v \<Rightarrow> (bool \<times> 'h \<times> 'l) option"
    and del :: "'h \<Rightarrow> 'l \<Rightarrow> 'p \<Rightarrow> ('h \<times> 'l) option"
    and first :: "'l \<Rightarrow> 'p option"
    and val :: "'h \<Rightarrow> 'p \<Rightarrow> 'v option"
  assumes add_head_rep: "rep h l xs \<Longrightarrow>
      \<exists>ok h' l' p. add_head h l v = Some (ok, h', l') \<and> rep h' l' (if ok then (p, v) # xs else xs)"
    and add_tail_rep: "rep h l xs \<Longrightarrow>
      \<exists>ok h' l' p. add_tail h l v = Some (ok, h', l') \<and> rep h' l' (if ok then xs @ [(p, v)] else xs)"
    and del_rep: "rep h l (ys @ (p, v) # zs) \<Longrightarrow>
      \<exists>h' l'. del h l p = Some (h', l') \<and> rep h' l' (ys @ zs)"
    and first_rep: "rep h l xs \<Longrightarrow> first l = (case xs of [] \<Rightarrow> None | x # _ \<Rightarrow> Some (fst x))"
    and val_rep: "rep h l xs \<Longrightarrow> (p, v) \<in> set xs \<Longrightarrow> val h p = Some v"
begin

fun enqueue :: "'h \<Rightarrow> 'l \<Rightarrow> 'v list \<Rightarrow> (bool list \<times> 'h \<times> 'l) option" where
  "enqueue h l [] = Some ([], h, l)"
| "enqueue h l (v # vs) =
     (case add_tail h l v of None \<Rightarrow> None
      | Some (ok, h', l') \<Rightarrow> map_option (\<lambda>(oks, r). (ok # oks, r)) (enqueue h' l' vs))"

fun drain :: "nat \<Rightarrow> 'h \<Rightarrow> 'l \<Rightarrow> ('v list \<times> 'h \<times> 'l) option" where
  "drain 0 h l = Some ([], h, l)"
| "drain (Suc n) h l =
     (case first l of None \<Rightarrow> Some ([], h, l)
      | Some p \<Rightarrow> (case val h p of None \<Rightarrow> None
          | Some v \<Rightarrow> (case del h l p of None \<Rightarrow> None
              | Some (h', l') \<Rightarrow> map_option (\<lambda>(vs, r). (v # vs, r)) (drain n h' l'))))"

lemma enqueue_rep:
  assumes "rep h l xs"
  shows "\<exists>oks h' l' ys. enqueue h l vs = Some (oks, h', l') \<and> length oks = length vs \<and>
           rep h' l' (xs @ ys) \<and> map snd ys = map snd (filter fst (zip oks vs))"
  using assms
proof (induction vs arbitrary: h l xs)
  case Nil
  then show ?case by auto
next
  case (Cons v vs)
  obtain ok h1 l1 p where 1: "add_tail h l v = Some (ok, h1, l1)" "rep h1 l1 (if ok then xs @ [(p, v)] else xs)"
    using add_tail_rep [OF Cons.prems] by blast
  obtain oks h2 l2 ys where 2: "enqueue h1 l1 vs = Some (oks, h2, l2)" "length oks = length vs"
    "rep h2 l2 ((if ok then xs @ [(p, v)] else xs) @ ys)" "map snd ys = map snd (filter fst (zip oks vs))"
    using Cons.IH [OF 1(2)] by blast
  show ?case
  proof (cases ok)
    case True
    with 1 2 show ?thesis by (intro exI [of _ "ok # oks"] exI [of _ h2] exI [of _ l2] exI [of _ "(p, v) # ys"]) auto
  next
    case False
    with 1 2 show ?thesis by (intro exI [of _ "ok # oks"] exI [of _ h2] exI [of _ l2] exI [of _ ys]) auto
  qed
qed

lemma drain_rep:
  assumes "rep h l xs"
  shows "\<exists>h' l'. drain n h l = Some (map snd (take n xs), h', l') \<and> rep h' l' (drop n xs)"
  using assms
proof (induction n arbitrary: h l xs)
  case 0
  then show ?case by auto
next
  case (Suc n)
  show ?case
  proof (cases xs)
    case Nil
    with Suc.prems first_rep [OF Suc.prems] show ?thesis by simp
  next
    case (Cons x ys)
    obtain p v where x: "x = (p, v)" by (cases x)
    have "rep h l ([] @ (p, v) # ys)" using Suc.prems Cons x by simp
    from del_rep [OF this] obtain h1 l1 where "del h l p = Some (h1, l1)" "rep h1 l1 ys" by auto
    moreover have "first l = Some p" "val h p = Some v"
      using first_rep [OF Suc.prems] val_rep [OF Suc.prems] Cons x by auto
    ultimately show ?thesis using Suc.IH [of h1 l1 ys] Cons x by auto
  qed
qed

lemma fifo:
  assumes "rep h l []"
  shows "\<exists>oks h1 l1 h2 l2. enqueue h l vs = Some (oks, h1, l1) \<and> length oks = length vs \<and>
           drain (length vs) h1 l1 = Some (map snd (filter fst (zip oks vs)), h2, l2) \<and> rep h2 l2 []"
proof -
  obtain oks h1 l1 ys where e: "enqueue h l vs = Some (oks, h1, l1)" "length oks = length vs"
    "rep h1 l1 ys" "map snd ys = map snd (filter fst (zip oks vs))"
    using enqueue_rep [OF assms, of vs] by auto
  have "length ys \<le> length vs"
    using arg_cong [OF e(4), of length] length_filter_le [of fst "zip oks vs"] by simp
  with drain_rep [OF e(3), of "length vs"] e show ?thesis by auto
qed

end

lemma lrep_val: "lrep h l xs \<Longrightarrow> (a, v) \<in> set xs \<Longrightarrow> map_option ln_value (cells h a) = Some v"
  by (auto simp: lrep_def in_set_conv_decomp dseg_append)

interpretation adlist: linked_list lrep listAddNodeHead listAddNodeTail listDelNode l_head
  "\<lambda>h a. map_option ln_value (cells h a)"
proof (unfold_locales, goal_cases)
  case (1 h l xs v)
  from listAddNodeHead_lrep [OF 1, of v] show ?case by (auto split: if_splits)
next
  case (2 h l xs v)
  from listAddNodeTail_lrep [OF 2, of v] show ?case by (auto split: if_splits)
next
  case (3 h l ys p v zs)
  from listDelNode_lrep [OF 3] show ?case by blast
next
  case (4 h l xs)
  then show ?case unfolding lrep_def by (metis dseg_first)
next
  case (5 h l xs p v)
  then show ?case by (rule lrep_val)
qed

section \<open>Properties\<close>

definition demo_heap :: "nat lheap" where
  "demo_heap = \<lparr>cells = [1 \<mapsto> \<lparr>ln_prev = None, ln_next = Some 2, ln_value = 7\<rparr>, 2 \<mapsto> \<lparr>ln_prev = Some 1, ln_next = None, ln_value = 8\<rparr>],
     brk = 3, script = [], freed = []\<rparr>"

definition demo_list :: "nat hilist" where
  "demo_list = \<lparr>l_head = Some 1, l_tail = Some 2, l_dup = None, l_free = True, l_match = None, l_len = 2\<rparr>"

lemma demo_brk: "brk demo_heap = 3"
  by (simp add: demo_heap_def)

lemma demo_lrep: "lrep demo_heap demo_list [(1, 7), (2, 8)]"
  by (simp add: lrep_def demo_heap_def demo_list_def)



text \<open>
  Inserting before or after a node places the new value there and nowhere else, and a failing
  allocation leaves the list as it was; rotating moves the last node to the front.
\<close>

theorem listInsertNode_and_listRotate:
  assumes "lrep h l (ys @ (a, v) # zs)" "lrep h2 l2 (xs @ [(b, w)])"
  shows "(\<exists>ok h' l'. listInsertNode h l a new after = Some (ok, h', l') \<and>
           (if ok then lrep h' l' (if after then ys @ (a, v) # (brk h, new) # zs else ys @ (brk h, new) # (a, v) # zs)
            else l' = l \<and> lrep h' l (ys @ (a, v) # zs))) \<and>
         (\<exists>h' l'. listRotate h2 l2 = Some (h', l') \<and> lrep h' l' ((b, w) # xs))"
  using listInsertNode_lrep [OF assms(1), of new after] listRotate_lrep [OF assms(2)] by blast

theorem listInsertNode_and_listRotate_witness:
  "(\<exists>ok h' l'. listInsertNode demo_heap demo_list 1 9 True = Some (ok, h', l') \<and>
      (if ok then lrep h' l' [(1, 7), (3, 9), (2, 8)] else l' = demo_list \<and> lrep h' demo_list [(1, 7), (2, 8)])) \<and>
   (\<exists>h' l'. listRotate demo_heap demo_list = Some (h', l') \<and> lrep h' l' [(2, 8), (1, 7)])"
  using listInsertNode_and_listRotate [of demo_heap demo_list "[]" 1 7 "[(2, 8)]" demo_heap demo_list "[(1, 7)]" 2 8 9 True] demo_lrep
  unfolding demo_brk by (simp only: append_Nil append_Cons if_True simp_thms)

text \<open>
  Releasing a list frees each of its nodes and hands each value to the \<open>free\<close> method once, in the
  order of the list; looking up by index counts from either end, and searching returns the first
  node whose value matches.
\<close>

theorem listRelease_listIndex_listSearchKey:
  assumes "lrep h l xs"
  shows "(\<exists>h'. listRelease h l = Some h' \<and> cells h' = cells h |` (- fst ` set xs) \<and>
           freed h' = freed h @ (if l_free l then map snd xs else [])) \<and>
         listIndex h l i =
           Some (if 0 \<le> i \<and> i < int (length xs) then Some (fst (xs ! nat i))
                 else if - int (length xs) \<le> i \<and> i < 0 then Some (fst (xs ! nat (int (length xs) + i))) else None) \<and>
         listSearchKey h l key = Some (map_option fst (find (\<lambda>(a, v). key_matches l key v) xs))"
  using listRelease_lrep [OF assms] listIndex_lrep [OF assms, of i] listSearchKey_lrep [OF assms, of key] by blast

theorem listRelease_listIndex_listSearchKey_witness:
  "(\<exists>h'. listRelease demo_heap demo_list = Some h' \<and> freed h' = [7, 8]) \<and> listIndex demo_heap demo_list (-1) = Some (Some 2)"
  using listRelease_listIndex_listSearchKey [OF demo_lrep, of "-1" 7] by (auto simp: demo_heap_def demo_list_def)

text \<open>
  Used as the queue of outstanding requests, the list is first in, first out: what has been added at
  the tail is taken from the head in the same order, and nothing is left; an addition that runs out
  of memory adds nothing and disturbs nothing.
\<close>

theorem hilist_is_fifo:
  assumes "lrep h l []"
  shows "\<exists>oks h1 l1 h2 l2. adlist.enqueue h l vs = Some (oks, h1, l1) \<and> length oks = length vs \<and>
           adlist.drain (length vs) h1 l1 = Some (map snd (filter fst (zip oks vs)), h2, l2) \<and> lrep h2 l2 []"
  using assms by (rule adlist.fifo)

theorem hilist_is_fifo_witness:
  "\<exists>oks h1 l1 h2 l2. adlist.enqueue (demo_heap\<lparr>script := [True, False, True]\<rparr>) empty_hilist [4, 5, 6] = Some (oks, h1, l1) \<and>
     adlist.drain 3 h1 l1 = Some (map snd (filter fst (zip oks [4, 5, 6])), h2, l2) \<and> lrep h2 l2 []"
proof -
  have "lrep (demo_heap\<lparr>script := [True, False, True]\<rparr>) empty_hilist []"
    by (simp add: lrep_def demo_heap_def empty_hilist_def)
  moreover have "length [4, 5, 6 :: nat] = 3" by simp
  ultimately show ?thesis using hilist_is_fifo [of _ _ "[4, 5, 6]"] by metis
qed

end
