(* ===== verification/Sockets.thy ===== *)
theory Sockets
  imports Cluster_Prelude
begin

unbundle bit_operations_syntax

text \<open>
  The socket helpers of \<^verbatim>\<open>hiutil.c\<close>: the options of a descriptor, and the loops that send and receive a given number
  of bytes on a blocking descriptor.

  The system calls are a record of functions on a world, with the values that \<^verbatim>\<open>O_NONBLOCK\<close> and \<^verbatim>\<open>EINTR\<close> have on the
  platform; an option carries its level. A loop that is interrupted for ever does not return, so the loops are
  partial functions, for which \<open>None\<close> is that, or an access outside the buffer.
\<close>

section \<open>Options\<close>

datatype sockopt = SO_REUSEADDR | TCP_NODELAY | SO_LINGER | SO_SNDBUF | SO_RCVBUF | SO_ERROR

record 'w syscalls =
  O_NONBLOCK :: int
  EINTR :: int
  fcntl_getfl :: "int \<Rightarrow> 'w \<Rightarrow> int \<times> 'w"
  fcntl_setfl :: "int \<Rightarrow> int \<Rightarrow> 'w \<Rightarrow> int \<times> 'w"
  setsockopt :: "int \<Rightarrow> sockopt \<Rightarrow> int list \<Rightarrow> 'w \<Rightarrow> int \<times> 'w"
  getsockopt :: "int \<Rightarrow> sockopt \<Rightarrow> int \<Rightarrow> 'w \<Rightarrow> int \<times> int \<times> 'w"
  errno :: "'w \<Rightarrow> int"
  set_errno :: "int \<Rightarrow> 'w \<Rightarrow> 'w"
  c_send :: "int \<Rightarrow> string \<Rightarrow> 'w \<Rightarrow> int \<times> 'w"
  c_recv :: "int \<Rightarrow> nat \<Rightarrow> 'w \<Rightarrow> int \<times> string \<times> 'w"

definition hi_set_blocking :: "'w syscalls \<Rightarrow> int \<Rightarrow> 'w \<Rightarrow> int \<times> 'w" where
  "hi_set_blocking S sd w =
     (case fcntl_getfl S sd w of
        (flags, w1) \<Rightarrow> if flags < 0 then (flags, w1) else fcntl_setfl S sd (flags AND NOT (O_NONBLOCK S)) w1)"

definition hi_set_nonblocking :: "'w syscalls \<Rightarrow> int \<Rightarrow> 'w \<Rightarrow> int \<times> 'w" where
  "hi_set_nonblocking S sd w =
     (case fcntl_getfl S sd w of
        (flags, w1) \<Rightarrow> if flags < 0 then (flags, w1) else fcntl_setfl S sd (flags OR O_NONBLOCK S) w1)"

definition hi_set_reuseaddr :: "'w syscalls \<Rightarrow> int \<Rightarrow> 'w \<Rightarrow> int \<times> 'w" where
  "hi_set_reuseaddr S sd w = (let reuse = 1 in setsockopt S sd SO_REUSEADDR [reuse] w)"

definition hi_set_tcpnodelay :: "'w syscalls \<Rightarrow> int \<Rightarrow> 'w \<Rightarrow> int \<times> 'w" where
  "hi_set_tcpnodelay S sd w = (let nodelay = 1 in setsockopt S sd TCP_NODELAY [nodelay] w)"

definition hi_set_linger :: "'w syscalls \<Rightarrow> int \<Rightarrow> int \<Rightarrow> 'w \<Rightarrow> int \<times> 'w" where
  "hi_set_linger S sd timeout w = (let l_onoff = 1; l_linger = timeout in setsockopt S sd SO_LINGER [l_onoff, l_linger] w)"

definition hi_set_sndbuf :: "'w syscalls \<Rightarrow> int \<Rightarrow> int \<Rightarrow> 'w \<Rightarrow> int \<times> 'w" where
  "hi_set_sndbuf S sd sz w = setsockopt S sd SO_SNDBUF [sz] w"

definition hi_set_rcvbuf :: "'w syscalls \<Rightarrow> int \<Rightarrow> int \<Rightarrow> 'w \<Rightarrow> int \<times> 'w" where
  "hi_set_rcvbuf S sd sz w = setsockopt S sd SO_RCVBUF [sz] w"

definition hi_get_soerror :: "'w syscalls \<Rightarrow> int \<Rightarrow> 'w \<Rightarrow> int \<times> 'w" where
  "hi_get_soerror S sd w =
     (case getsockopt S sd SO_ERROR 0 w of (status, err, w1) \<Rightarrow> (status, if status = 0 then set_errno S err w1 else w1))"

definition hi_get_sndbuf :: "'w syscalls \<Rightarrow> int \<Rightarrow> 'w \<Rightarrow> int \<times> 'w" where
  "hi_get_sndbuf S sd w =
     (case getsockopt S sd SO_SNDBUF 0 w of (status, sz, w1) \<Rightarrow> if status < 0 then (status, w1) else (sz, w1))"

definition hi_get_rcvbuf :: "'w syscalls \<Rightarrow> int \<Rightarrow> 'w \<Rightarrow> int \<times> 'w" where
  "hi_get_rcvbuf S sd w =
     (case getsockopt S sd SO_RCVBUF 0 w of (status, sz, w1) \<Rightarrow> if status < 0 then (status, w1) else (sz, w1))"

section \<open>Sending and receiving\<close>

text \<open>\<open>ptr\<close> is what is left of the buffer; its length is \<open>nleft\<close>.\<close>

partial_function (option) sendn_loop :: "'w syscalls \<Rightarrow> int \<Rightarrow> nat \<Rightarrow> string \<Rightarrow> 'w \<Rightarrow> (int \<times> 'w) option" where
  "sendn_loop S sd n ptr w =
     (if ptr = [] then Some (int n, w)
      else
        (case c_send S sd ptr w of
           (nsend, w1) \<Rightarrow>
             if nsend < 0 then (if errno S w1 = EINTR S then sendn_loop S sd n ptr w1 else Some (nsend, w1))
             else if nsend = 0 then Some (-1, w1)
             else if nat nsend > length ptr then None
             else sendn_loop S sd n (drop (nat nsend) ptr) w1))"

definition hi_sendn :: "'w syscalls \<Rightarrow> int \<Rightarrow> string \<Rightarrow> 'w \<Rightarrow> (int \<times> 'w) option" where
  "hi_sendn S sd vptr w = sendn_loop S sd (length vptr) vptr w"

text \<open>\<open>got\<close> is what has been written to the buffer.\<close>

partial_function (option) recvn_loop :: "'w syscalls \<Rightarrow> int \<Rightarrow> nat \<Rightarrow> nat \<Rightarrow> string \<Rightarrow> 'w \<Rightarrow> (int \<times> string \<times> 'w) option" where
  "recvn_loop S sd n nleft got w =
     (if nleft = 0 then Some (int (n - nleft), got, w)
      else
        (case c_recv S sd nleft w of
           (nrecv, bytes, w1) \<Rightarrow>
             if nrecv < 0 then (if errno S w1 = EINTR S then recvn_loop S sd n nleft got w1 else Some (nrecv, got, w1))
             else if nrecv = 0 then Some (int (n - nleft), got, w1)
             else if nat nrecv > nleft then None
             else recvn_loop S sd n (nleft - nat nrecv) (got @ bytes) w1))"

definition hi_recvn :: "'w syscalls \<Rightarrow> int \<Rightarrow> nat \<Rightarrow> 'w \<Rightarrow> (int \<times> string \<times> 'w) option" where
  "hi_recvn S sd n w = recvn_loop S sd n n [] w"

declare sendn_loop.simps [code] recvn_loop.simps [code]

section \<open>What the system calls promise\<close>

text \<open>
  \<open>sent w\<close> are the bytes that the peer will see: a successful \<^verbatim>\<open>send\<close> appends a part of what it is given, a failing
  one nothing. \<open>inbox w\<close> are the bytes that will arrive: \<^verbatim>\<open>recv\<close> takes some of them off, and returns zero only when
  there are none left. \<open>signals w\<close> bounds the interruptions to come.
\<close>

definition send_ok :: "'w syscalls \<Rightarrow> int \<Rightarrow> ('w \<Rightarrow> string) \<Rightarrow> bool" where
  "send_ok S sd sent \<longleftrightarrow>
     (\<forall>bytes w n w'. c_send S sd bytes w = (n, w') \<longrightarrow> n \<le> int (length bytes) \<and> sent w' = sent w @ take (nat n) bytes)"

definition recv_ok :: "'w syscalls \<Rightarrow> int \<Rightarrow> ('w \<Rightarrow> string) \<Rightarrow> bool" where
  "recv_ok S sd inbox \<longleftrightarrow>
     (\<forall>k w n bytes w'. c_recv S sd k w = (n, bytes, w') \<longrightarrow>
        n \<le> int k \<and> length bytes = nat n \<and> inbox w = bytes @ inbox w' \<and> (n = 0 \<longrightarrow> 0 < k \<longrightarrow> inbox w = []))"

definition signals_end :: "'w syscalls \<Rightarrow> int \<Rightarrow> ('w \<Rightarrow> nat) \<Rightarrow> bool" where
  "signals_end S sd signals \<longleftrightarrow>
     (\<forall>bytes w n w'. c_send S sd bytes w = (n, w') \<longrightarrow> (if n < 0 \<and> errno S w' = EINTR S then signals w' < signals w else signals w' \<le> signals w)) \<and>
     (\<forall>k w n bytes w'. c_recv S sd k w = (n, bytes, w') \<longrightarrow> (if n < 0 \<and> errno S w' = EINTR S then signals w' < signals w else signals w' \<le> signals w))"

lemma sendn_loop_returns:
  assumes ok: "send_ok S sd sent" "signals_end S sd signals"
  shows "\<exists>r w' k. sendn_loop S sd n ptr w = Some (r, w') \<and> k \<le> length ptr \<and> sent w' = sent w @ take k ptr \<and>
     (r = int n \<and> k = length ptr \<or> r < 0)"
proof (induction "signals w + length ptr" arbitrary: ptr w rule: less_induct)
  case less
  obtain m w1 where c: "c_send S sd ptr w = (m, w1)" by fastforce
  from ok(1) c have m: "m \<le> int (length ptr)" "sent w1 = sent w @ take (nat m) ptr" by (auto simp: send_ok_def)
  from ok(2) c have sig: "if m < 0 \<and> errno S w1 = EINTR S then signals w1 < signals w else signals w1 \<le> signals w"
    unfolding signals_end_def by blast
  consider "ptr = []" | "ptr \<noteq> []" "m < 0" "errno S w1 = EINTR S" | "ptr \<noteq> []" "m < 0" "errno S w1 \<noteq> EINTR S" | "ptr \<noteq> []" "m = 0"
    | "ptr \<noteq> []" "m > 0" by linarith
  then show ?case
  proof cases
    case 1
    then show ?thesis by (subst sendn_loop.simps) simp
  next
    case 2
    then have "signals w1 + length ptr < signals w + length ptr" using sig by simp
    from less [OF this] show ?thesis using 2 c m by (subst sendn_loop.simps) simp
  next
    case 3
    then show ?thesis using c m by (subst sendn_loop.simps) auto
  next
    case 4
    then show ?thesis using c m by (subst sendn_loop.simps) auto
  next
    case 5
    then have "0 < length ptr" "0 < nat m" "signals w1 \<le> signals w" using sig by auto
    then have "signals w1 + length (drop (nat m) ptr) < signals w + length ptr" by (simp only: length_drop)
    from less [OF this] obtain r w' k where IH: "sendn_loop S sd n (drop (nat m) ptr) w1 = Some (r, w')" "k \<le> length (drop (nat m) ptr)"
        "sent w' = sent w1 @ take k (drop (nat m) ptr)" "r = int n \<and> k = length (drop (nat m) ptr) \<or> r < 0" by blast
    moreover have "sendn_loop S sd n ptr w = sendn_loop S sd n (drop (nat m) ptr) w1"
    proof -
      have "\<not> length ptr < nat m" using m(1) by linarith
      then show ?thesis using 5 c by (subst sendn_loop.simps) simp
    qed
    moreover have "sent w' = sent w @ take (nat m + k) ptr" using IH(3) m(2) by (simp add: take_add)
    moreover have "nat m + k \<le> length ptr" "r = int n \<and> nat m + k = length ptr \<or> r < 0" using IH(2,4) 5 m(1) by auto
    ultimately show ?thesis by metis
  qed
qed

lemma recvn_loop_returns:
  assumes ok: "recv_ok S sd inbox" "signals_end S sd signals" and "nleft \<le> n"
  shows "\<exists>r bytes w'. recvn_loop S sd n nleft got w = Some (r, got @ bytes, w') \<and> length bytes \<le> nleft \<and> inbox w = bytes @ inbox w' \<and>
     (r = int (n - nleft + length bytes) \<and> (length bytes = nleft \<or> inbox w' = []) \<or> r < 0)"
  using assms(3)
proof (induction "signals w + nleft" arbitrary: nleft got w rule: less_induct)
  case less
  obtain m bs w1 where c: "c_recv S sd nleft w = (m, bs, w1)" by (cases "c_recv S sd nleft w") auto
  from ok(1) c have "m \<le> int nleft \<and> length bs = nat m \<and> inbox w = bs @ inbox w1 \<and> (m = 0 \<longrightarrow> 0 < nleft \<longrightarrow> inbox w = [])"
    unfolding recv_ok_def by blast
  then have m: "m \<le> int nleft" "length bs = nat m" "inbox w = bs @ inbox w1" "m = 0 \<Longrightarrow> 0 < nleft \<Longrightarrow> inbox w = []" by auto
  from ok(2) c have sig: "if m < 0 \<and> errno S w1 = EINTR S then signals w1 < signals w else signals w1 \<le> signals w"
    unfolding signals_end_def by blast
  consider "nleft = 0" | "nleft \<noteq> 0" "m < 0" "errno S w1 = EINTR S" | "nleft \<noteq> 0" "m < 0" "errno S w1 \<noteq> EINTR S" | "nleft \<noteq> 0" "m = 0"
    | "nleft \<noteq> 0" "m > 0" by linarith
  then show ?case
  proof cases
    case 1
    then show ?thesis by (subst recvn_loop.simps) simp
  next
    case 2
    then have "signals w1 + nleft < signals w + nleft" using sig by simp
    from less(1) [OF this less(2)] show ?thesis using 2 c m by (subst recvn_loop.simps) simp
  next
    case 3
    then show ?thesis using c m by (subst recvn_loop.simps) auto
  next
    case 4
    then show ?thesis using c m by (subst recvn_loop.simps) auto
  next
    case 5
    let ?l = "nleft - nat m"
    have d: "signals w1 + ?l < signals w + nleft" "?l \<le> n" using 5 sig m(1) less(2) by auto
    from less(1) [OF d, of "got @ bs"] obtain r bytes w' where IH: "recvn_loop S sd n ?l (got @ bs) w1 = Some (r, (got @ bs) @ bytes, w')"
        "length bytes \<le> ?l" "inbox w1 = bytes @ inbox w'" "r = int (n - ?l + length bytes) \<and> (length bytes = ?l \<or> inbox w' = []) \<or> r < 0" by blast
    have "\<not> nleft < nat m" using m(1) by linarith
    then have "recvn_loop S sd n nleft got w = Some (r, got @ bs @ bytes, w')" using 5 c IH(1) by (subst recvn_loop.simps) simp
    moreover have "length (bs @ bytes) \<le> nleft" "inbox w = (bs @ bytes) @ inbox w'" using IH(2,3) m 5 by auto
    moreover have "r = int (n - nleft + length (bs @ bytes)) \<and> (length (bs @ bytes) = nleft \<or> inbox w' = []) \<or> r < 0"
      using IH(4) m 5 less(2) by auto
    ultimately show ?thesis by blast
  qed
qed

section \<open>Properties\<close>

text \<open>
  \<open>_hi_sendn\<close> returns, and sends the whole buffer or reports an error: the peer sees a prefix of the buffer, and all of
  it exactly when the length is returned. No byte is sent twice over interruptions and short writes.
\<close>

theorem hi_sendn_sends_all:
  assumes "send_ok S sd sent" and "signals_end S sd signals"
  shows "\<exists>r w' k. hi_sendn S sd msg w = Some (r, w') \<and> k \<le> length msg \<and> sent w' = sent w @ take k msg \<and>
     (r = int (length msg) \<and> k = length msg \<or> r < 0)"
  unfolding hi_sendn_def by (rule sendn_loop_returns [OF assms])

text \<open>
  What \<open>_hi_sendn\<close> has sent, \<open>_hi_recvn\<close> receives: when the bytes that arrive are those that the peer sent, followed by
  more, it returns the message, with its length, or reports an error after a part of it.
\<close>

theorem hi_recvn_receives_sent:
  assumes "send_ok S sd sent" "recv_ok R sd' inbox" "signals_end R sd' signals"
    and "hi_sendn S sd msg w = Some (int (length msg), w1)" "signals_end S sd signals'"
    and "inbox v = drop (length (sent w)) (sent w1) @ later"
  shows "\<exists>r got v'. hi_recvn R sd' (length msg) v = Some (r, got, v') \<and>
     (r = int (length msg) \<and> got = msg \<and> inbox v' = later \<or> r < 0 \<and> (\<exists>rest. msg = got @ rest))"
proof -
  from hi_sendn_sends_all [OF assms(1,5), of msg w] assms(4) have "sent w1 = sent w @ msg" by auto
  then have v: "inbox v = msg @ later" using assms(6) by simp
  obtain r got v' where r: "hi_recvn R sd' (length msg) v = Some (r, got, v')" "length got \<le> length msg" "inbox v = got @ inbox v'"
      "r = int (length got) \<and> (length got = length msg \<or> inbox v' = []) \<or> r < 0"
    using recvn_loop_returns [OF assms(2,3) order_refl, of "length msg" "[]" v] by (auto simp: hi_recvn_def)
  have got: "got = take (length got) msg" using r(2,3) v by (metis append_eq_conv_conj take_append diff_is_0_eq take_0 append_Nil2)
  have "length got = length msg \<and> inbox v' = later" if "length got = length msg \<or> inbox v' = []"
  proof -
    have "length got + length (inbox v') = length msg + length later" using r(3) v by (metis length_append)
    with that r(2) have "length got = length msg" by auto
    then show ?thesis using r(3) v by simp
  qed
  moreover have "msg = got @ drop (length got) msg" using got by (metis append_take_drop_id)
  ultimately show ?thesis using r got by (metis take_all_iff order_refl)
qed

text \<open>
  The mode of a descriptor: on a descriptor whose flags are \<open>fl w\<close>, \<open>hi_set_nonblocking\<close> sets the bits of
  \<^verbatim>\<open>O_NONBLOCK\<close> and \<open>hi_set_blocking\<close> clears them, neither changes another bit, and the second undoes the first on
  a blocking descriptor.
\<close>

definition fcntl_ok :: "'w syscalls \<Rightarrow> int \<Rightarrow> ('w \<Rightarrow> int) \<Rightarrow> bool" where
  "fcntl_ok S sd fl \<longleftrightarrow> 0 \<le> O_NONBLOCK S \<and> (\<forall>w. fcntl_getfl S sd w = (fl w, w) \<and> 0 \<le> fl w) \<and>
     (\<forall>f w. fst (fcntl_setfl S sd f w) = 0 \<and> fl (snd (fcntl_setfl S sd f w)) = f)"

theorem blocking_mode:
  assumes "fcntl_ok S sd fl" and "hi_set_nonblocking S sd w = (r, w1)" and "hi_set_blocking S sd w1 = (r', w2)"
  shows "r = 0 \<and> r' = 0 \<and> (\<forall>i. bit (fl w1) i \<longleftrightarrow> bit (fl w) i \<or> bit (O_NONBLOCK S) i) \<and> (\<forall>i. bit (fl w2) i \<longleftrightarrow> bit (fl w) i \<and> \<not> bit (O_NONBLOCK S) i) \<and>
     (fl w AND O_NONBLOCK S = 0 \<longrightarrow> fl w2 = fl w)"
proof -
  have get: "fcntl_getfl S sd v = (fl v, v)" "\<not> fl v < 0" for v using assms(1) by (auto simp: fcntl_ok_def not_less)
  have "fcntl_setfl S sd (fl w OR O_NONBLOCK S) w = (r, w1)" "fcntl_setfl S sd (fl w1 AND NOT (O_NONBLOCK S)) w1 = (r', w2)"
    using assms(2,3) by (simp_all add: hi_set_nonblocking_def hi_set_blocking_def get)
  then have f: "r = 0" "r' = 0" "fl w1 = fl w OR O_NONBLOCK S" "fl w2 = fl w1 AND NOT (O_NONBLOCK S)"
    using assms(1) unfolding fcntl_ok_def by (metis fst_conv snd_conv)+
  moreover have "fl w2 = fl w" if "fl w AND O_NONBLOCK S = 0"
  proof (rule bit_eqI)
    fix i
    from that have "\<not> (bit (fl w) i \<and> bit (O_NONBLOCK S) i)" using bit_and_iff [of "fl w" "O_NONBLOCK S" i] by simp
    then show "bit (fl w2) i \<longleftrightarrow> bit (fl w) i" by (auto simp: f(3,4) bit_simps)
  qed
  ultimately show ?thesis by (auto simp: bit_simps)
qed

text \<open>The two loops on a pipe that moves at most two bytes at a time, whose first call is interrupted.\<close>

definition pipe_calls :: "(nat \<times> string) syscalls" where
  "pipe_calls = \<lparr>O_NONBLOCK = 2048, EINTR = 4, fcntl_getfl = \<lambda>_ w. (2, w), fcntl_setfl = \<lambda>_ _ w. (0, w), setsockopt = \<lambda>_ _ _ w. (0, w),
     getsockopt = \<lambda>_ _ v w. (0, v, w), errno = \<lambda>_. 4, set_errno = \<lambda>_ w. w,
     c_send = \<lambda>_ bytes w. (case w of (Suc k, buf) \<Rightarrow> (-1, k, buf) | (0, buf) \<Rightarrow> (int (length (take 2 bytes)), 0, buf @ take 2 bytes)),
     c_recv = \<lambda>_ k w. (case w of (Suc j, buf) \<Rightarrow> (-1, [], j, buf) | (0, buf) \<Rightarrow> (int (length (take (min 2 k) buf)), take (min 2 k) buf, 0, drop (min 2 k) buf))\<rparr>"

theorem pipe_calls_ok: "send_ok pipe_calls sd snd" "recv_ok pipe_calls sd snd" "signals_end pipe_calls sd fst"
  by (auto simp: send_ok_def recv_ok_def signals_end_def pipe_calls_def min_def split: nat.splits prod.splits if_splits)

theorem pipe_roundtrip:
  "\<exists>w1. hi_sendn pipe_calls 3 ''hello'' (1, []) = Some (5, w1) \<and> hi_recvn pipe_calls 4 5 (2, snd w1) = Some (5, ''hello'', 0, [])"
  by (simp add: hi_sendn_def hi_recvn_def pipe_calls_def sendn_loop.simps recvn_loop.simps)

end
