(* ===== verification/Cluster_Reply.thy ===== *)
theory Cluster_Reply
  imports Cluster_Prelude
begin

text \<open>
  What the client sees of hiredis replies, and the error state that every context carries.
  A reply is its type tag with the members that this type uses (\<^verbatim>\<open>redisReply\<close> of hiredis);
  \<open>REDIS_REPLY_OTHER\<close> stands for the RESP3 types that the sources never ask for.
  \<open>NULL_ELEMENT\<close> is a null pointer in the element vector of an array.
\<close>

datatype redisReply =
    REDIS_REPLY_STRING string
  | REDIS_REPLY_ARRAY (elements: "redisReply list")
  | REDIS_REPLY_INTEGER int
  | REDIS_REPLY_NIL
  | REDIS_REPLY_STATUS string
  | REDIS_REPLY_ERROR string
  | REDIS_REPLY_OTHER
  | NULL_ELEMENT

text \<open>
  The error codes of hiredis, and the one the cluster client adds. \<open>err\<close> is 0 when there is
  no error.
\<close>

abbreviation (input) REDIS_OK :: int where "REDIS_OK \<equiv> 0"
abbreviation (input) REDIS_ERR :: int where "REDIS_ERR \<equiv> -1"
abbreviation (input) REDIS_ERR_IO :: int where "REDIS_ERR_IO \<equiv> 1"
abbreviation (input) REDIS_ERR_OTHER :: int where "REDIS_ERR_OTHER \<equiv> 2"
abbreviation (input) REDIS_ERR_EOF :: int where "REDIS_ERR_EOF \<equiv> 3"
abbreviation (input) REDIS_ERR_PROTOCOL :: int where "REDIS_ERR_PROTOCOL \<equiv> 4"
abbreviation (input) REDIS_ERR_OOM :: int where "REDIS_ERR_OOM \<equiv> 5"
abbreviation (input) REDIS_ERR_CLUSTER_TOO_MANY_RETRIES :: int where "REDIS_ERR_CLUSTER_TOO_MANY_RETRIES \<equiv> 100"

text \<open>
  The members \<open>err\<close> and \<open>errstr\<close> come first in both contexts, so setting an error is the same
  operation on any record that extends this one. \<open>errstr\<close> has 128 bytes.
\<close>

record ctx_error =
  cx_err :: int
  cx_errstr :: string

definition redisClusterSetError :: "int \<Rightarrow> string \<Rightarrow> 'a ctx_error_scheme \<Rightarrow> 'a ctx_error_scheme" where
  "redisClusterSetError t str cc =
     (let s = cstr str; len = (if length s < 127 then length s else 127)
      in cc\<lparr>cx_err := t, cx_errstr := take len s\<rparr>)"

lemma redisClusterSetError_simps [simp]:
  "cx_err (redisClusterSetError t str cc) = t"
  "length (cx_errstr (redisClusterSetError t str cc)) \<le> 127"
  "nul_free str \<Longrightarrow> length str \<le> 127 \<Longrightarrow> cx_errstr (redisClusterSetError t str cc) = str"
  by (auto simp: redisClusterSetError_def Let_def)

section \<open>Redirections\<close>

datatype CLUSTER_ERR_TYPE =
    CLUSTER_NOT_ERR | CLUSTER_ERR_MOVED | CLUSTER_ERR_ASK | CLUSTER_ERR_TRYAGAIN | CLUSTER_ERR_CLUSTERDOWN
  | CLUSTER_ERR_SENTINEL

definition starts_longer :: "string \<Rightarrow> string \<Rightarrow> bool" where
  "starts_longer p s \<longleftrightarrow> length p < length s \<and> take (length p) s = p"

text \<open>\<open>None\<close> is the result \<open>REDIS_ERR\<close> for a null reply.\<close>

definition cluster_reply_error_type :: "redisReply option \<Rightarrow> CLUSTER_ERR_TYPE option" where
  "cluster_reply_error_type reply =
     (case reply of
        None \<Rightarrow> None
      | Some (REDIS_REPLY_ERROR str) \<Rightarrow>
          Some (if starts_longer ''MOVED'' str then CLUSTER_ERR_MOVED
                else if starts_longer ''ASK'' str then CLUSTER_ERR_ASK
                else if starts_longer ''TRYAGAIN'' str then CLUSTER_ERR_TRYAGAIN
                else if starts_longer ''CLUSTERDOWN'' str then CLUSTER_ERR_CLUSTERDOWN
                else CLUSTER_ERR_SENTINEL)
      | Some _ \<Rightarrow> Some CLUSTER_NOT_ERR)"

lemma cluster_reply_error_type_not_err:
  "cluster_reply_error_type (Some r) = Some CLUSTER_NOT_ERR \<longleftrightarrow> (\<forall>s. r \<noteq> REDIS_REPLY_ERROR s)"
  by (cases r) (auto simp: cluster_reply_error_type_def)

end
