(* ===== verification/Hiarray.thy ===== *)
theory Hiarray
  imports Cluster_Prelude
begin

text \<open>
  The growable array of \<^verbatim>\<open>hiarray.c\<close>. The element block is a list of cells, \<open>None\<close> for a
  cell that has not been written; a pointer into it is the index of its cell. \<open>a_nelem\<close> and
  \<open>a_nalloc\<close> keep their 32 bits. The \<open>ASSERT\<close>s of the file are empty in the default build and
  have no counterpart; what they demand is the invariant \<open>arr_wf\<close> or a premise.
\<close>

section \<open>The array and its operations\<close>

record 'a hiarray =
  a_nelem :: u32
  a_elem :: "'a option list"
  a_size :: u64
  a_nalloc :: u32

definition hiarray_null :: "'a hiarray" where
  "hiarray_null = \<lparr>a_nelem = 0, a_elem = [], a_size = 0, a_nalloc = 0\<rparr>"

definition hiarray_set :: "'a option list \<Rightarrow> u64 \<Rightarrow> u32 \<Rightarrow> 'a hiarray" where
  "hiarray_set elem sz nalloc = \<lparr>a_nelem = 0, a_elem = elem, a_size = sz, a_nalloc = nalloc\<rparr>"

definition hiarray_n :: "'a hiarray \<Rightarrow> u32" where
  "hiarray_n a = a_nelem a"

definition hiarray_create :: "u32 \<Rightarrow> u64 \<Rightarrow> alloc \<Rightarrow> 'a hiarray option \<times> alloc" where
  "hiarray_create n sz al =
     (case hi_alloc al of
        (False, al1) \<Rightarrow> (None, al1)
      | (True, al1) \<Rightarrow>
          (case hi_alloc al1 of
             (False, al2) \<Rightarrow> (None, al2)
           | (True, al2) \<Rightarrow>
               (Some \<lparr>a_nelem = 0, a_elem = replicate (unat n) None, a_size = sz, a_nalloc = n\<rparr>, al2)))"

definition hiarray_deinit :: "'a hiarray \<Rightarrow> 'a hiarray" where
  "hiarray_deinit a = a\<lparr>a_elem := []\<rparr>"

text \<open>The index of an element from its address, given as the byte offset from the block.\<close>

definition hiarray_idx :: "'a hiarray \<Rightarrow> u64 \<Rightarrow> u32" where
  "hiarray_idx a off = (ucast off :: u32) div (ucast (a_size a) :: u32)"

text \<open>\<open>hiarray_push\<close> returns the index of the new cell, \<open>None\<close> when the array cannot grow.\<close>

definition hiarray_push :: "'a hiarray \<Rightarrow> alloc \<Rightarrow> nat option \<times> 'a hiarray \<times> alloc" where
  "hiarray_push a al =
     (case (if a_nelem a = a_nalloc a then
              (case hi_alloc al of
                 (False, al1) \<Rightarrow> (None, al1)
               | (True, al1) \<Rightarrow>
                   (Some (a\<lparr>a_elem := a_elem a @ replicate (2 * unat (a_nalloc a) - length (a_elem a)) None,
                            a_nalloc := a_nalloc a * 2\<rparr>), al1))
            else (Some a, al)) of
        (None, al1) \<Rightarrow> (None, a, al1)
      | (Some a1, al1) \<Rightarrow> (Some (unat (a_nelem a1)), a1\<lparr>a_nelem := a_nelem a1 + 1\<rparr>, al1))"

definition hiarray_pop :: "'a hiarray \<Rightarrow> nat \<times> 'a hiarray" where
  "hiarray_pop a = (let n = a_nelem a - 1 in (unat n, a\<lparr>a_nelem := n\<rparr>))"

definition hiarray_get :: "'a hiarray \<Rightarrow> u32 \<Rightarrow> nat" where
  "hiarray_get a idx = unat idx"

definition hiarray_top :: "'a hiarray \<Rightarrow> nat" where
  "hiarray_top a = hiarray_get a (a_nelem a - 1)"

definition hiarray_swap :: "'a hiarray \<Rightarrow> 'a hiarray \<Rightarrow> 'a hiarray \<times> 'a hiarray" where
  "hiarray_swap a b = (b, a)"

text \<open>Reading and writing through an element pointer; \<open>None\<close> is an access outside the block.\<close>

definition elem_read :: "'a hiarray \<Rightarrow> nat \<Rightarrow> 'a option option" where
  "elem_read a i = (if i < length (a_elem a) then Some (a_elem a ! i) else None)"

definition elem_write :: "'a hiarray \<Rightarrow> nat \<Rightarrow> 'a \<Rightarrow> 'a hiarray option" where
  "elem_write a i x = (if i < length (a_elem a) then Some (a\<lparr>a_elem := (a_elem a)[i := Some x]\<rparr>) else None)"

text \<open>
  \<open>hiarray_each\<close>: the callback sees the elements in order and its first status other than
  \<open>HI_OK\<close> ends the loop. The callback's state \<open>'s\<close> stands for what it writes through \<open>data\<close>.
\<close>

fun each_loop :: "('a option \<Rightarrow> 's \<Rightarrow> int \<times> 's) \<Rightarrow> 'a option list \<Rightarrow> 's \<Rightarrow> int \<times> 's" where
  "each_loop func [] s = (0, s)"
| "each_loop func (x # xs) s =
     (case func x s of (status, s') \<Rightarrow> if status \<noteq> 0 then (status, s') else each_loop func xs s')"

definition hiarray_each :: "'a hiarray \<Rightarrow> ('a option \<Rightarrow> 's \<Rightarrow> int \<times> 's) \<Rightarrow> 's \<Rightarrow> int \<times> 's" where
  "hiarray_each a func s = each_loop func (take (unat (hiarray_n a)) (a_elem a)) s"

section \<open>Invariant and represented list\<close>

definition arr_wf :: "'a hiarray \<Rightarrow> bool" where
  "arr_wf a \<longleftrightarrow> 0 < unat (a_nalloc a) \<and> unat (a_nelem a) \<le> unat (a_nalloc a) \<and>
     length (a_elem a) = unat (a_nalloc a) \<and> None \<notin> set (take (unat (a_nelem a)) (a_elem a))"

definition arr_list :: "'a hiarray \<Rightarrow> 'a list" where
  "arr_list a = map the (take (unat (a_nelem a)) (a_elem a))"

lemma length_arr_list: "arr_wf a \<Longrightarrow> length (arr_list a) = unat (a_nelem a)"
  by (simp add: arr_wf_def arr_list_def)

lemma hiarray_create_wf:
  assumes "hiarray_create n sz al = (Some a, al')" and "n \<noteq> 0"
  shows "arr_wf a \<and> arr_list a = [] \<and> a_nalloc a = n"
  using assms by (auto simp: hiarray_create_def arr_wf_def arr_list_def unat_gt_0 split: prod.splits bool.splits)

text \<open>
  Pushing and then writing the new cell appends, as long as the array has fewer than
  \<open>2 ^ 31\<close> elements (beyond that doubling \<open>a_nalloc\<close> wraps).
\<close>

definition push_elem :: "'a hiarray \<Rightarrow> 'a \<Rightarrow> alloc \<Rightarrow> bool \<times> 'a hiarray \<times> alloc" where
  "push_elem a x al =
     (case hiarray_push a al of
        (None, a1, al1) \<Rightarrow> (False, a1, al1)
      | (Some i, a1, al1) \<Rightarrow> (True, the (elem_write a1 i x), al1))"

lemma hiarray_push_cases:
  assumes wf: "arr_wf a" and small: "unat (a_nelem a) < 2 ^ 31"
  obtains (oom) al1 where "a_nelem a = a_nalloc a" "hi_alloc al = (False, al1)" "hiarray_push a al = (None, a, al1)"
  | (ok) a1 al1 where "hiarray_push a al = (Some (unat (a_nelem a)), a1\<lparr>a_nelem := a_nelem a + 1\<rparr>, al1)"
      "arr_wf a1" "a_nelem a1 = a_nelem a" "unat (a_nelem a) < unat (a_nalloc a1)" "arr_list a1 = arr_list a"
      "no_oom al \<Longrightarrow> no_oom al1"
proof (cases "a_nelem a = a_nalloc a")
  case False
  then have "unat (a_nelem a) \<noteq> unat (a_nalloc a)" by (simp add: word_unat_eq_iff)
  with wf False ok show ?thesis by (simp add: hiarray_push_def arr_wf_def)
next
  case full: True
  obtain b al1 where b: "hi_alloc al = (b, al1)" by (cases "hi_alloc al")
  show ?thesis
  proof (cases b)
    case False
    with full b oom show ?thesis by (simp add: hiarray_push_def)
  next
    case True
    let ?a1 = "a\<lparr>a_elem := a_elem a @ replicate (2 * unat (a_nalloc a) - length (a_elem a)) None,
                 a_nalloc := a_nalloc a * 2\<rparr>"
    have dbl: "unat (a_nalloc a * 2) = 2 * unat (a_nalloc a)"
      using small full by (simp add: unat_word_ariths)
    have push: "hiarray_push a al = (Some (unat (a_nelem a)), ?a1\<lparr>a_nelem := a_nelem a + 1\<rparr>, al1)"
      using full b True by (simp add: hiarray_push_def)
    have "arr_wf ?a1" using wf full dbl by (clarsimp simp: arr_wf_def)
    moreover have "unat (a_nelem a) < unat (a_nalloc ?a1)" using wf full dbl by (simp add: arr_wf_def)
    moreover have "arr_list ?a1 = arr_list a" using wf by (simp add: arr_list_def arr_wf_def)
    moreover have "no_oom al \<Longrightarrow> no_oom al1" using hi_alloc_no_oom(2) [of al] b by simp
    ultimately show ?thesis using ok [OF push] by simp
  qed
qed

lemma unat_Suc_32: "unat (n :: u32) < 2 ^ 31 \<Longrightarrow> unat (n + 1) = Suc (unat n)"
  by (simp add: unat_word_ariths)

lemma push_elem_spec:
  assumes "arr_wf a" and "unat (a_nelem a) < 2 ^ 31"
  shows "\<exists>ok a' al'. push_elem a x al = (ok, a', al') \<and> arr_wf a' \<and>
           arr_list a' = (if ok then arr_list a @ [x] else arr_list a) \<and> (no_oom al \<longrightarrow> ok \<and> no_oom al')"
  using assms
proof (cases rule: hiarray_push_cases [where al = al])
  case (oom al1)
  then have "\<not> no_oom al" using hi_alloc_no_oom(1) [of al] by auto
  with oom assms show ?thesis by (auto simp: push_elem_def)
next
  case (ok a1 al1)
  let ?n = "unat (a_nelem a)"
  have len: "?n < length (a_elem a1)" using ok by (simp add: arr_wf_def)
  let ?a' = "a1\<lparr>a_nelem := a_nelem a + 1, a_elem := (a_elem a1)[?n := Some x]\<rparr>"
  have push: "push_elem a x al = (True, ?a', al1)"
    using ok len by (simp add: push_elem_def elem_write_def)
  have suc: "unat (a_nelem a + 1) = Suc ?n" using assms(2) by (rule unat_Suc_32)
  have tk: "take (Suc ?n) ((a_elem a1)[?n := Some x]) = take ?n (a_elem a1) @ [Some x]"
    using len by (simp add: take_Suc_conv_app_nth)
  have "arr_wf ?a'" using ok suc tk by (simp add: arr_wf_def)
  moreover have "arr_list ?a' = arr_list a @ [x]"
    using ok suc tk by (simp add: arr_list_def flip: ok(5))
  ultimately show ?thesis using push ok(6) by auto
qed

lemma arr_list_read:
  assumes "arr_wf a" and "i < length (arr_list a)"
  shows "elem_read a i = Some (Some (arr_list a ! i))"
proof -
  have i: "i < unat (a_nelem a)" using assms length_arr_list by metis
  then have "a_elem a ! i \<in> set (take (unat (a_nelem a)) (a_elem a))"
    using assms(1) by (auto simp: arr_wf_def in_set_conv_nth intro!: exI [of _ i])
  then have "a_elem a ! i \<noteq> None" using assms(1) unfolding arr_wf_def by metis
  with i assms show ?thesis by (auto simp: elem_read_def arr_list_def arr_wf_def)
qed

lemma hiarray_pop_list:
  assumes "arr_wf a" and "a_nelem a \<noteq> 0"
  shows "arr_list (snd (hiarray_pop a)) = butlast (arr_list a) \<and> arr_wf (snd (hiarray_pop a)) \<and>
         elem_read a (fst (hiarray_pop a)) = Some (Some (last (arr_list a)))"
proof -
  let ?n = "unat (a_nelem a)"
  have pos: "0 < ?n" using assms(2) by (simp add: unat_gt_0)
  have m1: "unat (a_nelem a - 1) = ?n - 1" using assms(2) by (simp add: unat_minus_one)
  have len: "length (arr_list a) = ?n" using assms(1) by (rule length_arr_list)
  have "arr_list (snd (hiarray_pop a)) = butlast (arr_list a)"
    using assms(1) pos m1 by (simp add: hiarray_pop_def arr_list_def arr_wf_def Let_def butlast_take map_butlast [symmetric])
  moreover have "arr_wf (snd (hiarray_pop a))"
    using assms(1) m1 pos by (auto simp: hiarray_pop_def arr_wf_def Let_def dest: in_set_takeD
        intro: set_take_subset_set_take [THEN subsetD, rotated])
  moreover have "elem_read a (?n - 1) = Some (Some (last (arr_list a)))"
    using arr_list_read [OF assms(1), of "?n - 1"] len pos
    by (subst last_conv_nth) auto
  ultimately show ?thesis using m1 by (simp add: hiarray_pop_def Let_def)
qed

section \<open>The interface of the array\<close>

locale growable_array =
  fixes inv :: "'r \<Rightarrow> bool" and contents :: "'r \<Rightarrow> 'x list"
    and push :: "'r \<Rightarrow> 'x \<Rightarrow> alloc \<Rightarrow> bool \<times> 'r \<times> alloc" and limit :: nat
  assumes push_law: "inv a \<Longrightarrow> length (contents a) < limit \<Longrightarrow>
      \<exists>ok a' al'. push a x al = (ok, a', al') \<and> inv a' \<and>
        contents a' = (if ok then contents a @ [x] else contents a) \<and> (no_oom al \<longrightarrow> ok \<and> no_oom al')"
begin

text \<open>Pushing a list of elements; the first refusal ends it.\<close>

fun push_all :: "'r \<Rightarrow> 'x list \<Rightarrow> alloc \<Rightarrow> bool \<times> 'r \<times> alloc" where
  "push_all a [] al = (True, a, al)"
| "push_all a (x # xs) al =
     (case push a x al of (ok, a', al') \<Rightarrow> if ok then push_all a' xs al' else (False, a', al'))"

lemma push_all_contents:
  assumes "inv a" and "length (contents a) + length xs \<le> limit"
  shows "\<exists>ok a' al' k. push_all a xs al = (ok, a', al') \<and> inv a' \<and> k \<le> length xs \<and>
           contents a' = contents a @ take k xs \<and> (ok \<longrightarrow> k = length xs) \<and> (no_oom al \<longrightarrow> ok \<and> no_oom al')"
  using assms
proof (induction xs arbitrary: a al)
  case Nil
  then show ?case by auto
next
  case (Cons x xs)
  obtain ok a1 al1 where 1: "push a x al = (ok, a1, al1)" "inv a1"
    "contents a1 = (if ok then contents a @ [x] else contents a)" "no_oom al \<longrightarrow> ok \<and> no_oom al1"
    using push_law [of a x al] Cons.prems by auto
  show ?case
  proof (cases ok)
    case True
    with 1 Cons.prems obtain ok2 a2 al2 k where "push_all a1 xs al1 = (ok2, a2, al2)" "inv a2" "k \<le> length xs"
      "contents a2 = contents a1 @ take k xs" "ok2 \<longrightarrow> k = length xs" "no_oom al1 \<longrightarrow> ok2 \<and> no_oom al2"
      using Cons.IH [of a1 al1] by auto
    with 1 True show ?thesis
      by (intro exI [of _ ok2] exI [of _ a2] exI [of _ al2] exI [of _ "Suc k"]) auto
  next
    case False
    with 1 show ?thesis by (intro exI [of _ False] exI [of _ a1] exI [of _ al1] exI [of _ 0]) auto
  qed
qed

end

interpretation hiarr: growable_array arr_wf arr_list push_elem "2 ^ 31"
proof (unfold_locales, goal_cases)
  case (1 a x al)
  then show ?case by (intro push_elem_spec) (simp_all add: length_arr_list)
qed

section \<open>Properties\<close>

text \<open>
  The array behaves as a list of up to 2^31 elements: pushing a sequence appends it in order however
  often the array has to grow, stops at the first growth that runs out of memory without losing
  an element, and popping takes the last element off.
\<close>

theorem hiarray_push_pop:
  assumes "arr_wf a" "length (arr_list a) + length xs \<le> 2 ^ 31"
  shows "(\<exists>ok a' al' k. hiarr.push_all a xs al = (ok, a', al') \<and> arr_wf a' \<and> k \<le> length xs \<and>
           arr_list a' = arr_list a @ take k xs \<and> (ok \<longrightarrow> k = length xs) \<and> (no_oom al \<longrightarrow> ok \<and> no_oom al')) \<and>
         (a_nelem a \<noteq> 0 \<longrightarrow> arr_list (snd (hiarray_pop a)) = butlast (arr_list a) \<and>
           elem_read a (fst (hiarray_pop a)) = Some (Some (last (arr_list a))))"
  using hiarr.push_all_contents [OF assms, of al] hiarray_pop_list [OF assms(1)] by blast

theorem hiarray_push_pop_witness:
  "\<exists>a' al'. hiarr.push_all \<lparr>a_nelem = 0, a_elem = [None], a_size = 8, a_nalloc = 1\<rparr> [1 :: nat, 2, 3] [] = (True, a', al') \<and>
     arr_list a' = [1, 2, 3]"
proof -
  have "arr_wf \<lparr>a_nelem = 0, a_elem = [None :: nat option], a_size = 8, a_nalloc = 1\<rparr>"
    "arr_list \<lparr>a_nelem = 0, a_elem = [None :: nat option], a_size = 8, a_nalloc = 1\<rparr> = []"
    by (simp_all add: arr_wf_def arr_list_def)
  with hiarray_push_pop [of "\<lparr>a_nelem = 0, a_elem = [None :: nat option], a_size = 8, a_nalloc = 1\<rparr>" "[1, 2, 3]" "[]"]
  show ?thesis by auto
qed

end
