(* ===== verification/Hiutil.thy ===== *)
theory Hiutil
  imports Cluster_Prelude
begin

text \<open>
  The number and time helpers of \<^verbatim>\<open>hiutil.c\<close>: \<open>_hi_atoi\<close>, \<open>_hi_itoa\<close>,
  \<open>hi_valid_port\<close>, \<open>_uint_len\<close>, \<open>hi_usec_now\<close> and \<open>hi_msec_now\<close>.
  \<open>hi_atoi\<close> accumulates into a C \<open>int\<close>; the accumulator is a \<open>32 word\<close>, so that the
  wrap-around of a long digit string is visible. \<open>hi_itoa\<close> writes into the caller's buffer
  with every write checked: \<open>None\<close> is a write outside the buffer.
\<close>

section \<open>Reading a number\<close>

fun hi_atoi_loop :: "string \<Rightarrow> 32 word \<Rightarrow> int" where
  "hi_atoi_loop [] value = (if sint value < 0 then -1 else sint value)"
| "hi_atoi_loop (c # line) value =
     (if ord_of c < 48 \<or> ord_of c > 57 then -1
      else hi_atoi_loop line (value * 10 + word_of_nat (digit_val c)))"

definition hi_atoi :: "string \<Rightarrow> int" where
  "hi_atoi line = (if length line = 0 then -1 else hi_atoi_loop line 0)"

lemma hi_atoi_loop_digits:
  "\<forall>c \<in> set s. c_isdigit c \<Longrightarrow>
   hi_atoi_loop s v = (let w = word_of_nat (dval (unat v) s) :: 32 word
                       in if sint w < 0 then -1 else sint w)"
proof (induction s arbitrary: v)
  case Nil
  then show ?case by simp
next
  case (Cons c s)
  have dval_word: "(word_of_nat (dval a t) :: 32 word) = word_of_nat (dval (unat (word_of_nat a :: 32 word)) t)" for a t
  proof (induction t arbitrary: a)
    case Nil
    then show ?case by simp
  next
    case (Cons d t)
    have "unat (word_of_nat (a * 10 + digit_val d) :: 32 word) =
          unat (word_of_nat (unat (word_of_nat a :: 32 word) * 10 + digit_val d) :: 32 word)"
      by simp
    with Cons.IH [of "a * 10 + digit_val d"]
      Cons.IH [of "unat (word_of_nat a :: 32 word) * 10 + digit_val d"]
    show ?case by simp
  qed
  have step: "v * 10 + word_of_nat (digit_val c) = (word_of_nat (unat v * 10 + digit_val c) :: 32 word)"
    by simp
  from Cons have "hi_atoi_loop (c # s) v =
      (let w = word_of_nat (dval (unat (v * 10 + word_of_nat (digit_val c))) s) :: 32 word
       in if sint w < 0 then -1 else sint w)"
    by (auto simp: c_isdigit_def)
  then show ?case
    using dval_word [of "unat v * 10 + digit_val c" s] by (simp only: step dval.simps)
qed

lemma hi_atoi_loop_bad: "\<exists>c \<in> set s. \<not> c_isdigit c \<Longrightarrow> hi_atoi_loop s v = -1"
  by (induction s arbitrary: v) (auto simp: c_isdigit_def)

lemma hi_atoi_lower: "-1 \<le> hi_atoi s"
proof -
  have "-1 \<le> hi_atoi_loop s v" for v
    by (induction s arbitrary: v) auto
  then show ?thesis by (simp add: hi_atoi_def)
qed

lemma hi_atoi_upper: "hi_atoi s < 2 ^ 31"
proof -
  have "hi_atoi_loop s v < 2 ^ 31" for v
  proof (induction s arbitrary: v)
    case Nil
    have "sint v < 2 ^ (LENGTH(32) - 1)" by (rule sint_lt)
    then show ?case by simp
  next
    case (Cons c s)
    then show ?case by simp
  qed
  then show ?thesis by (simp add: hi_atoi_def)
qed

lemma hi_atoi_digits:
  assumes "s \<noteq> []" and "\<forall>c \<in> set s. c_isdigit c" and "dval 0 s < 2 ^ 31"
  shows "hi_atoi s = int (dval 0 s)"
  using assms by (simp add: hi_atoi_def hi_atoi_loop_digits sint_u32_of_nat Let_def)

lemma hi_atoi_decimal [simp]: "n < 2 ^ 31 \<Longrightarrow> hi_atoi (decimal n) = int n"
  using decimal_digits [of n] by (intro hi_atoi_digits [THEN trans]) auto

section \<open>Writing a number\<close>

definition buf_get :: "string \<Rightarrow> nat \<Rightarrow> char option" where
  "buf_get s i = (if i < length s then Some (s ! i) else None)"

definition buf_set :: "string \<Rightarrow> nat \<Rightarrow> char \<Rightarrow> string option" where
  "buf_set s i c = (if i < length s then Some (s[i := c]) else None)"

text \<open>The digit loop, least significant digit first.\<close>

function itoa_digits :: "string \<Rightarrow> nat \<Rightarrow> nat \<Rightarrow> (string \<times> nat) option" where
  "itoa_digits s len num =
     (if num mod 10 \<noteq> 0 \<or> num div 10 \<noteq> 0 then
        (case buf_get s len of None \<Rightarrow> None | Some old \<Rightarrow>
         (case buf_set s (len + 1) old of None \<Rightarrow> None | Some s1 \<Rightarrow>
          (case buf_set s1 len (char_of (num mod 10 + 48)) of None \<Rightarrow> None | Some s2 \<Rightarrow>
             itoa_digits s2 (len + 1) (num div 10))))
      else Some (s, len))"
  by pat_completeness auto
termination
  by (relation "measure (\<lambda>(s, len, num). num)") auto

declare itoa_digits.simps [simp del]

text \<open>The loop that reverses the first \<open>len\<close> characters in place.\<close>

function itoa_reverse :: "string \<Rightarrow> nat \<Rightarrow> nat \<Rightarrow> string" where
  "itoa_reverse s len i =
     (if i < len div 2
      then itoa_reverse (s[i := s ! (len - i - 1), len - i - 1 := s ! i]) len (i + 1)
      else s)"
  by pat_completeness auto
termination
  by (relation "measure (\<lambda>(s, len, i). len div 2 - i)") auto

declare itoa_reverse.simps [simp del]

definition hi_itoa :: "string \<Rightarrow> int \<Rightarrow> string option" where
  "hi_itoa s num =
     (if num = 0 then buf_set s 0 CHR ''0''
      else
        (case itoa_digits s 0 (nat \<bar>num\<bar>) of None \<Rightarrow> None | Some (s1, len1) \<Rightarrow>
         (case (if num < 0 then map_option (\<lambda>t. (t, len1 + 1)) (buf_set s1 len1 CHR ''-'')
                else Some (s1, len1)) of None \<Rightarrow> None | Some (s2, len2) \<Rightarrow>
          (case buf_set s2 len2 NUL of None \<Rightarrow> None | Some s3 \<Rightarrow>
             Some (itoa_reverse s3 len2 0)))))"

lemma itoa_digits_spec:
  assumes "0 < num" and "len + length (decimal num) < length s"
  shows "\<exists>s'. itoa_digits s len num = Some (s', len + length (decimal num)) \<and> length s' = length s \<and>
           take (len + length (decimal num)) s' = take len s @ rev (decimal num)"
  using assms
proof (induction num arbitrary: s len rule: less_induct)
  case (less num)
  let ?s2 = "s[len + 1 := s ! len, len := digit_char (num mod 10)]"
  have ext: "take (len + 1) ?s2 = take len s @ [digit_char (num mod 10)]"
    using less.prems by (simp add: take_Suc_conv_app_nth take_update_swap list_update_beyond list_update_append)
  have bound: "len + 1 < length s"
    using less.prems(2) decimal_not_Nil [of num] by (cases "decimal num") auto
  have step: "itoa_digits s len num = itoa_digits ?s2 (len + 1) (num div 10)"
    using bound less.prems(1)
    by (subst itoa_digits.simps) (auto simp: buf_get_def buf_set_def digit_char_def add.commute)
  show ?case
  proof (cases "num < 10")
    case True
    then have "decimal num = [digit_char (num mod 10)]" by (simp add: decimal.simps [of num])
    moreover have "itoa_digits ?s2 (len + 1) 0 = Some (?s2, len + 1)"
      by (subst itoa_digits.simps) simp
    ultimately show ?thesis using step ext True by simp
  next
    case False
    then have dec: "decimal num = decimal (num div 10) @ [digit_char (num mod 10)]"
      by (simp add: decimal.simps [of num])
    have "0 < num div 10" using False by (simp add: div_greater_zero_iff)
    with dec less.prems False obtain s' where
      "itoa_digits ?s2 (len + 1) (num div 10) = Some (s', len + 1 + length (decimal (num div 10)))"
      "length s' = length s"
      "take (len + 1 + length (decimal (num div 10))) s' = take (len + 1) ?s2 @ rev (decimal (num div 10))"
      using less.IH [of "num div 10" "len + 1" ?s2] by auto
    with step dec ext show ?thesis by auto
  qed
qed

text \<open>The in-place reversal, stated with the part already done.\<close>

lemma itoa_reverse_nth:
  assumes "len \<le> length s" and "i \<le> len div 2"
  shows "length (itoa_reverse s len i) = length s"
    and "k < length s \<Longrightarrow> itoa_reverse s len i ! k =
           (if i \<le> k \<and> k < len - i then s ! (len - 1 - k) else s ! k)"
  using assms
proof (induction s len i arbitrary: k rule: itoa_reverse.induct)
  case (1 s len i)
  let ?s = "s[i := s ! (len - i - 1), len - i - 1 := s ! i]"
  {
    case 1
    then show ?case
      using "1.IH"(1) by (subst itoa_reverse.simps) simp
  next
    case 2
    show ?case
    proof (cases "i < len div 2")
      case True
      with 2 have "itoa_reverse s len i ! k =
          (if i + 1 \<le> k \<and> k < len - (i + 1) then ?s ! (len - 1 - k) else ?s ! k)"
        using "1.IH"(2) [of k] by (simp add: itoa_reverse.simps [of s len i])
      with True 2 show ?thesis by (auto simp: nth_list_update)
    next
      case False
      with 2 have ii: "i = len div 2" by simp
      have "k = len - 1 - k" if "i \<le> k" "k < len - i"
        using that unfolding ii by linarith
      with False show ?thesis by (simp add: itoa_reverse.simps [of s len i])
    qed
  }
qed

lemma itoa_reverse_rev:
  assumes "len \<le> length s"
  shows "itoa_reverse s len 0 = rev (take len s) @ drop len s"
proof (rule nth_equalityI)
  show "length (itoa_reverse s len 0) = length (rev (take len s) @ drop len s)"
    using itoa_reverse_nth(1) [OF assms, of 0] assms by simp
  fix k assume "k < length (itoa_reverse s len 0)"
  then have k: "k < length s" using itoa_reverse_nth(1) [OF assms, of 0] by simp
  then have "itoa_reverse s len 0 ! k = (if k < len then s ! (len - 1 - k) else s ! k)"
    using itoa_reverse_nth(2) [OF assms, of 0 k] by simp
  also have "\<dots> = (rev (take len s) @ drop len s) ! k"
    using assms k by (auto simp: nth_append rev_nth min_def)
  finally show "itoa_reverse s len 0 ! k = (rev (take len s) @ drop len s) ! k" .
qed

lemma decimal_int_length: "n < 2 ^ 31 \<Longrightarrow> length (decimal n) \<le> 10"
  using length_decimal_le [of n 9] by simp

lemma take_Suc_update_same: "i < length s \<Longrightarrow> take (Suc i) (s[i := c]) = take i s @ [c]"
  by (simp add: take_Suc_conv_app_nth)

lemma hi_itoa_buffer:
  assumes num: "num \<noteq> 0" "\<bar>num\<bar> < 2 ^ 31" and buf: "12 \<le> length s"
  shows "\<exists>rest. hi_itoa s num = Some ((if num < 0 then ''-'' else []) @ decimal (nat \<bar>num\<bar>) @ NUL # rest) \<and>
           length (the (hi_itoa s num)) = length s"
proof -
  let ?d = "decimal (nat \<bar>num\<bar>)"
  have len: "length ?d \<le> 10" using num(2) decimal_int_length [of "nat \<bar>num\<bar>"] by simp
  with num buf obtain s1 where s1: "itoa_digits s 0 (nat \<bar>num\<bar>) = Some (s1, length ?d)"
    "length s1 = length s" "take (length ?d) s1 = rev ?d"
    using itoa_digits_spec [of "nat \<bar>num\<bar>" 0 s] by auto
  show ?thesis
  proof (cases "num < 0")
    case True
    let ?s2 = "s1[length ?d := CHR ''-'']"
    let ?n = "length ?d + 1"
    let ?s3 = "?s2[?n := NUL]"
    have "hi_itoa s num = Some (itoa_reverse ?s3 ?n 0)"
      using True num s1 len buf by (simp add: hi_itoa_def buf_set_def)
    moreover have "take ?n ?s3 = rev ?d @ [CHR ''-'']"
      using s1 len buf by (simp add: take_Suc_update_same)
    moreover have "drop ?n ?s3 = NUL # drop (Suc ?n) s1"
      using s1 len buf by (simp add: Cons_nth_drop_Suc [symmetric])
    ultimately show ?thesis
      using True s1 len buf itoa_reverse_rev [of ?n ?s3] itoa_reverse_nth(1) [of ?n ?s3 0]
      by auto
  next
    case False
    let ?n = "length ?d"
    let ?s3 = "s1[?n := NUL]"
    have "hi_itoa s num = Some (itoa_reverse ?s3 ?n 0)"
      using False num s1 len buf by (simp add: hi_itoa_def buf_set_def)
    moreover have "take ?n ?s3 = rev ?d" using s1 by simp
    moreover have "drop ?n ?s3 = NUL # drop (Suc ?n) s1"
      using s1 len buf by (simp add: Cons_nth_drop_Suc [symmetric])
    ultimately show ?thesis
      using False s1 len buf itoa_reverse_rev [of ?n ?s3] itoa_reverse_nth(1) [of ?n ?s3 0]
      by auto
  qed
qed

section \<open>Ports, digit counts, time\<close>

definition hi_valid_port :: "int \<Rightarrow> bool" where
  "hi_valid_port n = (if n < 1 \<or> n > 65535 then False else True)"

function uint_len_loop :: "nat \<Rightarrow> u32 \<Rightarrow> nat" where
  "uint_len_loop n num = (if num \<noteq> 0 then uint_len_loop (n + 1) (num div 10) else n)"
  by pat_completeness auto
termination
proof (relation "measure (\<lambda>(n, num). unat num)")
  fix n :: nat and num :: u32
  assume "num \<noteq> 0"
  then have "0 < unat num" by (simp add: unat_gt_0)
  then have "unat num div 10 < unat num" by simp
  then show "((n + 1, num div 10), n, num) \<in> measure (\<lambda>(n, num). unat num)"
    by (simp add: unat_div)
qed simp

declare uint_len_loop.simps [simp del]

definition uint_len :: "u32 \<Rightarrow> nat" where
  "uint_len num = (if num = 0 then 1 else uint_len_loop 0 num)"

lemma uint_len_loop_decimal: "num \<noteq> 0 \<Longrightarrow> uint_len_loop n num = n + length (decimal (unat num))"
proof (induction n num rule: uint_len_loop.induct)
  case (1 n num)
  have div: "unat (num div 10) = unat num div 10" by (simp add: unat_div)
  show ?case
  proof (cases "unat num < 10")
    case True
    then have "unat (num div 10) = 0" using div by simp
    then have "num div 10 = 0" by (simp only: unat_eq_zero)
    with "1.prems" True show ?thesis
      by (simp add: uint_len_loop.simps [of n num] uint_len_loop.simps [of "Suc n" 0]
            decimal.simps [of "unat num"])
  next
    case False
    then have "unat (num div 10) \<noteq> 0" using div by simp
    then have "num div 10 \<noteq> 0" by (simp only: unat_eq_zero simp_thms)
    with "1.IH" "1.prems" False div show ?thesis
      by (simp add: uint_len_loop.simps [of n num] decimal.simps [of "unat num"])
  qed
qed

lemma uint_len_decimal [simp]: "uint_len num = length (decimal (unat num))"
  by (cases "num = 0") (simp_all add: uint_len_def uint_len_loop_decimal decimal.simps [of 0])

text \<open>
  \<open>gettimeofday\<close> is the parameter of the clock: \<open>None\<close> for a failing call, otherwise the
  seconds and microseconds. C's integer division truncates towards zero.
\<close>

definition hi_usec_now :: "(int \<times> int) option \<Rightarrow> int" where
  "hi_usec_now tod = (case tod of None \<Rightarrow> -1 | Some (sec, usec) \<Rightarrow> sec * 1000000 + usec)"

definition c_div :: "int \<Rightarrow> int \<Rightarrow> int" where
  "c_div a b = sgn a * sgn b * (\<bar>a\<bar> div \<bar>b\<bar>)"

definition hi_msec_now :: "(int \<times> int) option \<Rightarrow> int" where
  "hi_msec_now tod = c_div (hi_usec_now tod) 1000"

section \<open>Properties\<close>

text \<open>
  C35. For every non-zero \<open>int\<close> but the least one, \<open>_hi_itoa\<close> stays inside a buffer of 12 bytes and leaves
  there the zero-terminated decimal numeral with its sign; \<open>_hi_atoi\<close> reads a positive one back.
\<close>

theorem hi_itoa_roundtrip:
  assumes "num \<noteq> 0" and "\<bar>num\<bar> < 2 ^ 31" and "12 \<le> length s"
  shows "\<exists>t. hi_itoa s num = Some t \<and> length t = length s \<and>
           cstr t = (if num < 0 then ''-'' else []) @ decimal (nat \<bar>num\<bar>) \<and>
           hi_atoi (cstr t) = (if num < 0 then -1 else num)"
proof -
  obtain rest where t: "hi_itoa s num = Some ((if num < 0 then ''-'' else []) @ decimal (nat \<bar>num\<bar>) @ NUL # rest)"
    and len: "length (the (hi_itoa s num)) = length s"
    using hi_itoa_buffer [OF assms] by blast
  have c: "cstr (the (hi_itoa s num)) = (if num < 0 then ''-'' else []) @ decimal (nat \<bar>num\<bar>)"
    using cstr_append_NUL [of "(if num < 0 then ''-'' else []) @ decimal (nat \<bar>num\<bar>)" rest] t by simp
  have "hi_atoi (decimal (nat \<bar>num\<bar>)) = \<bar>num\<bar>" using assms(2) by (subst hi_atoi_decimal) auto
  moreover have "hi_atoi (''-'' @ decimal (nat \<bar>num\<bar>)) = -1" by (simp add: hi_atoi_def ord_of_def)
  ultimately show ?thesis using t len c assms(1) by (cases "num < 0") auto
qed

theorem hi_itoa_roundtrip_witness:
  "\<exists>t. hi_itoa (replicate 12 NUL) 16383 = Some t \<and> hi_atoi (cstr t) = 16383"
  using hi_itoa_roundtrip [of 16383 "replicate 12 NUL"] by auto

text \<open>
  \<open>_hi_itoa\<close> does not terminate the numeral of zero: what the buffer held behind its first byte
  stays part of the string, so that zero over ``1000'' reads as ``0000'' and over ``27'' as ``07''.
\<close>

theorem hi_itoa_zero_keeps_rest: "hi_itoa (c # s) 0 = Some (CHR ''0'' # s)"
  by (simp add: hi_itoa_def buf_set_def)

text \<open>
  \<open>_uint_len\<close> is the number of digits of the decimal numeral, for every 32-bit value.
\<close>

theorem uint_len_is_digit_count: "uint_len num = length (decimal (unat num)) \<and> 1 \<le> uint_len num \<and> uint_len num \<le> 10"
proof -
  have "unat num < 2 ^ LENGTH(32)" by (rule unsigned_less)
  then have "unat num < 10 ^ Suc 9" by simp
  then have "length (decimal (unat num)) \<le> 10" using length_decimal_le [of "unat num" 9] by simp
  moreover have "1 \<le> length (decimal (unat num))" by (simp add: Suc_le_eq)
  ultimately show ?thesis by simp
qed

end
