(* ===== verification/Dict.thy ===== *)
theory Dict
  imports Cluster_Prelude "HOL-Library.Multiset"
begin

unbundle bit_operations_syntax

text \<open>
  The hash table of \<^verbatim>\<open>dict.c\<close> and the sds key functions of \<^verbatim>\<open>hircluster.c\<close>. A bucket is
  the list of its chained entries, newest first; the table is the list of buckets. The
  invariant \<open>dict_wf\<close> says that the size is zero or a power of two, that every entry is in the
  bucket its hash selects, that no key occurs twice and that \<open>d_used\<close> counts the entries.
  Under it the operations implement a finite map: \<open>dictFind\<close> is lookup in \<open>dict_map\<close>,
  \<open>dictAdd\<close> extends it, growing the table moves entries but loses none.
\<close>

section \<open>The table and its operations\<close>

datatype dict_status = DICT_OK | DICT_ERR

record ('k, 'v) dictType =
  hashFunction :: "'k \<Rightarrow> u32"
  keyDup :: "('k \<Rightarrow> 'k) option"
  valDup :: "('v \<Rightarrow> 'v) option"
  keyCompare :: "('k \<Rightarrow> 'k \<Rightarrow> bool) option"
  keyDestructor :: bool
  valDestructor :: bool

record ('k, 'v) dict =
  d_table :: "('k \<times> 'v) list list"
  d_type :: "('k, 'v) dictType"
  d_size :: nat
  d_sizemask :: nat
  d_used :: nat

abbreviation (input) DICT_HT_INITIAL_SIZE :: nat where "DICT_HT_INITIAL_SIZE \<equiv> 4"
abbreviation (input) LONG_MAX :: nat where "LONG_MAX \<equiv> 2 ^ 63 - 1"

definition dictGenHashFunction :: "string \<Rightarrow> u32" where
  "dictGenHashFunction buf =
     foldl (\<lambda>hash c. (push_bit 5 hash + hash) + word_of_nat (ord_of c)) 5381 buf"

definition dictCompareHashKeys :: "('k, 'v) dict \<Rightarrow> 'k \<Rightarrow> 'k \<Rightarrow> bool" where
  "dictCompareHashKeys ht key1 key2 =
     (case keyCompare (d_type ht) of Some cmp \<Rightarrow> cmp key1 key2 | None \<Rightarrow> key1 = key2)"

text \<open>\<open>dictHashKey(ht, key) & sizemask\<close>, kept in an \<open>unsigned int\<close>.\<close>

definition hash_index :: "('k, 'v) dictType \<Rightarrow> nat \<Rightarrow> 'k \<Rightarrow> nat" where
  "hash_index t sizemask key = unat (hashFunction t key AND word_of_nat sizemask)"

definition dictReset :: "('k, 'v) dict \<Rightarrow> ('k, 'v) dict" where
  "dictReset ht = ht\<lparr>d_table := [], d_size := 0, d_sizemask := 0, d_used := 0\<rparr>"

definition dictInit :: "('k, 'v) dictType \<Rightarrow> ('k, 'v) dict" where
  "dictInit t = \<lparr>d_table = [], d_type = t, d_size = 0, d_sizemask = 0, d_used = 0\<rparr>"

definition dictCreate :: "('k, 'v) dictType \<Rightarrow> alloc \<Rightarrow> ('k, 'v) dict option \<times> alloc" where
  "dictCreate t al =
     (case hi_alloc al of (False, al1) \<Rightarrow> (None, al1) | (True, al1) \<Rightarrow> (Some (dictInit t), al1))"

text \<open>Doubling from the initial size (a loop from 0 would not move; it starts at 4).\<close>

function next_power_loop :: "nat \<Rightarrow> nat \<Rightarrow> nat" where
  "next_power_loop i sz = (if i \<ge> sz \<or> i = 0 then i else next_power_loop (i * 2) sz)"
  by pat_completeness auto
termination
  by (relation "measure (\<lambda>(i, sz). sz - i)") auto

declare next_power_loop.simps [simp del]

definition dictNextPower :: "nat \<Rightarrow> nat" where
  "dictNextPower sz = (if sz \<ge> LONG_MAX then LONG_MAX else next_power_loop DICT_HT_INITIAL_SIZE sz)"

text \<open>Moving the entries of one chain, then of all buckets, to the new table.\<close>

fun rehash_chain ::
  "('k, 'v) dictType \<Rightarrow> nat \<Rightarrow> ('k \<times> 'v) list \<Rightarrow> ('k \<times> 'v) list list \<times> nat \<Rightarrow> ('k \<times> 'v) list list \<times> nat" where
  "rehash_chain t m [] (tab, used) = (tab, used)"
| "rehash_chain t m (he # es) (tab, used) =
     (let h = hash_index t m (fst he)
      in rehash_chain t m es (tab[h := he # tab ! h], used - 1))"

fun rehash_table ::
  "('k, 'v) dictType \<Rightarrow> nat \<Rightarrow> ('k \<times> 'v) list list \<Rightarrow> ('k \<times> 'v) list list \<times> nat \<Rightarrow> ('k \<times> 'v) list list \<times> nat" where
  "rehash_table t m [] (tab, used) = (tab, used)"
| "rehash_table t m (b # bs) (tab, used) =
     (if used > 0 then rehash_table t m bs (rehash_chain t m b (tab, used)) else (tab, used))"

text \<open>\<open>None\<close>: the assertion that every entry has been moved fails.\<close>

definition dictExpand ::
  "('k, 'v) dict \<Rightarrow> nat \<Rightarrow> alloc \<Rightarrow> (dict_status \<times> ('k, 'v) dict \<times> alloc) option" where
  "dictExpand ht sz al =
     (let realsize = dictNextPower sz
      in if d_used ht > sz then Some (DICT_ERR, ht, al)
         else
           (case hi_alloc al of
              (False, al1) \<Rightarrow> Some (DICT_ERR, ht, al1)
            | (True, al1) \<Rightarrow>
                (let msk = realsize - 1;
                     (tab, left) = rehash_table (d_type ht) msk (d_table ht) (replicate realsize [], d_used ht)
                 in if left \<noteq> 0 then None
                    else Some (DICT_OK,
                           \<lparr>d_table = tab, d_type = d_type ht, d_size = realsize, d_sizemask = msk,
                            d_used = d_used ht\<rparr>, al1))))"

definition dictExpandIfNeeded ::
  "('k, 'v) dict \<Rightarrow> alloc \<Rightarrow> (dict_status \<times> ('k, 'v) dict \<times> alloc) option" where
  "dictExpandIfNeeded ht al =
     (if d_size ht = 0 then dictExpand ht DICT_HT_INITIAL_SIZE al
      else if d_used ht = d_size ht then dictExpand ht (d_size ht * 2) al
      else Some (DICT_OK, ht, al))"

definition dictKeyIndex :: "('k, 'v) dict \<Rightarrow> 'k \<Rightarrow> alloc \<Rightarrow> (int \<times> ('k, 'v) dict \<times> alloc) option" where
  "dictKeyIndex ht key al =
     (case dictExpandIfNeeded ht al of
        None \<Rightarrow> None
      | Some (DICT_ERR, ht1, al1) \<Rightarrow> Some (-1, ht1, al1)
      | Some (DICT_OK, ht1, al1) \<Rightarrow>
          (let h = hash_index (d_type ht1) (d_sizemask ht1) key
           in if \<exists>he \<in> set (d_table ht1 ! h). dictCompareHashKeys ht1 key (fst he)
              then Some (-1, ht1, al1)
              else Some (sint (word_of_nat h :: 32 word), ht1, al1)))"

text \<open>\<open>None\<close>: a negative index other than -1 would address memory before the table.\<close>

definition dictAdd ::
  "('k, 'v) dict \<Rightarrow> 'k \<Rightarrow> 'v \<Rightarrow> alloc \<Rightarrow> (dict_status \<times> ('k, 'v) dict \<times> alloc) option" where
  "dictAdd ht key val al =
     (case dictKeyIndex ht key al of
        None \<Rightarrow> None
      | Some (index, ht1, al1) \<Rightarrow>
          if index = -1 then Some (DICT_ERR, ht1, al1)
          else
            (case hi_alloc al1 of
               (False, al2) \<Rightarrow> Some (DICT_ERR, ht1, al2)
             | (True, al2) \<Rightarrow>
                 if index < 0 then None
                 else
                   (let i = nat index;
                        key' = (case keyDup (d_type ht1) of Some f \<Rightarrow> f key | None \<Rightarrow> key);
                        val' = (case valDup (d_type ht1) of Some f \<Rightarrow> f val | None \<Rightarrow> val)
                    in Some (DICT_OK,
                         ht1\<lparr>d_table := (d_table ht1)[i := (key', val') # d_table ht1 ! i],
                             d_used := d_used ht1 + 1\<rparr>, al2))))"

fun chain_find :: "('k \<Rightarrow> bool) \<Rightarrow> ('k \<times> 'v) list \<Rightarrow> ('k \<times> 'v) option" where
  "chain_find eq [] = None"
| "chain_find eq (he # es) = (if eq (fst he) then Some he else chain_find eq es)"

definition dictFind :: "('k, 'v) dict \<Rightarrow> 'k \<Rightarrow> ('k \<times> 'v) option" where
  "dictFind ht key =
     (if d_size ht = 0 then None
      else chain_find (dictCompareHashKeys ht key)
             (d_table ht ! hash_index (d_type ht) (d_sizemask ht) key))"

text \<open>Storing through a found entry, as \<open>dictSetHashVal(ht, de, val)\<close> does.\<close>

definition dictSetVal :: "('k, 'v) dict \<Rightarrow> 'k \<Rightarrow> 'v \<Rightarrow> ('k, 'v) dict" where
  "dictSetVal ht key val =
     ht\<lparr>d_table := map (map (\<lambda>he. if fst he = key then (fst he, val) else he)) (d_table ht)\<rparr>"

text \<open>
  \<open>dictRelease\<close> frees every entry: the keys and values handed to the destructors, in order.
  The loop stops early once \<open>used\<close> entries have been freed.
\<close>

fun clear_buckets :: "('k \<times> 'v) list list \<Rightarrow> nat \<Rightarrow> ('k \<times> 'v) list" where
  "clear_buckets [] used = []"
| "clear_buckets (b # bs) used = (if used > 0 then b @ clear_buckets bs (used - length b) else [])"

definition dictRelease :: "('k, 'v) dict \<Rightarrow> 'k list \<times> 'v list" where
  "dictRelease ht =
     (let es = clear_buckets (d_table ht) (d_used ht)
      in (if keyDestructor (d_type ht) then map fst es else [],
          if valDestructor (d_type ht) then map snd es else []))"

section \<open>Iteration\<close>

text \<open>
  The entry pointers of an iterator are the rest of the chain they point into; the table it
  walks over (\<open>iter->ht\<close>) is an argument.
\<close>

record ('k, 'v) dictIterator =
  di_index :: int
  di_entry :: "('k \<times> 'v) list"
  di_nextEntry :: "('k \<times> 'v) list"

definition dictInitIterator :: "('k, 'v) dictIterator" where
  "dictInitIterator = \<lparr>di_index = -1, di_entry = [], di_nextEntry = []\<rparr>"

function dictNext ::
  "('k, 'v) dict \<Rightarrow> ('k, 'v) dictIterator \<Rightarrow> ('k \<times> 'v) option \<times> ('k, 'v) dictIterator" where
  "dictNext ht iter =
     (if di_entry iter = [] then
        (let i = di_index iter + 1
         in if i \<ge> int (d_size ht) then (None, iter\<lparr>di_index := i\<rparr>)
            else
              (case d_table ht ! nat i of
                 [] \<Rightarrow> dictNext ht (iter\<lparr>di_index := i, di_entry := []\<rparr>)
               | he # es \<Rightarrow> (Some he, iter\<lparr>di_index := i, di_entry := he # es, di_nextEntry := es\<rparr>)))
      else
        (case di_nextEntry iter of
           [] \<Rightarrow> dictNext ht (iter\<lparr>di_entry := []\<rparr>)
         | he # es \<Rightarrow> (Some he, iter\<lparr>di_entry := he # es, di_nextEntry := es\<rparr>)))"
  by pat_completeness auto
termination
  by (relation "measures [\<lambda>(ht, iter). nat (int (d_size ht) - di_index iter), \<lambda>(ht, iter). length (di_entry iter)]")
    auto

declare dictNext.simps [simp del]

definition dict_entries :: "('k, 'v) dict \<Rightarrow> ('k \<times> 'v) list" where
  "dict_entries ht = concat (d_table ht)"

definition dict_map :: "('k, 'v) dict \<Rightarrow> ('k \<rightharpoonup> 'v)" where
  "dict_map ht = map_of (dict_entries ht)"

text \<open>The loop \<open>while ((de = dictNext(&di)) != NULL)\<close>, as the list of the entries it sees.\<close>

fun iter_upto :: "nat \<Rightarrow> ('k, 'v) dict \<Rightarrow> ('k, 'v) dictIterator \<Rightarrow> ('k \<times> 'v) list" where
  "iter_upto 0 ht iter = []"
| "iter_upto (Suc n) ht iter =
     (case dictNext ht iter of (None, _) \<Rightarrow> [] | (Some he, iter') \<Rightarrow> he # iter_upto n ht iter')"

section \<open>The invariant\<close>

definition plain_type :: "('k, 'v) dictType \<Rightarrow> bool" where
  "plain_type t \<longleftrightarrow> keyDup t = None \<and> valDup t = None \<and>
     (case keyCompare t of None \<Rightarrow> True | Some cmp \<Rightarrow> \<forall>k k'. cmp k k' \<longleftrightarrow> k = k')"

definition buckets_ok :: "('k, 'v) dictType \<Rightarrow> nat \<Rightarrow> ('k \<times> 'v) list list \<Rightarrow> bool" where
  "buckets_ok t msk tab \<longleftrightarrow>
     (\<forall>i < length tab. \<forall>he \<in> set (tab ! i). hash_index t msk (fst he) = i)"

definition dict_wf :: "('k, 'v) dict \<Rightarrow> bool" where
  "dict_wf ht \<longleftrightarrow> plain_type (d_type ht) \<and> length (d_table ht) = d_size ht \<and>
     (d_size ht = 0 \<or> (\<exists>k \<le> 31. d_size ht = 2 ^ k) \<and> d_sizemask ht = d_size ht - 1) \<and>
     buckets_ok (d_type ht) (d_sizemask ht) (d_table ht) \<and>
     distinct (map fst (dict_entries ht)) \<and> d_used ht = length (dict_entries ht) \<and>
     d_used ht \<le> d_size ht"

lemma plain_typeD:
  "plain_type (d_type ht) \<Longrightarrow> dictCompareHashKeys ht k k' \<longleftrightarrow> k = k'"
  by (auto simp: plain_type_def dictCompareHashKeys_def split: option.splits)

lemma hash_index_less:
  assumes "k \<le> 31"
  shows "hash_index t (2 ^ k - 1) key < 2 ^ k"
proof -
  have k32: "(2 :: nat) ^ k \<le> 2 ^ 31" using assms by (intro power_increasing) auto
  have "unat (hashFunction t key AND word_of_nat (2 ^ k - 1)) \<le> unat (word_of_nat (2 ^ k - 1) :: u32)"
    using word_and_le1 word_le_nat_alt by blast
  also have "\<dots> = 2 ^ k - 1" using k32 by (intro unat_u32_of_nat) simp
  finally have "hash_index t (2 ^ k - 1) key \<le> 2 ^ k - 1" by (simp add: hash_index_def)
  moreover have "(0 :: nat) < 2 ^ k" by simp
  ultimately show ?thesis by linarith
qed

lemma chain_find_map_of:
  assumes "\<And>k'. eq k' \<longleftrightarrow> key = k'"
  shows "chain_find eq es = map_option (\<lambda>v. (key, v)) (map_of es key)"
  by (induction es) (auto simp: assms)

text \<open>Only the bucket a key hashes to can hold it.\<close>

lemma map_of_concat_bucket:
  assumes "buckets_ok t msk tab" and "hash_index t msk key < length tab"
  shows "map_of (concat tab) key = map_of (tab ! hash_index t msk key) key"
proof -
  let ?h = "hash_index t msk key"
  have other: "map_of (tab ! i) key = None" if "i < length tab" "i \<noteq> ?h" for i
    using assms(1) that by (fastforce simp: buckets_ok_def map_of_eq_None_iff)
  have none: "map_of (concat xs) key = None" if "\<forall>b \<in> set xs. map_of b key = None" for xs :: "('a \<times> 'b) list list"
    using that by (induction xs) (auto simp: map_add_def)
  have "tab = take ?h tab @ tab ! ?h # drop (Suc ?h) tab"
    using assms(2) by (rule id_take_nth_drop)
  then have "concat tab = concat (take ?h tab) @ tab ! ?h @ concat (drop (Suc ?h) tab)"
    by (metis concat.simps(2) concat_append)
  moreover have "map_of (concat (take ?h tab)) key = None"
    using other by (intro none) (auto simp: in_set_conv_nth)
  moreover have "map_of (concat (drop (Suc ?h) tab)) key = None"
    using other by (intro none) (auto simp: in_set_conv_nth)
  ultimately show ?thesis by (simp add: map_add_def split: option.splits)
qed

lemma dictFind_map:
  assumes "dict_wf ht"
  shows "dictFind ht key = map_option (\<lambda>v. (key, v)) (dict_map ht key)"
proof (cases "d_size ht = 0")
  case True
  with assms show ?thesis by (simp add: dictFind_def dict_map_def dict_entries_def dict_wf_def)
next
  case False
  with assms obtain k where k: "k \<le> 31" "d_size ht = 2 ^ k" "d_sizemask ht = 2 ^ k - 1"
    by (auto simp: dict_wf_def)
  then have "hash_index (d_type ht) (d_sizemask ht) key < length (d_table ht)"
    using assms hash_index_less [of k] by (simp add: dict_wf_def)
  moreover have "buckets_ok (d_type ht) (d_sizemask ht) (d_table ht)" "plain_type (d_type ht)"
    using assms by (auto simp: dict_wf_def)
  ultimately show ?thesis
    using False chain_find_map_of [of "dictCompareHashKeys ht key" key]
    by (auto simp: dictFind_def dict_map_def dict_entries_def map_of_concat_bucket plain_typeD)
qed

section \<open>Growing\<close>

lemma next_power_loop_pow:
  assumes "0 < k" "sz \<le> 2 ^ n" "k \<le> n"
  shows "\<exists>m. k \<le> m \<and> m \<le> n \<and> next_power_loop (2 ^ k) sz = 2 ^ m \<and> sz \<le> 2 ^ m \<and> (k < m \<longrightarrow> 2 ^ (m - 1) < sz)"
  using assms
proof (induction "n - k" arbitrary: k)
  case 0
  then show ?case by (subst next_power_loop.simps) auto
next
  case (Suc d)
  show ?case
  proof (cases "sz \<le> 2 ^ k")
    case True
    with Suc.prems show ?thesis by (subst next_power_loop.simps) auto
  next
    case False
    have step: "next_power_loop (2 ^ k) sz = next_power_loop (2 ^ Suc k) sz"
      using False by (subst next_power_loop.simps) (simp add: mult.commute)
    have "d = n - Suc k" "Suc k \<le> n" using Suc.hyps(2) by linarith+
    then obtain m where "Suc k \<le> m" "m \<le> n" "next_power_loop (2 ^ Suc k) sz = 2 ^ m" "sz \<le> 2 ^ m"
      "Suc k < m \<longrightarrow> 2 ^ (m - 1) < sz"
      using Suc.hyps(1) [of "Suc k"] Suc.prems by auto
    moreover have "2 ^ (m - 1) < sz" if "m = Suc k" using that False by simp
    ultimately show ?thesis using step by (intro exI [of _ m]) (auto simp: le_less)
  qed
qed

lemma dictNextPower_pow:
  assumes "sz \<le> 2 ^ 31"
  shows "\<exists>m. 2 \<le> m \<and> m \<le> 31 \<and> dictNextPower sz = 2 ^ m \<and> sz \<le> 2 ^ m"
proof -
  have "\<not> LONG_MAX \<le> sz" using assms by simp
  moreover have "next_power_loop 4 sz = next_power_loop (2 ^ 2) sz" by simp
  ultimately show ?thesis
    using next_power_loop_pow [of 2 sz 31] assms by (auto simp: dictNextPower_def)
qed

lemma buckets_ok_cons:
  assumes "buckets_ok t msk tab" and "hash_index t msk (fst he) < length tab"
  shows "buckets_ok t msk (tab[hash_index t msk (fst he) := he # tab ! hash_index t msk (fst he)])"
  using assms by (auto simp: buckets_ok_def nth_list_update)

lemma concat_cons_mset:
  "i < length tab \<Longrightarrow> mset (concat (tab[i := x # tab ! i])) = add_mset x (mset (concat tab))"
proof -
  assume i: "i < length tab"
  have "tab = take i tab @ tab ! i # drop (Suc i) tab" using i by (rule id_take_nth_drop)
  then have "mset (concat tab) = mset (concat (take i tab)) + mset (tab ! i) + mset (concat (drop (Suc i) tab))"
    by (metis add.assoc concat.simps(2) concat_append mset_append)
  with i show ?thesis by (simp add: upd_conv_take_nth_drop)
qed

lemma rehash_chain_spec:
  assumes "\<And>k. hash_index t m k < length tab"
  shows "\<exists>tab'. rehash_chain t m es (tab, used) = (tab', used - length es) \<and> length tab' = length tab \<and>
           mset (concat tab') = mset es + mset (concat tab) \<and> (buckets_ok t m tab \<longrightarrow> buckets_ok t m tab')"
  using assms
proof (induction es arbitrary: tab used)
  case Nil
  then show ?case by simp
next
  case (Cons he es)
  let ?h = "hash_index t m (fst he)"
  let ?tab = "tab[?h := he # tab ! ?h]"
  have "?h < length tab" using Cons.prems .
  obtain tab' where "rehash_chain t m es (?tab, used - 1) = (tab', used - 1 - length es)"
    "length tab' = length tab" "mset (concat tab') = mset es + mset (concat ?tab)"
    "buckets_ok t m ?tab \<longrightarrow> buckets_ok t m tab'"
    using Cons.IH [of ?tab "used - 1"] Cons.prems by auto
  with Cons.prems [of "fst he"] show ?case
    by (auto simp: Let_def concat_cons_mset intro: buckets_ok_cons)
qed

lemma rehash_table_spec:
  assumes "\<And>k. hash_index t m k < length tab" and "used = length (concat old)"
  shows "\<exists>tab'. rehash_table t m old (tab, used) = (tab', 0) \<and> length tab' = length tab \<and>
           mset (concat tab') = mset (concat old) + mset (concat tab) \<and> (buckets_ok t m tab \<longrightarrow> buckets_ok t m tab')"
  using assms
proof (induction old arbitrary: tab used)
  case Nil
  then show ?case by simp
next
  case (Cons b old)
  show ?case
  proof (cases "used > 0")
    case False
    with Cons.prems show ?thesis by simp
  next
    case True
    obtain tab1 where 1: "rehash_chain t m b (tab, used) = (tab1, used - length b)" "length tab1 = length tab"
      "mset (concat tab1) = mset b + mset (concat tab)" "buckets_ok t m tab \<longrightarrow> buckets_ok t m tab1"
      using rehash_chain_spec [of t m tab b used] Cons.prems(1) by auto
    obtain tab2 where "rehash_table t m old (tab1, used - length b) = (tab2, 0)" "length tab2 = length tab1"
      "mset (concat tab2) = mset (concat old) + mset (concat tab1)" "buckets_ok t m tab1 \<longrightarrow> buckets_ok t m tab2"
      using Cons.IH [of tab1 "used - length b"] Cons.prems 1(2) by auto
    with 1 True show ?thesis by auto
  qed
qed

lemma map_of_mset_eq:
  assumes "mset xs = mset ys" and "distinct (map fst xs)"
  shows "map_of xs = map_of ys \<and> distinct (map fst ys)"
proof -
  have d: "distinct (map fst ys)"
    using assms by (metis mset_eq_imp_distinct_iff mset_map)
  moreover have "set xs = set ys" using assms(1) by (rule mset_eq_setD)
  ultimately show ?thesis using assms(2) map_of_inject_set by blast
qed

lemma dictExpand_wf:
  assumes wf: "dict_wf ht" and sz: "sz \<le> 2 ^ 31" and used: "d_used ht \<le> sz"
  shows "\<exists>st ht' al'. dictExpand ht sz al = Some (st, ht', al') \<and> dict_wf ht' \<and>
           dict_map ht' = dict_map ht \<and> d_used ht' = d_used ht \<and> d_type ht' = d_type ht \<and>
           (st = DICT_OK \<longrightarrow> sz \<le> d_size ht' \<and> d_size ht' \<noteq> 0 \<and> d_size ht' = dictNextPower sz) \<and>
           (st = DICT_ERR \<longrightarrow> ht' = ht) \<and> (no_oom al \<longrightarrow> st = DICT_OK \<and> no_oom al')"
proof -
  obtain m where m: "2 \<le> m" "m \<le> 31" "dictNextPower sz = 2 ^ m" "sz \<le> 2 ^ m"
    using dictNextPower_pow [OF sz] by blast
  obtain b al1 where al: "hi_alloc al = (b, al1)" by (cases "hi_alloc al")
  show ?thesis
  proof (cases b)
    case False
    with al used wf show ?thesis
      using hi_alloc_no_oom(1) [of al] by (auto simp: dictExpand_def Let_def)
  next
    case True
    let ?t = "d_type ht" and ?msk = "2 ^ m - 1 :: nat"
    have "\<And>k. hash_index ?t ?msk k < length (replicate (2 ^ m) ([] :: ('a \<times> 'b) list))"
      using hash_index_less [OF m(2)] by simp
    then obtain tab where tab: "rehash_table ?t ?msk (d_table ht) (replicate (2 ^ m) [], d_used ht) = (tab, 0)"
      "length tab = 2 ^ m" "mset (concat tab) = mset (dict_entries ht)" "buckets_ok ?t ?msk tab"
      using rehash_table_spec [of ?t ?msk "replicate (2 ^ m) []" "d_used ht" "d_table ht"] wf
      by (auto simp: dict_wf_def dict_entries_def buckets_ok_def concat_replicate_trivial)
    let ?ht = "\<lparr>d_table = tab, d_type = ?t, d_size = 2 ^ m, d_sizemask = ?msk, d_used = d_used ht\<rparr>"
    have res: "dictExpand ht sz al = Some (DICT_OK, ?ht, al1)"
      using al True used tab(1) m(3) by (simp add: dictExpand_def Let_def)
    have "distinct (map fst (dict_entries ht))" using wf by (simp add: dict_wf_def)
    then have maps: "map_of (concat tab) = dict_map ht" "distinct (map fst (concat tab))"
      using map_of_mset_eq [OF tab(3) [symmetric]] by (auto simp: dict_map_def)
    have "d_used ht = length (concat tab)"
      using wf tab(3) by (metis dict_wf_def size_mset)
    then have "dict_wf ?ht"
      using wf tab m maps used by (auto simp: dict_wf_def dict_entries_def)
    moreover have "dict_map ?ht = dict_map ht" using maps by (simp add: dict_map_def dict_entries_def)
    ultimately show ?thesis using res m al True hi_alloc_no_oom(2) [of al] by auto
  qed
qed

text \<open>After \<open>dictExpandIfNeeded\<close> there is room for one more entry.\<close>

lemma dictExpandIfNeeded_wf:
  assumes wf: "dict_wf ht" and used: "d_used ht < 2 ^ 30"
  shows "\<exists>st ht' al'. dictExpandIfNeeded ht al = Some (st, ht', al') \<and> dict_wf ht' \<and>
           dict_map ht' = dict_map ht \<and> d_used ht' = d_used ht \<and> d_type ht' = d_type ht \<and>
           (st = DICT_OK \<longrightarrow> d_used ht' < d_size ht') \<and> (no_oom al \<longrightarrow> st = DICT_OK \<and> no_oom al')"
proof (cases "d_size ht = 0 \<or> d_used ht = d_size ht")
  case False
  with wf show ?thesis by (auto simp: dictExpandIfNeeded_def dict_wf_def)
next
  case True
  define sz where "sz = (if d_size ht = 0 then 4 else d_size ht * 2)"
  have le: "d_used ht < sz" "sz \<le> 2 ^ 31"
    using True wf used by (auto simp: sz_def dict_wf_def)
  have "dictExpandIfNeeded ht al = dictExpand ht sz al"
    using True by (auto simp: dictExpandIfNeeded_def sz_def)
  with dictExpand_wf [OF wf le(2), of al] le show ?thesis by fastforce
qed

lemma dictAdd_wf:
  assumes wf: "dict_wf ht" and used: "d_used ht < 2 ^ 30"
  shows "\<exists>st ht' al'. dictAdd ht key val al = Some (st, ht', al') \<and> dict_wf ht' \<and> d_type ht' = d_type ht \<and>
           dict_map ht' = (if st = DICT_OK then (dict_map ht)(key \<mapsto> val) else dict_map ht) \<and>
           d_used ht' = (if st = DICT_OK then d_used ht + 1 else d_used ht) \<and>
           (st = DICT_OK \<longrightarrow> dict_map ht key = None) \<and>
           (no_oom al \<longrightarrow> no_oom al' \<and> (st = DICT_OK \<longleftrightarrow> dict_map ht key = None))"
proof -
  obtain st1 ht1 al1 where e: "dictExpandIfNeeded ht al = Some (st1, ht1, al1)" and wf1: "dict_wf ht1"
    and map1: "dict_map ht1 = dict_map ht" and used1: "d_used ht1 = d_used ht" and ty1: "d_type ht1 = d_type ht"
    and room: "st1 = DICT_OK \<longrightarrow> d_used ht1 < d_size ht1" and oom1: "no_oom al \<longrightarrow> st1 = DICT_OK \<and> no_oom al1"
    using dictExpandIfNeeded_wf [OF wf used, of al] by blast
  show ?thesis
  proof (cases st1)
    case DICT_ERR
    then have "dictAdd ht key val al = Some (DICT_ERR, ht1, al1)"
      using e by (simp add: dictAdd_def dictKeyIndex_def)
    with DICT_ERR wf1 map1 used1 ty1 oom1 show ?thesis by simp
  next
    case DICT_OK
    let ?h = "hash_index (d_type ht1) (d_sizemask ht1) key"
    have pos: "d_size ht1 \<noteq> 0" using room DICT_OK by simp
    with wf1 obtain k where k: "k \<le> 31" "d_size ht1 = 2 ^ k" "d_sizemask ht1 = 2 ^ k - 1"
      by (auto simp: dict_wf_def)
    have hlt: "?h < 2 ^ k" using hash_index_less [OF k(1)] k(3) by simp
    have len: "length (d_table ht1) = 2 ^ k" using wf1 k by (simp add: dict_wf_def)
    have ok: "buckets_ok (d_type ht1) (d_sizemask ht1) (d_table ht1)" and plain: "plain_type (d_type ht1)"
      using wf1 by (auto simp: dict_wf_def)
    have lookup: "dict_map ht key = map_of (d_table ht1 ! ?h) key"
      using map_of_concat_bucket [OF ok] hlt len map1 by (simp add: dict_map_def dict_entries_def)
    have present: "(\<exists>he \<in> set (d_table ht1 ! ?h). dictCompareHashKeys ht1 key (fst he)) \<longleftrightarrow> dict_map ht key \<noteq> None"
      unfolding lookup map_of_eq_None_iff using plain by (auto simp: plain_typeD)
    have "?h < 2 ^ 31" using hlt power_increasing [OF k(1), of "2 :: nat"] by simp
    then have idx: "sint (word_of_nat ?h :: 32 word) = int ?h" by (rule sint_u32_of_nat)
    show ?thesis
    proof (cases "dict_map ht key")
      case (Some v)
      then have "dictAdd ht key val al = Some (DICT_ERR, ht1, al1)"
        using e DICT_OK present by (simp add: dictAdd_def dictKeyIndex_def Let_def)
      with Some wf1 map1 used1 ty1 oom1 show ?thesis by simp
    next
      case None
      obtain b al2 where al2: "hi_alloc al1 = (b, al2)" by (cases "hi_alloc al1")
      have key_idx: "dictKeyIndex ht key al = Some (int ?h, ht1, al1)"
        using e DICT_OK present None idx by (simp add: dictKeyIndex_def Let_def)
      show ?thesis
      proof (cases b)
        case False
        then have "dictAdd ht key val al = Some (DICT_ERR, ht1, al2)"
          using key_idx al2 by (simp add: dictAdd_def)
        moreover have "\<not> no_oom al" using oom1 False al2 hi_alloc_no_oom(1) [of al1] by auto
        ultimately show ?thesis using wf1 map1 used1 ty1 by simp
      next
        case True
        let ?tab = "(d_table ht1)[?h := (key, val) # d_table ht1 ! ?h]"
        let ?ht = "ht1\<lparr>d_table := ?tab, d_used := d_used ht1 + 1\<rparr>"
        have res: "dictAdd ht key val al = Some (DICT_OK, ?ht, al2)"
          using key_idx al2 True plain by (simp add: dictAdd_def plain_type_def Let_def)
        have ms: "mset (concat ?tab) = add_mset (key, val) (mset (dict_entries ht1))"
          using concat_cons_mset [of ?h "d_table ht1" "(key, val)"] hlt len by (simp add: dict_entries_def)
        have fresh: "key \<notin> fst ` set (dict_entries ht1)"
          using None map1 by (metis dict_map_def map_of_eq_None_iff)
        have dist1: "distinct (map fst (dict_entries ht1))" using wf1 by (simp add: dict_wf_def)
        have perm: "mset ((key, val) # dict_entries ht1) = mset (concat ?tab)" using ms by simp
        have "distinct (map fst ((key, val) # dict_entries ht1))" using dist1 fresh by simp
        from map_of_mset_eq [OF perm this] have
          maps: "map_of (concat ?tab) = (dict_map ht1)(key \<mapsto> val)" "distinct (map fst (concat ?tab))"
          by (auto simp: dict_map_def)
        have "length (concat ?tab) = Suc (d_used ht1)"
          using arg_cong [OF ms, of size] wf1 by (simp add: dict_wf_def)
        moreover have "buckets_ok (d_type ht1) (d_sizemask ht1) ?tab"
          using buckets_ok_cons [OF ok, of "(key, val)"] hlt len by simp
        ultimately have "dict_wf ?ht"
          using wf1 maps(2) room DICT_OK by (auto simp: dict_wf_def dict_entries_def)
        moreover have "dict_map ?ht = (dict_map ht)(key \<mapsto> val)"
          using maps(1) map1 by (simp add: dict_map_def dict_entries_def)
        moreover have "no_oom al \<longrightarrow> no_oom al2"
          using oom1 al2 hi_alloc_no_oom(2) [of al1] by auto
        ultimately show ?thesis using res None used1 ty1 by simp
      qed
    qed
  qed
qed

lemma dictInit_wf: "plain_type t \<Longrightarrow> dict_wf (dictInit t) \<and> dict_map (dictInit t) = Map.empty"
  by (simp add: dict_wf_def dictInit_def dict_entries_def dict_map_def buckets_ok_def)

lemma dict_map_entries: "dict_wf ht \<Longrightarrow> (k, v) \<in> set (dict_entries ht) \<longleftrightarrow> dict_map ht k = Some v"
  by (simp add: dict_wf_def dict_map_def)

lemma dictRelease_all:
  assumes "dict_wf ht" "keyDestructor (d_type ht)" "valDestructor (d_type ht)"
  shows "dictRelease ht = (map fst (dict_entries ht), map snd (dict_entries ht))"
proof -
  have "clear_buckets bs (length (concat bs)) = concat bs" for bs :: "('a \<times> 'b) list list"
    by (induction bs) auto
  then have "clear_buckets (d_table ht) (d_used ht) = dict_entries ht"
    using assms by (simp add: dict_wf_def dict_entries_def)
  then show ?thesis using assms(2,3) by (simp add: dictRelease_def Let_def)
qed

section \<open>Iteration visits every entry once\<close>

definition iter_left :: "('k, 'v) dict \<Rightarrow> ('k, 'v) dictIterator \<Rightarrow> ('k \<times> 'v) list" where
  "iter_left ht iter =
     (if di_entry iter = [] then [] else di_nextEntry iter) @ concat (drop (nat (di_index iter + 1)) (d_table ht))"

lemma concat_drop_step:
  "i < length xs \<Longrightarrow> concat (drop i xs) = xs ! i @ concat (drop (Suc i) xs)"
  by (metis Cons_nth_drop_Suc concat.simps(2))

lemma dictNext_left:
  assumes "length (d_table ht) = d_size ht" and "-1 \<le> di_index iter"
  shows "case dictNext ht iter of
           (None, iter') \<Rightarrow> iter_left ht iter = []
         | (Some he, iter') \<Rightarrow> iter_left ht iter = he # iter_left ht iter' \<and> -1 \<le> di_index iter'"
  using assms
proof (induction ht iter rule: dictNext.induct)
  case (1 ht iter)
  let ?i = "di_index iter + 1"
  show ?case
  proof (cases "di_entry iter = []")
    case entry: True
    show ?thesis
    proof (cases "?i \<ge> int (d_size ht)")
      case True
      then have "length (d_table ht) \<le> nat ?i" using "1.prems" by simp
      with True entry show ?thesis by (subst dictNext.simps) (simp add: iter_left_def)
    next
      case False
      then have i: "nat ?i < length (d_table ht)" "nat (?i + 1) = Suc (nat ?i)" using "1.prems" by auto
      show ?thesis
      proof (cases "d_table ht ! nat ?i")
        case Nil
        then have "dictNext ht iter = dictNext ht (iter\<lparr>di_index := ?i, di_entry := []\<rparr>)"
          using entry False by (subst dictNext.simps) (simp add: Let_def)
        moreover have "iter_left ht iter = iter_left ht (iter\<lparr>di_index := ?i, di_entry := []\<rparr>)"
          using entry i concat_drop_step [OF i(1)] Nil by (simp add: iter_left_def)
        moreover have "-1 \<le> di_index (iter\<lparr>di_index := ?i, di_entry := []\<rparr>)" using "1.prems" by simp
        ultimately show ?thesis
          using "1.IH"(1) [OF entry refl False Nil "1.prems"(1)] by (simp only:)
      next
        case (Cons he es)
        then have "dictNext ht iter = (Some he, iter\<lparr>di_index := ?i, di_entry := he # es, di_nextEntry := es\<rparr>)"
          using entry False by (subst dictNext.simps) (simp add: Let_def)
        with entry i concat_drop_step [OF i(1)] Cons "1.prems" show ?thesis by (simp add: iter_left_def)
      qed
    qed
  next
    case False
    show ?thesis
    proof (cases "di_nextEntry iter")
      case Nil
      then have "dictNext ht iter = dictNext ht (iter\<lparr>di_entry := []\<rparr>)"
        using False by (subst dictNext.simps) simp
      moreover have "iter_left ht iter = iter_left ht (iter\<lparr>di_entry := []\<rparr>)"
        using Nil by (simp add: iter_left_def)
      moreover have "-1 \<le> di_index (iter\<lparr>di_entry := []\<rparr>)" using "1.prems" by simp
      ultimately show ?thesis using "1.IH"(2) [OF False Nil "1.prems"(1)] by (simp only:)
    next
      case (Cons he es)
      then have "dictNext ht iter = (Some he, iter\<lparr>di_entry := he # es, di_nextEntry := es\<rparr>)"
        using False by (subst dictNext.simps) simp
      with False Cons "1.prems" show ?thesis by (simp add: iter_left_def)
    qed
  qed
qed

lemma iter_upto_left:
  assumes "length (d_table ht) = d_size ht" and "-1 \<le> di_index iter"
  shows "iter_upto n ht iter = take n (iter_left ht iter)"
  using assms(2)
proof (induction n arbitrary: iter)
  case 0
  then show ?case by simp
next
  case (Suc n)
  obtain r iter' where nx: "dictNext ht iter = (r, iter')" by (cases "dictNext ht iter")
  show ?case
  proof (cases r)
    case None
    with dictNext_left [OF assms(1) Suc.prems] nx show ?thesis by simp
  next
    case (Some he)
    with dictNext_left [OF assms(1) Suc.prems] nx Suc.IH [of iter'] show ?thesis by simp
  qed
qed

lemma iter_upto_entries:
  "dict_wf ht \<Longrightarrow> iter_upto n ht dictInitIterator = take n (dict_entries ht)"
  using iter_upto_left [of ht dictInitIterator n]
  by (simp add: dict_wf_def dictInitIterator_def iter_left_def dict_entries_def)

section \<open>The interface of the table\<close>

locale finite_map =
  fixes inv :: "'d \<Rightarrow> bool" and lookup :: "'d \<Rightarrow> 'k \<Rightarrow> 'v option" and card :: "'d \<Rightarrow> nat"
    and add :: "'d \<Rightarrow> 'k \<Rightarrow> 'v \<Rightarrow> alloc \<Rightarrow> (dict_status \<times> 'd \<times> alloc) option" and limit :: nat
  assumes add_law: "inv d \<Longrightarrow> card d < limit \<Longrightarrow>
      \<exists>st d' al'. add d k v al = Some (st, d', al') \<and> inv d' \<and>
        lookup d' = (if st = DICT_OK then (lookup d)(k \<mapsto> v) else lookup d) \<and>
        card d' = (if st = DICT_OK then card d + 1 else card d) \<and>
        (st = DICT_OK \<longrightarrow> lookup d k = None) \<and>
        (no_oom al \<longrightarrow> no_oom al' \<and> (st = DICT_OK \<longleftrightarrow> lookup d k = None))"
begin

lemma add_keeps: "inv d \<Longrightarrow> card d < limit \<Longrightarrow> add d k v al = Some (st, d', al') \<Longrightarrow>
    lookup d k' = Some w \<Longrightarrow> lookup d' k' = Some w"
  using add_law [of d k v al] by (auto split: if_splits)

lemma add_ok_iff:
  assumes "inv d" "card d < limit" "no_oom al"
  shows "(\<exists>d' al'. add d k v al = Some (DICT_OK, d', al')) \<longleftrightarrow> lookup d k = None"
  using add_law [OF assms(1,2), of k v al] assms(3) by auto

fun add_all :: "'d \<Rightarrow> ('k \<times> 'v) list \<Rightarrow> alloc \<Rightarrow> (dict_status \<times> 'd \<times> alloc) option" where
  "add_all d [] al = Some (DICT_OK, d, al)"
| "add_all d (kv # kvs) al =
     (case add d (fst kv) (snd kv) al of
        None \<Rightarrow> None
      | Some (DICT_ERR, d', al') \<Rightarrow> Some (DICT_ERR, d', al')
      | Some (DICT_OK, d', al') \<Rightarrow> add_all d' kvs al')"

text \<open>Inserting new keys one by one stores them all; each is found afterwards.\<close>

lemma add_all_ok:
  assumes "inv d" and "card d + length kvs \<le> limit" and "no_oom al"
    and "distinct (map fst kvs)" and "\<forall>k \<in> fst ` set kvs. lookup d k = None"
  shows "\<exists>d' al'. add_all d kvs al = Some (DICT_OK, d', al') \<and> inv d' \<and> no_oom al' \<and>
           card d' = card d + length kvs \<and> lookup d' = lookup d ++ map_of kvs"
  using assms
proof (induction kvs arbitrary: d al)
  case Nil
  then show ?case by simp
next
  case (Cons kv kvs)
  have "card d < limit" "lookup d (fst kv) = None" using Cons.prems by auto
  then obtain d1 al1 where 1: "add d (fst kv) (snd kv) al = Some (DICT_OK, d1, al1)" "inv d1" "no_oom al1"
    "lookup d1 = (lookup d)(fst kv \<mapsto> snd kv)" "card d1 = card d + 1"
    using add_law [of d "fst kv" "snd kv" al] Cons.prems by auto
  have "\<forall>k \<in> fst ` set kvs. lookup d1 k = None"
  proof
    fix k assume k: "k \<in> fst ` set kvs"
    moreover have "fst kv \<notin> fst ` set kvs" using Cons.prems(4) by simp
    ultimately have "k \<noteq> fst kv" by metis
    with k show "lookup d1 k = None" using 1(4) Cons.prems(5) by auto
  qed
  moreover have "card d1 + length kvs \<le> limit" "distinct (map fst kvs)" using 1(5) Cons.prems by auto
  ultimately obtain d2 al2 where "add_all d1 kvs al1 = Some (DICT_OK, d2, al2)" "inv d2" "no_oom al2"
    "card d2 = card d1 + length kvs" "lookup d2 = lookup d1 ++ map_of kvs"
    using Cons.IH [OF 1(2) _ 1(3)] by blast
  moreover have "(lookup d)(fst kv \<mapsto> snd kv) ++ map_of kvs = lookup d ++ (map_of kvs)(fst kv \<mapsto> snd kv)"
  proof -
    have "map_of kvs (fst kv) = None" using Cons.prems(4) by (simp add: map_of_eq_None_iff)
    then show ?thesis by (auto simp: fun_eq_iff map_add_def split: option.splits)
  qed
  moreover have "map_of (kv # kvs) = (map_of kvs)(fst kv \<mapsto> snd kv)" by (cases kv) auto
  ultimately show ?case using 1 by (simp del: fun_upd_apply map_of.simps)
qed

end

interpretation dictmap: finite_map dict_wf dict_map d_used dictAdd "2 ^ 30"
proof (unfold_locales, goal_cases)
  case (1 d k v al)
  from dictAdd_wf [OF 1] show ?case by blast
qed

section \<open>Tables keyed by sds strings\<close>

definition dictSdsHash :: "string \<Rightarrow> u32" where
  "dictSdsHash key = dictGenHashFunction key"

definition dictSdsKeyCompare :: "string \<Rightarrow> string \<Rightarrow> bool" where
  "dictSdsKeyCompare key1 key2 = (if length key1 \<noteq> length key2 then False else key1 = key2)"

definition clusterNodesDictType :: "(string, 'v) dictType" where
  "clusterNodesDictType =
     \<lparr>hashFunction = dictSdsHash, keyDup = None, valDup = None, keyCompare = Some dictSdsKeyCompare,
      keyDestructor = True, valDestructor = True\<rparr>"

definition clusterNodesRefDictType :: "(string, 'v) dictType" where
  "clusterNodesRefDictType =
     \<lparr>hashFunction = dictSdsHash, keyDup = None, valDup = None, keyCompare = Some dictSdsKeyCompare,
      keyDestructor = True, valDestructor = False\<rparr>"

lemma plain_cluster_types [simp]:
  "plain_type clusterNodesDictType" "plain_type clusterNodesRefDictType"
  by (auto simp: plain_type_def clusterNodesDictType_def clusterNodesRefDictType_def dictSdsKeyCompare_def)

section \<open>Properties\<close>

text \<open>
  C25. Adding to a table keeps its invariant and extends the map it represents, growing the table when it
  is full: the new key is found with its value and every other key as before. An existing key is
  refused, and so is an addition that runs out of memory, without changing the map.
\<close>

theorem dictAdd_extends_map:
  assumes "dict_wf d" "d_used d < 2 ^ 30"
  shows "\<exists>st d' al'. dictAdd d k v al = Some (st, d', al') \<and> dict_wf d' \<and>
    (if st = DICT_OK then dict_map d k = None \<and> dictFind d' k = Some (k, v) \<and> (\<forall>k'. k' \<noteq> k \<longrightarrow> dictFind d' k' = dictFind d k')
     else \<forall>k'. dictFind d' k' = dictFind d k') \<and>
    (no_oom al \<longrightarrow> (st = DICT_OK \<longleftrightarrow> dictFind d k = None))"
proof -
  obtain st d' al' where a: "dictAdd d k v al = Some (st, d', al')" "dict_wf d'"
    "dict_map d' = (if st = DICT_OK then (dict_map d)(k \<mapsto> v) else dict_map d)"
    "st = DICT_OK \<longrightarrow> dict_map d k = None" "no_oom al \<longrightarrow> no_oom al' \<and> (st = DICT_OK \<longleftrightarrow> dict_map d k = None)"
    using dictmap.add_law [OF assms, of k v al] by (elim exE conjE) (rule that)
  then show ?thesis by (auto simp: dictFind_map [OF assms(1)] dictFind_map [OF a(2)])
qed

theorem dictAdd_extends_map_witness:
  "\<exists>st d' al'. dictAdd (dictInit clusterNodesDictType) ''127.0.0.1:7000'' (1 :: nat) [] = Some (st, d', al') \<and> dict_wf d' \<and> st = DICT_OK \<and>
     dictFind d' ''127.0.0.1:7000'' = Some (''127.0.0.1:7000'', 1)"
proof -
  have "dict_wf (dictInit clusterNodesDictType :: (string, nat) dict)" "dict_map (dictInit clusterNodesDictType :: (string, nat) dict) = Map.empty"
    using dictInit_wf [of clusterNodesDictType] by auto
  moreover have "dictFind (dictInit clusterNodesDictType :: (string, nat) dict) ''127.0.0.1:7000'' = None"
    by (simp add: dictFind_def dictInit_def)
  ultimately show ?thesis
    using dictAdd_extends_map [of "dictInit clusterNodesDictType" "''127.0.0.1:7000''" 1 "[]"]
    by (fastforce simp: dictInit_def split: if_splits)
qed

text \<open>
  C26. Iterating over a table returns each of its entries exactly once and ends after as many steps as
  there are entries; releasing it passes each key and each value to its destructor once.
\<close>

theorem dict_iteration_complete:
  assumes "dict_wf d" "d_used d < n" "keyDestructor (d_type d)" "valDestructor (d_type d)"
  shows "length (iter_upto n d dictInitIterator) = d_used d \<and> distinct (map fst (iter_upto n d dictInitIterator)) \<and>
    (\<forall>k v. (k, v) \<in> set (iter_upto n d dictInitIterator) \<longleftrightarrow> dictFind d k = Some (k, v)) \<and>
    dictRelease d = (map fst (iter_upto n d dictInitIterator), map snd (iter_upto n d dictInitIterator))"
proof -
  have "iter_upto n d dictInitIterator = dict_entries d"
    using iter_upto_entries [OF assms(1), of n] assms(1,2) by (simp add: dict_wf_def)
  then show ?thesis
    using assms(1) dict_map_entries [OF assms(1)] dictRelease_all [OF assms(1,3,4)]
    by (auto simp: dict_wf_def dictFind_map [OF assms(1)])
qed

definition demo_dict :: "(string, nat) dict" where
  "demo_dict = \<lparr>d_table = [[(''a'', 1)]], d_type = clusterNodesDictType, d_size = 1, d_sizemask = 0, d_used = 1\<rparr>"

lemma demo_dict_wf: "dict_wf demo_dict" "d_used demo_dict = 1"
proof -
  have "\<exists>k :: nat \<le> 31. (1 :: nat) = 2 ^ k" by (rule exI [of _ 0]) simp
  then show "dict_wf demo_dict"
    by (simp add: dict_wf_def demo_dict_def buckets_ok_def hash_index_def dict_entries_def)
qed (simp add: demo_dict_def)

theorem dict_iteration_complete_witness:
  "length (iter_upto 2 demo_dict dictInitIterator) = 1 \<and> dictRelease demo_dict =
     (map fst (iter_upto 2 demo_dict dictInitIterator), map snd (iter_upto 2 demo_dict dictInitIterator))"
proof -
  have "keyDestructor (d_type demo_dict)" "valDestructor (d_type demo_dict)"
    by (simp_all add: demo_dict_def clusterNodesDictType_def)
  with dict_iteration_complete [of demo_dict 2] demo_dict_wf show ?thesis by simp
qed

text \<open>
  The size the table grows to is a power of two, at least the wanted size and less than twice of it,
  for every size up to 2^62; above \<open>LONG_MAX\<close> it is \<open>LONG_MAX\<close>, which is no power of two.
\<close>

theorem dictNextPower_is_next_power:
  assumes "sz \<le> 2 ^ 62"
  shows "(\<exists>m. dictNextPower sz = 2 ^ m \<and> sz \<le> 2 ^ m \<and> (m = 2 \<or> 2 ^ m < 2 * sz)) \<and> dictNextPower LONG_MAX = LONG_MAX"
proof -
  obtain m where m: "2 \<le> m" "next_power_loop (2 ^ 2) sz = 2 ^ m" "sz \<le> 2 ^ m" "2 < m \<longrightarrow> 2 ^ (m - 1) < sz"
    using next_power_loop_pow [of 2 sz 62] assms by auto
  have "2 ^ m < 2 * sz" if "m \<noteq> 2"
    using m(1,4) that power_Suc [of "2 :: nat" "m - 1"] by (cases m) auto
  moreover have "dictNextPower sz = 2 ^ m" using m(2) assms by (simp add: dictNextPower_def)
  ultimately show ?thesis using m(3) by (auto simp: dictNextPower_def)
qed

theorem dictNextPower_is_next_power_witness: "\<exists>m. dictNextPower 100 = 2 ^ m \<and> 100 \<le> (2 :: nat) ^ m"
  using dictNextPower_is_next_power [of 100] by auto

end
