(* ===== verification/Cluster_State.thy ===== *)
theory Cluster_State
  imports Cluster_Reply Hiarray Hiutil Dict
begin

text \<open>
  The state of a cluster client: the members of \<^verbatim>\<open>redisClusterContext\<close>, followed by the memory
  its pointers lead to. Nodes, hiredis contexts and asynchronous hiredis contexts live in three
  stores, lists in which an address is a position and \<open>None\<close> marks an object that has been freed;
  addresses are never used twice. An operation is a function on this state, \<open>None\<close> meaning that a
  freed object is used or freed again.

  The lists \<open>slots\<close> and \<open>slaves\<close> of a node are HOL lists, justified by the representation lemmas of
  \<open>Adlist\<close>; building them takes the same allocations. A list of slaves carries whether its \<open>free\<close>
  method is set, because the code removes it while it moves slaves between nodes.
\<close>

section \<open>Nodes and slots\<close>

datatype redis_role = REDIS_ROLE_NULL | REDIS_ROLE_MASTER | REDIS_ROLE_SLAVE

record cluster_slot =
  cs_start :: u32
  cs_end :: u32
  cs_node :: "addr option"

record copen_slot =
  os_slot_num :: u32
  os_migrate :: int
  os_remote_name :: string
  os_node :: addr

record redisClusterNode =
  n_name :: "string option"
  n_addr :: "string option"
  n_host :: "string option"
  n_port :: u16
  n_role :: redis_role
  n_failure_count :: int
  n_con :: "addr option"
  n_acon :: "addr option"
  n_lastConnectionAttempt :: int
  n_slots :: "cluster_slot list option"
  n_slaves :: "(bool \<times> addr list) option"
  n_migrating :: "copen_slot hiarray option"
  n_importing :: "copen_slot hiarray option"

text \<open>What \<open>calloc\<close> leaves: all members zero.\<close>

definition zero_node :: redisClusterNode where
  "zero_node =
     \<lparr>n_name = None, n_addr = None, n_host = None, n_port = 0, n_role = REDIS_ROLE_NULL, n_failure_count = 0,
      n_con = None, n_acon = None, n_lastConnectionAttempt = 0, n_slots = None, n_slaves = None,
      n_migrating = None, n_importing = None\<rparr>"

section \<open>The context\<close>

type_synonym timeval = "int \<times> int"

abbreviation (input) HIRCLUSTER_FLAG_NULL :: u32 where "HIRCLUSTER_FLAG_NULL \<equiv> 0"
abbreviation (input) HIRCLUSTER_FLAG_ADD_SLAVE :: u32 where "HIRCLUSTER_FLAG_ADD_SLAVE \<equiv> 0x1000"
abbreviation (input) HIRCLUSTER_FLAG_ADD_OPENSLOT :: u32 where "HIRCLUSTER_FLAG_ADD_OPENSLOT \<equiv> 0x2000"
abbreviation (input) HIRCLUSTER_FLAG_ROUTE_USE_SLOTS :: u32 where "HIRCLUSTER_FLAG_ROUTE_USE_SLOTS \<equiv> 0x4000"
abbreviation (input) HIRCLUSTER_FLAG_SHUTDOWN :: u32 where "HIRCLUSTER_FLAG_SHUTDOWN \<equiv> 0x8000"
abbreviation (input) HIRCLUSTER_EVENT_SLOTMAP_UPDATED :: int where "HIRCLUSTER_EVENT_SLOTMAP_UPDATED \<equiv> 1"
abbreviation (input) HIRCLUSTER_EVENT_READY :: int where "HIRCLUSTER_EVENT_READY \<equiv> 2"
abbreviation (input) HIRCLUSTER_EVENT_FREE_CONTEXT :: int where "HIRCLUSTER_EVENT_FREE_CONTEXT \<equiv> 3"
abbreviation (input) REDIS_CLUSTER_SLOTS :: nat where "REDIS_CLUSTER_SLOTS \<equiv> 16384"

text \<open>The outstanding pipelined commands are kept by their owner \<open>'c\<close>.\<close>

record 'c redisClusterContext = ctx_error +
  cc_flags :: u32
  cc_connect_timeout :: "timeval option"
  cc_command_timeout :: "timeval option"
  cc_max_retry_count :: int
  cc_username :: "string option"
  cc_password :: "string option"
  cc_nodes :: "(string, addr) dict option"
  cc_route_version :: u64
  cc_table :: "addr option list option"
  cc_requests :: "'c list option"
  cc_retry_count :: int
  cc_need_update_route :: int
  cc_ssl :: bool
  cc_on_connect :: bool
  cc_event_callback :: bool

definition has_flag :: "u32 \<Rightarrow> ('c, 'z) redisClusterContext_scheme \<Rightarrow> bool" where
  "has_flag f cc \<longleftrightarrow> and (cc_flags cc) f \<noteq> 0"

section \<open>The memory behind it\<close>

text \<open>What the client reads of a hiredis context; \<open>rc_fd\<close> tells the connections apart.\<close>

record redisContext =
  rc_err :: int
  rc_errstr :: string
  rc_host :: "string option"
  rc_fd :: nat

text \<open>An asynchronous context contains a context, \<open>c\<close>; \<open>ac_connected\<close> is the bit \<open>REDIS_CONNECTED\<close> of its flags.\<close>

record redisAsyncContext =
  ac_c :: redisContext
  ac_connected :: bool
  ac_err :: int
  ac_errstr :: string
  ac_data :: "addr option"

text \<open>What user code and hiredis observe, in order.\<close>

datatype observation =
    ON_CONNECT addr int
  | EVENT int
  | SET_TIMEOUT addr timeval
  | ASYNC_SET_TIMEOUT addr timeval
  | ASYNC_FREE addr

record ('c, 'w) cluster = "'c redisClusterContext" +
  w_nodes :: "redisClusterNode option list"
  w_cons :: "redisContext option list"
  w_acons :: "redisAsyncContext option list"
  w_script :: alloc
  w_log :: "observation list"
  w_world :: 'w

definition store_at :: "'a option list \<Rightarrow> addr \<Rightarrow> 'a option" where
  "store_at h a = (if a < length h then h ! a else None)"

abbreviation node_at :: "('c, 'w, 'z) cluster_scheme \<Rightarrow> addr \<Rightarrow> redisClusterNode option" where
  "node_at s a \<equiv> store_at (w_nodes s) a"

abbreviation con_at :: "('c, 'w, 'z) cluster_scheme \<Rightarrow> addr \<Rightarrow> redisContext option" where
  "con_at s a \<equiv> store_at (w_cons s) a"

abbreviation acon_at :: "('c, 'w, 'z) cluster_scheme \<Rightarrow> addr \<Rightarrow> redisAsyncContext option" where
  "acon_at s a \<equiv> store_at (w_acons s) a"

definition node_put :: "addr \<Rightarrow> redisClusterNode \<Rightarrow> ('c, 'w, 'z) cluster_scheme \<Rightarrow> ('c, 'w, 'z) cluster_scheme" where
  "node_put a nd s = s\<lparr>w_nodes := (w_nodes s)[a := Some nd]\<rparr>"

definition con_put :: "addr \<Rightarrow> redisContext \<Rightarrow> ('c, 'w, 'z) cluster_scheme \<Rightarrow> ('c, 'w, 'z) cluster_scheme" where
  "con_put a c s = s\<lparr>w_cons := (w_cons s)[a := Some c]\<rparr>"

definition cc_alloc :: "('c, 'w, 'z) cluster_scheme \<Rightarrow> bool \<times> ('c, 'w, 'z) cluster_scheme" where
  "cc_alloc s = (case hi_alloc (w_script s) of (b, al) \<Rightarrow> (b, s\<lparr>w_script := al\<rparr>))"

definition cc_log :: "observation \<Rightarrow> ('c, 'w, 'z) cluster_scheme \<Rightarrow> ('c, 'w, 'z) cluster_scheme" where
  "cc_log e s = s\<lparr>w_log := w_log s @ [e]\<rparr>"

abbreviation set_oom :: "'a ctx_error_scheme \<Rightarrow> 'a ctx_error_scheme" where
  "set_oom s \<equiv> redisClusterSetError REDIS_ERR_OOM ''Out of memory'' s"

lemma store_at_simps [simp]:
  "store_at (h @ [x]) a = (if a = length h then x else store_at h a)"
  "store_at (h[b := y]) a = (if a = b \<and> b < length h then y else store_at h a)"
  "store_at [] a = None"
  by (auto simp: store_at_def nth_append)

lemma store_at_less: "store_at h a = Some x \<Longrightarrow> a < length h"
  by (simp add: store_at_def split: if_splits)

end
