(* ===== verification/Cluster_Node.thy ===== *)
theory Cluster_Node
  imports Cluster_State "HOL-Library.Monad_Syntax"
begin

text \<open>
  Nodes of the cluster: creating and freeing them, their slot ranges, and the parsing of the two
  commands that describe the cluster (\<^verbatim>\<open>hircluster.c\<close>, lines 253 to 1195).
\<close>

section \<open>Interfaces to sds\<close>

text \<open>
  The three functions of the sds library with logic of their own are parameters: appending a colon and a
  number, \<^verbatim>\<open>sdscatfmt(s, ":%i", n)\<close>; splitting at a separator of one character; and cutting a
  string to a range of indices. The copying constructors \<open>sdsnew\<close>, \<open>sdsnewlen\<close> and \<open>sdsdup\<close> are one
  allocation each.
\<close>

record sdslib =
  sdscatfmt_port :: "string \<Rightarrow> int \<Rightarrow> alloc \<Rightarrow> string option \<times> alloc"
  sdssplitlen :: "string \<Rightarrow> char \<Rightarrow> alloc \<Rightarrow> string list option \<times> alloc"
  sdsrange :: "string \<Rightarrow> int \<Rightarrow> int \<Rightarrow> string"

definition sds_copy :: "string \<Rightarrow> ('c, 'w, 'z) cluster_scheme \<Rightarrow> string option \<times> ('c, 'w, 'z) cluster_scheme" where
  "sds_copy str s = (case cc_alloc s of (False, s1) \<Rightarrow> (None, s1) | (True, s1) \<Rightarrow> (Some str, s1))"

definition sds_cat :: "sdslib \<Rightarrow> string \<Rightarrow> int \<Rightarrow> ('c, 'w, 'z) cluster_scheme \<Rightarrow> string option \<times> ('c, 'w, 'z) cluster_scheme" where
  "sds_cat L str port s = (case sdscatfmt_port L str port (w_script s) of (r, al) \<Rightarrow> (r, s\<lparr>w_script := al\<rparr>))"

definition sds_split :: "sdslib \<Rightarrow> string \<Rightarrow> char \<Rightarrow> ('c, 'w, 'z) cluster_scheme \<Rightarrow>
    string list option \<times> ('c, 'w, 'z) cluster_scheme" where
  "sds_split L str sep s = (case sdssplitlen L str sep (w_script s) of (r, al) \<Rightarrow> (r, s\<lparr>w_script := al\<rparr>))"

definition cc_dictAdd :: "(string, addr) dict \<Rightarrow> string \<Rightarrow> addr \<Rightarrow> ('c, 'w, 'z) cluster_scheme \<Rightarrow>
    (dict_status \<times> (string, addr) dict \<times> ('c, 'w, 'z) cluster_scheme) option" where
  "cc_dictAdd d k n s =
     (case dictAdd d k n (w_script s) of
        None \<Rightarrow> None
      | Some (st, d', al) \<Rightarrow> Some (st, d', s\<lparr>w_script := al\<rparr>))"

definition cc_dictCreate :: "(string, addr) dictType \<Rightarrow> ('c, 'w, 'z) cluster_scheme \<Rightarrow>
    (string, addr) dict option \<times> ('c, 'w, 'z) cluster_scheme" where
  "cc_dictCreate t s = (case dictCreate t (w_script s) of (d, al) \<Rightarrow> (d, s\<lparr>w_script := al\<rparr>))"

section \<open>Creating and freeing nodes\<close>

definition createRedisClusterNode :: "('c, 'w, 'z) cluster_scheme \<Rightarrow> addr option \<times> ('c, 'w, 'z) cluster_scheme" where
  "createRedisClusterNode s =
     (case cc_alloc s of
        (False, s1) \<Rightarrow> (None, s1)
      | (True, s1) \<Rightarrow> (Some (length (w_nodes s1)), s1\<lparr>w_nodes := w_nodes s1 @ [Some zero_node]\<rparr>))"

text \<open>\<open>hi_free(node)\<close>; freeing what is not allocated is a fault.\<close>

definition node_free :: "addr \<Rightarrow> ('c, 'w, 'z) cluster_scheme \<Rightarrow> ('c, 'w, 'z) cluster_scheme option" where
  "node_free a s = (case node_at s a of None \<Rightarrow> None | Some _ \<Rightarrow> Some (s\<lparr>w_nodes := (w_nodes s)[a := None]\<rparr>))"

definition redisFree :: "addr option \<Rightarrow> ('c, 'w, 'z) cluster_scheme \<Rightarrow> ('c, 'w, 'z) cluster_scheme" where
  "redisFree c s = (case c of None \<Rightarrow> s | Some a \<Rightarrow> s\<lparr>w_cons := (w_cons s)[a := None]\<rparr>)"

text \<open>
  Detaching an asynchronous context from its node and freeing it. The callbacks that hiredis runs for the
  commands still pending on it are steps of the asynchronous interface; here the freeing is observed.
\<close>

definition free_acon :: "addr option \<Rightarrow> ('c, 'w, 'z) cluster_scheme \<Rightarrow> ('c, 'w, 'z) cluster_scheme" where
  "free_acon c s =
     (case c of None \<Rightarrow> s
      | Some a \<Rightarrow> cc_log (ASYNC_FREE a) (s\<lparr>w_acons := (w_acons s)[a := None]\<rparr>))"

definition owned_slaves :: "redisClusterNode \<Rightarrow> addr list" where
  "owned_slaves nd = (case n_slaves nd of Some (True, xs) \<Rightarrow> xs | _ \<Rightarrow> [])"

definition live_nodes :: "('c, 'w, 'z) cluster_scheme \<Rightarrow> nat" where
  "live_nodes s = length (filter (\<lambda>x. x \<noteq> None) (w_nodes s))"

definition release_node :: "addr \<Rightarrow> redisClusterNode \<Rightarrow> ('c, 'w, 'z) cluster_scheme \<Rightarrow> ('c, 'w, 'z) cluster_scheme" where
  "release_node a nd s = (free_acon (n_acon nd) (redisFree (n_con nd) s))\<lparr>w_nodes := (w_nodes s)[a := None]\<rparr>"

lemma live_nodes_release:
  assumes "node_at s a = Some nd"
  shows "live_nodes (release_node a nd' s) < live_nodes s"
proof -
  have "a < length (w_nodes s)" "w_nodes s ! a = Some nd"
    using assms by (auto simp: store_at_def split: if_splits)
  then obtain xs ys where "w_nodes s = xs @ Some nd # ys" "length xs = a"
    by (metis id_take_nth_drop length_take min.absorb4)
  then show ?thesis by (simp add: live_nodes_def release_node_def list_update_append)
qed

text \<open>
  Freeing a node frees the slaves its list owns, depth first: the list of nodes still to be freed replaces
  the recursion. A node leaves the store before its slaves do, so that a node that would be reached again
  is a fault.
\<close>

function free_nodes :: "addr list \<Rightarrow> ('c, 'w, 'z) cluster_scheme \<Rightarrow> ('c, 'w, 'z) cluster_scheme option" where
  "free_nodes [] s = Some s"
| "free_nodes (a # as) s =
     (case node_at s a of
        None \<Rightarrow> None
      | Some nd \<Rightarrow> free_nodes (owned_slaves nd @ as) (release_node a nd s))"
  by pat_completeness auto
termination
  by (relation "measures [\<lambda>(as, s). live_nodes s, \<lambda>(as, s). length as]") (auto simp: live_nodes_release)

definition freeRedisClusterNode :: "addr \<Rightarrow> ('c, 'w, 'z) cluster_scheme \<Rightarrow> ('c, 'w, 'z) cluster_scheme option" where
  "freeRedisClusterNode a s = free_nodes [a] s"

text \<open>Releasing a table of nodes: every value goes to \<open>dictClusterNodeDestructor\<close>.\<close>

definition release_nodes_dict :: "(string, addr) dict \<Rightarrow> ('c, 'w, 'z) cluster_scheme \<Rightarrow> ('c, 'w, 'z) cluster_scheme option" where
  "release_nodes_dict d s = free_nodes (snd (dictRelease d)) s"

section \<open>Slot ranges and open slots\<close>

text \<open>
  A slot range that is not yet in the list of a node is a local value of its creator; \<open>cluster_slot_create\<close>
  for a node appends the empty range, which \<open>slot_write\<close> then fills through the returned pointer.
\<close>

definition slots_append :: "addr \<Rightarrow> redisClusterNode \<Rightarrow> cluster_slot \<Rightarrow> ('c, 'w, 'z) cluster_scheme \<Rightarrow> bool \<times> ('c, 'w, 'z) cluster_scheme" where
  "slots_append n nd slot s =
     (case (case n_slots nd of None \<Rightarrow> cc_alloc s | Some _ \<Rightarrow> (True, s)) of
        (False, s1) \<Rightarrow> (False, s1)
      | (True, s1) \<Rightarrow>
          (let old = (case n_slots nd of None \<Rightarrow> [] | Some xs \<Rightarrow> xs)
           in case cc_alloc s1 of
                (False, s2) \<Rightarrow> (False, node_put n (nd\<lparr>n_slots := Some old\<rparr>) s2)
              | (True, s2) \<Rightarrow> (True, node_put n (nd\<lparr>n_slots := Some (old @ [slot])\<rparr>) s2)))"

definition cluster_slot_create :: "addr option \<Rightarrow> ('c, 'w, 'z) cluster_scheme \<Rightarrow> (cluster_slot option \<times> ('c, 'w, 'z) cluster_scheme) option" where
  "cluster_slot_create node s =
     (case cc_alloc s of
        (False, s1) \<Rightarrow> Some (None, s1)
      | (True, s1) \<Rightarrow>
          (let slot = \<lparr>cs_start = 0, cs_end = 0, cs_node = node\<rparr>
           in case node of
                None \<Rightarrow> Some (Some slot, s1)
              | Some n \<Rightarrow>
                  do { nd \<leftarrow> node_at s1 n;
                       case slots_append n nd slot s1 of
                         (False, s2) \<Rightarrow> Some (None, s2)
                       | (True, s2) \<Rightarrow> Some (Some slot, s2) }))"

definition slot_write :: "addr \<Rightarrow> u32 \<Rightarrow> u32 \<Rightarrow> ('c, 'w, 'z) cluster_scheme \<Rightarrow> ('c, 'w, 'z) cluster_scheme option" where
  "slot_write n start end s =
     do { nd \<leftarrow> node_at s n;
          xs \<leftarrow> n_slots nd;
          if xs = [] then None
          else Some (node_put n (nd\<lparr>n_slots := Some (butlast xs @ [(last xs)\<lparr>cs_start := start, cs_end := end\<rparr>])\<rparr>) s) }"

definition cluster_slot_ref_node :: "cluster_slot option \<Rightarrow> addr option \<Rightarrow> ('c, 'w, 'z) cluster_scheme \<Rightarrow>
    (int \<times> ('c, 'w, 'z) cluster_scheme) option" where
  "cluster_slot_ref_node slot node s =
     (case (slot, node) of
        (Some sl, Some n) \<Rightarrow>
          do { nd \<leftarrow> node_at s n;
               if n_role nd \<noteq> REDIS_ROLE_MASTER then Some (REDIS_ERR, s)
               else
                 (case slots_append n nd (sl\<lparr>cs_node := Some n\<rparr>) s of
                    (False, s1) \<Rightarrow> Some (REDIS_ERR, s1)
                  | (True, s1) \<Rightarrow> Some (REDIS_OK, s1)) }
      | _ \<Rightarrow> Some (REDIS_ERR, s))"

definition cluster_open_slot_create :: "u32 \<Rightarrow> int \<Rightarrow> string \<Rightarrow> addr \<Rightarrow> ('c, 'w, 'z) cluster_scheme \<Rightarrow>
    copen_slot option \<times> ('c, 'w, 'z) cluster_scheme" where
  "cluster_open_slot_create slot_num migrate remote_name node s =
     (case cc_alloc s of
        (False, s1) \<Rightarrow> (None, s1)
      | (True, s1) \<Rightarrow>
          (case sds_copy remote_name s1 of
             (None, s2) \<Rightarrow> (None, s2)
           | (Some name, s2) \<Rightarrow>
               (Some \<lparr>os_slot_num = slot_num, os_migrate = migrate, os_remote_name = name, os_node = node\<rparr>, s2)))"

section \<open>A node of the CLUSTER SLOTS reply\<close>

definition oom_free_node :: "addr \<Rightarrow> ('c, 'w, 'z) cluster_scheme \<Rightarrow> addr option \<times> ('c, 'w, 'z) cluster_scheme" where
  "oom_free_node n s = (None, (set_oom s)\<lparr>w_nodes := (w_nodes s)[n := None]\<rparr>)"

text \<open>The members that are allocated: the slot list of a master, the address and the host.\<close>

definition slots_node_fields :: "sdslib \<Rightarrow> string \<Rightarrow> int \<Rightarrow> redis_role \<Rightarrow> ('c, 'w, 'z) cluster_scheme \<Rightarrow>
    (string \<times> string) option \<times> ('c, 'w, 'z) cluster_scheme" where
  "slots_node_fields L host port role s =
     (case (if role = REDIS_ROLE_MASTER then cc_alloc s else (True, s)) of
        (False, s1) \<Rightarrow> (None, s1)
      | (True, s1) \<Rightarrow>
          (case sds_copy (cstr host) s1 of
             (None, s2) \<Rightarrow> (None, s2)
           | (Some address, s2) \<Rightarrow>
               (case sds_cat L address port s2 of
                  (None, s3) \<Rightarrow> (None, s3)
                | (Some address', s3) \<Rightarrow>
                    (case sds_copy (cstr host) s3 of
                       (None, s4) \<Rightarrow> (None, s4)
                     | (Some host', s4) \<Rightarrow> (Some (address', host'), s4)))))"

definition node_get_with_slots :: "sdslib \<Rightarrow> string \<Rightarrow> int \<Rightarrow> redis_role \<Rightarrow> ('c, 'w, 'z) cluster_scheme \<Rightarrow>
    addr option \<times> ('c, 'w, 'z) cluster_scheme" where
  "node_get_with_slots L host port role s =
     (case createRedisClusterNode s of
        (None, s1) \<Rightarrow> (None, set_oom s1)
      | (Some n, s1) \<Rightarrow>
          (case slots_node_fields L host port role s1 of
             (None, s2) \<Rightarrow> oom_free_node n s2
           | (Some (address, host'), s2) \<Rightarrow>
               (Some n, node_put n
                  (zero_node\<lparr>n_slots := (if role = REDIS_ROLE_MASTER then Some [] else None),
                             n_addr := Some address, n_host := Some host', n_name := None,
                             n_port := word_of_int port, n_role := role\<rparr>) s2)))"

section \<open>Parsing the CLUSTER SLOTS reply\<close>

text \<open>How a step of a parsing loop ends.\<close>

datatype flow = NEXT | BREAK | GOTO_OOM | GOTO_ERROR

text \<open>The local variables of \<open>parse_cluster_slots\<close> that live across the loops.\<close>

record slots_vars =
  sv_slot :: "cluster_slot option"
  sv_master :: "addr option"
  sv_nodes :: "(string, addr) dict"

abbreviation slots_error :: "string \<Rightarrow> 'z ctx_error_scheme \<Rightarrow> 'z ctx_error_scheme" where
  "slots_error msg s \<equiv> redisClusterSetError REDIS_ERR_OTHER (''Command(cluster slots) reply error: '' @ msg) s"

definition ref_master :: "addr \<Rightarrow> flow \<Rightarrow> slots_vars \<Rightarrow> ('c, 'w, 'z) cluster_scheme \<Rightarrow>
    (flow \<times> slots_vars \<times> ('c, 'w, 'z) cluster_scheme) option" where
  "ref_master master fl v s =
     do { (ret, s1) \<leftarrow> cluster_slot_ref_node (sv_slot v) (Some master) s;
          if ret \<noteq> REDIS_OK then Some (GOTO_OOM, v\<lparr>sv_master := Some master\<rparr>, s1)
          else Some (fl, v\<lparr>sv_master := Some master, sv_slot := None\<rparr>, s1) }"

definition slots_add_master :: "sdslib \<Rightarrow> string \<Rightarrow> int \<Rightarrow> slots_vars \<Rightarrow> ('c, 'w, 'z) cluster_scheme \<Rightarrow>
    (flow \<times> slots_vars \<times> ('c, 'w, 'z) cluster_scheme) option" where
  "slots_add_master L host port v s =
     (case node_get_with_slots L host port REDIS_ROLE_MASTER s of
        (None, s1) \<Rightarrow> Some (GOTO_ERROR, v\<lparr>sv_master := None\<rparr>, s1)
      | (Some master, s1) \<Rightarrow>
          do { nd \<leftarrow> node_at s1 master;
               address \<leftarrow> n_addr nd;
               case sds_copy address s1 of
                 (None, s2) \<Rightarrow>
                   do { s3 \<leftarrow> freeRedisClusterNode master s2; Some (GOTO_OOM, v\<lparr>sv_master := Some master\<rparr>, s3) }
               | (Some key, s2) \<Rightarrow>
                   do { (ret, nodes, s3) \<leftarrow> cc_dictAdd (sv_nodes v) key master s2;
                        if ret \<noteq> DICT_OK then
                          do { s4 \<leftarrow> freeRedisClusterNode master s3;
                               Some (GOTO_OOM, v\<lparr>sv_master := Some master, sv_nodes := nodes\<rparr>, s4) }
                        else ref_master master NEXT (v\<lparr>sv_nodes := nodes\<rparr>) s3 } })"

definition slots_master :: "sdslib \<Rightarrow> string \<Rightarrow> int \<Rightarrow> slots_vars \<Rightarrow> ('c, 'w, 'z) cluster_scheme \<Rightarrow>
    (flow \<times> slots_vars \<times> ('c, 'w, 'z) cluster_scheme) option" where
  "slots_master L host port v s =
     (case sds_copy (cstr host) s of
        (None, s1) \<Rightarrow> Some (GOTO_OOM, v, s1)
      | (Some str, s1) \<Rightarrow>
          (case sds_cat L str port s1 of
             (None, s2) \<Rightarrow> Some (GOTO_OOM, v, s2)
           | (Some address, s2) \<Rightarrow>
               (case dictFind (sv_nodes v) address of
                  Some (_, master) \<Rightarrow> ref_master master BREAK v s2
                | None \<Rightarrow> slots_add_master L host port v s2)))"

definition slots_slave :: "sdslib \<Rightarrow> string \<Rightarrow> int \<Rightarrow> slots_vars \<Rightarrow> ('c, 'w, 'z) cluster_scheme \<Rightarrow>
    (flow \<times> slots_vars \<times> ('c, 'w, 'z) cluster_scheme) option" where
  "slots_slave L host port v s =
     (case node_get_with_slots L host port REDIS_ROLE_SLAVE s of
        (None, s1) \<Rightarrow> Some (GOTO_ERROR, v, s1)
      | (Some slave, s1) \<Rightarrow>
          do { master \<leftarrow> sv_master v;
               nd \<leftarrow> node_at s1 master;
               case (case n_slaves nd of None \<Rightarrow> cc_alloc s1 | Some _ \<Rightarrow> (True, s1)) of
                 (False, s2) \<Rightarrow> do { s3 \<leftarrow> freeRedisClusterNode slave s2; Some (GOTO_OOM, v, s3) }
               | (True, s2) \<Rightarrow>
                   (let (fr, xs) = (case n_slaves nd of None \<Rightarrow> (True, []) | Some l \<Rightarrow> l)
                    in case cc_alloc s2 of
                         (False, s3) \<Rightarrow>
                           do { s4 \<leftarrow> freeRedisClusterNode slave (node_put master (nd\<lparr>n_slaves := Some (fr, xs)\<rparr>) s3);
                                Some (GOTO_OOM, v, s4) }
                       | (True, s3) \<Rightarrow>
                           Some (NEXT, v, node_put master (nd\<lparr>n_slaves := Some (fr, xs @ [slave])\<rparr>) s3)) })"

text \<open>
  One element of a slot range: the two numbers, then the master, then the replicas. A null pointer in the
  reply is dereferenced where the code does, giving \<open>None\<close>; the address fields are checked against it.
\<close>

definition elem_type_ok :: "redisReply \<Rightarrow> redisReply \<Rightarrow> (string \<times> int) option" where
  "elem_type_ok elem_ip elem_port =
     (case elem_port of
        REDIS_REPLY_INTEGER p \<Rightarrow>
          (let port = sint (word_of_int p :: 32 word)
           in if \<not> hi_valid_port port then None
              else (case elem_ip of REDIS_REPLY_STRING str \<Rightarrow> Some (str, port)
                                  | REDIS_REPLY_NIL \<Rightarrow> Some ('''', port) | _ \<Rightarrow> None))
      | _ \<Rightarrow> None)"

definition slots_node :: "sdslib \<Rightarrow> string option \<Rightarrow> nat \<Rightarrow> redisReply \<Rightarrow> slots_vars \<Rightarrow> ('c, 'w, 'z) cluster_scheme \<Rightarrow>
    (flow \<times> slots_vars \<times> ('c, 'w, 'z) cluster_scheme) option" where
  "slots_node L tcp_host idx elem_nodes v s =
     (case elem_nodes of
        NULL_ELEMENT \<Rightarrow> None
      | REDIS_REPLY_ARRAY (elem_ip # elem_port # _) \<Rightarrow>
          (case elem_type_ok elem_ip elem_port of
             None \<Rightarrow> Some (GOTO_ERROR, v, slots_error ''node ip or port is not correct.'' s)
           | Some (str, port) \<Rightarrow>
               (case (if length str > 0 then Some str else tcp_host) of
                  None \<Rightarrow> Some (GOTO_OOM, v, s)
                | Some host \<Rightarrow>
                    if idx = 2 then slots_master L host port v s
                    else if has_flag HIRCLUSTER_FLAG_ADD_SLAVE s then slots_slave L host port v s
                    else Some (NEXT, v, s)))
      | _ \<Rightarrow> Some (GOTO_ERROR, v, slots_error ''nodes sub_reply is not an correct array.'' s))"

definition slots_elem :: "sdslib \<Rightarrow> string option \<Rightarrow> nat \<Rightarrow> redisReply \<Rightarrow> slots_vars \<Rightarrow> ('c, 'w, 'z) cluster_scheme \<Rightarrow>
    (flow \<times> slots_vars \<times> ('c, 'w, 'z) cluster_scheme) option" where
  "slots_elem L tcp_host idx e v s =
     (if idx = 0 then
        (case (e, sv_slot v) of
           (NULL_ELEMENT, _) \<Rightarrow> None
         | (REDIS_REPLY_INTEGER i, Some slot) \<Rightarrow> Some (NEXT, v\<lparr>sv_slot := Some (slot\<lparr>cs_start := word_of_int i\<rparr>)\<rparr>, s)
         | (REDIS_REPLY_INTEGER i, None) \<Rightarrow> None
         | _ \<Rightarrow> Some (GOTO_ERROR, v, slots_error ''slot begin is not an integer.'' s))
      else if idx = 1 then
        (case (e, sv_slot v) of
           (NULL_ELEMENT, _) \<Rightarrow> None
         | (REDIS_REPLY_INTEGER i, Some slot) \<Rightarrow>
             (let slot' = slot\<lparr>cs_end := word_of_int i\<rparr>
              in if cs_start slot' > cs_end slot'
                 then Some (GOTO_ERROR, v\<lparr>sv_slot := Some slot'\<rparr>, slots_error ''slot begin is bigger than slot end.'' s)
                 else Some (NEXT, v\<lparr>sv_slot := Some slot'\<rparr>, s))
         | (REDIS_REPLY_INTEGER i, None) \<Rightarrow> None
         | _ \<Rightarrow> Some (GOTO_ERROR, v, slots_error ''slot end is not an integer.'' s))
      else slots_node L tcp_host idx e v s)"

text \<open>The loop over the elements of one range; \<open>BREAK\<close> leaves it like the end of the elements.\<close>

fun slots_region :: "sdslib \<Rightarrow> string option \<Rightarrow> nat \<Rightarrow> redisReply list \<Rightarrow> slots_vars \<Rightarrow> ('c, 'w, 'z) cluster_scheme \<Rightarrow>
    (flow \<times> slots_vars \<times> ('c, 'w, 'z) cluster_scheme) option" where
  "slots_region L tcp_host idx [] v s = Some (NEXT, v, s)"
| "slots_region L tcp_host idx (e # es) v s =
     do { (fl, v1, s1) \<leftarrow> slots_elem L tcp_host idx e v s;
          case fl of
            NEXT \<Rightarrow> slots_region L tcp_host (idx + 1) es v1 s1
          | BREAK \<Rightarrow> Some (NEXT, v1, s1)
          | _ \<Rightarrow> Some (fl, v1, s1) }"

fun slots_loop :: "sdslib \<Rightarrow> string option \<Rightarrow> redisReply list \<Rightarrow> slots_vars \<Rightarrow> ('c, 'w, 'z) cluster_scheme \<Rightarrow>
    (flow \<times> slots_vars \<times> ('c, 'w, 'z) cluster_scheme) option" where
  "slots_loop L tcp_host [] v s = Some (NEXT, v, s)"
| "slots_loop L tcp_host (e # es) v s =
     (case e of
        NULL_ELEMENT \<Rightarrow> None
      | REDIS_REPLY_ARRAY xs \<Rightarrow>
          if length xs < 3 then Some (GOTO_ERROR, v, slots_error ''first sub_reply is not an array.'' s)
          else
            do { (slot, s1) \<leftarrow> cluster_slot_create None s;
                 case slot of
                   None \<Rightarrow> Some (GOTO_OOM, v\<lparr>sv_slot := None\<rparr>, s1)
                 | Some sl \<Rightarrow>
                     do { (fl, v1, s2) \<leftarrow> slots_region L tcp_host 0 xs (v\<lparr>sv_slot := Some sl\<rparr>) s1;
                          case fl of NEXT \<Rightarrow> slots_loop L tcp_host es v1 s2 | _ \<Rightarrow> Some (fl, v1, s2) } }
      | _ \<Rightarrow> Some (GOTO_ERROR, v, slots_error ''first sub_reply is not an array.'' s))"

text \<open>The exits: \<open>oom\<close> sets the error, both release the table (the slot of the range being read is local).\<close>

definition slots_exit :: "flow \<Rightarrow> slots_vars \<Rightarrow> ('c, 'w, 'z) cluster_scheme \<Rightarrow>
    ((string, addr) dict option \<times> ('c, 'w, 'z) cluster_scheme) option" where
  "slots_exit fl v s =
     (case fl of
        NEXT \<Rightarrow> Some (Some (sv_nodes v), s)
      | _ \<Rightarrow>
          do { s1 \<leftarrow> release_nodes_dict (sv_nodes v) (if fl = GOTO_OOM then set_oom s else s);
               Some (None, s1) })"

definition parse_cluster_slots :: "sdslib \<Rightarrow> string option \<Rightarrow> redisReply option \<Rightarrow> ('c, 'w, 'z) cluster_scheme \<Rightarrow>
    ((string, addr) dict option \<times> ('c, 'w, 'z) cluster_scheme) option" where
  "parse_cluster_slots L tcp_host reply s =
     (case reply of
        None \<Rightarrow> Some (None, s)
      | Some r \<Rightarrow>
          (case cc_dictCreate clusterNodesDictType s of
             (None, s1) \<Rightarrow> Some (None, set_oom s1)
           | (Some d, s1) \<Rightarrow>
               (let v = \<lparr>sv_slot = None, sv_master = None, sv_nodes = d\<rparr>
                in case r of
                     REDIS_REPLY_ARRAY (e # es) \<Rightarrow>
                       do { (fl, v1, s2) \<leftarrow> slots_loop L tcp_host (e # es) v s1; slots_exit fl v1 s2 }
                   | _ \<Rightarrow> slots_exit GOTO_ERROR v (slots_error ''reply is not an array.'' s1))))"

end
