(* ===== verification/Nodes_Reply.thy ===== *)
theory Nodes_Reply
  imports Cluster_Node
begin

text \<open>
  Parsing the text of the CLUSTER NODES reply: \<open>node_get_with_nodes\<close>,
  \<open>cluster_master_slave_mapping_with_name\<close> and \<open>parse_cluster_nodes\<close> of \<^verbatim>\<open>hircluster.c\<close>.
  The fields of a line are a list of strings; handing a field over to a node needs no counterpart,
  since no field is read after it was handed over.
\<close>

section \<open>A node of the reply\<close>

definition error_free_node :: "addr \<Rightarrow> ('c, 'w, 'z) cluster_scheme \<Rightarrow>
    (addr option \<times> ('c, 'w, 'z) cluster_scheme) option" where
  "error_free_node n s = do { s1 \<leftarrow> freeRedisClusterNode n s; Some (None, s1) }"

text \<open>The address field without the cluster port; \<open>p\<close> is the position of the port separator.\<close>

definition strip_cport :: "sdslib \<Rightarrow> string \<Rightarrow> string" where
  "strip_cport L info =
     (case strchr info CHR ''@'' of None \<Rightarrow> info | Some p \<Rightarrow> sdsrange L info 0 (int p - 1))"

text \<open>The address and host of the node: the received ones, or those of the connection for an empty host.\<close>

definition nodes_addr_host :: "sdslib \<Rightarrow> string option \<Rightarrow> string \<Rightarrow> nat \<Rightarrow> int \<Rightarrow> ('c, 'w, 'z) cluster_scheme \<Rightarrow>
    (string \<times> string) option \<times> ('c, 'w, 'z) cluster_scheme" where
  "nodes_addr_host L tcp_host info p port s =
     (if p \<noteq> 0 then
        (case sds_copy (take p info) s of
           (None, s1) \<Rightarrow> (None, s1)
         | (Some host, s1) \<Rightarrow> (Some (info, host), s1))
      else
        (case sds_copy (case tcp_host of None \<Rightarrow> '''' | Some h \<Rightarrow> cstr h) s of
           (None, s1) \<Rightarrow> (None, s1)
         | (Some host, s1) \<Rightarrow>
             (case sds_copy (cstr host) s1 of
                (None, s2) \<Rightarrow> (None, s2)
              | (Some a, s2) \<Rightarrow>
                  (case sds_cat L a port s2 of
                     (None, s3) \<Rightarrow> (None, s3)
                   | (Some a', s3) \<Rightarrow> (Some (a', host), s3)))))"

definition node_get_with_nodes :: "sdslib \<Rightarrow> string option \<Rightarrow> string list \<Rightarrow> redis_role \<Rightarrow> ('c, 'w, 'z) cluster_scheme \<Rightarrow>
    (addr option \<times> ('c, 'w, 'z) cluster_scheme) option" where
  "node_get_with_nodes L tcp_host node_infos role s =
     (if length node_infos < 8 then Some (None, s)
      else
        (case createRedisClusterNode s of
           (None, s1) \<Rightarrow> Some (None, set_oom s1)
         | (Some n, s1) \<Rightarrow>
             (case (if role = REDIS_ROLE_MASTER then cc_alloc s1 else (True, s1)) of
                (False, s2) \<Rightarrow> error_free_node n (set_oom s2)
              | (True, s2) \<Rightarrow>
                  (let info = strip_cport L (node_infos ! 1)
                   in case strrchr info CHR '':'' of
                        None \<Rightarrow> error_free_node n
                          (redisClusterSetError REDIS_ERR_OTHER ''server address is incorrect, port separator missing.'' s2)
                      | Some p \<Rightarrow>
                          (let port = hi_atoi (cstr (drop (Suc p) info))
                           in if port < 1 \<or> port > 65535
                              then error_free_node n (redisClusterSetError REDIS_ERR_OTHER ''Invalid port'' s2)
                              else
                                (case nodes_addr_host L tcp_host info p port s2 of
                                   (None, s3) \<Rightarrow> error_free_node n (set_oom s3)
                                 | (Some (a, host), s3) \<Rightarrow>
                                     Some (Some n, node_put n
                                       (zero_node\<lparr>n_role := role,
                                                  n_slots := (if role = REDIS_ROLE_MASTER then Some [] else None),
                                                  n_name := Some (node_infos ! 0), n_port := word_of_int port,
                                                  n_addr := Some a, n_host := Some host\<rparr>) s3)))))))"

section \<open>Masters and their slaves\<close>

text \<open>
  Moving the slaves of a placeholder to the head of the new master's list, one by one. The result tells
  whether all could be moved; the nodes not moved stay behind.
\<close>

fun move_slaves :: "addr list \<Rightarrow> addr list \<Rightarrow> ('c, 'w, 'z) cluster_scheme \<Rightarrow>
    bool \<times> addr list \<times> addr list \<times> ('c, 'w, 'z) cluster_scheme" where
  "move_slaves [] to s = (True, [], to, s)"
| "move_slaves (x # xs) to s =
     (case cc_alloc s of
        (False, s1) \<Rightarrow> (False, x # xs, to, s1)
      | (True, s1) \<Rightarrow> move_slaves xs (x # to) s1)"

text \<open>A slave of the same name came first: it and its slaves become slaves of the master.\<close>

definition adopt_slaves :: "addr \<Rightarrow> redisClusterNode \<Rightarrow> addr \<Rightarrow> redisClusterNode \<Rightarrow> ('c, 'w, 'z) cluster_scheme \<Rightarrow>
    bool \<times> ('c, 'w, 'z) cluster_scheme" where
  "adopt_slaves node nd node_old old s =
     (case (case n_slaves nd of None \<Rightarrow> cc_alloc s | Some _ \<Rightarrow> (True, s)) of
        (False, s1) \<Rightarrow> (False, s1)
      | (True, s1) \<Rightarrow>
          (let (fr, xs) = (case n_slaves nd of None \<Rightarrow> (True, []) | Some l \<Rightarrow> l);
               (moved, rest, xs', s2) =
                 (case n_slaves old of None \<Rightarrow> (True, [], xs, s1) | Some (_, ys) \<Rightarrow> move_slaves ys xs s1);
               old_slaves = (if moved then None else Some (False, rest));
               s3 = node_put node (nd\<lparr>n_slaves := Some (fr, xs')\<rparr>)
                      (node_put node_old (old\<lparr>n_slaves := old_slaves\<rparr>) s2)
           in if \<not> moved then (False, s3)
              else
                (case cc_alloc s3 of
                   (False, s4) \<Rightarrow> (False, s4)
                 | (True, s4) \<Rightarrow> (True, node_put node (nd\<lparr>n_slaves := Some (fr, node_old # xs')\<rparr>) s4))))"

definition add_slave :: "addr \<Rightarrow> addr \<Rightarrow> redisClusterNode \<Rightarrow> ('c, 'w, 'z) cluster_scheme \<Rightarrow> bool \<times> ('c, 'w, 'z) cluster_scheme" where
  "add_slave node node_old old s =
     (case (case n_slaves old of None \<Rightarrow> cc_alloc s | Some _ \<Rightarrow> (True, s)) of
        (False, s1) \<Rightarrow> (False, s1)
      | (True, s1) \<Rightarrow>
          (let (fr, xs) = (case n_slaves old of None \<Rightarrow> (True, []) | Some l \<Rightarrow> l)
           in case cc_alloc s1 of
                (False, s2) \<Rightarrow> (False, node_put node_old (old\<lparr>n_slaves := Some (fr, xs)\<rparr>) s2)
              | (True, s2) \<Rightarrow> (True, node_put node_old (old\<lparr>n_slaves := Some (fr, xs @ [node])\<rparr>) s2)))"

definition oom_mapping :: "'n \<Rightarrow> ('c, 'w, 'z) cluster_scheme \<Rightarrow> int \<times> 'n \<times> ('c, 'w, 'z) cluster_scheme" where
  "oom_mapping names s = (REDIS_ERR, names, set_oom s)"

definition mapping_found :: "(string, addr) dict \<Rightarrow> string \<Rightarrow> addr \<Rightarrow> addr \<Rightarrow> ('c, 'w, 'z) cluster_scheme \<Rightarrow>
    (int \<times> (string, addr) dict option \<times> ('c, 'w, 'z) cluster_scheme) option" where
  "mapping_found names master_name node node_old s =
     do { nd \<leftarrow> node_at s node;
          old \<leftarrow> node_at s node_old;
          if n_role nd = REDIS_ROLE_MASTER \<and> n_role old = REDIS_ROLE_MASTER then
            Some (REDIS_ERR, Some names, redisClusterSetError REDIS_ERR_OTHER ''two masters have the same name'' s)
          else if n_role nd = REDIS_ROLE_MASTER \<and> n_role old = REDIS_ROLE_SLAVE then
            (case adopt_slaves node nd node_old old s of
               (False, s1) \<Rightarrow> Some (oom_mapping (Some names) s1)
             | (True, s1) \<Rightarrow> Some (REDIS_OK, Some (dictSetVal names master_name node), s1))
          else if n_role nd = REDIS_ROLE_SLAVE then
            (case add_slave node node_old old s of
               (False, s1) \<Rightarrow> Some (oom_mapping (Some names) s1)
             | (True, s1) \<Rightarrow> Some (REDIS_OK, Some names, s1))
          else Some (REDIS_OK, Some names, s) }"

definition cluster_master_slave_mapping_with_name :: "(string, addr) dict option \<Rightarrow> addr \<Rightarrow> string \<Rightarrow>
    ('c, 'w, 'z) cluster_scheme \<Rightarrow> (int \<times> (string, addr) dict option \<times> ('c, 'w, 'z) cluster_scheme) option" where
  "cluster_master_slave_mapping_with_name nodes node master_name s =
     (case (case nodes of None \<Rightarrow> cc_dictCreate clusterNodesRefDictType s | Some d \<Rightarrow> (Some d, s)) of
        (None, s1) \<Rightarrow> Some (oom_mapping None s1)
      | (Some names, s1) \<Rightarrow>
          (case dictFind names master_name of
             Some (key, node_old) \<Rightarrow> mapping_found names master_name node node_old s1
           | None \<Rightarrow>
               (case sds_copy master_name s1 of
                  (None, s2) \<Rightarrow> Some (oom_mapping (Some names) s2)
                | (Some key, s2) \<Rightarrow>
                    do { (ret, names', s3) \<leftarrow> cc_dictAdd names key node s2;
                         if ret \<noteq> DICT_OK then Some (oom_mapping (Some names') s3)
                         else Some (REDIS_OK, Some names', s3) })))"

section \<open>The slots of a master\<close>

text \<open>Appending an open slot to one of the two arrays of a master, which are created when needed.\<close>

definition push_open_slot :: "copen_slot hiarray option \<Rightarrow> copen_slot \<Rightarrow> ('c, 'w, 'z) cluster_scheme \<Rightarrow>
    (bool \<times> copen_slot hiarray option \<times> ('c, 'w, 'z) cluster_scheme) option" where
  "push_open_slot arr oslot s =
     (case (case arr of None \<Rightarrow> hiarray_create 1 8 (w_script s) | Some a \<Rightarrow> (Some a, w_script s)) of
        (None, al1) \<Rightarrow> Some (False, None, s\<lparr>w_script := al1\<rparr>)
      | (Some a, al1) \<Rightarrow>
          (case hiarray_push a al1 of
             (None, a1, al2) \<Rightarrow> Some (False, Some a1, s\<lparr>w_script := al2\<rparr>)
           | (Some i, a1, al2) \<Rightarrow>
               do { a2 \<leftarrow> elem_write a1 i oslot; Some (True, Some a2, s\<lparr>w_script := al2\<rparr>) }))"

definition nodes_open_slot :: "addr \<Rightarrow> int \<Rightarrow> int \<Rightarrow> string \<Rightarrow> ('c, 'w, 'z) cluster_scheme \<Rightarrow>
    (flow \<times> ('c, 'w, 'z) cluster_scheme) option" where
  "nodes_open_slot master slot_num migrate remote_name s =
     (case cluster_open_slot_create (word_of_int slot_num) migrate remote_name master s of
        (None, s1) \<Rightarrow> Some (GOTO_ERROR, redisClusterSetError REDIS_ERR_OTHER ''create open slot error'' s1)
      | (Some oslot, s1) \<Rightarrow>
          do { nd \<leftarrow> node_at s1 master;
               (ok, arr, s2) \<leftarrow> push_open_slot (if migrate = 1 then n_migrating nd else n_importing nd) oslot s1;
               let s3 = node_put master (if migrate = 1 then nd\<lparr>n_migrating := arr\<rparr> else nd\<lparr>n_importing := arr\<rparr>) s2;
               Some (if ok then NEXT else GOTO_OOM, s3) })"

text \<open>A field that is neither a slot nor a range: \<open>[slot->-node]\<close> or \<open>[slot-<-node]\<close>, if asked for.\<close>

definition nodes_open_field :: "sdslib \<Rightarrow> addr \<Rightarrow> string list \<Rightarrow> ('c, 'w, 'z) cluster_scheme \<Rightarrow>
    (flow \<times> ('c, 'w, 'z) cluster_scheme) option" where
  "nodes_open_field L master slot_start_end s =
     (case slot_start_end of
        [a, b, c] \<Rightarrow>
          if has_flag HIRCLUSTER_FLAG_ADD_OPENSLOT s \<and> length a > 1 \<and> length b = 1 \<and> length c > 1 \<and>
             a ! 0 = CHR ''['' \<and> c ! (length c - 1) = CHR '']''
          then
            (let a' = sdsrange L a 1 (-1); c' = sdsrange L c 0 (-2)
             in if b ! 0 = CHR ''>'' then nodes_open_slot master (hi_atoi a') 1 c' s
                else if b ! 0 = CHR ''<'' then nodes_open_slot master (hi_atoi a') 0 c' s
                else Some (NEXT, s))
          else Some (NEXT, s)
      | _ \<Rightarrow> Some (NEXT, s))"

definition nodes_slot_field :: "sdslib \<Rightarrow> addr \<Rightarrow> string \<Rightarrow> nat \<Rightarrow> ('c, 'w, 'z) cluster_scheme \<Rightarrow>
    (flow \<times> nat \<times> ('c, 'w, 'z) cluster_scheme) option" where
  "nodes_slot_field L master field found s =
     (case sds_split L field CHR ''-'' s of
        (None, s1) \<Rightarrow> Some (GOTO_OOM, found, s1)
      | (Some slot_start_end, s1) \<Rightarrow>
          do { (fl, slot_start, slot_end, s2) \<leftarrow>
                 (case slot_start_end of
                    [a] \<Rightarrow> Some (NEXT, hi_atoi a, hi_atoi a, s1)
                  | [a, b] \<Rightarrow> Some (NEXT, hi_atoi a, hi_atoi b, s1)
                  | _ \<Rightarrow> do { (fl, s2) \<leftarrow> nodes_open_field L master slot_start_end s1; Some (fl, -1, -1, s2) });
               if fl \<noteq> NEXT then Some (fl, found, s2)
               else if slot_start < 0 \<or> slot_end < 0 \<or> slot_start > slot_end \<or> slot_end \<ge> int REDIS_CLUSTER_SLOTS
               then Some (NEXT, found, s2)
               else
                 do { (slot, s3) \<leftarrow> cluster_slot_create (Some master) s2;
                      case slot of
                        None \<Rightarrow> Some (GOTO_OOM, found + 1, s3)
                      | Some _ \<Rightarrow>
                          do { s4 \<leftarrow> slot_write master (word_of_int slot_start) (word_of_int slot_end) s3;
                               Some (NEXT, found + 1, s4) } } })"

fun nodes_slots :: "sdslib \<Rightarrow> addr \<Rightarrow> string list \<Rightarrow> nat \<Rightarrow> ('c, 'w, 'z) cluster_scheme \<Rightarrow>
    (flow \<times> nat \<times> ('c, 'w, 'z) cluster_scheme) option" where
  "nodes_slots L master [] found s = Some (NEXT, found, s)"
| "nodes_slots L master (f # fs) found s =
     do { (fl, found1, s1) \<leftarrow> nodes_slot_field L master f found s;
          if fl = NEXT then nodes_slots L master fs found1 s1 else Some (fl, found1, s1) }"

section \<open>Lines and the whole reply\<close>

record nodes_vars =
  nv_nodes :: "(string, addr) dict"
  nv_names :: "(string, addr) dict option"
  nv_found :: nat

definition nodes_master_line :: "sdslib \<Rightarrow> string option \<Rightarrow> string list \<Rightarrow> nodes_vars \<Rightarrow> ('c, 'w, 'z) cluster_scheme \<Rightarrow>
    (flow \<times> nodes_vars \<times> ('c, 'w, 'z) cluster_scheme) option" where
  "nodes_master_line L tcp_host part v s =
     do { (m, s1) \<leftarrow> node_get_with_nodes L tcp_host part REDIS_ROLE_MASTER s;
          case m of
            None \<Rightarrow> Some (GOTO_ERROR, v, s1)
          | Some master \<Rightarrow>
              do { nd \<leftarrow> node_at s1 master;
                   address \<leftarrow> n_addr nd;
                   name \<leftarrow> n_name nd;
                   case sds_copy address s1 of
                     (None, s2) \<Rightarrow> do { s3 \<leftarrow> freeRedisClusterNode master s2; Some (GOTO_OOM, v, s3) }
                   | (Some key, s2) \<Rightarrow>
                       do { (ret, nodes, s3) \<leftarrow> cc_dictAdd (nv_nodes v) key master s2;
                            let v1 = v\<lparr>nv_nodes := nodes\<rparr>;
                            if ret \<noteq> DICT_OK then
                              do { s4 \<leftarrow> freeRedisClusterNode master
                                     (redisClusterSetError REDIS_ERR_OTHER ''The address already exists in the nodes'' s3);
                                   Some (GOTO_ERROR, v1, s4) }
                            else
                              do { (rc, names, s4) \<leftarrow>
                                     (if has_flag HIRCLUSTER_FLAG_ADD_SLAVE s3
                                      then cluster_master_slave_mapping_with_name (nv_names v1) master name s3
                                      else Some (REDIS_OK, nv_names v1, s3));
                                   let v2 = v1\<lparr>nv_names := names\<rparr>;
                                   if rc \<noteq> REDIS_OK then
                                     do { s5 \<leftarrow> freeRedisClusterNode master s4; Some (GOTO_ERROR, v2, s5) }
                                   else
                                     do { (fl, found, s5) \<leftarrow> nodes_slots L master (drop 8 part) (nv_found v2) s4;
                                          Some (fl, v2\<lparr>nv_found := found\<rparr>, s5) } } } } }"

definition nodes_slave_line :: "sdslib \<Rightarrow> string option \<Rightarrow> string list \<Rightarrow> nodes_vars \<Rightarrow> ('c, 'w, 'z) cluster_scheme \<Rightarrow>
    (flow \<times> nodes_vars \<times> ('c, 'w, 'z) cluster_scheme) option" where
  "nodes_slave_line L tcp_host part v s =
     do { (m, s1) \<leftarrow> node_get_with_nodes L tcp_host part REDIS_ROLE_SLAVE s;
          case m of
            None \<Rightarrow> Some (GOTO_ERROR, v, s1)
          | Some slave \<Rightarrow>
              do { (rc, names, s2) \<leftarrow> cluster_master_slave_mapping_with_name (nv_names v) slave (part ! 3) s1;
                   let v1 = v\<lparr>nv_names := names\<rparr>;
                   if rc \<noteq> REDIS_OK then
                     do { s3 \<leftarrow> freeRedisClusterNode slave s2; Some (GOTO_ERROR, v1, s3) }
                   else Some (NEXT, v1, s2) } }"

definition node_role_field :: "string \<Rightarrow> string" where
  "node_role_field flags = (if length flags \<ge> 7 \<and> take 7 flags = ''myself,'' then drop 7 flags else flags)"

definition nodes_line :: "sdslib \<Rightarrow> string option \<Rightarrow> string \<Rightarrow> nodes_vars \<Rightarrow> ('c, 'w, 'z) cluster_scheme \<Rightarrow>
    (flow \<times> nodes_vars \<times> ('c, 'w, 'z) cluster_scheme) option" where
  "nodes_line L tcp_host line v s =
     (case sds_split L line CHR '' '' s of
        (None, s1) \<Rightarrow> Some (GOTO_OOM, v, s1)
      | (Some part, s1) \<Rightarrow>
          if length part < 8 then Some (GOTO_ERROR, v, redisClusterSetError REDIS_ERR_OTHER ''split cluster nodes error'' s1)
          else if length (part ! 1) \<ge> 2 \<and> take 2 (part ! 1) = '':0'' then Some (NEXT, v, s1)
          else
            (let role = node_role_field (part ! 2)
             in if length role \<ge> 6 \<and> take 6 role = ''master'' then nodes_master_line L tcp_host part v s1
                else if has_flag HIRCLUSTER_FLAG_ADD_SLAVE s1 \<and> length role \<ge> 5 \<and> take 5 role = ''slave''
                then nodes_slave_line L tcp_host part v s1
                else Some (NEXT, v, s1)))"

text \<open>
  The loop over the text. After a line has been handled, \<open>pos\<close> is set to the start of the next line and then
  incremented, so that the first character of a line is not compared with the line feed.
\<close>

function nodes_loop :: "sdslib \<Rightarrow> string option \<Rightarrow> string \<Rightarrow> nat \<Rightarrow> nat \<Rightarrow> nodes_vars \<Rightarrow> ('c, 'w, 'z) cluster_scheme \<Rightarrow>
    (flow \<times> nodes_vars \<times> ('c, 'w, 'z) cluster_scheme) option" where
  "nodes_loop L tcp_host str pos line_start v s =
     (if pos \<ge> length str then Some (NEXT, v, s)
      else if str ! pos = LF then
        (case nodes_line L tcp_host (take (pos - line_start) (drop line_start str)) v s of
           None \<Rightarrow> None
         | Some (fl, v1, s1) \<Rightarrow>
             if fl = NEXT then nodes_loop L tcp_host str (pos + 1 + 1) (pos + 1) v1 s1
             else Some (fl, v1, s1))
      else nodes_loop L tcp_host str (pos + 1) line_start v s)"
  by pat_completeness auto
termination
  by (relation "measure (\<lambda>(L, tcp_host, str, pos, line_start, v, s). length str - pos)") auto

declare nodes_loop.simps [simp del]

definition nodes_exit :: "flow \<Rightarrow> nodes_vars \<Rightarrow> ('c, 'w, 'z) cluster_scheme \<Rightarrow>
    ((string, addr) dict option \<times> ('c, 'w, 'z) cluster_scheme) option" where
  "nodes_exit fl v s =
     do { s1 \<leftarrow> release_nodes_dict (nv_nodes v) (if fl = GOTO_OOM then set_oom s else s); Some (None, s1) }"

definition parse_cluster_nodes :: "sdslib \<Rightarrow> string option \<Rightarrow> string \<Rightarrow> ('c, 'w, 'z) cluster_scheme \<Rightarrow>
    ((string, addr) dict option \<times> ('c, 'w, 'z) cluster_scheme) option" where
  "parse_cluster_nodes L tcp_host str s =
     (case cc_dictCreate clusterNodesDictType s of
        (None, s1) \<Rightarrow> Some (None, set_oom s1)
      | (Some d, s1) \<Rightarrow>
          do { (fl, v, s2) \<leftarrow> nodes_loop L tcp_host str 0 0 \<lparr>nv_nodes = d, nv_names = None, nv_found = 0\<rparr> s1;
               if fl \<noteq> NEXT then nodes_exit fl v s2
               else if nv_found v = 0 then
                 nodes_exit GOTO_ERROR v (redisClusterSetError REDIS_ERR_OTHER ''No slot information'' s2)
               else Some (Some (nv_nodes v), s2) })"

end
