(* ===== verification/Slotmap.thy ===== *)
theory Slotmap
  imports Nodes_Reply
begin

text \<open>
  Learning the slot map: asking a server for the description of the cluster, replacing the known nodes and
  the slot-to-node table by what it says, and keeping the connections of the nodes that stay
  (\<^verbatim>\<open>hircluster.c\<close>, lines 399 to 434, 575 to 616 and 1197 to 1486).
\<close>

section \<open>Interfaces to hiredis\<close>

text \<open>
  The functions of hiredis the synchronous interface calls are parameters, acting on a context and on a
  world \<open>'w\<close> of unknown type. A formatted command is the list of its arguments.
\<close>

record 'w hiredis =
  redisConnectWithOptions :: "string \<Rightarrow> int \<Rightarrow> timeval option \<Rightarrow> timeval option \<Rightarrow> 'w \<Rightarrow> redisContext option \<times> 'w"
  redisReconnect :: "redisContext \<Rightarrow> 'w \<Rightarrow> int \<times> redisContext \<times> 'w"
  ssl_init_fn :: "redisContext \<Rightarrow> 'w \<Rightarrow> int \<times> redisContext \<times> 'w"
  redisCommand :: "string list \<Rightarrow> redisContext \<Rightarrow> 'w \<Rightarrow> redisReply option \<times> redisContext \<times> 'w"
  redisAppendCommand :: "string list \<Rightarrow> redisContext \<Rightarrow> 'w \<Rightarrow> int \<times> redisContext \<times> 'w"
  redisAppendFormattedCommand :: "string \<Rightarrow> redisContext \<Rightarrow> 'w \<Rightarrow> int \<times> redisContext \<times> 'w"
  redisBufferWrite :: "redisContext \<Rightarrow> 'w \<Rightarrow> int \<times> redisContext \<times> 'w"
  redisGetReply :: "redisContext \<Rightarrow> 'w \<Rightarrow> (int \<times> redisReply option) \<times> redisContext \<times> 'w"

abbreviation (input) REDIS_ERR_TIMEOUT :: int where "REDIS_ERR_TIMEOUT \<equiv> 6"

definition on_con :: "(redisContext \<Rightarrow> 'w \<Rightarrow> 'r \<times> redisContext \<times> 'w) \<Rightarrow> addr \<Rightarrow> ('c, 'w, 'z) cluster_scheme \<Rightarrow>
    ('r \<times> ('c, 'w, 'z) cluster_scheme) option" where
  "on_con f a s =
     do { c \<leftarrow> con_at s a;
          let (r, c', w') = f c (w_world s);
          Some (r, (con_put a c' s)\<lparr>w_world := w'\<rparr>) }"

text \<open>Opening a connection: the context gets an address, and the connect hook is told how it went.\<close>

definition connect_host :: "'w hiredis \<Rightarrow> string \<Rightarrow> int \<Rightarrow> ('c, 'w, 'z) cluster_scheme \<Rightarrow>
    addr option \<times> ('c, 'w, 'z) cluster_scheme" where
  "connect_host H host port s =
     (case redisConnectWithOptions H host port (cc_connect_timeout s) (cc_command_timeout s) (w_world s) of
        (None, w) \<Rightarrow> (None, redisClusterSetError REDIS_ERR_OOM ''Out of memory'' (s\<lparr>w_world := w\<rparr>))
      | (Some c, w) \<Rightarrow>
          (let a = length (w_cons s);
               s1 = s\<lparr>w_world := w, w_cons := w_cons s @ [Some c]\<rparr>
           in (Some a, if cc_on_connect s then cc_log (ON_CONNECT a (if rc_err c \<noteq> 0 then REDIS_ERR else REDIS_OK)) s1
                       else s1)))"

text \<open>Copying the error of a context.\<close>

definition con_error :: "addr \<Rightarrow> ('c, 'w, 'z) cluster_scheme \<Rightarrow> ('c, 'w, 'z) cluster_scheme option" where
  "con_error a s = do { c \<leftarrow> con_at s a; Some (redisClusterSetError (rc_err c) (rc_errstr c) s) }"

definition clear_error :: "('c, 'w, 'z) cluster_scheme \<Rightarrow> ('c, 'w, 'z) cluster_scheme" where
  "clear_error s = s\<lparr>cx_err := 0, cx_errstr := ''''\<rparr>"

text \<open>The SSL handshake where SSL is configured.\<close>

definition ssl_init :: "'w hiredis \<Rightarrow> addr \<Rightarrow> ('c, 'w, 'z) cluster_scheme \<Rightarrow> (int \<times> ('c, 'w, 'z) cluster_scheme) option" where
  "ssl_init H a s =
     (if \<not> cc_ssl s then Some (REDIS_OK, s)
      else
        do { (r, s1) \<leftarrow> on_con (ssl_init_fn H) a s;
             if r \<noteq> REDIS_OK then do { s2 \<leftarrow> con_error a s1; Some (REDIS_ERR, s2) } else Some (REDIS_OK, s1) })"

definition auth_args :: "string \<Rightarrow> string option \<Rightarrow> string list" where
  "auth_args password username =
     (case username of Some u \<Rightarrow> [''AUTH'', u, password] | None \<Rightarrow> [''AUTH'', password])"

definition authenticate :: "'w hiredis \<Rightarrow> addr \<Rightarrow> ('c, 'w, 'z) cluster_scheme \<Rightarrow> (int \<times> ('c, 'w, 'z) cluster_scheme) option" where
  "authenticate H c s =
     (case cc_password s of
        None \<Rightarrow> Some (REDIS_OK, s)
      | Some password \<Rightarrow>
          do { (reply, s1) \<leftarrow> on_con (redisCommand H (auth_args password (cc_username s))) c s;
               Some (case reply of
                       None \<Rightarrow> (REDIS_ERR, redisClusterSetError REDIS_ERR_OTHER ''Command AUTH reply error (NULL)'' s1)
                     | Some (REDIS_REPLY_ERROR str) \<Rightarrow> (REDIS_ERR, redisClusterSetError REDIS_ERR_OTHER str s1)
                     | Some _ \<Rightarrow> (REDIS_OK, s1)) })"

section \<open>Keeping the connections\<close>

definition set_acon_data :: "addr option \<Rightarrow> addr \<Rightarrow> ('c, 'w, 'z) cluster_scheme \<Rightarrow> ('c, 'w, 'z) cluster_scheme option" where
  "set_acon_data a n s =
     (case a of
        None \<Rightarrow> Some s
      | Some x \<Rightarrow> do { ac \<leftarrow> acon_at s x; Some (s\<lparr>w_acons := (w_acons s)[x := Some (ac\<lparr>ac_data := Some n\<rparr>)]\<rparr>) })"

definition swap_node :: "(string, addr) dict \<Rightarrow> addr \<Rightarrow> ('c, 'w, 'z) cluster_scheme \<Rightarrow> ('c, 'w, 'z) cluster_scheme option" where
  "swap_node nodes_f node_t s =
     do { nt \<leftarrow> node_at s node_t;
          address \<leftarrow> n_addr nt;
          case dictFind nodes_f address of
            None \<Rightarrow> Some s
          | Some (_, node_f) \<Rightarrow>
              do { nf \<leftarrow> node_at s node_f;
                   let (nf1, nt1) = (if n_con nf \<noteq> None
                                     then (nf\<lparr>n_con := n_con nt\<rparr>, nt\<lparr>n_con := n_con nf\<rparr>) else (nf, nt));
                   if n_acon nf = None then Some (node_put node_t nt1 (node_put node_f nf1 s))
                   else
                     do { let s1 = node_put node_t (nt1\<lparr>n_acon := n_acon nf\<rparr>)
                                     (node_put node_f (nf1\<lparr>n_acon := n_acon nt\<rparr>) s);
                          s2 \<leftarrow> set_acon_data (n_acon nf) node_t s1;
                          set_acon_data (n_acon nt) node_f s2 } } }"

fun swap_loop :: "(string, addr) dict \<Rightarrow> (string \<times> addr) list \<Rightarrow> ('c, 'w, 'z) cluster_scheme \<Rightarrow>
    ('c, 'w, 'z) cluster_scheme option" where
  "swap_loop nodes_f [] s = Some s"
| "swap_loop nodes_f (de_t # es) s = do { s1 \<leftarrow> swap_node nodes_f (snd de_t) s; swap_loop nodes_f es s1 }"

text \<open>\<open>while ((de = dictNext(&di)) != NULL)\<close> over a table that the loop does not change.\<close>

definition dict_iter :: "('k, 'v) dict \<Rightarrow> ('k \<times> 'v) list" where
  "dict_iter d = iter_upto (Suc (d_used d)) d dictInitIterator"

definition cluster_nodes_swap_ctx :: "(string, addr) dict option \<Rightarrow> (string, addr) dict \<Rightarrow> ('c, 'w, 'z) cluster_scheme \<Rightarrow>
    ('c, 'w, 'z) cluster_scheme option" where
  "cluster_nodes_swap_ctx nodes_f nodes_t s =
     (case nodes_f of None \<Rightarrow> Some s | Some f \<Rightarrow> swap_loop f (dict_iter nodes_t) s)"

section \<open>The slot-to-node table\<close>

text \<open>Storing \<open>n\<close> slots from \<open>i\<close> on; \<open>None\<close> when one of them is taken.\<close>

fun fill_slots :: "addr \<Rightarrow> nat \<Rightarrow> nat \<Rightarrow> addr option list \<Rightarrow> addr option list option" where
  "fill_slots master i 0 table = Some table"
| "fill_slots master i (Suc n) table =
     (if table ! i \<noteq> None then None else fill_slots master (i + 1) n (table[i := Some master]))"

fun fill_ranges :: "addr \<Rightarrow> cluster_slot list \<Rightarrow> addr option list \<Rightarrow> string + addr option list" where
  "fill_ranges master [] table = Inr table"
| "fill_ranges master (slot # slots) table =
     (if cs_start slot > cs_end slot \<or> unat (cs_end slot) \<ge> REDIS_CLUSTER_SLOTS
      then Inl ''Slot region for node is invalid''
      else
        (case fill_slots master (unat (cs_start slot)) (Suc (unat (cs_end slot)) - unat (cs_start slot)) table of
           None \<Rightarrow> Inl ''Different node holds same slot''
         | Some table' \<Rightarrow> fill_ranges master slots table'))"

fun fill_table :: "('c, 'w, 'z) cluster_scheme \<Rightarrow> (string \<times> addr) list \<Rightarrow> addr option list \<Rightarrow>
    (string + addr option list) option" where
  "fill_table s [] table = Some (Inr table)"
| "fill_table s (de # es) table =
     do { nd \<leftarrow> node_at s (snd de);
          if n_role nd \<noteq> REDIS_ROLE_MASTER then Some (Inl ''Node role must be master'')
          else
            (case n_slots nd of
               None \<Rightarrow> fill_table s es table
             | Some slots \<Rightarrow>
                 (case fill_ranges (snd de) slots table of
                    Inl msg \<Rightarrow> Some (Inl msg)
                  | Inr table' \<Rightarrow> fill_table s es table')) }"

definition update_events :: "('c, 'w, 'z) cluster_scheme \<Rightarrow> ('c, 'w, 'z) cluster_scheme" where
  "update_events s =
     (if cc_event_callback s then
        (let s1 = cc_log (EVENT HIRCLUSTER_EVENT_SLOTMAP_UPDATED) s
         in if cc_route_version s1 = 1 then cc_log (EVENT HIRCLUSTER_EVENT_READY) s1 else s1)
      else s)"

definition updateNodesAndSlotmap :: "(string, addr) dict option \<Rightarrow> ('c, 'w, 'z) cluster_scheme \<Rightarrow>
    (int \<times> ('c, 'w, 'z) cluster_scheme) option" where
  "updateNodesAndSlotmap nodes s =
     (case nodes of
        None \<Rightarrow> Some (REDIS_ERR, s)
      | Some d \<Rightarrow>
          (case cc_alloc s of
             (False, s1) \<Rightarrow> do { s2 \<leftarrow> release_nodes_dict d (set_oom s1); Some (REDIS_ERR, s2) }
           | (True, s1) \<Rightarrow>
               do { filled \<leftarrow> fill_table s1 (dict_iter d) (replicate REDIS_CLUSTER_SLOTS None);
                    case filled of
                      Inl msg \<Rightarrow>
                        do { s2 \<leftarrow> release_nodes_dict d (redisClusterSetError REDIS_ERR_OTHER msg s1);
                             Some (REDIS_ERR, s2) }
                    | Inr table \<Rightarrow>
                        do { let s2 = s1\<lparr>cc_table := Some table, cc_route_version := cc_route_version s1 + 1\<rparr>;
                             s3 \<leftarrow> cluster_nodes_swap_ctx (cc_nodes s2) d s2;
                             let oldnodes = cc_nodes s3;
                             let s4 = s3\<lparr>cc_nodes := Some d\<rparr>;
                             s5 \<leftarrow> (case oldnodes of None \<Rightarrow> Some s4 | Some old \<Rightarrow> release_nodes_dict old s4);
                             Some (REDIS_OK, (update_events s5)\<lparr>cc_need_update_route := 0\<rparr>) } }))"

section \<open>Asking for the slot map\<close>

definition clusterUpdateRouteSendCommand :: "'w hiredis \<Rightarrow> addr \<Rightarrow> ('c, 'w, 'z) cluster_scheme \<Rightarrow>
    (int \<times> ('c, 'w, 'z) cluster_scheme) option" where
  "clusterUpdateRouteSendCommand H c s =
     (let use_slots = has_flag HIRCLUSTER_FLAG_ROUTE_USE_SLOTS s
      in do { (r, s1) \<leftarrow> on_con (redisAppendCommand H (if use_slots then [''CLUSTER'', ''SLOTS''] else [''CLUSTER'', ''NODES''])) c s;
              if r \<noteq> REDIS_OK then
                do { ctx \<leftarrow> con_at s1 c;
                     Some (REDIS_ERR, redisClusterSetError (rc_err ctx)
                       (if use_slots then ''Command (cluster slots) send error.'' else ''Command (cluster nodes) send error.'') s1) }
              else
                do { (w, s2) \<leftarrow> on_con (redisBufferWrite H) c s1;
                     Some (if w = REDIS_ERR then REDIS_ERR else REDIS_OK, s2) } })"

text \<open>The failure of \<open>redisGetReply\<close>, and a reply of the wrong type.\<close>

definition reply_failed :: "string \<Rightarrow> addr \<Rightarrow> ('c, 'w, 'z) cluster_scheme \<Rightarrow> (int \<times> ('c, 'w, 'z) cluster_scheme) option" where
  "reply_failed what c s =
     do { ctx \<leftarrow> con_at s c;
          Some (REDIS_ERR,
            if rc_err ctx = REDIS_ERR_TIMEOUT
            then redisClusterSetError (rc_err ctx) (''Command ('' @ what @ '') reply error (socket timeout)'') s
            else redisClusterSetError REDIS_ERR_OTHER (''Command ('' @ what @ '') reply error (NULL).'') s) }"

definition reply_mistyped :: "string \<Rightarrow> redisReply \<Rightarrow> ('c, 'w, 'z) cluster_scheme \<Rightarrow> int \<times> ('c, 'w, 'z) cluster_scheme" where
  "reply_mistyped msg reply s =
     (REDIS_ERR,
      case reply of
        REDIS_REPLY_ERROR str \<Rightarrow> redisClusterSetError REDIS_ERR_OTHER str s
      | _ \<Rightarrow> redisClusterSetError REDIS_ERR_OTHER msg s)"

definition handleClusterSlotsReply :: "sdslib \<Rightarrow> 'w hiredis \<Rightarrow> addr \<Rightarrow> ('c, 'w, 'z) cluster_scheme \<Rightarrow>
    (int \<times> ('c, 'w, 'z) cluster_scheme) option" where
  "handleClusterSlotsReply L H c s =
     do { ((result, reply), s1) \<leftarrow> on_con (redisGetReply H) c s;
          if result \<noteq> REDIS_OK then reply_failed ''cluster slots'' c s1
          else
            (case reply of
               None \<Rightarrow> None
             | Some (REDIS_REPLY_ARRAY es) \<Rightarrow>
                 do { ctx \<leftarrow> con_at s1 c;
                      (nodes, s2) \<leftarrow> parse_cluster_slots L (rc_host ctx) (Some (REDIS_REPLY_ARRAY es)) s1;
                      updateNodesAndSlotmap nodes s2 }
             | Some r \<Rightarrow> Some (reply_mistyped ''Command (cluster slots) reply error: type is not array.'' r s1)) }"

definition handleClusterNodesReply :: "sdslib \<Rightarrow> 'w hiredis \<Rightarrow> addr \<Rightarrow> ('c, 'w, 'z) cluster_scheme \<Rightarrow>
    (int \<times> ('c, 'w, 'z) cluster_scheme) option" where
  "handleClusterNodesReply L H c s =
     do { ((result, reply), s1) \<leftarrow> on_con (redisGetReply H) c s;
          if result \<noteq> REDIS_OK then reply_failed ''cluster nodes'' c s1
          else
            (case reply of
               None \<Rightarrow> None
             | Some (REDIS_REPLY_STRING str) \<Rightarrow>
                 do { ctx \<leftarrow> con_at s1 c;
                      (nodes, s2) \<leftarrow> parse_cluster_nodes L (rc_host ctx) str s1;
                      updateNodesAndSlotmap nodes s2 }
             | Some r \<Rightarrow> Some (reply_mistyped ''Command(cluster nodes) reply error: type is not string.'' r s1)) }"

definition clusterUpdateRouteHandleReply :: "sdslib \<Rightarrow> 'w hiredis \<Rightarrow> addr \<Rightarrow> ('c, 'w, 'z) cluster_scheme \<Rightarrow>
    (int \<times> ('c, 'w, 'z) cluster_scheme) option" where
  "clusterUpdateRouteHandleReply L H c s =
     (if has_flag HIRCLUSTER_FLAG_ROUTE_USE_SLOTS s then handleClusterSlotsReply L H c s
      else handleClusterNodesReply L H c s)"

text \<open>The steps on a fresh connection; the first that fails ends them.\<close>

definition update_route_on :: "sdslib \<Rightarrow> 'w hiredis \<Rightarrow> addr \<Rightarrow> ('c, 'w, 'z) cluster_scheme \<Rightarrow>
    (int \<times> ('c, 'w, 'z) cluster_scheme) option" where
  "update_route_on L H c s =
     do { ctx \<leftarrow> con_at s c;
          if rc_err ctx \<noteq> 0 then do { s1 \<leftarrow> con_error c s; Some (REDIS_ERR, s1) }
          else
            do { (r1, s1) \<leftarrow> ssl_init H c s;
                 if r1 \<noteq> REDIS_OK then Some (REDIS_ERR, s1)
                 else
                   do { (r2, s2) \<leftarrow> authenticate H c s1;
                        if r2 \<noteq> REDIS_OK then Some (REDIS_ERR, s2)
                        else
                          do { (r3, s3) \<leftarrow> clusterUpdateRouteSendCommand H c s2;
                               if r3 \<noteq> REDIS_OK then Some (REDIS_ERR, s3)
                               else clusterUpdateRouteHandleReply L H c s3 } } } }"

definition cluster_update_route_by_addr :: "sdslib \<Rightarrow> 'w hiredis \<Rightarrow> string \<Rightarrow> int \<Rightarrow> ('c, 'w, 'z) cluster_scheme \<Rightarrow>
    (int \<times> ('c, 'w, 'z) cluster_scheme) option" where
  "cluster_update_route_by_addr L H ip port s =
     (if port \<le> 0 then Some (REDIS_ERR, redisClusterSetError REDIS_ERR_OTHER ''Ip or port error!'' s)
      else
        (case connect_host H ip port s of
           (None, s1) \<Rightarrow> Some (REDIS_ERR, s1)
         | (Some c, s1) \<Rightarrow>
             do { (r, s2) \<leftarrow> update_route_on L H c s1;
                  Some (if r \<noteq> REDIS_OK then REDIS_ERR else REDIS_OK, redisFree (Some c) s2) }))"

fun update_loop :: "sdslib \<Rightarrow> 'w hiredis \<Rightarrow> (string \<times> addr) list \<Rightarrow> bool \<Rightarrow> ('c, 'w, 'z) cluster_scheme \<Rightarrow>
    (int \<times> ('c, 'w, 'z) cluster_scheme) option" where
  "update_loop L H [] flag_err_not_set s =
     Some (REDIS_ERR, if flag_err_not_set then redisClusterSetError REDIS_ERR_OTHER ''no valid server address'' s else s)"
| "update_loop L H (de # es) flag_err_not_set s =
     do { nd \<leftarrow> node_at s (snd de);
          case n_host nd of
            None \<Rightarrow> update_loop L H es flag_err_not_set s
          | Some host \<Rightarrow>
              do { (ret, s1) \<leftarrow> cluster_update_route_by_addr L H host (uint (n_port nd)) s;
                   if ret = REDIS_OK then Some (REDIS_OK, if cx_err s1 \<noteq> 0 then clear_error s1 else s1)
                   else update_loop L H es False s1 } }"

definition redisClusterUpdateSlotmap :: "sdslib \<Rightarrow> 'w hiredis \<Rightarrow> ('c, 'w, 'z) cluster_scheme \<Rightarrow>
    (int \<times> ('c, 'w, 'z) cluster_scheme) option" where
  "redisClusterUpdateSlotmap L H s =
     (case cc_nodes s of
        None \<Rightarrow> Some (REDIS_ERR, redisClusterSetError REDIS_ERR_OTHER ''no server address'' s)
      | Some d \<Rightarrow> update_loop L H (dict_iter d) True s)"

end
