(* ===== verification/Options.thy ===== *)
theory Options
  imports Slotmap
begin

text \<open>
  Creating, configuring, connecting and freeing a context (\<^verbatim>\<open>hircluster.c\<close>, lines 1488 to 1966 and 2895
  to 2923). The operations take a context; their check for a null context, which returns \<open>REDIS_ERR\<close> and
  touches nothing, has no counterpart.
\<close>

section \<open>Creating and freeing\<close>

abbreviation (input) CLUSTER_DEFAULT_MAX_RETRY_COUNT :: int where "CLUSTER_DEFAULT_MAX_RETRY_COUNT \<equiv> 5"

definition redisClusterContextInit :: "alloc \<Rightarrow> 'w \<Rightarrow> ('c, 'w) cluster option" where
  "redisClusterContextInit al w =
     (case hi_alloc al of
        (False, _) \<Rightarrow> None
      | (True, al') \<Rightarrow>
          Some \<lparr>cx_err = 0, cx_errstr = '''', cc_flags = 0, cc_connect_timeout = None, cc_command_timeout = None,
                cc_max_retry_count = CLUSTER_DEFAULT_MAX_RETRY_COUNT, cc_username = None, cc_password = None,
                cc_nodes = None, cc_route_version = 0, cc_table = None, cc_requests = None, cc_retry_count = 0,
                cc_need_update_route = 0, cc_ssl = False, cc_on_connect = False, cc_event_callback = False,
                w_nodes = [], w_cons = [], w_acons = [], w_script = al', w_log = [], w_world = w\<rparr>)"

definition redisClusterFree :: "('c, 'w, 'z) cluster_scheme \<Rightarrow> ('c, 'w, 'z) cluster_scheme option" where
  "redisClusterFree s =
     do { let s1 = (if cc_event_callback s then cc_log (EVENT HIRCLUSTER_EVENT_FREE_CONTEXT) s else s);
          let s2 = s1\<lparr>cc_connect_timeout := None, cc_command_timeout := None, cc_table := None\<rparr>;
          s3 \<leftarrow> (case cc_nodes s2 of None \<Rightarrow> Some s2 | Some nodes \<Rightarrow> release_nodes_dict nodes (s2\<lparr>cc_nodes := None\<rparr>));
          Some (s3\<lparr>cc_requests := None, cc_username := None, cc_password := None\<rparr>) }"

section \<open>Addresses\<close>

definition addr_error :: "string \<Rightarrow> ('c, 'w, 'z) cluster_scheme \<Rightarrow> (int \<times> ('c, 'w, 'z) cluster_scheme) option" where
  "addr_error msg s = Some (REDIS_ERR, redisClusterSetError REDIS_ERR_OTHER msg s)"

text \<open>Creating the node of an address and entering it; every exit but the last frees the node.\<close>

definition add_option_node :: "(string, addr) dict \<Rightarrow> string \<Rightarrow> string \<Rightarrow> int \<Rightarrow> ('c, 'w, 'z) cluster_scheme \<Rightarrow>
    (int \<times> ('c, 'w, 'z) cluster_scheme) option" where
  "add_option_node nodes address ip port s =
     (case createRedisClusterNode s of
        (None, s1) \<Rightarrow> Some (REDIS_ERR, set_oom s1)
      | (Some node, s1) \<Rightarrow>
          (let oom = (\<lambda>t. Some (REDIS_ERR, snd (oom_free_node node t)))
           in case sds_copy address s1 of
                (None, s2) \<Rightarrow> oom s2
              | (Some a, s2) \<Rightarrow>
                  (let s3 = node_put node (zero_node\<lparr>n_addr := Some a, n_host := Some ip, n_port := word_of_int port\<rparr>) s2
                   in case sds_copy a s3 of
                        (None, s4) \<Rightarrow> oom s4
                      | (Some key, s4) \<Rightarrow>
                          do { (ret, nodes', s5) \<leftarrow> cc_dictAdd nodes key node s4;
                               let s6 = s5\<lparr>cc_nodes := Some nodes'\<rparr>;
                               if ret \<noteq> DICT_OK then oom s6 else Some (REDIS_OK, s6) })))"

definition parse_option_addr :: "(string, addr) dict \<Rightarrow> string \<Rightarrow> ('c, 'w, 'z) cluster_scheme \<Rightarrow>
    (int \<times> ('c, 'w, 'z) cluster_scheme) option" where
  "parse_option_addr nodes address s =
     (case strrchr address CHR '':'' of
        None \<Rightarrow> addr_error ''server address is incorrect, port separator missing.'' s
      | Some p \<Rightarrow>
          if p = 0 then addr_error ''server address is incorrect, address part missing.'' s
          else
            (case sds_copy (take p address) s of
               (None, s1) \<Rightarrow> Some (REDIS_ERR, set_oom s1)
             | (Some ip, s1) \<Rightarrow>
                 (let str = drop (Suc p) address
                  in if length str = 0 then addr_error ''server address is incorrect, port part missing.'' s1
                     else
                       (let port = hi_atoi str
                        in if port \<le> 0 then addr_error ''server port is incorrect'' s1
                           else add_option_node nodes address ip port s1))))"

definition redisClusterSetOptionAddNode :: "string \<Rightarrow> ('c, 'w, 'z) cluster_scheme \<Rightarrow> (int \<times> ('c, 'w, 'z) cluster_scheme) option" where
  "redisClusterSetOptionAddNode address s =
     (case (case cc_nodes s of
              None \<Rightarrow> (case cc_dictCreate clusterNodesDictType s of (d, s1) \<Rightarrow> (d, s1\<lparr>cc_nodes := d\<rparr>))
            | Some d \<Rightarrow> (Some d, s)) of
        (None, s1) \<Rightarrow> Some (REDIS_ERR, set_oom s1)
      | (Some nodes, s1) \<Rightarrow>
          (case sds_copy (cstr address) s1 of
             (None, s2) \<Rightarrow> Some (REDIS_ERR, set_oom s2)
           | (Some addr_sds, s2) \<Rightarrow>
               (case dictFind nodes addr_sds of
                  None \<Rightarrow> parse_option_addr nodes (cstr address) s2
                | Some _ \<Rightarrow> Some (REDIS_OK, s2))))"

fun add_nodes_loop :: "string list \<Rightarrow> ('c, 'w, 'z) cluster_scheme \<Rightarrow> (int \<times> ('c, 'w, 'z) cluster_scheme) option" where
  "add_nodes_loop [] s = Some (REDIS_OK, s)"
| "add_nodes_loop (a # as) s =
     do { (ret, s1) \<leftarrow> redisClusterSetOptionAddNode a s;
          if ret \<noteq> REDIS_OK then Some (REDIS_ERR, s1) else add_nodes_loop as s1 }"

definition redisClusterSetOptionAddNodes :: "sdslib \<Rightarrow> string \<Rightarrow> ('c, 'w, 'z) cluster_scheme \<Rightarrow>
    (int \<times> ('c, 'w, 'z) cluster_scheme) option" where
  "redisClusterSetOptionAddNodes L addrs s =
     (case sds_split L (cstr addrs) CHR '','' s of
        (None, s1) \<Rightarrow> Some (REDIS_ERR, set_oom s1)
      | (Some address, s1) \<Rightarrow>
          if length address \<le> 0
          then addr_error ''invalid server addresses (example format: 127.0.0.1:1234,127.0.0.2:5678)'' s1
          else add_nodes_loop address s1)"

section \<open>Other options\<close>

definition redisClusterSetOptionConnectBlock :: "('c, 'w, 'z) cluster_scheme \<Rightarrow> int \<times> ('c, 'w, 'z) cluster_scheme" where
  "redisClusterSetOptionConnectBlock s = (REDIS_OK, s)"

definition redisClusterSetOptionConnectNonBlock :: "('c, 'w, 'z) cluster_scheme \<Rightarrow> int \<times> ('c, 'w, 'z) cluster_scheme" where
  "redisClusterSetOptionConnectNonBlock s = (REDIS_OK, s)"

definition redisClusterSetOptionUsername :: "string option \<Rightarrow> ('c, 'w, 'z) cluster_scheme \<Rightarrow> int \<times> ('c, 'w, 'z) cluster_scheme" where
  "redisClusterSetOptionUsername username s =
     (case username of
        None \<Rightarrow> (REDIS_OK, s\<lparr>cc_username := None\<rparr>)
      | Some u \<Rightarrow>
          if cstr u = '''' then (REDIS_OK, s\<lparr>cc_username := None\<rparr>)
          else
            (case cc_alloc s of
               (False, s1) \<Rightarrow> (REDIS_ERR, s1\<lparr>cc_username := None\<rparr>)
             | (True, s1) \<Rightarrow> (REDIS_OK, s1\<lparr>cc_username := Some (cstr u)\<rparr>)))"

definition redisClusterSetOptionPassword :: "string option \<Rightarrow> ('c, 'w, 'z) cluster_scheme \<Rightarrow> int \<times> ('c, 'w, 'z) cluster_scheme" where
  "redisClusterSetOptionPassword password s =
     (case password of
        None \<Rightarrow> (REDIS_OK, s\<lparr>cc_password := None\<rparr>)
      | Some p \<Rightarrow>
          if cstr p = '''' then (REDIS_OK, s\<lparr>cc_password := None\<rparr>)
          else
            (case cc_alloc s of
               (False, s1) \<Rightarrow> (REDIS_ERR, s1\<lparr>cc_password := None\<rparr>)
             | (True, s1) \<Rightarrow> (REDIS_OK, s1\<lparr>cc_password := Some (cstr p)\<rparr>)))"

definition set_flag :: "u32 \<Rightarrow> ('c, 'w, 'z) cluster_scheme \<Rightarrow> int \<times> ('c, 'w, 'z) cluster_scheme" where
  "set_flag f s = (REDIS_OK, s\<lparr>cc_flags := or (cc_flags s) f\<rparr>)"

definition redisClusterSetOptionParseSlaves :: "('c, 'w, 'z) cluster_scheme \<Rightarrow> int \<times> ('c, 'w, 'z) cluster_scheme" where
  "redisClusterSetOptionParseSlaves = set_flag HIRCLUSTER_FLAG_ADD_SLAVE"

definition redisClusterSetOptionParseOpenSlots :: "('c, 'w, 'z) cluster_scheme \<Rightarrow> int \<times> ('c, 'w, 'z) cluster_scheme" where
  "redisClusterSetOptionParseOpenSlots = set_flag HIRCLUSTER_FLAG_ADD_OPENSLOT"

definition redisClusterSetOptionRouteUseSlots :: "('c, 'w, 'z) cluster_scheme \<Rightarrow> int \<times> ('c, 'w, 'z) cluster_scheme" where
  "redisClusterSetOptionRouteUseSlots = set_flag HIRCLUSTER_FLAG_ROUTE_USE_SLOTS"

definition redisClusterSetOptionConnectTimeout :: "timeval \<Rightarrow> ('c, 'w, 'z) cluster_scheme \<Rightarrow> int \<times> ('c, 'w, 'z) cluster_scheme" where
  "redisClusterSetOptionConnectTimeout tv s =
     (case (case cc_connect_timeout s of None \<Rightarrow> cc_alloc s | Some _ \<Rightarrow> (True, s)) of
        (False, s1) \<Rightarrow> (REDIS_ERR, set_oom s1)
      | (True, s1) \<Rightarrow> (REDIS_OK, s1\<lparr>cc_connect_timeout := Some tv\<rparr>))"

text \<open>The timeout of the connections a node already has.\<close>

definition node_timeout :: "timeval \<Rightarrow> addr \<Rightarrow> ('c, 'w, 'z) cluster_scheme \<Rightarrow> ('c, 'w, 'z) cluster_scheme option" where
  "node_timeout tv n s =
     do { nd \<leftarrow> node_at s n;
          s1 \<leftarrow> (case n_acon nd of None \<Rightarrow> Some s
                 | Some a \<Rightarrow> do { _ \<leftarrow> acon_at s a; Some (cc_log (ASYNC_SET_TIMEOUT a tv) s) });
          case n_con nd of
            None \<Rightarrow> Some s1
          | Some c \<Rightarrow>
              do { ctx \<leftarrow> con_at s1 c;
                   Some (if rc_err ctx = 0 then cc_log (SET_TIMEOUT c tv) s1 else s1) } }"

fun nodes_timeout :: "timeval \<Rightarrow> addr list \<Rightarrow> ('c, 'w, 'z) cluster_scheme \<Rightarrow> ('c, 'w, 'z) cluster_scheme option" where
  "nodes_timeout tv [] s = Some s"
| "nodes_timeout tv (n # ns) s = do { s1 \<leftarrow> node_timeout tv n s; nodes_timeout tv ns s1 }"

fun entries_timeout :: "timeval \<Rightarrow> (string \<times> addr) list \<Rightarrow> ('c, 'w, 'z) cluster_scheme \<Rightarrow> ('c, 'w, 'z) cluster_scheme option" where
  "entries_timeout tv [] s = Some s"
| "entries_timeout tv (de # es) s =
     do { s1 \<leftarrow> node_timeout tv (snd de) s;
          nd \<leftarrow> node_at s1 (snd de);
          s2 \<leftarrow> nodes_timeout tv (case n_slaves nd of None \<Rightarrow> [] | Some (_, xs) \<Rightarrow> xs) s1;
          entries_timeout tv es s2 }"

definition redisClusterSetOptionTimeout :: "timeval \<Rightarrow> ('c, 'w, 'z) cluster_scheme \<Rightarrow> (int \<times> ('c, 'w, 'z) cluster_scheme) option" where
  "redisClusterSetOptionTimeout tv s =
     (if cc_command_timeout s = Some tv then Some (REDIS_OK, s)
      else
        (case (case cc_command_timeout s of None \<Rightarrow> cc_alloc s | Some _ \<Rightarrow> (True, s)) of
           (False, s1) \<Rightarrow> Some (REDIS_ERR, set_oom s1)
         | (True, s1) \<Rightarrow>
             do { let s2 = s1\<lparr>cc_command_timeout := Some tv\<rparr>;
                  s3 \<leftarrow> (case cc_nodes s2 of None \<Rightarrow> Some s2 | Some d \<Rightarrow> entries_timeout tv (dict_iter d) s2);
                  Some (REDIS_OK, s3) }))"

definition redisClusterSetOptionMaxRetry :: "int \<Rightarrow> ('c, 'w, 'z) cluster_scheme \<Rightarrow> int \<times> ('c, 'w, 'z) cluster_scheme" where
  "redisClusterSetOptionMaxRetry max_retry_count s =
     (if max_retry_count \<le> 0 then (REDIS_ERR, s) else (REDIS_OK, s\<lparr>cc_max_retry_count := max_retry_count\<rparr>))"

definition redisClusterSetMaxRedirect :: "int \<Rightarrow> ('c, 'w, 'z) cluster_scheme \<Rightarrow> ('c, 'w, 'z) cluster_scheme" where
  "redisClusterSetMaxRedirect max_retry_count s =
     (if max_retry_count \<le> 0 then s else s\<lparr>cc_max_retry_count := max_retry_count\<rparr>)"

text \<open>The hooks are opaque: whether one is set decides what is observed.\<close>

definition redisClusterSetConnectCallback :: "('c, 'w, 'z) cluster_scheme \<Rightarrow> int \<times> ('c, 'w, 'z) cluster_scheme" where
  "redisClusterSetConnectCallback s =
     (if \<not> cc_on_connect s then (REDIS_OK, s\<lparr>cc_on_connect := True\<rparr>) else (REDIS_ERR, s))"

definition redisClusterSetEventCallback :: "('c, 'w, 'z) cluster_scheme \<Rightarrow> int \<times> ('c, 'w, 'z) cluster_scheme" where
  "redisClusterSetEventCallback s =
     (if \<not> cc_event_callback s then (REDIS_OK, s\<lparr>cc_event_callback := True\<rparr>) else (REDIS_ERR, s))"

section \<open>Connecting\<close>

definition cluster_connect2 :: "sdslib \<Rightarrow> 'w hiredis \<Rightarrow> ('c, 'w, 'z) cluster_scheme \<Rightarrow>
    (int \<times> ('c, 'w, 'z) cluster_scheme) option" where
  "cluster_connect2 L H s =
     (case cc_nodes s of
        None \<Rightarrow> addr_error ''servers address does not set up'' s
      | Some d \<Rightarrow>
          if d_used d = 0 then addr_error ''servers address does not set up'' s
          else redisClusterUpdateSlotmap L H s)"

definition redisClusterConnect2 :: "sdslib \<Rightarrow> 'w hiredis \<Rightarrow> ('c, 'w, 'z) cluster_scheme \<Rightarrow>
    (int \<times> ('c, 'w, 'z) cluster_scheme) option" where
  "redisClusterConnect2 L H s = cluster_connect2 L H (s\<lparr>cc_flags := and (cc_flags s) (not HIRCLUSTER_FLAG_SHUTDOWN)\<rparr>)"

definition cluster_connect :: "sdslib \<Rightarrow> 'w hiredis \<Rightarrow> string \<Rightarrow> ('c, 'w, 'z) cluster_scheme \<Rightarrow> ('c, 'w, 'z) cluster_scheme option" where
  "cluster_connect L H addrs s =
     do { (ret, s1) \<leftarrow> redisClusterSetOptionAddNodes L addrs s;
          if ret \<noteq> REDIS_OK then Some s1
          else do { (_, s2) \<leftarrow> redisClusterUpdateSlotmap L H s1; Some s2 } }"

text \<open>The outer option of the result is the null pointer returned when memory is short.\<close>

definition redisClusterConnect :: "sdslib \<Rightarrow> 'w hiredis \<Rightarrow> string \<Rightarrow> u32 \<Rightarrow> alloc \<Rightarrow> 'w \<Rightarrow> ('c, 'w) cluster option option" where
  "redisClusterConnect L H addrs flags al w =
     (case redisClusterContextInit al w of
        None \<Rightarrow> Some None
      | Some cc \<Rightarrow> map_option Some (cluster_connect L H addrs (cc\<lparr>cc_flags := flags\<rparr>)))"

definition redisClusterConnectWithTimeout :: "sdslib \<Rightarrow> 'w hiredis \<Rightarrow> string \<Rightarrow> timeval \<Rightarrow> u32 \<Rightarrow> alloc \<Rightarrow> 'w \<Rightarrow>
    ('c, 'w) cluster option option" where
  "redisClusterConnectWithTimeout L H addrs tv flags al w =
     (case redisClusterContextInit al w of
        None \<Rightarrow> Some None
      | Some cc \<Rightarrow>
          (case cc_alloc (cc\<lparr>cc_flags := flags\<rparr>) of
             (False, _) \<Rightarrow> Some None
           | (True, s1) \<Rightarrow> map_option Some (cluster_connect L H addrs (s1\<lparr>cc_connect_timeout := Some tv\<rparr>))))"

end
