(* ===== verification/Cmddef.thy ===== *)
theory Cmddef
  imports Cluster_Prelude
begin

text \<open>
  The command table of \<^verbatim>\<open>cmddef.h\<close>, which \<^verbatim>\<open>command.c\<close> includes into the array
  \<open>redis_commands\<close> and \<^verbatim>\<open>command.h\<close> into the enumeration \<open>cmd_type\<close>. A command type is its
  position in that enumeration: \<open>CMD_UNKNOWN\<close> is 0 and the commands follow in the order of the
  table. The lookup by binary search relies on the order of the table, which is proved here.
\<close>

type_synonym cmd_type = nat

datatype cmd_keypos = KEYPOS_NONE | KEYPOS_UNKNOWN | KEYPOS_INDEX | KEYPOS_KEYNUM

record cmddef =
  c_type :: cmd_type
  c_name :: string
  c_subname :: "string option"
  c_firstkeymethod :: cmd_keypos
  c_firstkeypos :: int
  c_arity :: int

definition COMMAND ::
  "cmd_type \<Rightarrow> string \<Rightarrow> string option \<Rightarrow> int \<Rightarrow> cmd_keypos \<Rightarrow> int \<Rightarrow> cmddef" where
  "COMMAND t name subname arity keymethod keypos =
     \<lparr>c_type = t, c_name = name, c_subname = subname, c_firstkeymethod = keymethod,
      c_firstkeypos = keypos, c_arity = arity\<rparr>"

abbreviation (input) CMD_UNKNOWN :: cmd_type where "CMD_UNKNOWN \<equiv> 0"
abbreviation (input) CMD_REQ_REDIS_DEL :: cmd_type where "CMD_REQ_REDIS_DEL \<equiv> 95"
abbreviation (input) CMD_REQ_REDIS_EXISTS :: cmd_type where "CMD_REQ_REDIS_EXISTS \<equiv> 104"
abbreviation (input) CMD_REQ_REDIS_MGET :: cmd_type where "CMD_REQ_REDIS_MGET \<equiv> 189"
abbreviation (input) CMD_REQ_REDIS_MIGRATE :: cmd_type where "CMD_REQ_REDIS_MIGRATE \<equiv> 190"
abbreviation (input) CMD_REQ_REDIS_MSET :: cmd_type where "CMD_REQ_REDIS_MSET \<equiv> 198"
abbreviation (input) CMD_REQ_REDIS_XREAD :: cmd_type where "CMD_REQ_REDIS_XREAD \<equiv> 340"
abbreviation (input) CMD_REQ_REDIS_XREADGROUP :: cmd_type where "CMD_REQ_REDIS_XREADGROUP \<equiv> 341"
abbreviation (input) CMD_SENTINEL :: cmd_type where "CMD_SENTINEL \<equiv> 382"

section \<open>The table\<close>

definition redis_commands_1 :: "cmddef list" where
  "redis_commands_1 =
    [COMMAND 1 ''ACL'' (Some ''CAT'') (-2) KEYPOS_NONE 0,
     COMMAND 2 ''ACL'' (Some ''DELUSER'') (-3) KEYPOS_NONE 0,
     COMMAND 3 ''ACL'' (Some ''DRYRUN'') (-4) KEYPOS_NONE 0,
     COMMAND 4 ''ACL'' (Some ''GENPASS'') (-2) KEYPOS_NONE 0,
     COMMAND 5 ''ACL'' (Some ''GETUSER'') 3 KEYPOS_NONE 0,
     COMMAND 6 ''ACL'' (Some ''HELP'') 2 KEYPOS_NONE 0,
     COMMAND 7 ''ACL'' (Some ''LIST'') 2 KEYPOS_NONE 0,
     COMMAND 8 ''ACL'' (Some ''LOAD'') 2 KEYPOS_NONE 0,
     COMMAND 9 ''ACL'' (Some ''LOG'') (-2) KEYPOS_NONE 0,
     COMMAND 10 ''ACL'' (Some ''SAVE'') 2 KEYPOS_NONE 0,
     COMMAND 11 ''ACL'' (Some ''SETUSER'') (-3) KEYPOS_NONE 0,
     COMMAND 12 ''ACL'' (Some ''USERS'') 2 KEYPOS_NONE 0,
     COMMAND 13 ''ACL'' (Some ''WHOAMI'') 2 KEYPOS_NONE 0,
     COMMAND 14 ''APPEND'' None 3 KEYPOS_INDEX 1,
     COMMAND 15 ''ASKING'' None 1 KEYPOS_NONE 0,
     COMMAND 16 ''AUTH'' None (-2) KEYPOS_NONE 0,
     COMMAND 17 ''BGREWRITEAOF'' None 1 KEYPOS_NONE 0,
     COMMAND 18 ''BGSAVE'' None (-1) KEYPOS_NONE 0,
     COMMAND 19 ''BITCOUNT'' None (-2) KEYPOS_INDEX 1,
     COMMAND 20 ''BITFIELD'' None (-2) KEYPOS_INDEX 1,
     COMMAND 21 ''BITFIELD_RO'' None (-2) KEYPOS_INDEX 1,
     COMMAND 22 ''BITOP'' None (-4) KEYPOS_INDEX 2,
     COMMAND 23 ''BITPOS'' None (-3) KEYPOS_INDEX 1,
     COMMAND 24 ''BLMOVE'' None 6 KEYPOS_INDEX 1,
     COMMAND 25 ''BLMPOP'' None (-5) KEYPOS_KEYNUM 2,
     COMMAND 26 ''BLPOP'' None (-3) KEYPOS_INDEX 1,
     COMMAND 27 ''BRPOP'' None (-3) KEYPOS_INDEX 1,
     COMMAND 28 ''BRPOPLPUSH'' None 4 KEYPOS_INDEX 1,
     COMMAND 29 ''BZMPOP'' None (-5) KEYPOS_KEYNUM 2,
     COMMAND 30 ''BZPOPMAX'' None (-3) KEYPOS_INDEX 1,
     COMMAND 31 ''BZPOPMIN'' None (-3) KEYPOS_INDEX 1,
     COMMAND 32 ''CLIENT'' (Some ''CACHING'') 3 KEYPOS_NONE 0,
     COMMAND 33 ''CLIENT'' (Some ''GETNAME'') 2 KEYPOS_NONE 0,
     COMMAND 34 ''CLIENT'' (Some ''GETREDIR'') 2 KEYPOS_NONE 0,
     COMMAND 35 ''CLIENT'' (Some ''HELP'') 2 KEYPOS_NONE 0,
     COMMAND 36 ''CLIENT'' (Some ''ID'') 2 KEYPOS_NONE 0,
     COMMAND 37 ''CLIENT'' (Some ''INFO'') 2 KEYPOS_NONE 0,
     COMMAND 38 ''CLIENT'' (Some ''KILL'') (-3) KEYPOS_NONE 0,
     COMMAND 39 ''CLIENT'' (Some ''LIST'') (-2) KEYPOS_NONE 0,
     COMMAND 40 ''CLIENT'' (Some ''NO-EVICT'') 3 KEYPOS_NONE 0,
     COMMAND 41 ''CLIENT'' (Some ''NO-TOUCH'') 3 KEYPOS_NONE 0,
     COMMAND 42 ''CLIENT'' (Some ''PAUSE'') (-3) KEYPOS_NONE 0,
     COMMAND 43 ''CLIENT'' (Some ''REPLY'') 3 KEYPOS_NONE 0,
     COMMAND 44 ''CLIENT'' (Some ''SETINFO'') 4 KEYPOS_NONE 0,
     COMMAND 45 ''CLIENT'' (Some ''SETNAME'') 3 KEYPOS_NONE 0,
     COMMAND 46 ''CLIENT'' (Some ''TRACKING'') (-3) KEYPOS_NONE 0,
     COMMAND 47 ''CLIENT'' (Some ''TRACKINGINFO'') 2 KEYPOS_NONE 0,
     COMMAND 48 ''CLIENT'' (Some ''UNBLOCK'') (-3) KEYPOS_NONE 0,
     COMMAND 49 ''CLIENT'' (Some ''UNPAUSE'') 2 KEYPOS_NONE 0,
     COMMAND 50 ''CLUSTER'' (Some ''ADDSLOTS'') (-3) KEYPOS_NONE 0,
     COMMAND 51 ''CLUSTER'' (Some ''ADDSLOTSRANGE'') (-4) KEYPOS_NONE 0,
     COMMAND 52 ''CLUSTER'' (Some ''BUMPEPOCH'') 2 KEYPOS_NONE 0,
     COMMAND 53 ''CLUSTER'' (Some ''COUNT-FAILURE-REPORTS'') 3 KEYPOS_NONE 0,
     COMMAND 54 ''CLUSTER'' (Some ''COUNTKEYSINSLOT'') 3 KEYPOS_NONE 0,
     COMMAND 55 ''CLUSTER'' (Some ''DELSLOTS'') (-3) KEYPOS_NONE 0,
     COMMAND 56 ''CLUSTER'' (Some ''DELSLOTSRANGE'') (-4) KEYPOS_NONE 0,
     COMMAND 57 ''CLUSTER'' (Some ''FAILOVER'') (-2) KEYPOS_NONE 0,
     COMMAND 58 ''CLUSTER'' (Some ''FLUSHSLOTS'') 2 KEYPOS_NONE 0,
     COMMAND 59 ''CLUSTER'' (Some ''FORGET'') 3 KEYPOS_NONE 0,
     COMMAND 60 ''CLUSTER'' (Some ''GETKEYSINSLOT'') 4 KEYPOS_NONE 0,
     COMMAND 61 ''CLUSTER'' (Some ''HELP'') 2 KEYPOS_NONE 0,
     COMMAND 62 ''CLUSTER'' (Some ''INFO'') 2 KEYPOS_NONE 0,
     COMMAND 63 ''CLUSTER'' (Some ''KEYSLOT'') 3 KEYPOS_NONE 0,
     COMMAND 64 ''CLUSTER'' (Some ''LINKS'') 2 KEYPOS_NONE 0,
     COMMAND 65 ''CLUSTER'' (Some ''MEET'') (-4) KEYPOS_NONE 0,
     COMMAND 66 ''CLUSTER'' (Some ''MYID'') 2 KEYPOS_NONE 0,
     COMMAND 67 ''CLUSTER'' (Some ''MYSHARDID'') 2 KEYPOS_NONE 0,
     COMMAND 68 ''CLUSTER'' (Some ''NODES'') 2 KEYPOS_NONE 0,
     COMMAND 69 ''CLUSTER'' (Some ''REPLICAS'') 3 KEYPOS_NONE 0,
     COMMAND 70 ''CLUSTER'' (Some ''REPLICATE'') 3 KEYPOS_NONE 0,
     COMMAND 71 ''CLUSTER'' (Some ''RESET'') (-2) KEYPOS_NONE 0,
     COMMAND 72 ''CLUSTER'' (Some ''SAVECONFIG'') 2 KEYPOS_NONE 0,
     COMMAND 73 ''CLUSTER'' (Some ''SET-CONFIG-EPOCH'') 3 KEYPOS_NONE 0,
     COMMAND 74 ''CLUSTER'' (Some ''SETSLOT'') (-4) KEYPOS_NONE 0,
     COMMAND 75 ''CLUSTER'' (Some ''SHARDS'') 2 KEYPOS_NONE 0,
     COMMAND 76 ''CLUSTER'' (Some ''SLAVES'') 3 KEYPOS_NONE 0,
     COMMAND 77 ''CLUSTER'' (Some ''SLOTS'') 2 KEYPOS_NONE 0,
     COMMAND 78 ''COMMAND'' (Some ''COUNT'') 2 KEYPOS_NONE 0,
     COMMAND 79 ''COMMAND'' (Some ''DOCS'') (-2) KEYPOS_NONE 0,
     COMMAND 80 ''COMMAND'' (Some ''GETKEYS'') (-3) KEYPOS_NONE 0,
     COMMAND 81 ''COMMAND'' (Some ''GETKEYSANDFLAGS'') (-3) KEYPOS_NONE 0,
     COMMAND 82 ''COMMAND'' (Some ''HELP'') 2 KEYPOS_NONE 0,
     COMMAND 83 ''COMMAND'' (Some ''INFO'') (-2) KEYPOS_NONE 0,
     COMMAND 84 ''COMMAND'' (Some ''LIST'') (-2) KEYPOS_NONE 0,
     COMMAND 85 ''CONFIG'' (Some ''GET'') (-3) KEYPOS_NONE 0,
     COMMAND 86 ''CONFIG'' (Some ''HELP'') 2 KEYPOS_NONE 0,
     COMMAND 87 ''CONFIG'' (Some ''RESETSTAT'') 2 KEYPOS_NONE 0,
     COMMAND 88 ''CONFIG'' (Some ''REWRITE'') 2 KEYPOS_NONE 0,
     COMMAND 89 ''CONFIG'' (Some ''SET'') (-4) KEYPOS_NONE 0,
     COMMAND 90 ''COPY'' None (-3) KEYPOS_INDEX 1,
     COMMAND 91 ''DBSIZE'' None 1 KEYPOS_NONE 0,
     COMMAND 92 ''DEBUG'' None (-2) KEYPOS_NONE 0,
     COMMAND 93 ''DECR'' None 2 KEYPOS_INDEX 1,
     COMMAND 94 ''DECRBY'' None 3 KEYPOS_INDEX 1,
     COMMAND 95 ''DEL'' None (-2) KEYPOS_INDEX 1,
     COMMAND 96 ''DISCARD'' None 1 KEYPOS_NONE 0,
     COMMAND 97 ''DUMP'' None 2 KEYPOS_INDEX 1,
     COMMAND 98 ''ECHO'' None 2 KEYPOS_NONE 0,
     COMMAND 99 ''EVAL'' None (-3) KEYPOS_KEYNUM 2,
     COMMAND 100 ''EVALSHA'' None (-3) KEYPOS_KEYNUM 2,
     COMMAND 101 ''EVALSHA_RO'' None (-3) KEYPOS_KEYNUM 2,
     COMMAND 102 ''EVAL_RO'' None (-3) KEYPOS_KEYNUM 2,
     COMMAND 103 ''EXEC'' None 1 KEYPOS_NONE 0,
     COMMAND 104 ''EXISTS'' None (-2) KEYPOS_INDEX 1,
     COMMAND 105 ''EXPIRE'' None (-3) KEYPOS_INDEX 1,
     COMMAND 106 ''EXPIREAT'' None (-3) KEYPOS_INDEX 1,
     COMMAND 107 ''EXPIRETIME'' None 2 KEYPOS_INDEX 1,
     COMMAND 108 ''FAILOVER'' None (-1) KEYPOS_NONE 0,
     COMMAND 109 ''FCALL'' None (-3) KEYPOS_KEYNUM 2,
     COMMAND 110 ''FCALL_RO'' None (-3) KEYPOS_KEYNUM 2,
     COMMAND 111 ''FLUSHALL'' None (-1) KEYPOS_NONE 0,
     COMMAND 112 ''FLUSHDB'' None (-1) KEYPOS_NONE 0,
     COMMAND 113 ''FUNCTION'' (Some ''DELETE'') 3 KEYPOS_NONE 0,
     COMMAND 114 ''FUNCTION'' (Some ''DUMP'') 2 KEYPOS_NONE 0,
     COMMAND 115 ''FUNCTION'' (Some ''FLUSH'') (-2) KEYPOS_NONE 0,
     COMMAND 116 ''FUNCTION'' (Some ''HELP'') 2 KEYPOS_NONE 0,
     COMMAND 117 ''FUNCTION'' (Some ''KILL'') 2 KEYPOS_NONE 0,
     COMMAND 118 ''FUNCTION'' (Some ''LIST'') (-2) KEYPOS_NONE 0,
     COMMAND 119 ''FUNCTION'' (Some ''LOAD'') (-3) KEYPOS_NONE 0,
     COMMAND 120 ''FUNCTION'' (Some ''RESTORE'') (-3) KEYPOS_NONE 0,
     COMMAND 121 ''FUNCTION'' (Some ''STATS'') 2 KEYPOS_NONE 0,
     COMMAND 122 ''GEOADD'' None (-5) KEYPOS_INDEX 1,
     COMMAND 123 ''GEODIST'' None (-4) KEYPOS_INDEX 1,
     COMMAND 124 ''GEOHASH'' None (-2) KEYPOS_INDEX 1,
     COMMAND 125 ''GEOPOS'' None (-2) KEYPOS_INDEX 1,
     COMMAND 126 ''GEORADIUS'' None (-6) KEYPOS_INDEX 1]"

definition redis_commands_2 :: "cmddef list" where
  "redis_commands_2 =
    [COMMAND 127 ''GEORADIUSBYMEMBER'' None (-5) KEYPOS_INDEX 1,
     COMMAND 128 ''GEORADIUSBYMEMBER_RO'' None (-5) KEYPOS_INDEX 1,
     COMMAND 129 ''GEORADIUS_RO'' None (-6) KEYPOS_INDEX 1,
     COMMAND 130 ''GEOSEARCH'' None (-7) KEYPOS_INDEX 1,
     COMMAND 131 ''GEOSEARCHSTORE'' None (-8) KEYPOS_INDEX 1,
     COMMAND 132 ''GET'' None 2 KEYPOS_INDEX 1,
     COMMAND 133 ''GETBIT'' None 3 KEYPOS_INDEX 1,
     COMMAND 134 ''GETDEL'' None 2 KEYPOS_INDEX 1,
     COMMAND 135 ''GETEX'' None (-2) KEYPOS_INDEX 1,
     COMMAND 136 ''GETRANGE'' None 4 KEYPOS_INDEX 1,
     COMMAND 137 ''GETSET'' None 3 KEYPOS_INDEX 1,
     COMMAND 138 ''HDEL'' None (-3) KEYPOS_INDEX 1,
     COMMAND 139 ''HELLO'' None (-1) KEYPOS_NONE 0,
     COMMAND 140 ''HEXISTS'' None 3 KEYPOS_INDEX 1,
     COMMAND 141 ''HGET'' None 3 KEYPOS_INDEX 1,
     COMMAND 142 ''HGETALL'' None 2 KEYPOS_INDEX 1,
     COMMAND 143 ''HINCRBY'' None 4 KEYPOS_INDEX 1,
     COMMAND 144 ''HINCRBYFLOAT'' None 4 KEYPOS_INDEX 1,
     COMMAND 145 ''HKEYS'' None 2 KEYPOS_INDEX 1,
     COMMAND 146 ''HLEN'' None 2 KEYPOS_INDEX 1,
     COMMAND 147 ''HMGET'' None (-3) KEYPOS_INDEX 1,
     COMMAND 148 ''HMSET'' None (-4) KEYPOS_INDEX 1,
     COMMAND 149 ''HRANDFIELD'' None (-2) KEYPOS_INDEX 1,
     COMMAND 150 ''HSCAN'' None (-3) KEYPOS_INDEX 1,
     COMMAND 151 ''HSET'' None (-4) KEYPOS_INDEX 1,
     COMMAND 152 ''HSETNX'' None 4 KEYPOS_INDEX 1,
     COMMAND 153 ''HSTRLEN'' None 3 KEYPOS_INDEX 1,
     COMMAND 154 ''HVALS'' None 2 KEYPOS_INDEX 1,
     COMMAND 155 ''INCR'' None 2 KEYPOS_INDEX 1,
     COMMAND 156 ''INCRBY'' None 3 KEYPOS_INDEX 1,
     COMMAND 157 ''INCRBYFLOAT'' None 3 KEYPOS_INDEX 1,
     COMMAND 158 ''INFO'' None (-1) KEYPOS_NONE 0,
     COMMAND 159 ''KEYS'' None 2 KEYPOS_NONE 0,
     COMMAND 160 ''LASTSAVE'' None 1 KEYPOS_NONE 0,
     COMMAND 161 ''LATENCY'' (Some ''DOCTOR'') 2 KEYPOS_NONE 0,
     COMMAND 162 ''LATENCY'' (Some ''GRAPH'') 3 KEYPOS_NONE 0,
     COMMAND 163 ''LATENCY'' (Some ''HELP'') 2 KEYPOS_NONE 0,
     COMMAND 164 ''LATENCY'' (Some ''HISTOGRAM'') (-2) KEYPOS_NONE 0,
     COMMAND 165 ''LATENCY'' (Some ''HISTORY'') 3 KEYPOS_NONE 0,
     COMMAND 166 ''LATENCY'' (Some ''LATEST'') 2 KEYPOS_NONE 0,
     COMMAND 167 ''LATENCY'' (Some ''RESET'') (-2) KEYPOS_NONE 0,
     COMMAND 168 ''LCS'' None (-3) KEYPOS_INDEX 1,
     COMMAND 169 ''LINDEX'' None 3 KEYPOS_INDEX 1,
     COMMAND 170 ''LINSERT'' None 5 KEYPOS_INDEX 1,
     COMMAND 171 ''LLEN'' None 2 KEYPOS_INDEX 1,
     COMMAND 172 ''LMOVE'' None 5 KEYPOS_INDEX 1,
     COMMAND 173 ''LMPOP'' None (-4) KEYPOS_KEYNUM 1,
     COMMAND 174 ''LOLWUT'' None (-1) KEYPOS_NONE 0,
     COMMAND 175 ''LPOP'' None (-2) KEYPOS_INDEX 1,
     COMMAND 176 ''LPOS'' None (-3) KEYPOS_INDEX 1,
     COMMAND 177 ''LPUSH'' None (-3) KEYPOS_INDEX 1,
     COMMAND 178 ''LPUSHX'' None (-3) KEYPOS_INDEX 1,
     COMMAND 179 ''LRANGE'' None 4 KEYPOS_INDEX 1,
     COMMAND 180 ''LREM'' None 4 KEYPOS_INDEX 1,
     COMMAND 181 ''LSET'' None 4 KEYPOS_INDEX 1,
     COMMAND 182 ''LTRIM'' None 4 KEYPOS_INDEX 1,
     COMMAND 183 ''MEMORY'' (Some ''DOCTOR'') 2 KEYPOS_NONE 0,
     COMMAND 184 ''MEMORY'' (Some ''HELP'') 2 KEYPOS_NONE 0,
     COMMAND 185 ''MEMORY'' (Some ''MALLOC-STATS'') 2 KEYPOS_NONE 0,
     COMMAND 186 ''MEMORY'' (Some ''PURGE'') 2 KEYPOS_NONE 0,
     COMMAND 187 ''MEMORY'' (Some ''STATS'') 2 KEYPOS_NONE 0,
     COMMAND 188 ''MEMORY'' (Some ''USAGE'') (-3) KEYPOS_INDEX 2,
     COMMAND 189 ''MGET'' None (-2) KEYPOS_INDEX 1,
     COMMAND 190 ''MIGRATE'' None (-6) KEYPOS_INDEX 3,
     COMMAND 191 ''MODULE'' (Some ''HELP'') 2 KEYPOS_NONE 0,
     COMMAND 192 ''MODULE'' (Some ''LIST'') 2 KEYPOS_NONE 0,
     COMMAND 193 ''MODULE'' (Some ''LOAD'') (-3) KEYPOS_NONE 0,
     COMMAND 194 ''MODULE'' (Some ''LOADEX'') (-3) KEYPOS_NONE 0,
     COMMAND 195 ''MODULE'' (Some ''UNLOAD'') 3 KEYPOS_NONE 0,
     COMMAND 196 ''MONITOR'' None 1 KEYPOS_NONE 0,
     COMMAND 197 ''MOVE'' None 3 KEYPOS_INDEX 1,
     COMMAND 198 ''MSET'' None (-3) KEYPOS_INDEX 1,
     COMMAND 199 ''MSETNX'' None (-3) KEYPOS_INDEX 1,
     COMMAND 200 ''MULTI'' None 1 KEYPOS_NONE 0,
     COMMAND 201 ''OBJECT'' (Some ''ENCODING'') 3 KEYPOS_INDEX 2,
     COMMAND 202 ''OBJECT'' (Some ''FREQ'') 3 KEYPOS_INDEX 2,
     COMMAND 203 ''OBJECT'' (Some ''HELP'') 2 KEYPOS_NONE 0,
     COMMAND 204 ''OBJECT'' (Some ''IDLETIME'') 3 KEYPOS_INDEX 2,
     COMMAND 205 ''OBJECT'' (Some ''REFCOUNT'') 3 KEYPOS_INDEX 2,
     COMMAND 206 ''PERSIST'' None 2 KEYPOS_INDEX 1,
     COMMAND 207 ''PEXPIRE'' None (-3) KEYPOS_INDEX 1,
     COMMAND 208 ''PEXPIREAT'' None (-3) KEYPOS_INDEX 1,
     COMMAND 209 ''PEXPIRETIME'' None 2 KEYPOS_INDEX 1,
     COMMAND 210 ''PFADD'' None (-2) KEYPOS_INDEX 1,
     COMMAND 211 ''PFCOUNT'' None (-2) KEYPOS_INDEX 1,
     COMMAND 212 ''PFDEBUG'' None 3 KEYPOS_INDEX 2,
     COMMAND 213 ''PFMERGE'' None (-2) KEYPOS_INDEX 1,
     COMMAND 214 ''PFSELFTEST'' None 1 KEYPOS_NONE 0,
     COMMAND 215 ''PING'' None (-1) KEYPOS_NONE 0,
     COMMAND 216 ''PSETEX'' None 4 KEYPOS_INDEX 1,
     COMMAND 217 ''PSUBSCRIBE'' None (-2) KEYPOS_NONE 0,
     COMMAND 218 ''PSYNC'' None (-3) KEYPOS_NONE 0,
     COMMAND 219 ''PTTL'' None 2 KEYPOS_INDEX 1,
     COMMAND 220 ''PUBLISH'' None 3 KEYPOS_NONE 0,
     COMMAND 221 ''PUBSUB'' (Some ''CHANNELS'') (-2) KEYPOS_NONE 0,
     COMMAND 222 ''PUBSUB'' (Some ''HELP'') 2 KEYPOS_NONE 0,
     COMMAND 223 ''PUBSUB'' (Some ''NUMPAT'') 2 KEYPOS_NONE 0,
     COMMAND 224 ''PUBSUB'' (Some ''NUMSUB'') (-2) KEYPOS_NONE 0,
     COMMAND 225 ''PUBSUB'' (Some ''SHARDCHANNELS'') (-2) KEYPOS_NONE 0,
     COMMAND 226 ''PUBSUB'' (Some ''SHARDNUMSUB'') (-2) KEYPOS_NONE 0,
     COMMAND 227 ''PUNSUBSCRIBE'' None (-1) KEYPOS_NONE 0,
     COMMAND 228 ''QUIT'' None (-1) KEYPOS_NONE 0,
     COMMAND 229 ''RANDOMKEY'' None 1 KEYPOS_NONE 0,
     COMMAND 230 ''READONLY'' None 1 KEYPOS_NONE 0,
     COMMAND 231 ''READWRITE'' None 1 KEYPOS_NONE 0,
     COMMAND 232 ''RENAME'' None 3 KEYPOS_INDEX 1,
     COMMAND 233 ''RENAMENX'' None 3 KEYPOS_INDEX 1,
     COMMAND 234 ''REPLCONF'' None (-1) KEYPOS_NONE 0,
     COMMAND 235 ''REPLICAOF'' None 3 KEYPOS_NONE 0,
     COMMAND 236 ''RESET'' None 1 KEYPOS_NONE 0,
     COMMAND 237 ''RESTORE'' None (-4) KEYPOS_INDEX 1,
     COMMAND 238 ''RESTORE-ASKING'' None (-4) KEYPOS_INDEX 1,
     COMMAND 239 ''ROLE'' None 1 KEYPOS_NONE 0,
     COMMAND 240 ''RPOP'' None (-2) KEYPOS_INDEX 1,
     COMMAND 241 ''RPOPLPUSH'' None 3 KEYPOS_INDEX 1,
     COMMAND 242 ''RPUSH'' None (-3) KEYPOS_INDEX 1,
     COMMAND 243 ''RPUSHX'' None (-3) KEYPOS_INDEX 1,
     COMMAND 244 ''SADD'' None (-3) KEYPOS_INDEX 1,
     COMMAND 245 ''SAVE'' None 1 KEYPOS_NONE 0,
     COMMAND 246 ''SCAN'' None (-2) KEYPOS_NONE 0,
     COMMAND 247 ''SCARD'' None 2 KEYPOS_INDEX 1,
     COMMAND 248 ''SCRIPT'' (Some ''DEBUG'') 3 KEYPOS_NONE 0,
     COMMAND 249 ''SCRIPT'' (Some ''EXISTS'') (-3) KEYPOS_NONE 0,
     COMMAND 250 ''SCRIPT'' (Some ''FLUSH'') (-2) KEYPOS_NONE 0,
     COMMAND 251 ''SCRIPT'' (Some ''HELP'') 2 KEYPOS_NONE 0,
     COMMAND 252 ''SCRIPT'' (Some ''KILL'') 2 KEYPOS_NONE 0]"

definition redis_commands_3 :: "cmddef list" where
  "redis_commands_3 =
    [COMMAND 253 ''SCRIPT'' (Some ''LOAD'') 3 KEYPOS_NONE 0,
     COMMAND 254 ''SDIFF'' None (-2) KEYPOS_INDEX 1,
     COMMAND 255 ''SDIFFSTORE'' None (-3) KEYPOS_INDEX 1,
     COMMAND 256 ''SELECT'' None 2 KEYPOS_NONE 0,
     COMMAND 257 ''SENTINEL'' (Some ''CKQUORUM'') 3 KEYPOS_NONE 0,
     COMMAND 258 ''SENTINEL'' (Some ''CONFIG'') (-4) KEYPOS_NONE 0,
     COMMAND 259 ''SENTINEL'' (Some ''DEBUG'') (-2) KEYPOS_NONE 0,
     COMMAND 260 ''SENTINEL'' (Some ''FAILOVER'') 3 KEYPOS_NONE 0,
     COMMAND 261 ''SENTINEL'' (Some ''FLUSHCONFIG'') 2 KEYPOS_NONE 0,
     COMMAND 262 ''SENTINEL'' (Some ''GET-MASTER-ADDR-BY-NAME'') 3 KEYPOS_NONE 0,
     COMMAND 263 ''SENTINEL'' (Some ''HELP'') 2 KEYPOS_NONE 0,
     COMMAND 264 ''SENTINEL'' (Some ''INFO-CACHE'') (-3) KEYPOS_NONE 0,
     COMMAND 265 ''SENTINEL'' (Some ''IS-MASTER-DOWN-BY-ADDR'') 6 KEYPOS_NONE 0,
     COMMAND 266 ''SENTINEL'' (Some ''MASTER'') 3 KEYPOS_NONE 0,
     COMMAND 267 ''SENTINEL'' (Some ''MASTERS'') 2 KEYPOS_NONE 0,
     COMMAND 268 ''SENTINEL'' (Some ''MONITOR'') 6 KEYPOS_NONE 0,
     COMMAND 269 ''SENTINEL'' (Some ''MYID'') 2 KEYPOS_NONE 0,
     COMMAND 270 ''SENTINEL'' (Some ''PENDING-SCRIPTS'') 2 KEYPOS_NONE 0,
     COMMAND 271 ''SENTINEL'' (Some ''REMOVE'') 3 KEYPOS_NONE 0,
     COMMAND 272 ''SENTINEL'' (Some ''REPLICAS'') 3 KEYPOS_NONE 0,
     COMMAND 273 ''SENTINEL'' (Some ''RESET'') 3 KEYPOS_NONE 0,
     COMMAND 274 ''SENTINEL'' (Some ''SENTINELS'') 3 KEYPOS_NONE 0,
     COMMAND 275 ''SENTINEL'' (Some ''SET'') (-5) KEYPOS_NONE 0,
     COMMAND 276 ''SENTINEL'' (Some ''SIMULATE-FAILURE'') (-3) KEYPOS_NONE 0,
     COMMAND 277 ''SENTINEL'' (Some ''SLAVES'') 3 KEYPOS_NONE 0,
     COMMAND 278 ''SET'' None (-3) KEYPOS_INDEX 1,
     COMMAND 279 ''SETBIT'' None 4 KEYPOS_INDEX 1,
     COMMAND 280 ''SETEX'' None 4 KEYPOS_INDEX 1,
     COMMAND 281 ''SETNX'' None 3 KEYPOS_INDEX 1,
     COMMAND 282 ''SETRANGE'' None 4 KEYPOS_INDEX 1,
     COMMAND 283 ''SHUTDOWN'' None (-1) KEYPOS_NONE 0,
     COMMAND 284 ''SINTER'' None (-2) KEYPOS_INDEX 1,
     COMMAND 285 ''SINTERCARD'' None (-3) KEYPOS_KEYNUM 1,
     COMMAND 286 ''SINTERSTORE'' None (-3) KEYPOS_INDEX 1,
     COMMAND 287 ''SISMEMBER'' None 3 KEYPOS_INDEX 1,
     COMMAND 288 ''SLAVEOF'' None 3 KEYPOS_NONE 0,
     COMMAND 289 ''SLOWLOG'' (Some ''GET'') (-2) KEYPOS_NONE 0,
     COMMAND 290 ''SLOWLOG'' (Some ''HELP'') 2 KEYPOS_NONE 0,
     COMMAND 291 ''SLOWLOG'' (Some ''LEN'') 2 KEYPOS_NONE 0,
     COMMAND 292 ''SLOWLOG'' (Some ''RESET'') 2 KEYPOS_NONE 0,
     COMMAND 293 ''SMEMBERS'' None 2 KEYPOS_INDEX 1,
     COMMAND 294 ''SMISMEMBER'' None (-3) KEYPOS_INDEX 1,
     COMMAND 295 ''SMOVE'' None 4 KEYPOS_INDEX 1,
     COMMAND 296 ''SORT'' None (-2) KEYPOS_INDEX 1,
     COMMAND 297 ''SORT_RO'' None (-2) KEYPOS_INDEX 1,
     COMMAND 298 ''SPOP'' None (-2) KEYPOS_INDEX 1,
     COMMAND 299 ''SPUBLISH'' None 3 KEYPOS_INDEX 1,
     COMMAND 300 ''SRANDMEMBER'' None (-2) KEYPOS_INDEX 1,
     COMMAND 301 ''SREM'' None (-3) KEYPOS_INDEX 1,
     COMMAND 302 ''SSCAN'' None (-3) KEYPOS_INDEX 1,
     COMMAND 303 ''SSUBSCRIBE'' None (-2) KEYPOS_INDEX 1,
     COMMAND 304 ''STRLEN'' None 2 KEYPOS_INDEX 1,
     COMMAND 305 ''SUBSCRIBE'' None (-2) KEYPOS_NONE 0,
     COMMAND 306 ''SUBSTR'' None 4 KEYPOS_INDEX 1,
     COMMAND 307 ''SUNION'' None (-2) KEYPOS_INDEX 1,
     COMMAND 308 ''SUNIONSTORE'' None (-3) KEYPOS_INDEX 1,
     COMMAND 309 ''SUNSUBSCRIBE'' None (-1) KEYPOS_INDEX 1,
     COMMAND 310 ''SWAPDB'' None 3 KEYPOS_NONE 0,
     COMMAND 311 ''SYNC'' None 1 KEYPOS_NONE 0,
     COMMAND 312 ''TIME'' None 1 KEYPOS_NONE 0,
     COMMAND 313 ''TOUCH'' None (-2) KEYPOS_INDEX 1,
     COMMAND 314 ''TTL'' None 2 KEYPOS_INDEX 1,
     COMMAND 315 ''TYPE'' None 2 KEYPOS_INDEX 1,
     COMMAND 316 ''UNLINK'' None (-2) KEYPOS_INDEX 1,
     COMMAND 317 ''UNSUBSCRIBE'' None (-1) KEYPOS_NONE 0,
     COMMAND 318 ''UNWATCH'' None 1 KEYPOS_NONE 0,
     COMMAND 319 ''WAIT'' None 3 KEYPOS_NONE 0,
     COMMAND 320 ''WAITAOF'' None 4 KEYPOS_NONE 0,
     COMMAND 321 ''WATCH'' None (-2) KEYPOS_INDEX 1,
     COMMAND 322 ''XACK'' None (-4) KEYPOS_INDEX 1,
     COMMAND 323 ''XADD'' None (-5) KEYPOS_INDEX 1,
     COMMAND 324 ''XAUTOCLAIM'' None (-6) KEYPOS_INDEX 1,
     COMMAND 325 ''XCLAIM'' None (-6) KEYPOS_INDEX 1,
     COMMAND 326 ''XDEL'' None (-3) KEYPOS_INDEX 1,
     COMMAND 327 ''XGROUP'' (Some ''CREATE'') (-5) KEYPOS_INDEX 2,
     COMMAND 328 ''XGROUP'' (Some ''CREATECONSUMER'') 5 KEYPOS_INDEX 2,
     COMMAND 329 ''XGROUP'' (Some ''DELCONSUMER'') 5 KEYPOS_INDEX 2,
     COMMAND 330 ''XGROUP'' (Some ''DESTROY'') 4 KEYPOS_INDEX 2,
     COMMAND 331 ''XGROUP'' (Some ''HELP'') 2 KEYPOS_NONE 0,
     COMMAND 332 ''XGROUP'' (Some ''SETID'') (-5) KEYPOS_INDEX 2,
     COMMAND 333 ''XINFO'' (Some ''CONSUMERS'') 4 KEYPOS_INDEX 2,
     COMMAND 334 ''XINFO'' (Some ''GROUPS'') 3 KEYPOS_INDEX 2,
     COMMAND 335 ''XINFO'' (Some ''HELP'') 2 KEYPOS_NONE 0,
     COMMAND 336 ''XINFO'' (Some ''STREAM'') (-3) KEYPOS_INDEX 2,
     COMMAND 337 ''XLEN'' None 2 KEYPOS_INDEX 1,
     COMMAND 338 ''XPENDING'' None (-3) KEYPOS_INDEX 1,
     COMMAND 339 ''XRANGE'' None (-4) KEYPOS_INDEX 1,
     COMMAND 340 ''XREAD'' None (-4) KEYPOS_UNKNOWN 0,
     COMMAND 341 ''XREADGROUP'' None (-7) KEYPOS_UNKNOWN 0,
     COMMAND 342 ''XREVRANGE'' None (-4) KEYPOS_INDEX 1,
     COMMAND 343 ''XSETID'' None (-3) KEYPOS_INDEX 1,
     COMMAND 344 ''XTRIM'' None (-4) KEYPOS_INDEX 1,
     COMMAND 345 ''ZADD'' None (-4) KEYPOS_INDEX 1,
     COMMAND 346 ''ZCARD'' None 2 KEYPOS_INDEX 1,
     COMMAND 347 ''ZCOUNT'' None 4 KEYPOS_INDEX 1,
     COMMAND 348 ''ZDIFF'' None (-3) KEYPOS_KEYNUM 1,
     COMMAND 349 ''ZDIFFSTORE'' None (-4) KEYPOS_INDEX 1,
     COMMAND 350 ''ZINCRBY'' None 4 KEYPOS_INDEX 1,
     COMMAND 351 ''ZINTER'' None (-3) KEYPOS_KEYNUM 1,
     COMMAND 352 ''ZINTERCARD'' None (-3) KEYPOS_KEYNUM 1,
     COMMAND 353 ''ZINTERSTORE'' None (-4) KEYPOS_INDEX 1,
     COMMAND 354 ''ZLEXCOUNT'' None 4 KEYPOS_INDEX 1,
     COMMAND 355 ''ZMPOP'' None (-4) KEYPOS_KEYNUM 1,
     COMMAND 356 ''ZMSCORE'' None (-3) KEYPOS_INDEX 1,
     COMMAND 357 ''ZPOPMAX'' None (-2) KEYPOS_INDEX 1,
     COMMAND 358 ''ZPOPMIN'' None (-2) KEYPOS_INDEX 1,
     COMMAND 359 ''ZRANDMEMBER'' None (-2) KEYPOS_INDEX 1,
     COMMAND 360 ''ZRANGE'' None (-4) KEYPOS_INDEX 1,
     COMMAND 361 ''ZRANGEBYLEX'' None (-4) KEYPOS_INDEX 1,
     COMMAND 362 ''ZRANGEBYSCORE'' None (-4) KEYPOS_INDEX 1,
     COMMAND 363 ''ZRANGESTORE'' None (-5) KEYPOS_INDEX 1,
     COMMAND 364 ''ZRANK'' None (-3) KEYPOS_INDEX 1,
     COMMAND 365 ''ZREM'' None (-3) KEYPOS_INDEX 1,
     COMMAND 366 ''ZREMRANGEBYLEX'' None 4 KEYPOS_INDEX 1,
     COMMAND 367 ''ZREMRANGEBYRANK'' None 4 KEYPOS_INDEX 1,
     COMMAND 368 ''ZREMRANGEBYSCORE'' None 4 KEYPOS_INDEX 1,
     COMMAND 369 ''ZREVRANGE'' None (-4) KEYPOS_INDEX 1,
     COMMAND 370 ''ZREVRANGEBYLEX'' None (-4) KEYPOS_INDEX 1,
     COMMAND 371 ''ZREVRANGEBYSCORE'' None (-4) KEYPOS_INDEX 1,
     COMMAND 372 ''ZREVRANK'' None (-3) KEYPOS_INDEX 1,
     COMMAND 373 ''ZSCAN'' None (-3) KEYPOS_INDEX 1,
     COMMAND 374 ''ZSCORE'' None 3 KEYPOS_INDEX 1,
     COMMAND 375 ''ZUNION'' None (-3) KEYPOS_KEYNUM 1,
     COMMAND 376 ''ZUNIONSTORE'' None (-4) KEYPOS_INDEX 1]"

definition redis_commands :: "cmddef list" where
  "redis_commands = redis_commands_1 @ redis_commands_2 @ redis_commands_3"


section \<open>Order of the table\<close>

text \<open>Three-way comparison of strings by bytes, the order the table is sorted in.\<close>

fun lexcmp :: "string \<Rightarrow> string \<Rightarrow> int" where
  "lexcmp [] [] = 0"
| "lexcmp [] (_ # _) = -1"
| "lexcmp (_ # _) [] = 1"
| "lexcmp (a # as) (b # bs) =
     (if a = b then lexcmp as bs else if ord_of a < ord_of b then -1 else 1)"

text \<open>A command either has no subcommands and one entry, or one entry for each subcommand.\<close>

definition cmd_before :: "cmddef \<Rightarrow> cmddef \<Rightarrow> bool" where
  "cmd_before c d \<longleftrightarrow> lexcmp (c_name c) (c_name d) < 0 \<or>
     (c_name c = c_name d \<and>
      (case (c_subname c, c_subname d) of (Some a, Some b) \<Rightarrow> lexcmp a b < 0 | _ \<Rightarrow> False))"

fun adjacent :: "('a \<Rightarrow> 'a \<Rightarrow> bool) \<Rightarrow> 'a list \<Rightarrow> bool" where
  "adjacent R [] = True"
| "adjacent R [x] = True"
| "adjacent R (x # y # zs) = (R x y \<and> adjacent R (y # zs))"

definition cmddef_ok :: "cmddef \<Rightarrow> bool" where
  "cmddef_ok c \<longleftrightarrow> nul_free (c_name c) \<and> c_name c \<noteq> [] \<and>
     (case c_subname c of None \<Rightarrow> True | Some s \<Rightarrow> nul_free s) \<and>
     (c_firstkeymethod c = KEYPOS_INDEX \<or> c_firstkeymethod c = KEYPOS_KEYNUM \<longrightarrow> 1 \<le> c_firstkeypos c) \<and>
     (c_firstkeymethod c = KEYPOS_UNKNOWN \<longleftrightarrow> c_type c = CMD_REQ_REDIS_XREAD \<or> c_type c = CMD_REQ_REDIS_XREADGROUP) \<and>
     0 < c_type c \<and> c_type c < CMD_SENTINEL"



lemma redis_commands_ok: "list_all cmddef_ok redis_commands"
  by (simp add: redis_commands_def redis_commands_1_def redis_commands_2_def redis_commands_3_def
      cmddef_ok_def COMMAND_def)

lemma redis_commands_adjacent: "adjacent cmd_before redis_commands"
  by (simp add: redis_commands_def redis_commands_1_def redis_commands_2_def redis_commands_3_def
      cmd_before_def COMMAND_def ord_of_def)

lemma redis_commands_types: "map c_type redis_commands = [1..<377]"
  by (simp add: redis_commands_def redis_commands_1_def redis_commands_2_def redis_commands_3_def
      COMMAND_def upt_rec)

lemmas redis_commands_okD = redis_commands_ok [unfolded list_all_iff, rule_format]

lemma lexcmp_values: "lexcmp a b \<in> {-1, 0, 1}"
  by (induction a b rule: lexcmp.induct) auto

lemma lexcmp_eq_0_iff [simp]: "lexcmp a b = 0 \<longleftrightarrow> a = b"
  by (induction a b rule: lexcmp.induct) auto

lemma lexcmp_refl [simp]: "lexcmp a a = 0"
  by simp

lemma lexcmp_less_trans: "lexcmp a b < 0 \<Longrightarrow> lexcmp b c < 0 \<Longrightarrow> lexcmp a c < 0"
proof (induction a b arbitrary: c rule: lexcmp.induct)
  case (4 a as b bs)
  then show ?case by (cases c) (auto split: if_splits)
next
  case (2 b bs)
  then show ?case by (cases c) auto
qed auto

lemma lexcmp_swap: "lexcmp b a = - lexcmp a b"
proof (induction a b rule: lexcmp.induct)
  case (4 a as b bs)
  have "a \<noteq> b \<Longrightarrow> ord_of a \<noteq> ord_of b" by simp
  with 4 show ?case by (auto simp: not_less le_less)
qed auto

lemma cmd_before_trans: "cmd_before a b \<Longrightarrow> cmd_before b c \<Longrightarrow> cmd_before a c"
  unfolding cmd_before_def by (auto intro: lexcmp_less_trans split: option.splits)

lemma adjacent_sorted_wrt:
  assumes trans: "\<And>a b c. R a b \<Longrightarrow> R b c \<Longrightarrow> R a c"
  shows "adjacent R xs \<Longrightarrow> sorted_wrt R xs"
proof (induction xs rule: induct_list012)
  case (3 x y zs)
  then have "R x y" "sorted_wrt R (y # zs)" by auto
  then show ?case by (auto intro: trans)
qed auto

lemma redis_commands_sorted: "sorted_wrt cmd_before redis_commands"
  by (rule adjacent_sorted_wrt [of cmd_before, OF cmd_before_trans redis_commands_adjacent])

end
