(* ===== verification/Command.thy ===== *)
theory Command
  imports Cmddef Hiarray Cluster_Reply
begin

text \<open>
  The command parser of \<^verbatim>\<open>command.c\<close>. A command is a buffer in the RESP request format; the
  parser finds its entry of the command table by binary search, checks its arity and records
  where its keys are. \<open>char *\<close> values into the buffer are offsets.

  The lookup is shown equal to a linear search (locale \<open>probe_table\<close>), and the whole parser
  to implement \<open>keys_spec\<close>, a specification on the list of arguments, for every request
  that \<open>resp\<close> encodes. For arbitrary bytes the keys found lie inside the buffer.
\<close>

section \<open>Lookup\<close>

definition to_upper :: "string \<Rightarrow> string" where
  "to_upper src = map (\<lambda>c. if 97 \<le> ord_of c \<and> ord_of c \<le> 122 then char_of (ord_of c - 32) else c) src"

text \<open>
  One probe of the search: the sign says where to go on, \<open>None\<close> that the search ends because
  the command has subcommands and none was given.
\<close>

definition name_cmp :: "string \<Rightarrow> string \<Rightarrow> int" where
  "name_cmp name cmd =
     (let cmp = strncmp name cmd (length cmd)
      in if cmp = 0 \<and> length name > length cmd then 1 else cmp)"

definition cmd_probe :: "string \<Rightarrow> string option \<Rightarrow> cmddef \<Rightarrow> int option" where
  "cmd_probe arg0 arg1 c =
     (let cmp = name_cmp (c_name c) (to_upper arg0)
      in case c_subname c of
           None \<Rightarrow> Some cmp
         | Some subname \<Rightarrow>
             if cmp \<noteq> 0 then Some cmp
             else (case arg1 of None \<Rightarrow> None | Some a \<Rightarrow> Some (name_cmp subname (to_upper a))))"

function search_loop :: "('a \<Rightarrow> int option) \<Rightarrow> 'a list \<Rightarrow> int \<Rightarrow> int \<Rightarrow> 'a option" where
  "search_loop probe xs left right =
     (if left \<le> right then
        (let i = (left + right) div 2; c = xs ! nat i
         in case probe c of
              None \<Rightarrow> None
            | Some cmp \<Rightarrow>
                if cmp < 0 then search_loop probe xs (i + 1) right
                else if cmp > 0 then search_loop probe xs left (i - 1)
                else Some c)
      else None)"
  by pat_completeness auto
termination
  by (relation "measure (\<lambda>(probe, xs, left, right). nat (right - left + 1))") auto

declare search_loop.simps [simp del]

definition redis_lookup_cmd :: "string \<Rightarrow> string option \<Rightarrow> cmddef option" where
  "redis_lookup_cmd arg0 arg1 =
     search_loop (cmd_probe arg0 arg1) redis_commands 0 (int (length redis_commands) - 1)"

section \<open>Binary search over a sorted table\<close>

text \<open>
  What the search relies on: probes of a sorted table are first negative, then zero or
  undecided, then positive; at most one entry matches, and none when a probe is undecided.
\<close>

locale probe_table =
  fixes probe :: "'q \<Rightarrow> 'a \<Rightarrow> int option" and xs :: "'a list"
  assumes below: "i < j \<Longrightarrow> j < length xs \<Longrightarrow> probe q (xs ! j) = Some c \<Longrightarrow> c < 0 \<Longrightarrow>
      \<exists>c' < 0. probe q (xs ! i) = Some c'"
    and above: "i < j \<Longrightarrow> j < length xs \<Longrightarrow> probe q (xs ! i) = Some c \<Longrightarrow> c > 0 \<Longrightarrow>
      \<exists>c' > 0. probe q (xs ! j) = Some c'"
    and unique: "i < j \<Longrightarrow> j < length xs \<Longrightarrow> probe q (xs ! i) = Some 0 \<Longrightarrow> probe q (xs ! j) \<noteq> Some 0"
    and undecided: "i < length xs \<Longrightarrow> j < length xs \<Longrightarrow> probe q (xs ! i) = None \<Longrightarrow> probe q (xs ! j) \<noteq> Some 0"
begin

definition is_hit :: "'q \<Rightarrow> 'a \<Rightarrow> bool" where
  "is_hit q x \<longleftrightarrow> probe q x = Some 0"

lemma hit_eq: "i < length xs \<Longrightarrow> j < length xs \<Longrightarrow> is_hit q (xs ! i) \<Longrightarrow> is_hit q (xs ! j) \<Longrightarrow> i = j"
  using unique [of i j q] unique [of j i q] by (cases i j rule: linorder_cases) (auto simp: is_hit_def)

lemma find_hit:
  assumes "i < length xs" "is_hit q (xs ! i)"
  shows "find (is_hit q) xs = Some (xs ! i)"
proof -
  have "\<not> is_hit q (xs ! j)" if "j < i" for j
    using hit_eq [of j i q] assms that by auto
  then show ?thesis using assms by (auto simp: find_Some_iff)
qed

lemma find_no_hit:
  assumes "\<And>j. j < length xs \<Longrightarrow> \<not> is_hit q (xs ! j)"
  shows "find (is_hit q) xs = None"
  using assms by (auto simp: find_None_iff in_set_conv_nth)

lemma search_loop_find:
  assumes "0 \<le> left" "right < int (length xs)"
    and "\<And>j. j < length xs \<Longrightarrow> int j < left \<or> right < int j \<Longrightarrow> \<not> is_hit q (xs ! j)"
  shows "search_loop (probe q) xs left right = find (is_hit q) xs"
  using assms
proof (induction "nat (right - left + 1)" arbitrary: left right rule: less_induct)
  case less
  show ?case
  proof (cases "left \<le> right")
    case False
    then have "\<not> is_hit q (xs ! j)" if "j < length xs" for j using less.prems(3) that by force
    then show ?thesis using False find_no_hit by (subst search_loop.simps) simp
  next
    case True
    let ?i = "(left + right) div 2"
    have i: "left \<le> ?i" "?i \<le> right" "nat ?i < length xs" using True less.prems by auto
    note unfold = search_loop.simps [of "probe q" xs left right] True
    show ?thesis
    proof (cases "probe q (xs ! nat ?i)")
      case None
      then have "find (is_hit q) xs = None"
        using undecided [OF i(3) _ None] by (intro find_no_hit) (auto simp: is_hit_def)
      with unfold None show ?thesis by simp
    next
      case (Some c)
      consider "c < 0" | "c > 0" | "c = 0" by linarith
      then show ?thesis
      proof cases
        case 1
        then have "\<not> is_hit q (xs ! j)" if "j < length xs" "j \<le> nat ?i" for j
          using below [of j "nat ?i" q c] i Some that by (cases "j = nat ?i") (auto simp: is_hit_def)
        then have "search_loop (probe q) xs (?i + 1) right = find (is_hit q) xs"
          using less.prems i by (intro less.hyps) force+
        with unfold Some 1 show ?thesis by (simp add: Let_def)
      next
        case 2
        then have "\<not> is_hit q (xs ! j)" if "j < length xs" "nat ?i \<le> j" for j
          using above [of "nat ?i" j q c] i Some that by (cases "j = nat ?i") (auto simp: is_hit_def)
        then have "search_loop (probe q) xs left (?i - 1) = find (is_hit q) xs"
          using less.prems i by (intro less.hyps) force+
        with unfold Some 2 show ?thesis by (simp add: Let_def)
      next
        case 3
        with Some have "is_hit q (xs ! nat ?i)" by (simp add: is_hit_def)
        then have "find (is_hit q) xs = Some (xs ! nat ?i)" by (rule find_hit [OF i(3)])
        with unfold Some 3 show ?thesis by (simp add: Let_def)
      qed
    qed
  qed
qed

lemma search_table: "search_loop (probe q) xs 0 (int (length xs) - 1) = find (is_hit q) xs"
  by (rule search_loop_find) auto

end

section \<open>The command table is such a table\<close>

lemma strncmp_lexcmp:
  "nul_free name \<Longrightarrow> name_cmp name cmd = lexcmp name (cstr cmd)"
proof (induction name arbitrary: cmd)
  case Nil
  show ?case
    by (cases cmd) (auto simp: name_cmp_def cstr_def Let_def)
next
  case (Cons a as)
  show ?case
  proof (cases cmd)
    case Nil
    then show ?thesis by (simp add: name_cmp_def cstr_def)
  next
    case c: (Cons b bs)
    have IH: "name_cmp as bs = lexcmp as (cstr bs)" using Cons by simp
    have "0 < ord_of a" using Cons.prems by (auto simp: zero_less_iff_neq_zero)
    show ?thesis
    proof (cases "a = b")
      case True
      with c IH Cons.prems show ?thesis by (auto simp: name_cmp_def cstr_def Let_def)
    next
      case False
      then have "ord_of a \<noteq> ord_of b" by simp
      with c False \<open>0 < ord_of a\<close> show ?thesis
        by (auto simp: name_cmp_def cstr_def Let_def)
    qed
  qed
qed


text \<open>The position of an entry with respect to the wanted name and subcommand.\<close>

lemma cmd_probe_lexcmp:
  assumes "c \<in> set redis_commands"
  shows "cmd_probe arg0 arg1 c =
    (let cmp = lexcmp (c_name c) (cstr (to_upper arg0))
     in case c_subname c of
          None \<Rightarrow> Some cmp
        | Some s \<Rightarrow> if cmp \<noteq> 0 then Some cmp
                    else map_option (\<lambda>a. lexcmp s (cstr (to_upper a))) arg1)"
  using redis_commands_okD [OF assms]
  by (auto simp: cmd_probe_def cmddef_ok_def strncmp_lexcmp Let_def split: option.splits)

lemma lexcmp_neg_mono: "lexcmp a b < 0 \<Longrightarrow> lexcmp b k \<le> 0 \<Longrightarrow> lexcmp a k < 0"
  using lexcmp_less_trans [of a b k] lexcmp_values [of b k] by (cases "lexcmp b k = 0") auto

lemma lexcmp_pos_mono: "lexcmp a b < 0 \<Longrightarrow> 0 \<le> lexcmp a k \<Longrightarrow> 0 < lexcmp b k"
  using lexcmp_neg_mono [of a b k] by linarith

lemma cmd_before_probe:
  assumes "c \<in> set redis_commands" "d \<in> set redis_commands" "cmd_before c d"
  shows "cmd_probe arg0 arg1 d = Some x \<Longrightarrow> x < 0 \<Longrightarrow> \<exists>y < 0. cmd_probe arg0 arg1 c = Some y"
    and "cmd_probe arg0 arg1 c = Some x \<Longrightarrow> 0 < x \<Longrightarrow> \<exists>y > 0. cmd_probe arg0 arg1 d = Some y"
    and "cmd_probe arg0 arg1 c = Some 0 \<Longrightarrow> cmd_probe arg0 arg1 d \<noteq> Some 0"
    and "cmd_probe arg0 arg1 c = None \<Longrightarrow> cmd_probe arg0 arg1 d \<noteq> Some 0"
    and "cmd_probe arg0 arg1 d = None \<Longrightarrow> cmd_probe arg0 arg1 c \<noteq> Some 0"
proof -
  let ?k = "cstr (to_upper arg0)" and ?s = "\<lambda>a. cstr (to_upper a)"
  note probe = cmd_probe_lexcmp [OF assms(1)] cmd_probe_lexcmp [OF assms(2)]
  note mono = lexcmp_neg_mono [of "c_name c" "c_name d" ?k] lexcmp_pos_mono [of "c_name c" "c_name d" ?k]
  consider (name) "lexcmp (c_name c) (c_name d) < 0"
    | (sub) a b where "c_name c = c_name d" "c_subname c = Some a" "c_subname d = Some b" "lexcmp a b < 0"
    using assms(3) by (auto simp: cmd_before_def split: option.splits)
  note before = this
  show "cmd_probe arg0 arg1 d = Some x \<Longrightarrow> x < 0 \<Longrightarrow> \<exists>y < 0. cmd_probe arg0 arg1 c = Some y"
    using before
  proof cases
    case sub
    assume "cmd_probe arg0 arg1 d = Some x" "x < 0"
    with sub lexcmp_neg_mono [OF sub(4)] show ?thesis by (auto simp: probe Let_def split: if_splits)
  qed (use mono in \<open>auto simp: probe Let_def split: option.splits if_splits\<close>)
  show "cmd_probe arg0 arg1 c = Some x \<Longrightarrow> 0 < x \<Longrightarrow> \<exists>y > 0. cmd_probe arg0 arg1 d = Some y"
    using before
  proof cases
    case sub
    assume "cmd_probe arg0 arg1 c = Some x" "0 < x"
    with sub lexcmp_pos_mono [OF sub(4)] show ?thesis by (auto simp: probe Let_def split: if_splits)
  qed (use mono in \<open>auto simp: probe Let_def split: option.splits if_splits\<close>)
  show "cmd_probe arg0 arg1 c = Some 0 \<Longrightarrow> cmd_probe arg0 arg1 d \<noteq> Some 0"
    "cmd_probe arg0 arg1 c = None \<Longrightarrow> cmd_probe arg0 arg1 d \<noteq> Some 0"
    "cmd_probe arg0 arg1 d = None \<Longrightarrow> cmd_probe arg0 arg1 c \<noteq> Some 0"
    using before by (cases; auto simp: probe Let_def split: option.splits if_splits)+
qed

lemma redis_commands_before:
  "i < j \<Longrightarrow> j < length redis_commands \<Longrightarrow>
     cmd_before (redis_commands ! i) (redis_commands ! j)"
  using redis_commands_sorted by (simp add: sorted_wrt_iff_nth_less)

interpretation redis_table: probe_table "\<lambda>q. cmd_probe (fst q) (snd q)" redis_commands
proof (unfold_locales, goal_cases)
  case (1 i j q c)
  then show ?case using cmd_before_probe(1) [OF _ _ redis_commands_before] by simp
next
  case (2 i j q c)
  then show ?case using cmd_before_probe(2) [OF _ _ redis_commands_before] by simp
next
  case (3 i j q)
  then show ?case using cmd_before_probe(3) [OF _ _ redis_commands_before] by simp
next
  case (4 i j q)
  then show ?case
    using cmd_before_probe(4,5) [OF _ _ redis_commands_before]
    by (cases i j rule: linorder_cases) (force, force, force)
qed

definition cmd_matches :: "string \<Rightarrow> string option \<Rightarrow> cmddef \<Rightarrow> bool" where
  "cmd_matches arg0 arg1 c \<longleftrightarrow> c_name c = cstr (to_upper arg0) \<and>
     (case c_subname c of None \<Rightarrow> True | Some s \<Rightarrow> (case arg1 of None \<Rightarrow> False | Some a \<Rightarrow> s = cstr (to_upper a)))"

lemma redis_lookup_cmd_find:
  "redis_lookup_cmd arg0 arg1 = find (cmd_matches arg0 arg1) redis_commands"
proof -
  have "redis_lookup_cmd arg0 arg1 = find (redis_table.is_hit (arg0, arg1)) redis_commands"
    using redis_table.search_table [of "(arg0, arg1)"] by (simp add: redis_lookup_cmd_def)
  also have "\<dots> = find (cmd_matches arg0 arg1) redis_commands"
    by (rule find_cong)
      (auto simp: redis_table.is_hit_def cmd_probe_lexcmp cmd_matches_def Let_def split: option.splits)
  finally show ?thesis .
qed

lemma redis_lookup_cmd_eqI:
  assumes "c \<in> set redis_commands" "cmd_matches arg0 arg1 c"
  shows "redis_lookup_cmd arg0 arg1 = Some c"
proof -
  obtain i where i: "i < length redis_commands" "redis_commands ! i = c"
    using assms(1) by (auto simp: in_set_conv_nth)
  have "redis_table.is_hit (arg0, arg1) (redis_commands ! i)"
    using assms i by (auto simp: redis_table.is_hit_def cmd_probe_lexcmp cmd_matches_def Let_def split: option.splits)
  from redis_table.find_hit [OF i(1) this] show ?thesis
    using redis_table.search_table [of "(arg0, arg1)"] i(2) by (simp add: redis_lookup_cmd_def)
qed

lemma redis_lookup_cmd_mem: "redis_lookup_cmd arg0 arg1 = Some info \<Longrightarrow> info \<in> set redis_commands"
  by (auto simp: redis_lookup_cmd_find find_Some_iff)

section \<open>Commands\<close>

datatype cmd_parse_result =
  CMD_PARSE_OK | CMD_PARSE_ENOMEM | CMD_PARSE_ERROR | CMD_PARSE_REPAIR | CMD_PARSE_AGAIN

text \<open>\<open>kp_remain_len\<close> is \<open>None\<close> until it is written: the cell comes from the heap.\<close>

record keypos =
  kp_start :: nat
  kp_end :: nat
  kp_remain_len :: "u32 option"

text \<open>
  \<open>struct cmd\<close>. The buffer \<open>r_cmd\<close> holds the bytes that are allocated, of which \<open>r_clen\<close> are
  the command. \<open>r_frag_seq\<close> names the sub-command of each key by its slot, which determines it;
  the list \<open>sub_commands\<close> of a split command is kept next to it where it is used.
\<close>

record cmd =
  r_id :: u64
  r_result :: cmd_parse_result
  r_errstr :: "string option"
  r_type :: cmd_type
  r_cmd :: "string option"
  r_clen :: u32
  r_keys :: "keypos hiarray"
  r_narg :: u32
  r_quit :: bool
  r_noforward :: bool
  r_slot_num :: int
  r_node_addr :: "string option"
  r_frag_seq :: "nat list option"
  r_reply :: "redisReply option"

definition redis_argx :: "cmd_type \<Rightarrow> bool" where
  "redis_argx t \<longleftrightarrow> t = CMD_REQ_REDIS_EXISTS \<or> t = CMD_REQ_REDIS_MGET \<or> t = CMD_REQ_REDIS_DEL"

definition redis_argkvx :: "cmd_type \<Rightarrow> bool" where
  "redis_argkvx t \<longleftrightarrow> t = CMD_REQ_REDIS_MSET"

section \<open>Parsing\<close>

text \<open>The digits of a length, read into an \<open>uint32_t\<close> that wraps.\<close>

function parse_num :: "string \<Rightarrow> nat \<Rightarrow> nat \<Rightarrow> u32 \<Rightarrow> nat \<times> u32" where
  "parse_num buf p e len =
     (if p < e \<and> c_isdigit (buf ! p)
      then parse_num buf (p + 1) e (len * 10 + word_of_nat (digit_val (buf ! p)))
      else (p, len))"
  by pat_completeness auto
termination
  by (relation "measure (\<lambda>(buf, p, e, len). e - p)") auto

declare parse_num.simps [simp del]

definition skip_crlf :: "string \<Rightarrow> nat \<Rightarrow> nat \<Rightarrow> nat option" where
  "skip_crlf buf p e =
     (if p \<ge> e \<or> buf ! p \<noteq> CR then None
      else if p + 1 \<ge> e \<or> buf ! (p + 1) \<noteq> LF then None
      else Some (p + 2))"

text \<open>
  \<open>Inr (p, (str, len))\<close> on success; \<open>Inl\<close> is the result NULL, with what has been stored through
  \<open>str\<close> and \<open>len\<close> before the failure.
\<close>

definition redis_parse_bulk :: "string \<Rightarrow> nat \<Rightarrow> nat \<Rightarrow> (nat \<times> u32) option + nat \<times> nat \<times> u32" where
  "redis_parse_bulk buf p e =
     (if p \<ge> e \<or> buf ! p \<noteq> CHR ''$'' then Inl None
      else
        (case parse_num buf (p + 1) e 0 of
           (p1, len) \<Rightarrow>
             (case skip_crlf buf p1 e of
                None \<Rightarrow> Inl None
              | Some p2 \<Rightarrow>
                  (case skip_crlf buf (p2 + unat len) e of
                     None \<Rightarrow> Inl (Some (p2, len))
                   | Some p3 \<Rightarrow> Inr (p3, p2, len)))))"

definition bulk_arg :: "string \<Rightarrow> nat \<times> u32 \<Rightarrow> string" where
  "bulk_arg buf arg = take (unat (snd arg)) (drop (fst arg) buf)"

definition push_keypos :: "keypos hiarray \<Rightarrow> nat \<times> u32 \<Rightarrow> alloc \<Rightarrow> bool \<times> keypos hiarray \<times> alloc" where
  "push_keypos keys arg al =
     push_elem keys \<lparr>kp_start = fst arg, kp_end = fst arg + unat (snd arg), kp_remain_len = None\<rparr> al"

text \<open>The search for the keyword: the position behind it.\<close>

function keyword_loop :: "string \<Rightarrow> nat \<Rightarrow> string \<Rightarrow> int \<Rightarrow> int \<Rightarrow> nat \<Rightarrow> int \<Rightarrow> nat option" where
  "keyword_loop buf e keyword startfrom rnarg p argidx =
     (if argidx < rnarg - 1 then
        (case redis_parse_bulk buf p e of
           Inl _ \<Rightarrow> None
         | Inr (p1, arg) \<Rightarrow>
             if argidx < startfrom then keyword_loop buf e keyword startfrom rnarg p1 (argidx + 1)
             else if strncasecmp keyword (bulk_arg buf arg) (unat (snd arg)) = 0 then Some p1
             else keyword_loop buf e keyword startfrom rnarg p1 (argidx + 1))
      else None)"
  by pat_completeness auto
termination
  by (relation "measure (\<lambda>(buf, e, keyword, startfrom, rnarg, p, argidx). nat (rnarg - 1 - argidx))") auto

declare keyword_loop.simps [simp del]

function skip_args :: "string \<Rightarrow> nat \<Rightarrow> int \<Rightarrow> nat \<Rightarrow> nat \<times> u32 \<Rightarrow> int \<Rightarrow> (nat \<times> nat \<times> u32) option" where
  "skip_args buf e firstkeypos p arg argidx =
     (if argidx < firstkeypos then
        (case redis_parse_bulk buf p e of
           Inl _ \<Rightarrow> None
         | Inr (p1, arg1) \<Rightarrow> skip_args buf e firstkeypos p1 arg1 (argidx + 1))
      else Some (p, arg))"
  by pat_completeness auto
termination
  by (relation "measure (\<lambda>(buf, e, firstkeypos, p, arg, argidx). nat (firstkeypos - argidx))") auto

declare skip_args.simps [simp del]

datatype parse_exit = Exit_done | Exit_error | Exit_oom

function more_keys ::
  "string \<Rightarrow> nat \<Rightarrow> bool \<Rightarrow> nat \<Rightarrow> nat \<Rightarrow> nat \<Rightarrow> keypos hiarray \<Rightarrow> alloc \<Rightarrow> parse_exit \<times> keypos hiarray \<times> alloc" where
  "more_keys buf e kvx rnarg i p keys al =
     (if i < rnarg then
        (case redis_parse_bulk buf p e of
           Inl _ \<Rightarrow> (Exit_error, keys, al)
         | Inr (p1, arg) \<Rightarrow>
             if kvx \<and> i mod 2 = 0 then more_keys buf e kvx rnarg (i + 1) p1 keys al
             else
               (case push_keypos keys arg al of
                  (False, keys1, al1) \<Rightarrow> (Exit_oom, keys1, al1)
                | (True, keys1, al1) \<Rightarrow> more_keys buf e kvx rnarg (i + 1) p1 keys1 al1))
      else (Exit_done, keys, al))"
  by pat_completeness auto
termination
  by (relation "measure (\<lambda>(buf, e, kvx, rnarg, i, p, keys, al). rnarg - i)") auto

declare more_keys.simps [simp del]

text \<open>From the first key on.\<close>

definition parse_from_key ::
  "string \<Rightarrow> nat \<Rightarrow> cmddef \<Rightarrow> u32 \<Rightarrow> nat \<Rightarrow> nat \<times> u32 \<Rightarrow> keypos hiarray \<Rightarrow> alloc \<Rightarrow>
     parse_exit \<times> keypos hiarray \<times> alloc" where
  "parse_from_key buf e info rnarg p arg keys al =
     (if c_type info = CMD_REQ_REDIS_MIGRATE \<and> snd arg = 0 \<and> c_firstkeymethod info = KEYPOS_INDEX \<and>
         c_firstkeypos info = 3
      then (Exit_error, keys, al)
      else
        (case push_keypos keys arg al of
           (False, keys1, al1) \<Rightarrow> (Exit_oom, keys1, al1)
         | (True, keys1, al1) \<Rightarrow>
             if redis_argx (c_type info) \<or> redis_argkvx (c_type info) then
               (if redis_argkvx (c_type info) \<and> unat rnarg mod 2 = 0 then (Exit_error, keys1, al1)
                else more_keys buf e (redis_argkvx (c_type info)) (unat rnarg) 2 p keys1 al1)
             else (Exit_done, keys1, al1)))"

text \<open>What follows the arity check; \<open>argidx\<close> is 1 once a second argument has been parsed.\<close>

definition parse_keys ::
  "string \<Rightarrow> nat \<Rightarrow> cmddef \<Rightarrow> u32 \<Rightarrow> nat \<Rightarrow> (nat \<times> u32) option \<Rightarrow> keypos hiarray \<Rightarrow> alloc \<Rightarrow>
     parse_exit \<times> keypos hiarray \<times> alloc" where
  "parse_keys buf e info rnarg p arg1 keys al =
     (if c_firstkeymethod info = KEYPOS_NONE then (Exit_done, keys, al)
      else
        (case arg1 of
           None \<Rightarrow> (Exit_error, keys, al)
         | Some a1 \<Rightarrow>
             if c_firstkeymethod info = KEYPOS_UNKNOWN then
               (if c_type info \<noteq> CMD_REQ_REDIS_XREAD \<and> c_type info \<noteq> CMD_REQ_REDIS_XREADGROUP
                then (Exit_error, keys, al)
                else
                  (case keyword_loop buf e ''STREAMS''
                          (if c_type info = CMD_REQ_REDIS_XREAD then 1 else 4) (sint rnarg) p 1 of
                     None \<Rightarrow> (Exit_error, keys, al)
                   | Some p1 \<Rightarrow>
                       (case redis_parse_bulk buf p1 e of
                          Inl _ \<Rightarrow> (Exit_error, keys, al)
                        | Inr (p2, arg) \<Rightarrow>
                            (case push_keypos keys arg al of
                               (ok, keys1, al1) \<Rightarrow> (if ok then Exit_done else Exit_oom, keys1, al1)))))
             else
               (case skip_args buf e (c_firstkeypos info) p a1 1 of
                  None \<Rightarrow> (Exit_error, keys, al)
                | Some (p1, arg) \<Rightarrow>
                    if c_firstkeymethod info = KEYPOS_KEYNUM then
                      (if strncmp ''0'' (bulk_arg buf arg) (unat (snd arg)) = 0 then (Exit_done, keys, al)
                       else
                         (case redis_parse_bulk buf p1 e of
                            Inl _ \<Rightarrow> (Exit_error, keys, al)
                          | Inr (p2, arg2) \<Rightarrow> parse_from_key buf e info rnarg p2 arg2 keys al))
                    else parse_from_key buf e info rnarg p1 arg keys al)))"

text \<open>The variables that the exits of the function read.\<close>

record parse_env =
  pe_arg0 :: "(nat \<times> u32) option"
  pe_arg1 :: "(nat \<times> u32) option"
  pe_info :: "cmddef option"

definition arity_ok :: "cmddef \<Rightarrow> u32 \<Rightarrow> bool" where
  "arity_ok info rnarg \<longleftrightarrow>
     \<not> ((c_arity info \<ge> 0 \<and> sint rnarg \<noteq> c_arity info) \<or> (c_arity info < 0 \<and> sint rnarg < - c_arity info))"

definition parse_lookup ::
  "string \<Rightarrow> nat \<Rightarrow> u32 \<Rightarrow> nat \<Rightarrow> nat \<times> u32 \<Rightarrow> (nat \<times> u32) option \<Rightarrow> 'a cmd_scheme \<Rightarrow> alloc \<Rightarrow>
     parse_exit \<times> parse_env \<times> 'a cmd_scheme \<times> alloc" where
  "parse_lookup buf e rnarg p arg0 arg1 r al =
     (case redis_lookup_cmd (bulk_arg buf arg0) (map_option (bulk_arg buf) arg1) of
        None \<Rightarrow> (Exit_error, \<lparr>pe_arg0 = Some arg0, pe_arg1 = arg1, pe_info = None\<rparr>, r, al)
      | Some info \<Rightarrow>
          (let env = \<lparr>pe_arg0 = Some arg0, pe_arg1 = arg1, pe_info = Some info\<rparr>;
               r1 = r\<lparr>r_type := c_type info\<rparr>
           in if \<not> arity_ok info rnarg then (Exit_error, env, r1, al)
              else
                (case parse_keys buf e info rnarg p arg1 (r_keys r) al of
                   (ex, keys, al1) \<Rightarrow> (ex, env, r1\<lparr>r_keys := keys\<rparr>, al1))))"

definition parse_body :: "string \<Rightarrow> 'a cmd_scheme \<Rightarrow> alloc \<Rightarrow> parse_exit \<times> parse_env \<times> 'a cmd_scheme \<times> alloc" where
  "parse_body buf r al =
     (let e = unat (r_clen r); env0 = \<lparr>pe_arg0 = None, pe_arg1 = None, pe_info = None\<rparr>
      in if buf ! 0 \<noteq> CHR ''*'' then (Exit_error, env0, r, al)
         else
           (case parse_num buf 1 e 0 of
              (p, rnarg) \<Rightarrow>
                (case skip_crlf buf p e of
                   None \<Rightarrow> (Exit_error, env0, r, al)
                 | Some p1 \<Rightarrow>
                     if rnarg = 0 then (Exit_error, env0, r, al)
                     else
                       (let r1 = r\<lparr>r_narg := rnarg\<rparr>
                        in case redis_parse_bulk buf p1 e of
                             Inl arg0 \<Rightarrow> (Exit_error, env0\<lparr>pe_arg0 := arg0\<rparr>, r1, al)
                           | Inr (p2, arg0) \<Rightarrow>
                               if unat rnarg > 1 then
                                 (case redis_parse_bulk buf p2 e of
                                    Inl arg1 \<Rightarrow> (Exit_error, env0\<lparr>pe_arg0 := Some arg0, pe_arg1 := arg1\<rparr>, r1, al)
                                  | Inr (p3, arg1) \<Rightarrow> parse_lookup buf e rnarg p3 arg0 (Some arg1) r1 al)
                               else parse_lookup buf e rnarg p2 arg0 None r1 al))))"

text \<open>
  \<open>%.*s\<close>: at most the given number of bytes, ending at a zero byte; a negative precision
  counts as none. \<open>None\<close>: the bytes read are not all inside the buffer.
\<close>

definition fmt_prec :: "string \<Rightarrow> nat \<times> u32 \<Rightarrow> string option" where
  "fmt_prec buf arg =
     (let s = drop (fst arg) buf; n = unat (snd arg)
      in if sint (snd arg) \<ge> 0 \<and> n \<le> length s then Some (cstr (take n s))
         else if NUL \<in> set s then Some (cstr s)
         else None)"

definition snprintf :: "nat \<Rightarrow> string \<Rightarrow> string" where
  "snprintf n s = take (n - 1) s"

definition parse_errmsg :: "string \<Rightarrow> cmd_type \<Rightarrow> parse_env \<Rightarrow> string option" where
  "parse_errmsg buf t env =
     (case (pe_info env, pe_arg0 env, pe_arg1 env) of
        (Some info, _, _) \<Rightarrow>
          (case c_subname info of
             Some sub \<Rightarrow> Some (''Failed to find keys of command '' @ c_name info @ '' '' @ sub)
           | None \<Rightarrow> Some (''Failed to find keys of command '' @ c_name info))
      | (None, Some a0, Some a1) \<Rightarrow>
          if t = CMD_UNKNOWN
          then (case (fmt_prec buf a0, fmt_prec buf a1) of
                  (Some s0, Some s1) \<Rightarrow> Some (''Unknown command '' @ s0 @ '' '' @ s1)
                | _ \<Rightarrow> None)
          else Some ''Command parse error''
      | (None, Some a0, None) \<Rightarrow>
          if t = CMD_UNKNOWN then map_option (\<lambda>s. ''Unknown command '' @ s) (fmt_prec buf a0)
          else Some ''Command parse error''
      | (None, None, _) \<Rightarrow> Some ''Command parse error'')"

text \<open>
  \<open>None\<close>: the assertion at the start does not hold, or the message reads behind the buffer.
\<close>

definition redis_parse_cmd :: "'a cmd_scheme \<Rightarrow> alloc \<Rightarrow> ('a cmd_scheme \<times> alloc) option" where
  "redis_parse_cmd r al =
     (case r_cmd r of
        None \<Rightarrow> None
      | Some buf \<Rightarrow>
          if r_clen r = 0 \<or> length buf < unat (r_clen r) then None
          else
            (case parse_body buf r al of
               (Exit_done, env, r1, al1) \<Rightarrow> Some (r1\<lparr>r_result := CMD_PARSE_OK\<rparr>, al1)
             | (Exit_oom, env, r1, al1) \<Rightarrow> Some (r1\<lparr>r_result := CMD_PARSE_ENOMEM\<rparr>, al1)
             | (Exit_error, env, r1, al1) \<Rightarrow>
                 (let (ok, al2) = (case r_errstr r1 of None \<Rightarrow> hi_alloc al1 | Some _ \<Rightarrow> (True, al1))
                  in if \<not> ok then Some (r1\<lparr>r_result := CMD_PARSE_ENOMEM\<rparr>, al2)
                     else map_option (\<lambda>msg. (r1\<lparr>r_result := CMD_PARSE_ERROR, r_errstr := Some (snprintf 100 msg)\<rparr>, al2))
                            (parse_errmsg buf (r_type r1) env))))"

text \<open>The counter of command ids is a static variable; a \<open>keypos\<close> takes 24 bytes.\<close>

definition command_get :: "u64 \<Rightarrow> alloc \<Rightarrow> cmd option \<times> u64 \<times> alloc" where
  "command_get cmd_id al =
     (case hi_alloc al of
        (False, al1) \<Rightarrow> (None, cmd_id, al1)
      | (True, al1) \<Rightarrow>
          (case hiarray_create 1 24 al1 of
             (None, al2) \<Rightarrow> (None, cmd_id + 1, al2)
           | (Some keys, al2) \<Rightarrow>
               (Some \<lparr>r_id = cmd_id + 1, r_result = CMD_PARSE_OK, r_errstr = None, r_type = CMD_UNKNOWN,
                      r_cmd = None, r_clen = 0, r_keys = keys, r_narg = 0, r_quit = False, r_noforward = False,
                      r_slot_num = -1, r_node_addr = None, r_frag_seq = None, r_reply = None\<rparr>, cmd_id + 1, al2)))"

lemma command_get_fresh:
  assumes "command_get n al = (Some c, n', al')"
  shows "arr_wf (r_keys c) \<and> arr_list (r_keys c) = [] \<and> r_errstr c = None \<and> r_type c = CMD_UNKNOWN \<and>
    r_slot_num c = -1 \<and> r_narg c = 0 \<and> r_clen c = 0 \<and> r_id c = n' \<and> n' = n + 1"
  using assms hiarray_create_wf [of 1 24]
  by (fastforce simp: command_get_def split: prod.splits bool.splits option.splits)

lemma command_get_no_oom:
  assumes "no_oom al"
  shows "\<exists>c n' al'. command_get n al = (Some c, n', al') \<and> no_oom al'"
proof -
  obtain al1 where 1: "hi_alloc al = (True, al1)" "no_oom al1" using assms by (rule hi_alloc_no_oomE)
  obtain al2 where 2: "hi_alloc al1 = (True, al2)" "no_oom al2" using 1(2) by (rule hi_alloc_no_oomE)
  obtain al3 where "hi_alloc al2 = (True, al3)" "no_oom al3" using 2(2) by (rule hi_alloc_no_oomE)
  with 1 2 show ?thesis by (simp add: command_get_def hiarray_create_def)
qed

end
