(* ===== verification/Command_Spec.thy ===== *)
theory Command_Spec
  imports Command
begin

text \<open>
  The parser of \<^verbatim>\<open>command.c\<close> against the request protocol: \<open>resp\<close> encodes a list of arguments
  as a request, \<open>keys_spec\<close> says on that list which command it is and which arguments are its
  keys, and \<open>redis_parse_cmd\<close> implements \<open>keys_spec\<close> on every encoded request.
\<close>

section \<open>The request format\<close>

definition bulk :: "string \<Rightarrow> string" where
  "bulk s = CHR ''$'' # decimal (length s) @ CR # LF # s @ [CR, LF]"

definition resp_head :: "nat \<Rightarrow> string" where
  "resp_head n = CHR ''*'' # decimal n @ [CR, LF]"

definition resp :: "string list \<Rightarrow> string" where
  "resp args = resp_head (length args) @ concat (map bulk args)"

text \<open>Where the i-th argument starts, and where its bytes are.\<close>

definition arg_off :: "string list \<Rightarrow> nat \<Rightarrow> nat" where
  "arg_off args i = length (resp_head (length args) @ concat (map bulk (take i args)))"

definition arg_at :: "string list \<Rightarrow> nat \<Rightarrow> nat \<times> u32" where
  "arg_at args i = (arg_off args i + 3 + length (decimal (length (args ! i))), word_of_nat (length (args ! i)))"

lemma length_bulk: "length (bulk s) = length (decimal (length s)) + length s + 5"
  by (simp add: bulk_def)

lemma parse_num_digits:
  assumes "\<forall>c \<in> set ds. c_isdigit c" "\<not> c_isdigit c" "length pre + length ds \<le> e"
  shows "parse_num (pre @ ds @ c # rest) (length pre) e (word_of_nat a)
    = (length pre + length ds, word_of_nat (dval a ds))"
  using assms
proof (induction ds arbitrary: pre a)
  case Nil
  then show ?case by (subst parse_num.simps) (simp add: nth_append)
next
  case (Cons d ds)
  have *: "word_of_nat a * 10 + word_of_nat (digit_val d) = (word_of_nat (a * 10 + digit_val d) :: u32)"
    by simp
  have "parse_num (pre @ (d # ds) @ c # rest) (length pre) e (word_of_nat a)
      = parse_num ((pre @ [d]) @ ds @ c # rest) (length (pre @ [d])) e (word_of_nat (a * 10 + digit_val d))"
    using Cons.prems by (subst parse_num.simps) (simp add: nth_append)
  also have "\<dots> = (length pre + length (d # ds), word_of_nat (dval a (d # ds)))"
    using Cons.IH [of "pre @ [d]" "a * 10 + digit_val d"] Cons.prems by simp
  finally show ?case .
qed

lemma parse_num_decimal:
  assumes "\<not> c_isdigit c" "length pre + length (decimal n) \<le> e"
  shows "parse_num (pre @ decimal n @ c # rest) (length pre) e 0 = (length pre + length (decimal n), word_of_nat n)"
  using parse_num_digits [of "decimal n" c pre e rest 0] decimal_digits assms by simp

lemma skip_crlf_at:
  "length pre + 2 \<le> e \<Longrightarrow> skip_crlf (pre @ CR # LF # rest) (length pre) e = Some (length pre + 2)"
  by (simp add: skip_crlf_def nth_append)

lemma redis_parse_bulk_at:
  assumes "length s < 2 ^ 32" "length pre + length (bulk s) \<le> e"
  shows "redis_parse_bulk (pre @ bulk s @ rest) (length pre) e =
      Inr (length pre + length (bulk s), length pre + 3 + length (decimal (length s)), word_of_nat (length s))"
    and "bulk_arg (pre @ bulk s @ rest) (length pre + 3 + length (decimal (length s)), word_of_nat (length s)) = s"
proof -
  let ?d = "decimal (length s)" and ?buf = "pre @ bulk s @ rest"
  have len: "length pre + length ?d + length s + 5 \<le> e" using assms(2) by (simp add: length_bulk)
  have n: "unat (word_of_nat (length s) :: u32) = length s" using assms(1) by (rule unat_u32_of_nat)
  have b1: "?buf = (pre @ [CHR ''$'']) @ ?d @ CR # LF # s @ [CR, LF] @ rest" by (simp add: bulk_def)
  have b2: "?buf = (pre @ [CHR ''$''] @ ?d) @ CR # LF # s @ [CR, LF] @ rest" by (simp add: bulk_def)
  have b3: "?buf = (pre @ [CHR ''$''] @ ?d @ [CR, LF] @ s) @ CR # LF # rest" by (simp add: bulk_def)
  have "?buf ! length pre = CHR ''$''" by (simp add: bulk_def nth_append)
  moreover have "parse_num ?buf (length pre + 1) e 0 = (length pre + 1 + length ?d, word_of_nat (length s))"
    using parse_num_decimal [of CR "pre @ [CHR ''$'']" "length s" e] len unfolding b1 by simp
  moreover have "skip_crlf ?buf (length pre + 1 + length ?d) e = Some (length pre + 3 + length ?d)"
    using skip_crlf_at [of "pre @ [CHR ''$''] @ ?d" e] len unfolding b2 by (simp add: add_ac)
  moreover have "skip_crlf ?buf (length pre + 3 + length ?d + length s) e = Some (length pre + 5 + length ?d + length s)"
  proof -
    have l: "length pre + 3 + length ?d + length s = length (pre @ [CHR ''$''] @ ?d @ [CR, LF] @ s)" by simp
    show ?thesis unfolding b3 l by (subst skip_crlf_at) (use len in auto)
  qed
  ultimately show "redis_parse_bulk ?buf (length pre) e =
      Inr (length pre + length (bulk s), length pre + 3 + length ?d, word_of_nat (length s))"
    using len n by (simp add: redis_parse_bulk_def length_bulk add_ac)
  show "bulk_arg ?buf (length pre + 3 + length ?d, word_of_nat (length s)) = s"
  proof -
    have b4: "?buf = (pre @ [CHR ''$''] @ ?d @ [CR, LF]) @ s @ CR # LF # rest" by (simp add: bulk_def)
    have l: "length pre + 3 + length ?d = length (pre @ [CHR ''$''] @ ?d @ [CR, LF])" by simp
    have "drop (length xs) (xs @ ys) = ys" for xs ys :: string by simp
    then show ?thesis unfolding bulk_arg_def b4 l fst_conv snd_conv n by (simp only:) simp
  qed
qed

text \<open>Arguments of an encoded request, one by one.\<close>

lemma arg_off_Suc: "i < length args \<Longrightarrow> arg_off args (Suc i) = arg_off args i + length (bulk (args ! i))"
  by (simp add: arg_off_def take_Suc_conv_app_nth)

lemma arg_off_length: "arg_off args (length args) = length (resp args)"
  by (simp add: arg_off_def resp_def)

lemma resp_split:
  assumes "i < length args"
  shows "resp args = (resp_head (length args) @ concat (map bulk (take i args))) @ bulk (args ! i) @
    concat (map bulk (drop (Suc i) args))"
proof -
  have "map bulk args = map bulk (take i args) @ bulk (args ! i) # map bulk (drop (Suc i) args)"
    using assms by (metis id_take_nth_drop list.simps(9) map_append)
  then show ?thesis by (simp add: resp_def)
qed

definition request :: "string list \<Rightarrow> bool" where
  "request args \<longleftrightarrow> args \<noteq> [] \<and> length (resp args) < 2 ^ 31"

lemma arg_fits: "request args \<Longrightarrow> i < length args \<Longrightarrow> length (args ! i) < 2 ^ 31"
  using resp_split [of i args] by (simp add: length_bulk request_def)

lemma parse_arg:
  assumes "request args" "i < length args"
  shows "redis_parse_bulk (resp args @ tail) (arg_off args i) (length (resp args))
      = Inr (arg_off args (Suc i), arg_at args i)"
    and "bulk_arg (resp args @ tail) (arg_at args i) = args ! i"
proof -
  let ?pre = "resp_head (length args) @ concat (map bulk (take i args))"
  let ?rest = "concat (map bulk (drop (Suc i) args)) @ tail"
  have buf: "resp args @ tail = ?pre @ bulk (args ! i) @ ?rest" using resp_split [OF assms(2)] by simp
  have fits: "length ?pre + length (bulk (args ! i)) \<le> length (resp args)"
    using resp_split [OF assms(2)] by simp
  have "length (args ! i) < 2 ^ 32" using arg_fits [OF assms] by simp
  note at = redis_parse_bulk_at [OF this fits, of ?rest]
  show "redis_parse_bulk (resp args @ tail) (arg_off args i) (length (resp args))
      = Inr (arg_off args (Suc i), arg_at args i)"
    using at(1) assms unfolding buf by (simp add: arg_off_Suc arg_at_def) (simp add: arg_off_def)
  show "bulk_arg (resp args @ tail) (arg_at args i) = args ! i"
    using at(2) unfolding buf by (simp add: arg_at_def arg_off_def)
qed

lemma parse_end: "redis_parse_bulk (resp args @ tail) (arg_off args (length args)) (length (resp args)) = Inl None"
  by (simp add: redis_parse_bulk_def arg_off_length)


section \<open>Which arguments are the keys\<close>

definition from_key_spec :: "cmddef \<Rightarrow> string list \<Rightarrow> nat \<Rightarrow> nat list option" where
  "from_key_spec info args k =
     (if length args \<le> k then None
      else if c_type info = CMD_REQ_REDIS_MIGRATE \<and> args ! k = [] then None
      else if redis_argkvx (c_type info) then
        (if even (length args) then None else Some (filter odd [1..<length args]))
      else if redis_argx (c_type info) then Some [1..<length args]
      else Some [k])"

definition key_indices :: "cmddef \<Rightarrow> string list \<Rightarrow> nat list option" where
  "key_indices info args =
     (let k = nat (c_firstkeypos info)
      in case c_firstkeymethod info of
           KEYPOS_NONE \<Rightarrow> Some []
         | KEYPOS_UNKNOWN \<Rightarrow>
             (case find (\<lambda>j. strncasecmp ''STREAMS'' (args ! j) (length (args ! j)) = 0)
                    [if c_type info = CMD_REQ_REDIS_XREAD then 2 else 5..<length args] of
                None \<Rightarrow> None
              | Some j \<Rightarrow> if j + 1 < length args then Some [j + 1] else None)
         | KEYPOS_INDEX \<Rightarrow> from_key_spec info args k
         | KEYPOS_KEYNUM \<Rightarrow>
             if length args \<le> k then None
             else if strncmp ''0'' (args ! k) (length (args ! k)) = 0 then Some []
             else from_key_spec info args (k + 1))"

definition arity_spec :: "cmddef \<Rightarrow> nat \<Rightarrow> bool" where
  "arity_spec info n \<longleftrightarrow> (if c_arity info \<ge> 0 then int n = c_arity info else int n \<ge> - c_arity info)"

definition keys_spec :: "string list \<Rightarrow> (cmddef \<times> nat list) option" where
  "keys_spec args =
     (case redis_lookup_cmd (args ! 0) (if length args > 1 then Some (args ! 1) else None) of
        None \<Rightarrow> None
      | Some info \<Rightarrow>
          if arity_spec info (length args) then map_option (\<lambda>ks. (info, ks)) (key_indices info args) else None)"

definition key_at :: "string list \<Rightarrow> nat \<Rightarrow> keypos" where
  "key_at args i =
     \<lparr>kp_start = fst (arg_at args i), kp_end = fst (arg_at args i) + length (args ! i), kp_remain_len = None\<rparr>"

definition key_bytes :: "string \<Rightarrow> keypos \<Rightarrow> string" where
  "key_bytes buf kp = take (kp_end kp - kp_start kp) (drop (kp_start kp) buf)"

lemma key_bytes_at: "request args \<Longrightarrow> i < length args \<Longrightarrow> key_bytes (resp args @ tail) (key_at args i) = args ! i"
  using parse_arg(2) [of args i tail] arg_fits [of args i]
  by (simp add: key_bytes_def key_at_def bulk_arg_def arg_at_def unat_u32_of_nat)

section \<open>The parser implements the specification\<close>

lemma length_args_resp: "length args < length (resp args)"
proof -
  have "length args \<le> length (concat (map bulk args))"
    by (induction args) (auto simp: length_bulk)
  then show ?thesis by (simp add: resp_def resp_head_def)
qed

lemma length_args_fits: "request args \<Longrightarrow> length args < 2 ^ 31"
  using length_args_resp [of args] by (simp add: request_def)

lemma push_keypos_at:
  assumes "request args" "i < length args" "arr_wf keys" "length (arr_list keys) < 2 ^ 31" "no_oom al"
  shows "\<exists>keys' al'. push_keypos keys (arg_at args i) al = (True, keys', al') \<and> arr_wf keys' \<and> no_oom al' \<and>
    arr_list keys' = arr_list keys @ [key_at args i]"
proof -
  have "unat (word_of_nat (length (args ! i)) :: u32) = length (args ! i)"
    using arg_fits [OF assms(1,2)] by (intro unat_u32_of_nat) simp
  then have "push_keypos keys (arg_at args i) al = push_elem keys (key_at args i) al"
    by (simp add: push_keypos_def key_at_def arg_at_def)
  with hiarr.push_law [of keys "key_at args i" al] assms show ?thesis by auto
qed

lemma skip_args_at:
  assumes "request args" "i < length args" "1 \<le> k"
  shows "skip_args (resp args @ tail) (length (resp args)) k (arg_off args (Suc i)) (arg_at args i) (int i) =
    (if k \<le> int i then Some (arg_off args (Suc i), arg_at args i)
     else if nat k < length args then Some (arg_off args (Suc (nat k)), arg_at args (nat k)) else None)"
  using assms(2)
proof (induction "nat k - i" arbitrary: i)
  case 0
  then have "k \<le> int i" by linarith
  then show ?case by (subst skip_args.simps) simp
next
  case (Suc n)
  then have lt: "int i < k" by simp
  show ?case
  proof (cases "Suc i < length args")
    case True
    have "skip_args (resp args @ tail) (length (resp args)) k (arg_off args (Suc i)) (arg_at args i) (int i)
        = skip_args (resp args @ tail) (length (resp args)) k (arg_off args (Suc (Suc i))) (arg_at args (Suc i)) (int (Suc i))"
      using lt parse_arg(1) [OF assms(1) True] by (subst skip_args.simps) (simp add: add.commute)
    also have "\<dots> = (if nat k < length args then Some (arg_off args (Suc (nat k)), arg_at args (nat k)) else None)"
      using Suc.hyps(1) [of "Suc i"] Suc.hyps(2) True lt nat_int [of "Suc i"] by (auto simp: le_less)
    finally show ?thesis using lt by simp
  next
    case False
    then have "Suc i = length args" using Suc.prems by simp
    then show ?thesis using lt parse_end [of args tail] by (subst skip_args.simps) simp
  qed
qed

lemma keyword_loop_at:
  assumes "request args" "0 < i" "i \<le> length args" "0 \<le> s"
  shows "keyword_loop (resp args @ tail) (length (resp args)) kw s (int (length args)) (arg_off args i) (int i - 1) =
    map_option (\<lambda>j. arg_off args (Suc j))
      (find (\<lambda>j. strncasecmp kw (args ! j) (length (args ! j)) = 0) [max i (nat s + 1)..<length args])"
  using assms(2,3)
proof (induction "length args - i" arbitrary: i)
  case 0
  then show ?case by (subst keyword_loop.simps) simp
next
  case (Suc n)
  then have i: "i < length args" by simp
  have IH: "keyword_loop (resp args @ tail) (length (resp args)) kw s (int (length args)) (arg_off args (Suc i)) (int i) =
    map_option (\<lambda>j. arg_off args (Suc j))
      (find (\<lambda>j. strncasecmp kw (args ! j) (length (args ! j)) = 0) [max (Suc i) (nat s + 1)..<length args])"
    using Suc.hyps(1) [of "Suc i"] Suc.hyps(2) i by simp
  have len: "unat (snd (arg_at args i)) = length (args ! i)"
    using arg_fits [OF assms(1) i] by (simp add: arg_at_def unat_u32_of_nat)
  note step = keyword_loop.simps [of _ _ _ _ _ "arg_off args i" "int i - 1"] parse_arg [OF assms(1) i] len
  show ?case
  proof (cases "int i - 1 < s")
    case True
    then have "max i (nat s + 1) = max (Suc i) (nat s + 1)" by auto
    then show ?thesis using True IH i by (simp add: step)
  next
    case False
    then have "max i (nat s + 1) = i" "max (Suc i) (nat s + 1) = Suc i" using assms(4) by auto
    moreover have "[i..<length args] = i # [Suc i..<length args]" using i by (rule upt_conv_Cons)
    ultimately show ?thesis using False IH i by (simp add: step)
  qed
qed


lemma more_keys_at:
  assumes "request args" "2 \<le> i" "i \<le> length args" "arr_wf keys" "length (arr_list keys) + (length args - i) < 2 ^ 31" "no_oom al"
  shows "\<exists>keys' al'. more_keys (resp args @ tail) (length (resp args)) kvx (length args) i (arg_off args i) keys al
      = (Exit_done, keys', al') \<and> arr_wf keys' \<and> no_oom al' \<and>
    arr_list keys' = arr_list keys @ map (key_at args) (filter (\<lambda>j. kvx \<longrightarrow> odd j) [i..<length args])"
  using assms(2-)
proof (induction "length args - i" arbitrary: i keys al)
  case 0
  then show ?case by (subst more_keys.simps) simp
next
  case (Suc n)
  then have i: "i < length args" by simp
  have upt: "[i..<length args] = i # [Suc i..<length args]" using i by (rule upt_conv_Cons)
  note step = more_keys.simps [of _ _ _ _ i] parse_arg(1) [OF assms(1) i]
  show ?case
  proof (cases "kvx \<and> i mod 2 = 0")
    case True
    with Suc.hyps(1) [of "Suc i" keys al] Suc.hyps(2) Suc.prems i show ?thesis
      by (simp add: step upt even_iff_mod_2_eq_zero)
  next
    case False
    have "length (arr_list keys) < 2 ^ 31" using Suc.prems(4) i by linarith
    then obtain keys1 al1 where 1: "push_keypos keys (arg_at args i) al = (True, keys1, al1)" "arr_wf keys1" "no_oom al1"
      "arr_list keys1 = arr_list keys @ [key_at args i]"
      using push_keypos_at [OF assms(1) i, of keys al] Suc.prems by auto
    have "length (arr_list keys1) + (length args - Suc i) < 2 ^ 31" using Suc.prems i 1(4) by simp
    moreover have "n = length args - Suc i" "Suc i \<le> length args" "2 \<le> Suc i" using Suc.hyps(2) Suc.prems(1) i by linarith+
    ultimately obtain keys2 al2 where
      "more_keys (resp args @ tail) (length (resp args)) kvx (length args) (Suc i) (arg_off args (Suc i)) keys1 al1
        = (Exit_done, keys2, al2)" "arr_wf keys2" "no_oom al2"
      "arr_list keys2 = arr_list keys1 @ map (key_at args) (filter (\<lambda>j. kvx \<longrightarrow> odd j) [Suc i..<length args])"
      using Suc.hyps(1) [of "Suc i" keys1 al1] 1(2,3) by blast
    moreover have "kvx \<longrightarrow> odd i" using False by presburger
    ultimately show ?thesis using False i 1 by (auto simp: step upt)
  qed
qed

text \<open>The multi-key commands of the table take their first key as the first argument.\<close>

lemma multi_key_info:
  "list_all (\<lambda>info. redis_argx (c_type info) \<or> redis_argkvx (c_type info) \<longrightarrow>
     c_firstkeymethod info = KEYPOS_INDEX \<and> c_firstkeypos info = 1 \<and> c_type info \<noteq> CMD_REQ_REDIS_MIGRATE) redis_commands"
  by (simp add: redis_commands_def redis_commands_1_def redis_commands_2_def redis_commands_3_def
      COMMAND_def redis_argx_def redis_argkvx_def)

lemma migrate_info:
  "list_all (\<lambda>info. c_type info = CMD_REQ_REDIS_MIGRATE \<longrightarrow>
     c_firstkeymethod info = KEYPOS_INDEX \<and> c_firstkeypos info = 3) redis_commands"
  by (simp add: redis_commands_def redis_commands_1_def redis_commands_2_def redis_commands_3_def COMMAND_def)

lemmas multi_key_infoD = multi_key_info [unfolded list_all_iff, rule_format]
lemmas migrate_infoD = migrate_info [unfolded list_all_iff, rule_format]

text \<open>An outcome of the key search that agrees with the specification.\<close>

definition keys_outcome :: "string list \<Rightarrow> nat list option \<Rightarrow> parse_exit \<times> keypos hiarray \<times> alloc \<Rightarrow> bool" where
  "keys_outcome args ks out \<longleftrightarrow>
     (case (ks, out) of
        (None, (ex, keys, al)) \<Rightarrow> ex = Exit_error \<and> no_oom al
      | (Some ks, (ex, keys, al)) \<Rightarrow> ex = Exit_done \<and> arr_wf keys \<and> arr_list keys = map (key_at args) ks \<and> no_oom al)"


lemma parse_from_key_at:
  assumes "request args" "info \<in> set redis_commands" "arr_wf keys" "arr_list keys = []" "no_oom al"
    and k: "k < length args"
    and multi: "redis_argx (c_type info) \<or> redis_argkvx (c_type info) \<Longrightarrow> k = 1"
  shows "keys_outcome args (from_key_spec info args k)
    (parse_from_key (resp args @ tail) (length (resp args)) info (word_of_nat (length args)) (arg_off args (Suc k))
       (arg_at args k) keys al)"
proof -
  let ?t = "c_type info"
  have n: "unat (word_of_nat (length args) :: u32) = length args"
    using length_args_fits [OF assms(1)] by (intro unat_u32_of_nat) simp
  have "(word_of_nat (length (args ! k)) :: u32) = 0 \<longleftrightarrow> args ! k = []"
    using arg_fits [OF assms(1) k] unat_u32_of_nat [of "length (args ! k)"] by (auto simp: unat_eq_0 [symmetric])
  then have empty: "snd (arg_at args k) = 0 \<longleftrightarrow> args ! k = []" by (simp add: arg_at_def)
  obtain keys1 al1 where 1: "push_keypos keys (arg_at args k) al = (True, keys1, al1)" "arr_wf keys1" "no_oom al1"
    "arr_list keys1 = [key_at args k]"
    using push_keypos_at [OF assms(1) k, of keys al] assms by auto
  consider (migrate) "?t = CMD_REQ_REDIS_MIGRATE" "args ! k = []"
    | (multi) "redis_argx ?t \<or> redis_argkvx ?t" "?t \<noteq> CMD_REQ_REDIS_MIGRATE"
    | (single) "\<not> (redis_argx ?t \<or> redis_argkvx ?t)" "\<not> (?t = CMD_REQ_REDIS_MIGRATE \<and> args ! k = [])"
    using multi_key_infoD [OF assms(2)] by blast
  then show ?thesis
  proof cases
    case migrate
    then show ?thesis using assms(5) k empty migrate_infoD [OF assms(2)]
      by (simp add: keys_outcome_def from_key_spec_def parse_from_key_def)
  next
    case single
    then show ?thesis using 1 k empty by (auto simp: keys_outcome_def from_key_spec_def parse_from_key_def)
  next
    case m: multi
    then have k1: "k = 1" and len: "2 \<le> length args" using multi k by auto
    let ?kvx = "redis_argkvx ?t"
    have "length (arr_list keys1) + (length args - 2) < 2 ^ 31" using 1(4) length_args_fits [OF assms(1)] len by simp
    then obtain keys2 al2 where 2: "more_keys (resp args @ tail) (length (resp args)) ?kvx (length args) 2
        (arg_off args 2) keys1 al1 = (Exit_done, keys2, al2)" "arr_wf keys2" "no_oom al2"
      "arr_list keys2 = arr_list keys1 @ map (key_at args) (filter (\<lambda>j. ?kvx \<longrightarrow> odd j) [2..<length args])"
      using more_keys_at [OF assms(1), of 2 keys1 al1 tail ?kvx] 1 len by blast
    have upt: "[1..<length args] = 1 # [2..<length args]"
      using len by (simp add: upt_conv_Cons numeral_2_eq_2)
    have off: "arg_off args (Suc k) = arg_off args 2" using k1 by (simp add: numeral_2_eq_2)
    have ex: "redis_argx ?t \<longrightarrow> \<not> ?kvx" by (auto simp: redis_argx_def redis_argkvx_def)
    show ?thesis
    proof (cases ?kvx)
      case True
      then show ?thesis using 1 2 k k1 m upt n off
        by (simp add: keys_outcome_def from_key_spec_def parse_from_key_def even_iff_mod_2_eq_zero)
    next
      case False
      then show ?thesis using 1 2 k k1 m upt n off
        by (simp add: keys_outcome_def from_key_spec_def parse_from_key_def)
    qed
  qed
qed

lemma parse_keys_at:
  assumes "request args" "info \<in> set redis_commands" "arr_wf keys" "arr_list keys = []" "no_oom al"
  shows "keys_outcome args (if c_firstkeymethod info = KEYPOS_NONE \<or> 1 < length args then key_indices info args else None)
    (parse_keys (resp args @ tail) (length (resp args)) info (word_of_nat (length args)) (arg_off args (min 2 (length args)))
       (if length args > 1 then Some (arg_at args 1) else None) keys al)"
proof (cases "c_firstkeymethod info = KEYPOS_NONE \<or> length args \<le> 1")
  case True
  then show ?thesis using assms by (auto simp: keys_outcome_def parse_keys_def key_indices_def)
next
  case False
  then have len: "1 < length args" "min 2 (length args) = 2" by auto
  have info: "cmddef_ok info" using redis_commands_okD assms(2) by blast
  show ?thesis
  proof (cases "c_firstkeymethod info = KEYPOS_UNKNOWN")
    case unknown: True
    let ?s = "if c_type info = CMD_REQ_REDIS_XREAD then 1 else 4 :: int"
    let ?find = "find (\<lambda>j. strncasecmp ''STREAMS'' (args ! j) (length (args ! j)) = 0) [max 2 (nat ?s + 1)..<length args]"
    have t: "c_type info = CMD_REQ_REDIS_XREAD \<or> c_type info = CMD_REQ_REDIS_XREADGROUP"
      using unknown info by (simp add: cmddef_ok_def)
    have n: "sint (word_of_nat (length args) :: 32 word) = int (length args)"
      using length_args_fits [OF assms(1)] by (intro sint_u32_of_nat) simp
    have loop: "keyword_loop (resp args @ tail) (length (resp args)) ''STREAMS'' ?s (int (length args)) (arg_off args 2) 1
      = map_option (\<lambda>j. arg_off args (Suc j)) ?find"
      using keyword_loop_at [OF assms(1), of 2 ?s tail "''STREAMS''"] len by simp
    have mx: "max 2 (nat ?s + 1) = (if c_type info = CMD_REQ_REDIS_XREAD then 2 else 5)" by simp
    show ?thesis
    proof (cases ?find)
      case None
      then show ?thesis using unknown t n loop len assms(5) mx
        by (simp add: keys_outcome_def parse_keys_def key_indices_def)
    next
      case (Some j)
      then have j: "j < length args" by (auto simp: find_Some_iff)
      show ?thesis
      proof (cases "Suc j < length args")
        case True
        obtain keys1 al1 where "push_keypos keys (arg_at args (Suc j)) al = (True, keys1, al1)" "arr_wf keys1" "no_oom al1"
          "arr_list keys1 = [key_at args (Suc j)]"
          using push_keypos_at [OF assms(1) True, of keys al] assms by auto
        then show ?thesis using unknown t n loop len mx Some True parse_arg(1) [OF assms(1) True, of tail]
          by (simp add: keys_outcome_def parse_keys_def key_indices_def)
      next
        case False
        then have "Suc j = length args" using j by simp
        then show ?thesis using unknown t n loop len mx Some False parse_end [of args tail] assms(5)
          by (simp add: keys_outcome_def parse_keys_def key_indices_def)
      qed
    qed
  next
    case known: False
    let ?k = "c_firstkeypos info"
    have k: "1 \<le> ?k" using known False info by (cases "c_firstkeymethod info") (auto simp: cmddef_ok_def)
    have skip: "skip_args (resp args @ tail) (length (resp args)) ?k (arg_off args 2) (arg_at args 1) 1 =
      (if nat ?k < length args then Some (arg_off args (Suc (nat ?k)), arg_at args (nat ?k)) else None)"
      using skip_args_at [OF assms(1) len(1) k, of tail] k len
      by (cases "?k = 1") (auto simp: numeral_2_eq_2)
    note multi = multi_key_infoD [OF assms(2)]
    note from_key = parse_from_key_at [OF assms, where tail = tail]
    have at: "unat (snd (arg_at args i)) = length (args ! i)" "bulk_arg (resp args @ tail) (arg_at args i) = args ! i"
      if "i < length args" for i
      using arg_fits [OF assms(1) that] parse_arg(2) [OF assms(1) that] by (auto simp: arg_at_def unat_u32_of_nat)
    show ?thesis
    proof (cases "c_firstkeymethod info = KEYPOS_KEYNUM")
      case keynum: True
      show ?thesis
      proof (cases "Suc (nat ?k) < length args")
        case True
        then have kl: "nat ?k < length args" by simp
        show ?thesis
        proof (cases "strncmp ''0'' (args ! nat ?k) (length (args ! nat ?k)) = 0")
          case zero: True
          then show ?thesis using keynum len skip at [OF kl] assms(3,4,5) kl
            by (simp add: parse_keys_def key_indices_def keys_outcome_def)
        next
          case nonzero: False
          have "keys_outcome args (from_key_spec info args (Suc (nat ?k)))
            (parse_from_key (resp args @ tail) (length (resp args)) info (word_of_nat (length args))
               (arg_off args (Suc (Suc (nat ?k)))) (arg_at args (Suc (nat ?k))) keys al)"
            using from_key [OF True] multi keynum by auto
          then show ?thesis
            using nonzero keynum len skip at [OF kl] kl parse_arg(1) [OF assms(1) True, of tail]
            by (simp add: parse_keys_def key_indices_def)
        qed
      next
        case last: False
        show ?thesis
        proof (cases "nat ?k < length args")
          case kl: True
          then have "Suc (nat ?k) = length args" using last by simp
          then have "redis_parse_bulk (resp args @ tail) (arg_off args (Suc (nat ?k))) (length (resp args)) = Inl None"
            using parse_end [of args tail] by simp
          with kl keynum len skip at [OF kl] assms(3,4,5) last show ?thesis
            by (cases "strncmp ''0'' (args ! nat ?k) (length (args ! nat ?k)) = 0")
              (simp_all add: parse_keys_def key_indices_def from_key_spec_def keys_outcome_def)
        next
          case False
          with keynum len skip assms(5) show ?thesis by (simp add: parse_keys_def key_indices_def keys_outcome_def)
        qed
      qed
    next
      case False
      then have index: "c_firstkeymethod info = KEYPOS_INDEX"
        using known \<open>\<not> (c_firstkeymethod info = KEYPOS_NONE \<or> length args \<le> 1)\<close>
        by (cases "c_firstkeymethod info") auto
      show ?thesis
      proof (cases "nat ?k < length args")
        case True
        then show ?thesis using index len skip from_key [of "nat ?k"] multi
          by (simp add: parse_keys_def key_indices_def)
      next
        case False
        then show ?thesis using index len skip assms(5)
          by (simp add: parse_keys_def key_indices_def from_key_spec_def keys_outcome_def)
      qed
    qed
  qed
qed


lemma parse_head_at:
  assumes "request args"
  shows "(resp args @ tail) ! 0 = CHR ''*''"
    and "parse_num (resp args @ tail) 1 (length (resp args)) 0 = (1 + length (decimal (length args)), word_of_nat (length args))"
    and "skip_crlf (resp args @ tail) (1 + length (decimal (length args))) (length (resp args)) = Some (arg_off args 0)"
proof -
  let ?d = "decimal (length args)" and ?body = "concat (map bulk args) @ tail"
  have b1: "resp args @ tail = [CHR ''*''] @ ?d @ CR # LF # ?body" by (simp add: resp_def resp_head_def)
  have b2: "resp args @ tail = ([CHR ''*''] @ ?d) @ CR # LF # ?body" by (simp add: resp_def resp_head_def)
  have e: "length ?d + 3 \<le> length (resp args)" by (simp add: resp_def resp_head_def)
  show "(resp args @ tail) ! 0 = CHR ''*''" by (simp add: b1)
  show "parse_num (resp args @ tail) 1 (length (resp args)) 0 = (1 + length ?d, word_of_nat (length args))"
    using parse_num_decimal [of CR "[CHR ''*'']" "length args" "length (resp args)"] e unfolding b1 by simp
  show "skip_crlf (resp args @ tail) (1 + length ?d) (length (resp args)) = Some (arg_off args 0)"
    using skip_crlf_at [of "[CHR ''*''] @ ?d" "length (resp args)"] e unfolding b2
    by (simp add: arg_off_def resp_head_def)
qed

lemma arity_ok_spec:
  assumes "request args"
  shows "arity_ok info (word_of_nat (length args)) \<longleftrightarrow> arity_spec info (length args)"
proof -
  have "sint (word_of_nat (length args) :: u32) = int (length args)"
    using length_args_fits [OF assms] by (rule sint_u32_of_nat)
  then show ?thesis by (auto simp: arity_ok_def arity_spec_def)
qed

text \<open>The specification refuses a command with keys and no argument.\<close>

lemma key_indices_no_arg:
  "info \<in> set redis_commands \<Longrightarrow> length args \<le> 1 \<Longrightarrow> c_firstkeymethod info \<noteq> KEYPOS_NONE \<Longrightarrow> key_indices info args = None"
  using redis_commands_okD [of info]
  by (cases "c_firstkeymethod info") (auto simp: key_indices_def from_key_spec_def cmddef_ok_def Let_def)

definition lookup_args :: "string list \<Rightarrow> cmddef option" where
  "lookup_args args = redis_lookup_cmd (args ! 0) (if length args > 1 then Some (args ! 1) else None)"

definition request_env :: "string list \<Rightarrow> parse_env" where
  "request_env args = \<lparr>pe_arg0 = Some (arg_at args 0), pe_arg1 = (if length args > 1 then Some (arg_at args 1) else None),
     pe_info = lookup_args args\<rparr>"

lemma parse_body_at:
  assumes "request args" "r_clen r = word_of_nat (length (resp args))" "arr_wf (r_keys r)" "arr_list (r_keys r) = []" "no_oom al"
  obtains (ok) info ks keys al' where "keys_spec args = Some (info, ks)" "arr_wf keys" "arr_list keys = map (key_at args) ks"
      "parse_body (resp args @ tail) r al = (Exit_done, request_env args,
         r\<lparr>r_narg := word_of_nat (length args), r_type := c_type info, r_keys := keys\<rparr>, al')" "no_oom al'"
  | (err) t keys al' where "keys_spec args = None" "no_oom al'"
      "parse_body (resp args @ tail) r al =
         (Exit_error, request_env args, r\<lparr>r_narg := word_of_nat (length args), r_type := t, r_keys := keys\<rparr>, al')"
proof -
  let ?buf = "resp args @ tail" and ?e = "length (resp args)" and ?n = "word_of_nat (length args) :: u32"
  let ?arg1 = "if length args > 1 then Some (arg_at args 1) else None"
  let ?r1 = "r\<lparr>r_narg := ?n\<rparr>"
  have e: "unat (r_clen r) = ?e" using assms(1,2) by (simp add: request_def unat_u32_of_nat)
  have n: "unat ?n = length args" using length_args_fits [OF assms(1)] by (simp add: unat_u32_of_nat)
  have "args \<noteq> []" using assms(1) by (simp add: request_def)
  then have pos: "0 < length args" "?n \<noteq> 0" using n by (auto simp: unat_eq_0 [symmetric])
  have "parse_body ?buf r al = parse_lookup ?buf ?e ?n (arg_off args (min 2 (length args))) (arg_at args 0) ?arg1 ?r1 al"
  proof (cases "1 < length args")
    case True
    then have "min 2 (length args) = Suc (Suc 0)" by simp
    with True show ?thesis
      using parse_head_at [OF assms(1), of tail] pos n e parse_arg(1) [OF assms(1) pos(1), of tail] parse_arg(1) [OF assms(1) True, of tail]
      by (simp add: parse_body_def numeral_2_eq_2)
  next
    case False
    then have "min 2 (length args) = Suc 0" "length args = Suc 0" using pos(1) by linarith+
    with False show ?thesis
      using parse_head_at [OF assms(1), of tail] pos n e parse_arg(1) [OF assms(1) pos(1), of tail]
      by (simp add: parse_body_def)
  qed
  note body = this
  have lookup: "redis_lookup_cmd (bulk_arg ?buf (arg_at args 0)) (map_option (bulk_arg ?buf) ?arg1) = lookup_args args"
    using parse_arg(2) [OF assms(1), of 0 tail] parse_arg(2) [OF assms(1), of 1 tail] pos by (simp add: lookup_args_def)
  show thesis
  proof (cases "lookup_args args")
    case None
    show thesis
    proof (rule err)
      show "keys_spec args = None" using None by (simp add: keys_spec_def lookup_args_def)
      show "parse_body ?buf r al = (Exit_error, request_env args, r\<lparr>r_narg := ?n, r_type := r_type r, r_keys := r_keys r\<rparr>, al)"
        using body lookup None by (simp add: parse_lookup_def request_env_def)
    qed (rule assms(5))
  next
    case (Some info)
    then have info: "info \<in> set redis_commands" by (auto simp: lookup_args_def dest: redis_lookup_cmd_mem)
    have spec: "keys_spec args = (if arity_spec info (length args) then map_option (Pair info) (key_indices info args) else None)"
      using Some by (simp add: keys_spec_def lookup_args_def)
    obtain ex keys al1 where pk: "parse_keys ?buf ?e info ?n (arg_off args (min 2 (length args))) ?arg1 (r_keys r) al = (ex, keys, al1)"
      by (cases "parse_keys ?buf ?e info ?n (arg_off args (min 2 (length args))) ?arg1 (r_keys r) al") auto
    have out: "keys_outcome args (key_indices info args) (ex, keys, al1)"
      using parse_keys_at [OF assms(1) info assms(3-5), of tail] key_indices_no_arg [OF info, of args] pk
      by (auto simp: not_less split: if_splits)
    have body': "parse_body ?buf r al =
       (if \<not> arity_spec info (length args) then (Exit_error, request_env args, ?r1\<lparr>r_type := c_type info\<rparr>, al)
        else (ex, request_env args, ?r1\<lparr>r_type := c_type info, r_keys := keys\<rparr>, al1))"
      using body lookup Some pk arity_ok_spec [OF assms(1)] by (simp add: parse_lookup_def request_env_def Let_def)
    show thesis
    proof (cases "arity_spec info (length args)")
      case False
      then show thesis using err [where t = "c_type info" and keys = "r_keys r" and al' = al] spec body' assms(5) by simp
    next
      case True
      then show thesis using ok [of info _ keys al1] err [where t = "c_type info" and keys = keys and al' = al1] spec body' out
        by (cases "key_indices info args") (auto simp: keys_outcome_def)
    qed
  qed
qed


lemma fmt_prec_at:
  assumes "request args" "i < length args"
  shows "fmt_prec (resp args @ tail) (arg_at args i) = Some (cstr (args ! i))"
proof -
  have "length (args ! i) < 2 ^ 31" using assms by (rule arg_fits)
  then have n: "sint (snd (arg_at args i)) \<ge> 0" "unat (snd (arg_at args i)) = length (args ! i)"
    by (simp_all add: arg_at_def sint_u32_of_nat unat_u32_of_nat)
  have at: "take (length (args ! i)) (drop (fst (arg_at args i)) (resp args @ tail)) = args ! i"
    using parse_arg(2) [OF assms, of tail] n(2) by (simp only: bulk_arg_def)
  then have "length (args ! i) \<le> length (drop (fst (arg_at args i)) (resp args @ tail))"
    by (metis length_take min.cobounded1)
  with n at show ?thesis by (simp add: fmt_prec_def del: drop_append length_drop)
qed

definition error_spec :: "cmd_type \<Rightarrow> string list \<Rightarrow> string" where
  "error_spec t args =
     (case lookup_args args of
        Some info \<Rightarrow>
          (case c_subname info of
             Some sub \<Rightarrow> ''Failed to find keys of command '' @ c_name info @ '' '' @ sub
           | None \<Rightarrow> ''Failed to find keys of command '' @ c_name info)
      | None \<Rightarrow>
          if t \<noteq> CMD_UNKNOWN then ''Command parse error''
          else if length args > 1 then ''Unknown command '' @ cstr (args ! 0) @ '' '' @ cstr (args ! 1)
          else ''Unknown command '' @ cstr (args ! 0))"

lemma parse_errmsg_at:
  assumes "request args"
  shows "parse_errmsg (resp args @ tail) t (request_env args) = Some (error_spec t args)"
proof -
  have "0 < length args" using assms by (auto simp: request_def)
  then show ?thesis
    using fmt_prec_at [OF assms, of 0 tail] fmt_prec_at [OF assms, of 1 tail]
    by (auto simp: parse_errmsg_def error_spec_def request_env_def simp del: One_nat_def split: option.splits)
qed

lemma redis_parse_cmd_request:
  assumes "request args" "r_cmd r = Some (resp args @ tail)" "r_clen r = word_of_nat (length (resp args))"
    and "arr_wf (r_keys r)" "arr_list (r_keys r) = []" "no_oom al" "r_errstr r = None"
  shows "\<exists>r' al'. redis_parse_cmd r al = Some (r', al') \<and> no_oom al' \<and> r_cmd r' = r_cmd r \<and> r_clen r' = r_clen r \<and>
    unat (r_narg r') = length args \<and>
    (case keys_spec args of
       Some (info, ks) \<Rightarrow> r_result r' = CMD_PARSE_OK \<and> r_type r' = c_type info \<and> arr_wf (r_keys r') \<and>
         arr_list (r_keys r') = map (key_at args) ks
     | None \<Rightarrow> r_result r' = CMD_PARSE_ERROR \<and> r_errstr r' = Some (take 99 (error_spec (r_type r') args)))"
proof -
  have "args \<noteq> []" and small: "length (resp args) < 2 ^ 31" using assms(1) by (auto simp: request_def)
  then have "unat (r_clen r) = length (resp args)" using assms(3) by (simp add: unat_u32_of_nat)
  moreover have "0 < length (resp args)" using length_args_resp [of args] by linarith
  ultimately have pre: "r_clen r \<noteq> 0" "\<not> length (resp args @ tail) < unat (r_clen r)" by auto
  have n: "unat (word_of_nat (length args) :: u32) = length args"
    using length_args_fits [OF assms(1)] by (simp add: unat_u32_of_nat)
  from assms(1,3,4,5,6) show ?thesis
  proof (cases rule: parse_body_at [where tail = tail])
    case (ok info ks keys al')
    with assms(2) pre n show ?thesis by (simp add: redis_parse_cmd_def)
  next
    case (err t keys al')
    obtain al2 where "hi_alloc al' = (True, al2)" "no_oom al2" using err(2) by (rule hi_alloc_no_oomE)
    with err assms(2,7) pre n parse_errmsg_at [OF assms(1), of tail t] show ?thesis
      by (simp add: redis_parse_cmd_def snprintf_def)
  qed
qed

lemma keys_spec_bound: "keys_spec args = Some (info, ks) \<Longrightarrow> i \<in> set ks \<Longrightarrow> i < length args"
  by (auto simp: keys_spec_def key_indices_def from_key_spec_def Let_def
      split: option.splits if_splits cmd_keypos.splits)

lemma upper_S:
  "c_toupper CHR ''S'' = CHR ''S''"
  "c_toupper c = CHR ''S'' \<longleftrightarrow> c = CHR ''S'' \<or> c = CHR ''s''"
  "CHR ''S'' = c_toupper c \<longleftrightarrow> c = CHR ''S'' \<or> c = CHR ''s''"
proof -
  show S: "c_toupper CHR ''S'' = CHR ''S''" by (simp add: c_toupper_def ord_of_def)
  have ords: "ord_of CHR ''S'' = 83" "ord_of CHR ''s'' = 115" by (simp_all add: ord_of_def)
  have "c_toupper c = CHR ''S'' \<longleftrightarrow> ord_of (c_toupper c) = 83" using ord_of_eq_iff [of "c_toupper c" "CHR ''S''"] ords by simp
  also have "\<dots> \<longleftrightarrow> ord_of c = 83 \<or> ord_of c = 115" by (auto simp: c_toupper_def)
  also have "\<dots> \<longleftrightarrow> c = CHR ''S'' \<or> c = CHR ''s''"
    using ord_of_eq_iff [of c "CHR ''S''"] ord_of_eq_iff [of c "CHR ''s''"] ords by simp
  finally show "c_toupper c = CHR ''S'' \<longleftrightarrow> c = CHR ''S'' \<or> c = CHR ''s''" .
  then show "CHR ''S'' = c_toupper c \<longleftrightarrow> c = CHR ''S'' \<or> c = CHR ''s''" by metis
qed

section \<open>Arbitrary input\<close>

text \<open>Whatever the bytes are, every key that is recorded lies inside the command.\<close>

definition keys_inside :: "nat \<Rightarrow> keypos hiarray \<Rightarrow> bool" where
  "keys_inside e keys \<longleftrightarrow> arr_wf keys \<and> (\<forall>kp \<in> set (arr_list keys). kp_start kp \<le> kp_end kp \<and> kp_end kp + 2 \<le> e)"

lemma parse_num_bound: "p \<le> e \<Longrightarrow> parse_num buf p e len = (p', n) \<Longrightarrow> p \<le> p' \<and> p' \<le> e"
proof (induction buf p e len rule: parse_num.induct)
  case (1 buf p e len)
  then show ?case by (subst (asm) (2) parse_num.simps) (force split: if_splits)
qed

lemma redis_parse_bulk_bound:
  assumes "redis_parse_bulk buf p e = Inr (p', str, len)"
  shows "p + 5 \<le> p'" and "p' = str + unat len + 2" and "p' \<le> e"
proof -
  obtain p1 n where 1: "parse_num buf (p + 1) e 0 = (p1, n)" by force
  from assms have "p < e" by (auto simp: redis_parse_bulk_def split: if_splits)
  with parse_num_bound [OF _ 1] have "p + 1 \<le> p1" by simp
  with assms 1 show "p + 5 \<le> p'" and "p' = str + unat len + 2" and "p' \<le> e"
    by (auto simp: redis_parse_bulk_def skip_crlf_def split: if_splits option.splits)
qed

lemma push_keypos_inside:
  assumes "redis_parse_bulk buf p e = Inr (p', arg)" "keys_inside e keys" "length (arr_list keys) < 2 ^ 31"
    and "push_keypos keys arg al = (ok, keys', al')"
  shows "keys_inside e keys'" and "length (arr_list keys') \<le> Suc (length (arr_list keys))"
proof -
  obtain str len where arg: "arg = (str, len)" by (cases arg)
  note b = redis_parse_bulk_bound [OF assms(1) [unfolded arg]]
  let ?kp = "\<lparr>kp_start = str, kp_end = str + unat len, kp_remain_len = None\<rparr>"
  have wf: "arr_wf keys" using assms(2) by (simp add: keys_inside_def)
  have push: "push_elem keys ?kp al = (ok, keys', al')" using assms(4) by (simp add: push_keypos_def arg)
  have new: "arr_wf keys'" "arr_list keys' = (if ok then arr_list keys @ [?kp] else arr_list keys)"
    using hiarr.push_law [OF wf assms(3), of ?kp al] push by auto
  show "keys_inside e keys'" using new b assms(2) by (simp add: keys_inside_def)
  show "length (arr_list keys') \<le> Suc (length (arr_list keys))" using new by simp
qed

lemma more_keys_inside:
  assumes "keys_inside e keys" "length (arr_list keys) \<le> p" "p \<le> e" "e < 2 ^ 31"
    and "more_keys buf e kvx rnarg i p keys al = (ex, keys', al')"
  shows "keys_inside e keys'"
  using assms
proof (induction "rnarg - i" arbitrary: i p keys al)
  case 0
  then show ?case by (subst (asm) more_keys.simps) simp
next
  case (Suc n)
  then have i: "i < rnarg" "n = rnarg - (i + 1)" by linarith+
  show ?case
  proof (cases "redis_parse_bulk buf p e")
    case (Inl x)
    with Suc.prems(1,5) i show ?thesis by (subst (asm) more_keys.simps) simp
  next
    case (Inr pa)
    then obtain p1 arg where bulk: "redis_parse_bulk buf p e = Inr (p1, arg)" by (cases pa) auto
    then have p1: "p + 5 \<le> p1" "p1 \<le> e" using redis_parse_bulk_bound [of buf p e p1] by (cases arg; auto)+
    show ?thesis
    proof (cases "kvx \<and> i mod 2 = 0")
      case True
      then have "more_keys buf e kvx rnarg (i + 1) p1 keys al = (ex, keys', al')"
        using Suc.prems(5) i bulk by (subst (asm) more_keys.simps) simp
      moreover have "length (arr_list keys) \<le> p1" using Suc.prems(2) p1 by linarith
      ultimately show ?thesis using Suc.hyps(1) [OF i(2) Suc.prems(1)] Suc.prems(4) p1 by blast
    next
      case False
      obtain ok keys1 al1 where push: "push_keypos keys arg al = (ok, keys1, al1)" by (cases "push_keypos keys arg al")
      have "length (arr_list keys) < 2 ^ 31" using Suc.prems(2-4) by linarith
      note inside = push_keypos_inside [OF bulk Suc.prems(1) this push]
      have "(if ok then more_keys buf e kvx rnarg (i + 1) p1 keys1 al1 else (Exit_oom, keys1, al1)) = (ex, keys', al')"
        using Suc.prems(5) i bulk False push by (subst (asm) more_keys.simps) (simp split: bool.splits)
      moreover have "length (arr_list keys1) \<le> p1" using inside(2) Suc.prems(2) p1 by linarith
      ultimately show ?thesis
        using Suc.hyps(1) [OF i(2) inside(1) _ p1(2) Suc.prems(4)] inside(1) by (cases ok) auto
    qed
  qed
qed

lemma parse_from_key_inside:
  assumes "redis_parse_bulk buf q e = Inr (p0, arg)" "p0 \<le> p" "p \<le> e" "e < 2 ^ 31" "keys_inside e keys" "arr_list keys = []"
    and "parse_from_key buf e info rnarg p arg keys al = (ex, keys', al')"
  shows "keys_inside e keys'"
proof -
  obtain ok keys1 al1 where push: "push_keypos keys arg al = (ok, keys1, al1)" by (cases "push_keypos keys arg al")
  have "length (arr_list keys) < 2 ^ 31" using assms(6) by simp
  note inside = push_keypos_inside [OF assms(1,5) this push]
  have "5 \<le> p" using redis_parse_bulk_bound(1) [of buf q e p0] assms(1,2) by (cases arg) auto
  then have "length (arr_list keys1) \<le> p" using inside(2) assms(6) by simp
  with assms(5,7) inside push more_keys_inside [OF inside(1) _ assms(3,4)] show ?thesis
    by (auto simp: parse_from_key_def split: if_splits bool.splits)
qed

text \<open>Where the current argument comes from when it is used as the first key.\<close>

lemma skip_args_origin:
  assumes "skip_args buf e k p arg i = Some (p', arg')" "redis_parse_bulk buf q e = Inr (p, arg)"
  shows "\<exists>q'. redis_parse_bulk buf q' e = Inr (p', arg')"
  using assms
proof (induction buf e k p arg i arbitrary: q rule: skip_args.induct)
  case (1 buf e k p arg i)
  show ?case
  proof (cases "i < k")
    case False
    with 1 show ?thesis by (subst (asm) (2) skip_args.simps) auto
  next
    case True
    show ?thesis
    proof (cases "redis_parse_bulk buf p e")
      case (Inl x)
      with True 1 show ?thesis by (subst (asm) (2) skip_args.simps) simp
    next
      case (Inr pa)
      then obtain p1 arg1 where "redis_parse_bulk buf p e = Inr (p1, arg1)" by (cases pa) auto
      with True 1 show ?thesis by (subst (asm) (2) skip_args.simps) simp
    qed
  qed
qed

lemma parse_keys_inside:
  assumes "keys_inside e keys" "arr_list keys = []" "e < 2 ^ 31"
    and "\<And>a1. arg1 = Some a1 \<Longrightarrow> \<exists>q. redis_parse_bulk buf q e = Inr (p, a1)"
    and "parse_keys buf e info rnarg p arg1 keys al = (ex, keys', al')"
  shows "keys_inside e keys'"
proof (cases arg1)
  case None
  with assms(1,5) show ?thesis by (auto simp: parse_keys_def split: if_splits)
next
  case (Some a1)
  then obtain q where q: "redis_parse_bulk buf q e = Inr (p, a1)" using assms(4) by blast
  have len: "length (arr_list keys) < 2 ^ 31" using assms(2) by simp
  have bound: "p1 \<le> e" if "redis_parse_bulk buf p0 e = Inr (p1, a)" for p0 p1 a
    using redis_parse_bulk_bound(3) [of buf p0 e p1] that by (cases a) auto
  have from_key: "keys_inside e keys'"
    if "parse_from_key buf e info rnarg p1 a keys al = (ex, keys', al')" "redis_parse_bulk buf p0 e = Inr (p1, a)" for p0 p1 a
    using parse_from_key_inside [OF that(2) le_refl bound [OF that(2)] assms(3,1,2) that(1)] .
  have push: "keys_inside e k1" if "push_keypos keys a al = (ok, k1, al1)" "redis_parse_bulk buf p0 e = Inr (p1, a)"
    for a ok k1 al1 p0 p1
    using push_keypos_inside(1) [OF that(2) assms(1) len that(1)] .
  have skip: "\<exists>q'. redis_parse_bulk buf q' e = Inr (p', arg')"
    if "skip_args buf e k p a1 1 = Some (p', arg')" for k p' arg'
    using skip_args_origin [OF that q] .
  show ?thesis
    using assms(1,5) Some from_key push skip
    by (auto simp: parse_keys_def split: if_splits option.splits sum.splits prod.splits) blast+
qed


lemma redis_parse_cmd_inside:
  assumes "redis_parse_cmd r al = Some (r', al')" "arr_wf (r_keys r)" "arr_list (r_keys r) = []" "unat (r_clen r) < 2 ^ 31"
  shows "keys_inside (unat (r_clen r)) (r_keys r')"
proof -
  let ?e = "unat (r_clen r)"
  have init: "keys_inside ?e (r_keys r)" using assms(2,3) by (simp add: keys_inside_def)
  have lookup: "keys_inside ?e (r_keys r2)"
    if "parse_lookup buf ?e rnarg p arg0 arg1 r1 al = (ex, env, r2, al2)" "r_keys r1 = r_keys r"
      "\<And>a1. arg1 = Some a1 \<Longrightarrow> \<exists>q. redis_parse_bulk buf q ?e = Inr (p, a1)"
    for buf rnarg p arg0 arg1 r1 ex env and r2 :: "'a cmd_scheme" and al2
    using that init parse_keys_inside [OF init assms(3,4) that(3)]
    by (auto simp: parse_lookup_def Let_def split: option.splits if_splits prod.splits)
  have body: "keys_inside ?e (r_keys r2)" if "parse_body buf r al = (ex, env, r2, al2)" for buf ex env r2 al2
  proof -
    have two: "keys_inside ?e (r_keys r2)"
      if "parse_lookup buf ?e n p a0 (Some a1) (r\<lparr>r_narg := n\<rparr>) al = (ex, env, r2, al2)"
        "redis_parse_bulk buf q ?e = Inr (p, a1)" for n p a0 a1 q
      using lookup [OF that(1)] that(2) by auto
    have one: "keys_inside ?e (r_keys r2)"
      if "parse_lookup buf ?e n p a0 None (r\<lparr>r_narg := n\<rparr>) al = (ex, env, r2, al2)" for n p a0
      using lookup [OF that] by auto
    show ?thesis using that init one two
      by (fastforce simp: parse_body_def Let_def split: if_splits prod.splits option.splits sum.splits)
  qed
  from assms(1) obtain buf ex env r2 al2 where "parse_body buf r al = (ex, env, r2, al2)" "r_keys r' = r_keys r2"
    by (auto simp: redis_parse_cmd_def Let_def split: option.splits if_splits prod.splits parse_exit.splits)
  with body show ?thesis by simp
qed

section \<open>Properties\<close>

text \<open>
  C15. The binary search over the command table finds exactly what a linear search for the upper-cased
  name and subcommand would find, for all arguments: the table of \<^verbatim>\<open>cmddef.h\<close> is sorted the way the
  search needs it.
\<close>

theorem lookup_is_linear_search:
  "redis_lookup_cmd arg0 arg1 = find (cmd_matches arg0 arg1) redis_commands"
  by (rule redis_lookup_cmd_find)


definition mget_cmd :: cmd where
  "mget_cmd = \<lparr>r_id = 1, r_result = CMD_PARSE_OK, r_errstr = None, r_type = CMD_UNKNOWN,
     r_cmd = Some (resp [''mget'', ''k1'', []] @ [NUL]), r_clen = word_of_nat (length (resp [''mget'', ''k1'', []])),
     r_keys = \<lparr>a_nelem = 0, a_elem = [None], a_size = 24, a_nalloc = 1\<rparr>, r_narg = 0, r_quit = False,
     r_noforward = False, r_slot_num = -1, r_node_addr = None, r_frag_seq = None, r_reply = None\<rparr>"

lemma mget_cmd_request: "request [''mget'', ''k1'', []]"
  by (simp add: request_def resp_def resp_head_def bulk_def decimal.simps)

lemma mget_cmd_spec: "keys_spec [''mget'', ''k1'', []] = Some (COMMAND 189 ''MGET'' None (-2) KEYPOS_INDEX 1, [1, 2])"
proof -
  have "redis_lookup_cmd ''mget'' (Some ''k1'') = Some (COMMAND 189 ''MGET'' None (-2) KEYPOS_INDEX 1)"
    by (rule redis_lookup_cmd_eqI)
      (simp_all add: redis_commands_def redis_commands_2_def cmd_matches_def COMMAND_def to_upper_def ord_of_def char_of_def bit_Suc_0_iff)
  then show ?thesis
    by (simp add: keys_spec_def arity_spec_def key_indices_def from_key_spec_def COMMAND_def redis_argkvx_def redis_argx_def upt_rec)
qed


text \<open>
  C30. Whatever bytes the command consists of, the positions of the keys that are recorded lie inside the
  command, also when the parser fails.
\<close>

theorem parsed_keys_inside_buffer:
  assumes "redis_parse_cmd r al = Some (r', al')" "arr_wf (r_keys r)" "arr_list (r_keys r) = []" "unat (r_clen r) < 2 ^ 31"
  shows "\<forall>kp \<in> set (arr_list (r_keys r')). kp_start kp \<le> kp_end kp \<and> kp_end kp + 2 \<le> unat (r_clen r)"
  using redis_parse_cmd_inside [OF assms] by (simp add: keys_inside_def)

theorem parsed_keys_inside_buffer_witness:
  "\<exists>r' al'. redis_parse_cmd mget_cmd [] = Some (r', al') \<and> length (arr_list (r_keys r')) = 2 \<and>
     (\<forall>kp \<in> set (arr_list (r_keys r')). kp_start kp \<le> kp_end kp \<and> kp_end kp + 2 \<le> unat (r_clen mget_cmd))"
proof -
  have init: "arr_wf (r_keys mget_cmd)" "arr_list (r_keys mget_cmd) = []"
    by (simp_all add: mget_cmd_def arr_wf_def arr_list_def)
  have len: "unat (r_clen mget_cmd) < 2 ^ 31"
    using mget_cmd_request by (simp add: mget_cmd_def unat_u32_of_nat request_def)
  have "\<exists>r' al'. redis_parse_cmd mget_cmd [] = Some (r', al') \<and> arr_list (r_keys r') = map (key_at [''mget'', ''k1'', []]) [1, 2]"
    using redis_parse_cmd_request [OF mget_cmd_request, of mget_cmd "[NUL]" "[]"] init mget_cmd_spec
    by (auto simp: mget_cmd_def)
  then obtain r' al' where r': "redis_parse_cmd mget_cmd [] = Some (r', al')" "length (arr_list (r_keys r')) = 2" by auto
  from parsed_keys_inside_buffer [OF r'(1) init len] r' show ?thesis by blast
qed


definition xread_cmd :: cmd where
  "xread_cmd = mget_cmd\<lparr>r_cmd := Some (resp [''XREAD'', ''STREAMS'', ''k'', ''0'']),
     r_clen := word_of_nat (length (resp [''XREAD'', ''STREAMS'', ''k'', ''0'']))\<rparr>"


end
