(* ===== verification/Keyslot.thy ===== *)
theory Keyslot
  imports Cluster_Prelude
begin

text \<open>
  The key space: \<open>crc16\<close> (\<^verbatim>\<open>crc16.c\<close>) and \<open>keyHashSlot\<close>,
  \<open>redisClusterGetSlotByKey\<close> (\<^verbatim>\<open>hircluster.c\<close>). The table-driven checksum is proved
  equal to the bitwise CRC-16/XMODEM (polynomial \<open>0x1021\<close>), and the slot of a key is proved to
  be below 16384 and to depend on the hash tag alone when the key has one.
\<close>

unbundle bit_operations_syntax

section \<open>The checksum\<close>

definition crc16tab :: "u16 list" where
  "crc16tab =
    [0x0000, 0x1021, 0x2042, 0x3063, 0x4084, 0x50a5, 0x60c6, 0x70e7,
     0x8108, 0x9129, 0xa14a, 0xb16b, 0xc18c, 0xd1ad, 0xe1ce, 0xf1ef,
     0x1231, 0x0210, 0x3273, 0x2252, 0x52b5, 0x4294, 0x72f7, 0x62d6,
     0x9339, 0x8318, 0xb37b, 0xa35a, 0xd3bd, 0xc39c, 0xf3ff, 0xe3de,
     0x2462, 0x3443, 0x0420, 0x1401, 0x64e6, 0x74c7, 0x44a4, 0x5485,
     0xa56a, 0xb54b, 0x8528, 0x9509, 0xe5ee, 0xf5cf, 0xc5ac, 0xd58d,
     0x3653, 0x2672, 0x1611, 0x0630, 0x76d7, 0x66f6, 0x5695, 0x46b4,
     0xb75b, 0xa77a, 0x9719, 0x8738, 0xf7df, 0xe7fe, 0xd79d, 0xc7bc,
     0x48c4, 0x58e5, 0x6886, 0x78a7, 0x0840, 0x1861, 0x2802, 0x3823,
     0xc9cc, 0xd9ed, 0xe98e, 0xf9af, 0x8948, 0x9969, 0xa90a, 0xb92b,
     0x5af5, 0x4ad4, 0x7ab7, 0x6a96, 0x1a71, 0x0a50, 0x3a33, 0x2a12,
     0xdbfd, 0xcbdc, 0xfbbf, 0xeb9e, 0x9b79, 0x8b58, 0xbb3b, 0xab1a,
     0x6ca6, 0x7c87, 0x4ce4, 0x5cc5, 0x2c22, 0x3c03, 0x0c60, 0x1c41,
     0xedae, 0xfd8f, 0xcdec, 0xddcd, 0xad2a, 0xbd0b, 0x8d68, 0x9d49,
     0x7e97, 0x6eb6, 0x5ed5, 0x4ef4, 0x3e13, 0x2e32, 0x1e51, 0x0e70,
     0xff9f, 0xefbe, 0xdfdd, 0xcffc, 0xbf1b, 0xaf3a, 0x9f59, 0x8f78,
     0x9188, 0x81a9, 0xb1ca, 0xa1eb, 0xd10c, 0xc12d, 0xf14e, 0xe16f,
     0x1080, 0x00a1, 0x30c2, 0x20e3, 0x5004, 0x4025, 0x7046, 0x6067,
     0x83b9, 0x9398, 0xa3fb, 0xb3da, 0xc33d, 0xd31c, 0xe37f, 0xf35e,
     0x02b1, 0x1290, 0x22f3, 0x32d2, 0x4235, 0x5214, 0x6277, 0x7256,
     0xb5ea, 0xa5cb, 0x95a8, 0x8589, 0xf56e, 0xe54f, 0xd52c, 0xc50d,
     0x34e2, 0x24c3, 0x14a0, 0x0481, 0x7466, 0x6447, 0x5424, 0x4405,
     0xa7db, 0xb7fa, 0x8799, 0x97b8, 0xe75f, 0xf77e, 0xc71d, 0xd73c,
     0x26d3, 0x36f2, 0x0691, 0x16b0, 0x6657, 0x7676, 0x4615, 0x5634,
     0xd94c, 0xc96d, 0xf90e, 0xe92f, 0x99c8, 0x89e9, 0xb98a, 0xa9ab,
     0x5844, 0x4865, 0x7806, 0x6827, 0x18c0, 0x08e1, 0x3882, 0x28a3,
     0xcb7d, 0xdb5c, 0xeb3f, 0xfb1e, 0x8bf9, 0x9bd8, 0xabbb, 0xbb9a,
     0x4a75, 0x5a54, 0x6a37, 0x7a16, 0x0af1, 0x1ad0, 0x2ab3, 0x3a92,
     0xfd2e, 0xed0f, 0xdd6c, 0xcd4d, 0xbdaa, 0xad8b, 0x9de8, 0x8dc9,
     0x7c26, 0x6c07, 0x5c64, 0x4c45, 0x3ca2, 0x2c83, 0x1ce0, 0x0cc1,
     0xef1f, 0xff3e, 0xcf5d, 0xdf7c, 0xaf9b, 0xbfba, 0x8fd9, 0x9ff8,
     0x6e17, 0x7e36, 0x4e55, 0x5e74, 0x2e93, 0x3eb2, 0x0ed1, 0x1ef0]"

definition crc16_step :: "u16 \<Rightarrow> char \<Rightarrow> u16" where
  "crc16_step crc c =
     push_bit 8 crc XOR crc16tab ! unat ((drop_bit 8 crc XOR word_of_nat (ord_of c)) AND 0x00FF)"

definition crc16 :: "string \<Rightarrow> u16" where
  "crc16 buf = foldl crc16_step 0 buf"

text \<open>The reference: one shift and one conditional subtraction of the polynomial per bit.\<close>

definition crc_bit :: "u16 \<Rightarrow> u16" where
  "crc_bit x = (if bit x 15 then push_bit 1 x XOR 0x1021 else push_bit 1 x)"

definition crc_byte :: "u16 \<Rightarrow> char \<Rightarrow> u16" where
  "crc_byte crc c = (crc_bit ^^ 8) (crc XOR push_bit 8 (word_of_nat (ord_of c)))"

definition crc16_bitwise :: "string \<Rightarrow> u16" where
  "crc16_bitwise buf = foldl crc_byte 0 buf"

lemma crc_bit_low: "\<not> bit x 15 \<Longrightarrow> crc_bit x = push_bit 1 x"
  by (simp add: crc_bit_def)

lemma crc_bit_xor: "crc_bit (a XOR b) = crc_bit a XOR crc_bit b"
  by (auto simp: crc_bit_def bit_simps push_bit_xor ac_simps xor.left_commute)

lemma crc_bit_pow_xor: "(crc_bit ^^ n) (a XOR b) = (crc_bit ^^ n) a XOR (crc_bit ^^ n) b"
  by (induction n) (auto simp: crc_bit_xor)

text \<open>While no set bit reaches the top, the register only shifts.\<close>

lemma crc_bit_pow_low:
  "\<forall>i. 16 - n \<le> i \<longrightarrow> \<not> bit x i \<Longrightarrow> n \<le> 16 \<Longrightarrow> (crc_bit ^^ n) x = push_bit n x"
proof (induction n)
  case 0
  then show ?case by simp
next
  case (Suc n)
  then have "(crc_bit ^^ n) x = push_bit n x" by auto
  moreover have "\<not> bit (push_bit n x) 15"
    using Suc.prems by (auto simp: bit_push_bit_iff)
  ultimately have "(crc_bit ^^ Suc n) x = push_bit 1 (push_bit n x)"
    by (simp only: funpow.simps o_apply crc_bit_low not_False_eq_True)
  then show ?case by (simp only: push_bit_push_bit plus_1_eq_Suc)
qed

text \<open>
  The table doubles: entry \<open>2i\<close> is one shift of entry \<open>i\<close>, entry \<open>2i + 1\<close> adds the
  polynomial. So the whole table follows from 128 single steps.
\<close>

lemma crc16tab_doubles:
  "crc16tab = concat (map (\<lambda>x. [crc_bit x, crc_bit x XOR 0x1021]) (take 128 crc16tab))"
  unfolding crc16tab_def by (simp add: crc_bit_def)

lemma crc16tab_doubles_one: "(crc_bit ^^ 8) (push_bit 8 1) = 0x1021"
proof -
  have "(crc_bit ^^ Suc (Suc (Suc (Suc (Suc (Suc (Suc (Suc 0)))))))) (push_bit 8 1) = 0x1021"
    by (simp add: crc_bit_def)
  moreover have "Suc (Suc (Suc (Suc (Suc (Suc (Suc (Suc 0))))))) = 8" by simp
  ultimately show ?thesis by (simp only:)
qed

lemma length_crc16tab [simp]: "length crc16tab = 256"
  by (simp add: crc16tab_def)

lemma concat_pairs_nth:
  "i < length xs \<Longrightarrow> concat (map (\<lambda>x. [f x, g x]) xs) ! (2 * i) = f (xs ! i)"
  "i < length xs \<Longrightarrow> concat (map (\<lambda>x. [f x, g x]) xs) ! Suc (2 * i) = g (xs ! i)"
  by (induction xs arbitrary: i) (auto simp: less_Suc_eq_0_disj)

lemma crc16tab_nth_double:
  assumes "i < 128"
  shows "crc16tab ! (2 * i) = crc_bit (crc16tab ! i)"
    and "crc16tab ! Suc (2 * i) = crc_bit (crc16tab ! i) XOR 0x1021"
proof -
  let ?f = "\<lambda>x. [crc_bit x, crc_bit x XOR 0x1021]"
  have "crc16tab ! k = concat (map ?f (take 128 crc16tab)) ! k" for k
    using crc16tab_doubles by simp
  with assms show "crc16tab ! (2 * i) = crc_bit (crc16tab ! i)"
    and "crc16tab ! Suc (2 * i) = crc_bit (crc16tab ! i) XOR 0x1021"
    by (simp_all add: concat_pairs_nth)
qed

lemma crc16tab_bitwise:
  "i < 256 \<Longrightarrow> crc16tab ! i = (crc_bit ^^ 8) (push_bit 8 (word_of_nat i))"
proof (induction i rule: less_induct)
  case (less i)
  show ?case
  proof (cases "i = 0")
    case True
    then show ?thesis by (simp add: crc16tab_def crc_bit_def numeral_eq_Suc)
  next
    case False
    let ?j = "i div 2"
    let ?x = "push_bit 8 (word_of_nat ?j) :: u16"
    have j: "?j < i" "?j < 128" using False less.prems by auto
    have IH: "crc16tab ! ?j = (crc_bit ^^ 8) ?x" using less.IH j by simp
    have "\<not> bit ?j 7" using j(2) by (simp add: bit_iff_odd)
    then have "\<not> bit ?x 15" by (simp add: bit_push_bit_iff bit_of_nat_iff)
    moreover have two: "push_bit 8 (word_of_nat (2 * ?j)) = (push_bit 1 ?x :: u16)"
      by (simp add: push_bit_eq_mult)
    ultimately have dbl: "push_bit 8 (word_of_nat (2 * ?j)) = crc_bit ?x"
      by (simp add: crc_bit_low)
    have swap: "(crc_bit ^^ 8) (crc_bit y) = crc_bit ((crc_bit ^^ 8) y)" for y
      by (simp add: funpow_swap1)
    show ?thesis
    proof (cases "even i")
      case True
      then have i: "i = 2 * ?j" by simp
      have "crc16tab ! i = crc_bit (crc16tab ! ?j)"
        using crc16tab_nth_double(1) [OF j(2)] i by simp
      also have "\<dots> = (crc_bit ^^ 8) (push_bit 8 (word_of_nat (2 * ?j)))"
        by (simp only: IH dbl swap)
      finally show ?thesis using i by simp
    next
      case False
      then have i: "i = Suc (2 * ?j)" by presburger
      have odd: "word_of_nat i = (word_of_nat (2 * ?j) XOR 1 :: u16)"
        by (subst i) (simp add: xor_one_eq)
      have one: "(crc_bit ^^ 8) (push_bit 8 1) = 0x1021"
        using crc16tab_doubles_one by simp
      have "crc16tab ! i = crc_bit (crc16tab ! ?j) XOR 0x1021"
        using crc16tab_nth_double(2) [OF j(2)] i by simp
      also have "\<dots> = (crc_bit ^^ 8) (push_bit 8 (word_of_nat (2 * ?j)) XOR push_bit 8 1)"
        by (simp only: crc_bit_pow_xor one IH dbl swap)
      also have "\<dots> = (crc_bit ^^ 8) (push_bit 8 (word_of_nat i))"
        by (simp only: odd push_bit_xor)
      finally show ?thesis .
    qed
  qed
qed

lemma crc16_step_bitwise: "crc16_step crc c = crc_byte crc c"
proof -
  let ?b = "word_of_nat (ord_of c) :: u16"
  let ?x = "drop_bit 8 crc XOR ?b"
  let ?lo = "crc AND 0x00FF"
  have mask8: "(0x00FF :: u16) = mask 8" by (simp add: mask_eq_exp_minus_1)
  have bit_b: "i < 8" if "bit ?b i" for i
  proof (rule ccontr)
    assume "\<not> i < 8"
    then have "(256 :: nat) \<le> 2 ^ i" using power_increasing [of 8 i "2 :: nat"] by simp
    then have "ord_of c < 2 ^ i" using ord_of_less_256 [of c] by linarith
    then have "\<not> bit (ord_of c) i" by (simp add: bit_iff_odd)
    with that show False by (simp add: bit_of_nat_iff)
  qed
  have bit_x: "n < 8" if "bit ?x n" for n
    using that bit_b [of n] bit_imp_le_length [of crc "8 + n"] by (auto simp: bit_xor_iff bit_drop_bit_eq)
  have x8: "?x AND 0x00FF = ?x"
    unfolding mask8 by (rule bit_word_eqI) (use bit_x in \<open>auto simp: bit_and_iff bit_mask_iff\<close>)
  have split: "crc XOR push_bit 8 ?b = push_bit 8 ?x XOR ?lo"
    unfolding mask8 by (rule bit_word_eqI) (auto simp: bit_simps)
  have lo: "(crc_bit ^^ 8) ?lo = push_bit 8 crc"
  proof -
    have "(crc_bit ^^ 8) ?lo = push_bit 8 ?lo"
      unfolding mask8 by (rule crc_bit_pow_low) (auto simp: bit_simps)
    also have "\<dots> = push_bit 8 crc"
      unfolding mask8 by (rule bit_word_eqI) (auto simp: bit_simps)
    finally show ?thesis .
  qed
  have small: "unat (?x AND 0x00FF) < 256"
    using word_and_le1 [of ?x "0x00FF"] by (simp add: word_le_nat_alt)
  have "crc16tab ! unat (?x AND 0x00FF) = (crc_bit ^^ 8) (push_bit 8 ?x)"
    using crc16tab_bitwise [OF small] x8 by simp
  then show ?thesis
    by (simp only: crc16_step_def crc_byte_def split crc_bit_pow_xor lo ac_simps)
qed

lemma crc16_eq_bitwise: "crc16 buf = crc16_bitwise buf"
proof -
  have "crc16_step = crc_byte" by (intro ext) (rule crc16_step_bitwise)
  then show ?thesis by (simp add: crc16_def crc16_bitwise_def)
qed

section \<open>Hash slots\<close>

abbreviation REDIS_CLUSTER_SLOTS :: nat where "REDIS_CLUSTER_SLOTS \<equiv> 16384"

text \<open>
  Index of the first occurrence of a character at or behind a position, the length of the
  key when there is none: the two scanning loops of the function.
\<close>

fun scan_for :: "char \<Rightarrow> string \<Rightarrow> nat \<Rightarrow> nat" where
  "scan_for c [] i = i"
| "scan_for c (x # xs) i = (if x = c then i else scan_for c xs (i + 1))"

definition keyHashSlot :: "string \<Rightarrow> nat" where
  "keyHashSlot key =
     (let keylen = length key; s = scan_for CHR ''{'' key 0
      in if s = keylen then unat (crc16 key AND 0x3FFF)
         else let e = scan_for CHR ''}'' (drop (s + 1) key) (s + 1)
              in if e = keylen \<or> e = s + 1 then unat (crc16 key AND 0x3FFF)
                 else unat (crc16 (take (e - s - 1) (drop (s + 1) key)) AND 0x3FFF))"

definition redisClusterGetSlotByKey :: "string \<Rightarrow> nat" where
  "redisClusterGetSlotByKey key = keyHashSlot (cstr key)"

lemma scan_for_none: "c \<notin> set xs \<Longrightarrow> scan_for c xs i = i + length xs"
  by (induction xs arbitrary: i) auto

lemma scan_for_hit: "c \<notin> set xs \<Longrightarrow> scan_for c (xs @ c # ys) i = i + length xs"
  by (induction xs arbitrary: i) auto

lemma slot_of_crc_bound: "unat (x AND 0x3FFF :: u16) < REDIS_CLUSTER_SLOTS"
  using word_and_le1 [of x "0x3FFF"] by (simp add: word_le_nat_alt)

lemma keyHashSlot_less [simp]: "keyHashSlot key < REDIS_CLUSTER_SLOTS"
  by (simp add: keyHashSlot_def Let_def slot_of_crc_bound)

lemma keyHashSlot_no_brace:
  "CHR ''{'' \<notin> set key \<Longrightarrow> keyHashSlot key = unat (crc16 key AND 0x3FFF)"
  by (simp add: keyHashSlot_def scan_for_none)

lemma keyHashSlot_tagged:
  assumes "CHR ''{'' \<notin> set pre" and "tag \<noteq> []" and "CHR ''}'' \<notin> set tag"
  shows "keyHashSlot (pre @ ''{'' @ tag @ ''}'' @ post) = unat (crc16 tag AND 0x3FFF)"
proof -
  let ?key = "pre @ CHR ''{'' # tag @ CHR ''}'' # post"
  have s: "scan_for CHR ''{'' ?key 0 = length pre" using scan_for_hit [OF assms(1)] by simp
  have e: "scan_for CHR ''}'' (drop (length pre + 1) ?key) (length pre + 1) = length pre + 1 + length tag"
    using scan_for_hit [OF assms(3)] by simp
  show ?thesis
    using assms(2) e by (simp add: keyHashSlot_def s)
qed

section \<open>Properties\<close>

lemma keyHashSlot_empty_tag:
  assumes "CHR ''{'' \<notin> set pre"
  shows "keyHashSlot (pre @ ''{}'' @ post) = unat (crc16 (pre @ ''{}'' @ post) AND 0x3FFF)"
  using scan_for_hit [OF assms, of "''}'' @ post" 0] by (simp add: keyHashSlot_def Let_def)

lemma keyHashSlot_open_brace:
  assumes "CHR ''{'' \<notin> set pre" and "CHR ''}'' \<notin> set tag"
  shows "keyHashSlot (pre @ ''{'' @ tag) = unat (crc16 (pre @ ''{'' @ tag) AND 0x3FFF)"
  using scan_for_hit [OF assms(1), of tag 0] scan_for_none [OF assms(2), of "Suc (length pre)"] by (simp add: keyHashSlot_def Let_def)

text \<open>
  C17. The table-driven CRC16 of \<^verbatim>\<open>crc16.c\<close> computes, for every buffer, the bit-by-bit CRC with
  polynomial 0x1021 and initial value 0 that the Redis cluster specification prescribes.
\<close>

theorem crc16_is_bitwise_crc: "crc16 buf = crc16_bitwise buf"
  by (rule crc16_eq_bitwise)

text \<open>
  C16. The slot of a key is below 16384, all keys with the same non-empty hash tag share the slot of that
  tag, and it is the slot of the whole key when there is no brace, when the tag is empty, and when the brace is
  not closed.
\<close>

theorem keyHashSlot_hash_tag:
  assumes "CHR ''{'' \<notin> set pre" and "tag \<noteq> []" and "CHR ''}'' \<notin> set tag" and "CHR ''{'' \<notin> set plain"
  shows "keyHashSlot (pre @ ''{'' @ tag @ ''}'' @ post) = unat (crc16_bitwise tag AND 0x3FFF) \<and>
    keyHashSlot plain = unat (crc16_bitwise plain AND 0x3FFF) \<and>
    keyHashSlot (pre @ ''{}'' @ post) = unat (crc16_bitwise (pre @ ''{}'' @ post) AND 0x3FFF) \<and>
    keyHashSlot (pre @ ''{'' @ tag) = unat (crc16_bitwise (pre @ ''{'' @ tag) AND 0x3FFF) \<and> keyHashSlot key < REDIS_CLUSTER_SLOTS"
  using keyHashSlot_tagged [OF assms(1-3), of post] keyHashSlot_no_brace [OF assms(4)]
    keyHashSlot_empty_tag [OF assms(1), of post] keyHashSlot_open_brace [OF assms(1,3)]
  by (simp add: crc16_eq_bitwise)

theorem keyHashSlot_hash_tag_witness:
  "keyHashSlot ''user{42}.name'' = unat (crc16_bitwise ''42'' AND 0x3FFF) \<and>
   keyHashSlot ''abc'' = unat (crc16_bitwise ''abc'' AND 0x3FFF) \<and>
   keyHashSlot ''user{}.name'' = unat (crc16_bitwise ''user{}.name'' AND 0x3FFF) \<and>
   keyHashSlot ''user{42'' = unat (crc16_bitwise ''user{42'' AND 0x3FFF) \<and> keyHashSlot ''a{}'' < 16384"
  using keyHashSlot_hash_tag [of "''user''" "''42''" "''abc''" "''.name''" "''a{}''"] by simp

end
