(* ===== verification/Fragment.thy ===== *)
theory Fragment
  imports Command_Spec Hiutil Keyslot
begin

text \<open>
  Multi-key commands: \<open>command_pre_fragment\<close> splits MGET, DEL, EXISTS and MSET into one command
  for each slot, \<open>command_post_fragment\<close> puts the replies together again
  (\<^verbatim>\<open>hircluster.c\<close>). Every write into a new command is checked against its size: the result
  \<open>None\<close> is a write or a read outside a buffer.

  The array \<open>sub_commands\<close> of 16384 pointers is the association list of its entries that are
  not null, in the order of the slots, which is the order the code visits them in. \<open>commands\<close>
  is the list the sub-commands are appended to.
\<close>

section \<open>Writing a sub-command\<close>

definition buf_put :: "string \<Rightarrow> nat \<Rightarrow> string \<Rightarrow> string option" where
  "buf_put buf idx s =
     (if idx + length s \<le> length buf then Some (take idx buf @ s @ drop (idx + length s) buf) else None)"

text \<open>\<open>hi_itoa(num_str, n)\<close> and \<open>strlen(num_str)\<close>.\<close>

definition put_num :: "string \<Rightarrow> u32 \<Rightarrow> string option" where
  "put_num num_str n =
     (case hi_itoa num_str (sint n) of
        None \<Rightarrow> None
      | Some s \<Rightarrow> if NUL \<in> set s then Some s else None)"

fun put_all :: "string \<Rightarrow> nat \<Rightarrow> string list \<Rightarrow> (string \<times> nat) option" where
  "put_all buf idx [] = Some (buf, idx)"
| "put_all buf idx (s # ss) =
     (case buf_put buf idx s of None \<Rightarrow> None | Some buf1 \<Rightarrow> put_all buf1 (idx + length s) ss)"

definition buf_slice :: "string \<Rightarrow> nat \<Rightarrow> nat \<Rightarrow> string option" where
  "buf_slice buf i n = (if i + n \<le> length buf then Some (take n (drop i buf)) else None)"

text \<open>
  The loop that writes the keys. For MSET the bytes from the key on hold the value too; for
  the others the key is followed by a line end of its own.
\<close>

definition key_payload :: "string \<Rightarrow> bool \<Rightarrow> keypos \<Rightarrow> string option" where
  "key_payload src mset kp =
     (let key_len = word_of_nat (kp_end kp - kp_start kp) :: u32
      in if mset
         then (case kp_remain_len kp of
                 None \<Rightarrow> None
               | Some rl \<Rightarrow> buf_slice src (kp_start kp) (unat (key_len + rl)))
         else map_option (\<lambda>k. k @ CRLF) (buf_slice src (kp_start kp) (unat key_len)))"

fun put_keys :: "string \<Rightarrow> bool \<Rightarrow> keypos list \<Rightarrow> string \<Rightarrow> nat \<Rightarrow> string \<Rightarrow> (string \<times> nat \<times> string) option" where
  "put_keys src mset [] cmd idx num_str = Some (cmd, idx, num_str)"
| "put_keys src mset (kp # kps) cmd idx num_str =
     (case put_num num_str (word_of_nat (kp_end kp - kp_start kp)) of
        None \<Rightarrow> None
      | Some ns \<Rightarrow>
          (case key_payload src mset kp of
             None \<Rightarrow> None
           | Some bytes \<Rightarrow>
               (case put_all cmd idx [''$'', cstr ns, CRLF, bytes] of
                  None \<Rightarrow> None
                | Some (cmd1, idx1) \<Rightarrow> put_keys src mset kps cmd1 idx1 ns)))"

datatype frag_status = Frag_ok | Frag_oom

text \<open>
  What the four branches have in common: \<open>per_key\<close> bytes for each key and \<open>base\<close> bytes for the
  header are added to the length, the number of arguments is completed, and header and keys
  are written.
\<close>

definition format_sub ::
  "string \<Rightarrow> bool \<Rightarrow> u32 \<Rightarrow> u32 \<Rightarrow> (u32 \<Rightarrow> u32) \<Rightarrow> string \<Rightarrow> string \<Rightarrow> cmd \<Rightarrow> alloc \<Rightarrow>
     (frag_status \<times> cmd \<times> string \<times> alloc) option" where
  "format_sub src mset per_key base total_args header num_str sub al =
     (let clen1 = r_clen sub + per_key * r_narg sub; narg1 = total_args (r_narg sub)
      in case put_num num_str narg1 of
           None \<Rightarrow> None
         | Some ns \<Rightarrow>
             (let clen2 = clen1 + base + word_of_nat (length (cstr ns));
                  sub1 = sub\<lparr>r_clen := clen2, r_narg := narg1\<rparr>
              in case hi_alloc al of
                   (False, al1) \<Rightarrow> Some (Frag_oom, sub1, ns, al1)
                 | (True, al1) \<Rightarrow>
                     (case put_all (replicate (unat clen2) NUL) 0 [''*'', cstr ns, header] of
                        None \<Rightarrow> None
                      | Some (cmd, idx) \<Rightarrow>
                          (case put_keys src mset (arr_list (r_keys sub)) cmd idx ns of
                             None \<Rightarrow> None
                           | Some (cmd1, idx1, ns1) \<Rightarrow> Some (Frag_ok, sub1\<lparr>r_cmd := Some cmd1\<rparr>, ns1, al1)))))"

definition format_mget :: "string \<Rightarrow> string \<Rightarrow> cmd \<Rightarrow> alloc \<Rightarrow> (frag_status \<times> cmd \<times> string \<times> alloc) option" where
  "format_mget src = format_sub src False 5 13 (\<lambda>n. n + 1) (CRLF @ ''$4'' @ CRLF @ ''mget'' @ CRLF)"

definition format_del :: "string \<Rightarrow> string \<Rightarrow> cmd \<Rightarrow> alloc \<Rightarrow> (frag_status \<times> cmd \<times> string \<times> alloc) option" where
  "format_del src = format_sub src False 5 12 (\<lambda>n. n + 1) (CRLF @ ''$3'' @ CRLF @ ''del'' @ CRLF)"

definition format_exists :: "string \<Rightarrow> string \<Rightarrow> cmd \<Rightarrow> alloc \<Rightarrow> (frag_status \<times> cmd \<times> string \<times> alloc) option" where
  "format_exists src = format_sub src False 5 15 (\<lambda>n. n + 1) (CRLF @ ''$6'' @ CRLF @ ''exists'' @ CRLF)"

definition format_mset :: "string \<Rightarrow> string \<Rightarrow> cmd \<Rightarrow> alloc \<Rightarrow> (frag_status \<times> cmd \<times> string \<times> alloc) option" where
  "format_mset src = format_sub src True 3 13 (\<lambda>n. n * 2 + 1) (CRLF @ ''$4'' @ CRLF @ ''mset'' @ CRLF)"

text \<open>\<open>None\<close> for a type that has no branch: \<open>NOT_REACHED()\<close>.\<close>

definition format_by_type ::
  "cmd_type \<Rightarrow> string \<Rightarrow> string \<Rightarrow> cmd \<Rightarrow> alloc \<Rightarrow> (frag_status \<times> cmd \<times> string \<times> alloc) option" where
  "format_by_type t src ns sub al =
     (if t = CMD_REQ_REDIS_MGET then format_mget src ns sub al
      else if t = CMD_REQ_REDIS_DEL then format_del src ns sub al
      else if t = CMD_REQ_REDIS_EXISTS then format_exists src ns sub al
      else if t = CMD_REQ_REDIS_MSET then format_mset src ns sub al
      else None)"

section \<open>Distributing the keys\<close>

fun slot_get :: "(nat \<times> 'c) list \<Rightarrow> nat \<Rightarrow> 'c option" where
  "slot_get [] s = None"
| "slot_get ((t, c) # xs) s = (if s = t then Some c else if s < t then None else slot_get xs s)"

fun slot_put :: "(nat \<times> 'c) list \<Rightarrow> nat \<Rightarrow> 'c \<Rightarrow> (nat \<times> 'c) list" where
  "slot_put [] s c = [(s, c)]"
| "slot_put ((t, d) # xs) s c =
     (if s = t then (s, c) # xs else if s < t then (s, c) # (t, d) # xs else (t, d) # slot_put xs s c)"

text \<open>
  The length of what follows the key of an MSET pair, up to and with its value; \<open>None\<close> when
  the scan for the digits of the length leaves the buffer.
\<close>

definition mset_remain :: "string \<Rightarrow> nat \<Rightarrow> u32 option" where
  "mset_remain src kend =
     (case find_idx c_isdigit (drop (kend + 1) src) of
        None \<Rightarrow> None
      | Some i \<Rightarrow>
          (let p = kend + 1 + i; ds = takeWhile c_isdigit (drop p src); q = p + length ds
           in if q \<ge> length src then None
              else Some (foldl (\<lambda>len c. len * 10 + word_of_nat (digit_val c)) 0 ds + 4 + word_of_nat (q - kend))))"

text \<open>The entry of the sub-command for a key.\<close>

definition frag_key :: "string \<Rightarrow> cmd_type \<Rightarrow> keypos \<Rightarrow> keypos" where
  "frag_key src t kp =
     \<lparr>kp_start = kp_start kp, kp_end = kp_end kp,
      kp_remain_len = (if t = CMD_REQ_REDIS_MSET then mset_remain src (kp_end kp) else None)\<rparr>"

text \<open>One turn of the loop over the keys: the key is added to the sub-command of its slot.\<close>

definition add_key ::
  "string \<Rightarrow> cmd_type \<Rightarrow> keypos \<Rightarrow> nat \<Rightarrow> cmd \<Rightarrow> alloc \<Rightarrow> (frag_status \<times> cmd \<times> alloc) option" where
  "add_key src t kp slot sub al =
     (let sub1 = sub\<lparr>r_narg := r_narg sub + 1\<rparr>;
          key_len = word_of_nat (kp_end kp - kp_start kp) :: u32
      in case push_elem (r_keys sub1) (frag_key src t kp) al of
           (False, keys, al1) \<Rightarrow> Some (Frag_oom, sub1\<lparr>r_keys := keys\<rparr>, al1)
         | (True, keys, al1) \<Rightarrow>
             (let sub2 = sub1\<lparr>r_keys := keys, r_clen := r_clen sub1 + key_len + word_of_nat (uint_len key_len),
                              r_slot_num := int slot\<rparr>
              in if t = CMD_REQ_REDIS_MSET
                 then map_option (\<lambda>rl. (Frag_ok, sub2\<lparr>r_clen := r_clen sub2 + rl\<rparr>, al1)) (mset_remain src (kp_end kp))
                 else Some (Frag_ok, sub2, al1)))"

text \<open>
  The loop itself; \<open>seq\<close> collects \<open>frag_seq\<close>, \<open>slot_num\<close> is the slot of the last key seen. A slot
  is never outside the range (\<open>keyHashSlot_less\<close>), so the error exit of the loop is not taken.
\<close>

fun fill_loop ::
  "string \<Rightarrow> cmd_type \<Rightarrow> keypos list \<Rightarrow> (nat \<times> cmd) list \<Rightarrow> nat list \<Rightarrow> int \<Rightarrow> u64 \<Rightarrow> alloc \<Rightarrow>
     (frag_status \<times> (nat \<times> cmd) list \<times> nat list \<times> int \<times> u64 \<times> alloc) option" where
  "fill_loop src t [] subs seq slot_num cid al = Some (Frag_ok, subs, seq, slot_num, cid, al)"
| "fill_loop src t (kp # kps) subs seq slot_num cid al =
     (let slot = keyHashSlot (key_bytes src kp);
          (got, cid1, al1) = (case slot_get subs slot of
                                Some sub \<Rightarrow> (Some sub, cid, al)
                              | None \<Rightarrow> command_get cid al)
      in case got of
           None \<Rightarrow> Some (Frag_oom, subs, seq, int slot, cid1, al1)
         | Some sub \<Rightarrow>
             (case add_key src t kp slot sub al1 of
                None \<Rightarrow> None
              | Some (Frag_oom, sub1, al2) \<Rightarrow> Some (Frag_oom, slot_put subs slot sub1, seq @ [slot], int slot, cid1, al2)
              | Some (Frag_ok, sub1, al2) \<Rightarrow>
                  fill_loop src t kps (slot_put subs slot sub1) (seq @ [slot]) (int slot) cid1 al2))"

text \<open>The second loop: write the sub-commands and append them to \<open>commands\<close>.\<close>

fun header_loop ::
  "string \<Rightarrow> cmd_type \<Rightarrow> (nat \<times> cmd) list \<Rightarrow> cmd list \<Rightarrow> string \<Rightarrow> alloc \<Rightarrow> (frag_status \<times> cmd list \<times> alloc) option" where
  "header_loop src t [] commands ns al = Some (Frag_ok, commands, al)"
| "header_loop src t ((slot, sub) # subs) commands ns al =
     (case format_by_type t src ns sub al of
        None \<Rightarrow> None
      | Some (Frag_oom, sub1, ns1, al1) \<Rightarrow> Some (Frag_oom, commands, al1)
      | Some (Frag_ok, sub1, ns1, al1) \<Rightarrow>
          (case hi_alloc al1 of
             (False, al2) \<Rightarrow> Some (Frag_oom, commands, al2)
           | (True, al2) \<Rightarrow> header_loop src t subs (commands @ [sub1\<lparr>r_type := t\<rparr>]) ns1 al2))"

text \<open>
  The whole function: the slot number, the context, the command with its \<open>frag_seq\<close> and the
  list of sub-commands. \<open>num_str\<close> is the content of the uninitialised array on entry.
\<close>

definition command_pre_fragment ::
  "'c ctx_error_scheme \<Rightarrow> cmd \<Rightarrow> cmd list \<Rightarrow> string \<Rightarrow> u64 \<Rightarrow> alloc \<Rightarrow>
     (int \<times> 'c ctx_error_scheme \<times> cmd \<times> cmd list \<times> u64 \<times> alloc) option" where
  "command_pre_fragment cc command commands num_str cid al =
     (let oom = redisClusterSetError REDIS_ERR_OOM ''Out of memory'' cc
      in case r_cmd command of
           None \<Rightarrow> None
         | Some src \<Rightarrow>
             (case hi_alloc al of
                (False, al1) \<Rightarrow> Some (-1, oom, command, commands, cid, al1)
              | (True, al1) \<Rightarrow>
                  (case hi_alloc al1 of
                     (False, al2) \<Rightarrow> Some (-1, oom, command\<lparr>r_frag_seq := None\<rparr>, commands, cid, al2)
                   | (True, al2) \<Rightarrow>
                       (case fill_loop src (r_type command) (arr_list (r_keys command)) [] [] (-1) cid al2 of
                          None \<Rightarrow> None
                        | Some (Frag_oom, subs, seq, slot_num, cid1, al3) \<Rightarrow>
                            Some (-1, oom, command\<lparr>r_frag_seq := Some seq\<rparr>, commands, cid1, al3)
                        | Some (Frag_ok, subs, seq, slot_num, cid1, al3) \<Rightarrow>
                            (case header_loop src (r_type command) subs commands num_str al3 of
                               None \<Rightarrow> None
                             | Some (Frag_oom, commands1, al4) \<Rightarrow>
                                 Some (-1, oom, command\<lparr>r_frag_seq := Some seq\<rparr>, commands1, cid1, al4)
                             | Some (Frag_ok, commands1, al4) \<Rightarrow>
                                 if slot_num \<ge> 0 \<and> length commands1 = 1
                                 then Some (slot_num, cc, command\<lparr>r_frag_seq := None, r_slot_num := slot_num\<rparr>, [], cid1, al4)
                                 else Some (slot_num, cc, command\<lparr>r_frag_seq := Some seq\<rparr>, commands1, cid1, al4))))))"

section \<open>Putting the replies together\<close>

text \<open>
  The loop over the sub-commands: \<open>Inl\<close> ends the function with the given reply and error,
  \<open>Inr\<close> is the sum of the integer replies.
\<close>

fun check_replies ::
  "cmd_type \<Rightarrow> 'c ctx_error_scheme \<Rightarrow> cmd list \<Rightarrow> int \<Rightarrow> (redisReply option \<times> 'c ctx_error_scheme) + int" where
  "check_replies t cc [] count = Inr count"
| "check_replies t cc (sub # subs) count =
     (let bad = Inl (None, redisClusterSetError REDIS_ERR_OTHER ''reply type error'' cc)
      in case r_reply sub of
           None \<Rightarrow> Inl (None, cc)
         | Some (REDIS_REPLY_ERROR s) \<Rightarrow> Inl (Some (REDIS_REPLY_ERROR s), cc)
         | Some reply \<Rightarrow>
             if t = CMD_REQ_REDIS_MGET
             then (case reply of REDIS_REPLY_ARRAY es \<Rightarrow> check_replies t cc subs count | _ \<Rightarrow> bad)
             else if t = CMD_REQ_REDIS_DEL \<or> t = CMD_REQ_REDIS_EXISTS
             then (case reply of REDIS_REPLY_INTEGER n \<Rightarrow> check_replies t cc subs (count + n) | _ \<Rightarrow> bad)
             else (case reply of
                     REDIS_REPLY_STATUS s \<Rightarrow> if length s = 2 \<and> cstr s = ''OK'' then check_replies t cc subs count else bad
                   | _ \<Rightarrow> bad))"

text \<open>
  The loop of MGET from the last key to the first: the reply of the key's sub-command gives up
  its last element. \<open>repl\<close> holds what is left of the replies, by slot; \<open>Inl\<close> is the error exit.
\<close>

fun take_elements ::
  "nat list \<Rightarrow> (nat \<rightharpoonup> redisReply) \<Rightarrow> redisReply list \<Rightarrow> string + redisReply list" where
  "take_elements [] repl acc = Inr acc"
| "take_elements (slot # slots) repl acc =
     (case repl slot of
        None \<Rightarrow> Inl ''sub reply is null''
      | Some (REDIS_REPLY_STRING s) \<Rightarrow> take_elements slots repl (REDIS_REPLY_STRING s # acc)
      | Some (REDIS_REPLY_ARRAY es) \<Rightarrow>
          if es = [] then Inl ''sub reply elements error''
          else take_elements slots (repl(slot \<mapsto> REDIS_REPLY_ARRAY (butlast es))) (last es # acc)
      | Some _ \<Rightarrow> take_elements slots repl (NULL_ELEMENT # acc))"

definition slot_replies :: "cmd list \<Rightarrow> (nat \<rightharpoonup> redisReply)" where
  "slot_replies commands slot =
     (case find (\<lambda>sub. r_slot_num sub = int slot) commands of None \<Rightarrow> None | Some sub \<Rightarrow> r_reply sub)"

definition command_post_fragment ::
  "'c ctx_error_scheme \<Rightarrow> cmd \<Rightarrow> cmd list \<Rightarrow> alloc \<Rightarrow> redisReply option \<times> 'c ctx_error_scheme \<times> alloc" where
  "command_post_fragment cc command commands al =
     (let t = r_type command; oom = redisClusterSetError REDIS_ERR_OOM ''Out of memory'' cc
      in case check_replies t cc commands 0 of
           Inl (reply, cc1) \<Rightarrow> (reply, cc1, al)
         | Inr count \<Rightarrow>
             (case hi_alloc al of
                (False, al1) \<Rightarrow> (None, oom, al1)
              | (True, al1) \<Rightarrow>
                  if t = CMD_REQ_REDIS_MGET then
                    (case hi_alloc al1 of
                       (False, al2) \<Rightarrow> (None, oom, al2)
                     | (True, al2) \<Rightarrow>
                         (case take_elements (rev (case r_frag_seq command of None \<Rightarrow> [] | Some seq \<Rightarrow> seq))
                                 (slot_replies commands) [] of
                            Inl msg \<Rightarrow> (None, redisClusterSetError REDIS_ERR_OTHER msg cc, al2)
                          | Inr es \<Rightarrow> (Some (REDIS_REPLY_ARRAY es), cc, al2)))
                  else if t = CMD_REQ_REDIS_DEL \<or> t = CMD_REQ_REDIS_EXISTS
                  then (Some (REDIS_REPLY_INTEGER count), cc, al1)
                  else
                    (case hi_alloc al1 of
                       (False, al2) \<Rightarrow> (None, oom, al2)
                     | (True, al2) \<Rightarrow> (Some (REDIS_REPLY_STATUS ''OK''), cc, al2))))"

section \<open>Slot of a command\<close>

definition command_format_by_slot ::
  "'c ctx_error_scheme \<Rightarrow> cmd \<Rightarrow> cmd list \<Rightarrow> string \<Rightarrow> u64 \<Rightarrow> alloc \<Rightarrow>
     (int \<times> 'c ctx_error_scheme \<times> cmd \<times> cmd list \<times> u64 \<times> alloc) option" where
  "command_format_by_slot cc command commands num_str cid al =
     (if r_cmd command = None \<or> r_clen command = 0 then Some (-1, cc, command, commands, cid, al)
      else
        (case redis_parse_cmd command al of
           None \<Rightarrow> None
         | Some (command1, al1) \<Rightarrow>
             if r_result command1 = CMD_PARSE_ENOMEM
             then Some (-1, redisClusterSetError REDIS_ERR_OOM ''Out of memory'' cc, command1, commands, cid, al1)
             else if r_result command1 \<noteq> CMD_PARSE_OK
             then Some (-1, redisClusterSetError REDIS_ERR_PROTOCOL (case r_errstr command1 of None \<Rightarrow> [] | Some s \<Rightarrow> s) cc,
                        command1, commands, cid, al1)
             else
               (let key_count = sint (hiarray_n (r_keys command1))
                in if key_count \<le> 0
                   then Some (-1, redisClusterSetError REDIS_ERR_OTHER
                                    ''No keys in command(must have keys for redis cluster mode)'' cc,
                              command1, commands, cid, al1)
                   else if key_count = 1
                   then (let slot = int (keyHashSlot (key_bytes (the (r_cmd command1)) (hd (arr_list (r_keys command1)))))
                         in Some (slot, cc, command1\<lparr>r_slot_num := slot\<rparr>, commands, cid, al1))
                   else command_pre_fragment cc command1 commands num_str cid al1)))"


section \<open>Writing is exact\<close>

lemma put_all_zeros:
  assumes "length (concat ss) \<le> n"
  shows "put_all (pre @ replicate n NUL) (length pre) ss =
    Some (pre @ concat ss @ replicate (n - length (concat ss)) NUL, length pre + length (concat ss))"
  using assms
proof (induction ss arbitrary: pre n)
  case Nil
  then show ?case by simp
next
  case (Cons s ss)
  have "buf_put (pre @ replicate n NUL) (length pre) s = Some ((pre @ s) @ replicate (n - length s) NUL)"
    using Cons.prems by (simp add: buf_put_def)
  moreover have "put_all ((pre @ s) @ replicate (n - length s) NUL) (length (pre @ s)) ss =
    Some ((pre @ s) @ concat ss @ replicate (n - length s - length (concat ss)) NUL, length (pre @ s) + length (concat ss))"
    using Cons.prems by (intro Cons.IH) simp
  ultimately show ?case by simp
qed

text \<open>The number buffer holds a zero-terminated numeral, of one digit unless \<open>p\<close> says more.\<close>

definition num_buf :: "nat \<Rightarrow> string \<Rightarrow> bool" where
  "num_buf p ns \<longleftrightarrow> 12 \<le> length ns \<and> (p < 10 \<longrightarrow> (\<exists>c rest. ns = c # NUL # rest)) \<and> NUL \<in> set ns"

fun zero_safe :: "nat \<Rightarrow> nat list \<Rightarrow> bool" where
  "zero_safe p [] = True"
| "zero_safe p (l # ls) = (if l = 0 then p < 10 \<and> zero_safe p ls else zero_safe l ls)"

lemma put_num_pos:
  assumes "0 < n" "n < 2 ^ 31" "12 \<le> length ns"
  shows "\<exists>ns'. put_num ns (word_of_nat n) = Some ns' \<and> cstr ns' = decimal n \<and> num_buf n ns'"
proof -
  have sint: "sint (word_of_nat n :: u32) = int n" using assms(2) by (rule sint_u32_of_nat)
  obtain rest where r: "hi_itoa ns (int n) = Some (decimal n @ NUL # rest)" "length (decimal n @ NUL # rest) = length ns"
    using hi_itoa_buffer [of "int n" ns] assms by auto
  have "\<exists>c. decimal n = [c]" if "n < 10" using that by (simp add: decimal.simps [of n])
  then have "num_buf n (decimal n @ NUL # rest)" using r(2) assms(3) by (auto simp: num_buf_def)
  then show ?thesis using r(1) by (simp add: put_num_def sint)
qed

lemma put_num_zero:
  assumes "num_buf p ns" "p < 10"
  shows "\<exists>ns'. put_num ns 0 = Some ns' \<and> cstr ns' = decimal 0 \<and> num_buf p ns'"
proof -
  obtain c rest where ns: "ns = c # NUL # rest" "12 \<le> length ns" using assms by (auto simp: num_buf_def)
  then have "hi_itoa ns 0 = Some (CHR ''0'' # NUL # rest)" by (simp add: hi_itoa_def buf_set_def)
  moreover have "decimal 0 = ''0''" by (simp add: decimal.simps digit_char_def char_of_def bit_Suc_0_iff)
  moreover have "cstr (CHR ''0'' # NUL # rest) = ''0''" by (simp add: cstr_def)
  ultimately show ?thesis using ns by (auto simp: put_num_def num_buf_def)
qed

lemma put_num_safe:
  assumes "num_buf p ns" "zero_safe p (l # ls)" "l < 2 ^ 31"
  obtains ns' p' where "put_num ns (word_of_nat l) = Some ns'" "cstr ns' = decimal l" "num_buf p' ns'" "zero_safe p' ls"
proof (cases "l = 0")
  case True
  with assms put_num_zero [of p ns] that show ?thesis by auto
next
  case False
  with assms put_num_pos [of l ns] that show ?thesis by (auto simp: num_buf_def)
qed

text \<open>What is written for one key.\<close>

definition key_piece :: "string \<Rightarrow> bool \<Rightarrow> keypos \<Rightarrow> string" where
  "key_piece src mset kp =
     ''$'' @ decimal (kp_end kp - kp_start kp) @ CRLF @ the (key_payload src mset kp)"

lemma put_keys_zeros:
  assumes "num_buf p ns" "zero_safe p (map (\<lambda>kp. kp_end kp - kp_start kp) kps)"
    and "\<forall>kp \<in> set kps. key_payload src mset kp \<noteq> None \<and> kp_end kp - kp_start kp < 2 ^ 31"
    and "length (concat (map (key_piece src mset) kps)) \<le> n"
  shows "\<exists>ns' p'. put_keys src mset kps (pre @ replicate n NUL) (length pre) ns =
    Some (pre @ concat (map (key_piece src mset) kps) @ replicate (n - length (concat (map (key_piece src mset) kps))) NUL,
      length pre + length (concat (map (key_piece src mset) kps)), ns') \<and> num_buf p' ns'"
  using assms
proof (induction kps arbitrary: p ns pre n)
  case Nil
  then show ?case by auto
next
  case (Cons kp kps)
  let ?l = "kp_end kp - kp_start kp" and ?pc = "key_piece src mset kp"
  have z: "zero_safe p (?l # map (\<lambda>kp. kp_end kp - kp_start kp) kps)" using Cons.prems(2) by simp
  have "?l < 2 ^ 31" using Cons.prems(3) by simp
  with Cons.prems(1) z obtain ns1 p1 where 1: "put_num ns (word_of_nat ?l) = Some ns1" "cstr ns1 = decimal ?l" "num_buf p1 ns1"
    "zero_safe p1 (map (\<lambda>kp. kp_end kp - kp_start kp) kps)"
    by (rule put_num_safe)
  obtain bytes where bytes: "key_payload src mset kp = Some bytes" using Cons.prems(3) by auto
  have pc: "concat [''$'', cstr ns1, CRLF, bytes] = ?pc" using 1(2) bytes by (simp add: key_piece_def)
  have fit: "length ?pc + length (concat (map (key_piece src mset) kps)) \<le> n" using Cons.prems(4) by simp
  have "put_all (pre @ replicate n NUL) (length pre) [''$'', cstr ns1, CRLF, bytes] =
    Some ((pre @ ?pc) @ replicate (n - length ?pc) NUL, length (pre @ ?pc))"
    using put_all_zeros [of "[''$'', cstr ns1, CRLF, bytes]" n pre] fit unfolding pc by simp
  moreover have "length (concat (map (key_piece src mset) kps)) \<le> n - length ?pc"
    "\<forall>kp \<in> set kps. key_payload src mset kp \<noteq> None \<and> kp_end kp - kp_start kp < 2 ^ 31"
    using fit Cons.prems(3) by auto
  then obtain ns2 p2 where
    "put_keys src mset kps ((pre @ ?pc) @ replicate (n - length ?pc) NUL) (length (pre @ ?pc)) ns1 =
      Some ((pre @ ?pc) @ concat (map (key_piece src mset) kps) @
        replicate (n - length ?pc - length (concat (map (key_piece src mset) kps))) NUL,
        length (pre @ ?pc) + length (concat (map (key_piece src mset) kps)), ns2)" "num_buf p2 ns2"
    using Cons.IH [OF 1(3,4), of "n - length ?pc" "pre @ ?pc"] by blast
  ultimately show ?case using 1 bytes by (auto simp: add.assoc)
qed


text \<open>
  A sub-command with the right counts is written to its last byte: a request whose argument
  count is \<open>narg\<close>, the given header and one piece for each key.
\<close>

definition sub_bytes :: "string \<Rightarrow> bool \<Rightarrow> nat \<Rightarrow> string \<Rightarrow> keypos list \<Rightarrow> string" where
  "sub_bytes src mset narg header kps = ''*'' @ decimal narg @ header @ concat (map (key_piece src mset) kps)"

lemma format_sub_exact:
  assumes ns: "12 \<le> length ns" and al: "hi_alloc al = (True, al1)"
    and narg: "total_args (r_narg sub) = word_of_nat narg" "0 < narg" "narg < 2 ^ 31"
    and safe: "zero_safe narg (map (\<lambda>kp. kp_end kp - kp_start kp) (arr_list (r_keys sub)))"
    and keys: "\<forall>kp \<in> set (arr_list (r_keys sub)). key_payload src mset kp \<noteq> None \<and> kp_end kp - kp_start kp < 2 ^ 31"
    and fits: "length (sub_bytes src mset narg header (arr_list (r_keys sub))) < 2 ^ 31"
    and clen: "r_clen sub + per_key * r_narg sub + base + word_of_nat (length (decimal narg)) =
      word_of_nat (length (sub_bytes src mset narg header (arr_list (r_keys sub))))"
  shows "\<exists>ns'. 12 \<le> length ns' \<and> format_sub src mset per_key base total_args header ns sub al =
    Some (Frag_ok, sub\<lparr>r_clen := word_of_nat (length (sub_bytes src mset narg header (arr_list (r_keys sub)))),
      r_narg := word_of_nat narg, r_cmd := Some (sub_bytes src mset narg header (arr_list (r_keys sub)))\<rparr>, ns', al1)"
proof -
  let ?kps = "arr_list (r_keys sub)"
  let ?pre = "concat [''*'', decimal narg, header]" and ?body = "concat (map (key_piece src mset) ?kps)"
  let ?out = "sub_bytes src mset narg header ?kps"
  have out: "?out = ?pre @ ?body" by (simp add: sub_bytes_def)
  obtain ns1 where 1: "put_num ns (word_of_nat narg) = Some ns1" "cstr ns1 = decimal narg" "num_buf narg ns1"
    using put_num_pos [OF narg(2,3) ns] by blast
  have n: "unat (word_of_nat (length ?out) :: u32) = length ?out" using fits by (intro unat_u32_of_nat) simp
  have head: "put_all (replicate (length ?out) NUL) 0 [''*'', decimal narg, header] =
    Some (?pre @ replicate (length ?body) NUL, length ?pre)"
    using put_all_zeros [of "[''*'', decimal narg, header]" "length ?out" "[]"] unfolding out by simp
  obtain ns2 p2 where 2: "put_keys src mset ?kps (?pre @ replicate (length ?body) NUL) (length ?pre) ns1 =
      Some (?pre @ ?body, length ?pre + length ?body, ns2)" "num_buf p2 ns2"
    using put_keys_zeros [OF 1(3) safe keys, of "length ?body" ?pre] by auto
  have "format_sub src mset per_key base total_args header ns sub al =
    Some (Frag_ok, sub\<lparr>r_clen := word_of_nat (length ?out), r_narg := word_of_nat narg, r_cmd := Some ?out\<rparr>, ns2, al1)"
    unfolding format_sub_def Let_def narg(1) 1(1) option.case 1(2) clen al prod.case bool.case n head 2(1)
    by (simp only: out)
  then show ?thesis using 2(2) by (auto simp: num_buf_def)
qed


section \<open>The sub-commands of a distribution\<close>

lemma slot_get_map_of: "sorted_wrt (<) (map fst subs) \<Longrightarrow> slot_get subs s = map_of subs s"
proof (induction subs s rule: slot_get.induct)
  case (2 t c xs s)
  have "map_of xs s = None" if "s < t" using 2 that by (auto simp: map_of_eq_None_iff)
  with 2 show ?case by auto
qed simp

lemma slot_put_sorted:
  assumes "sorted_wrt (<) (map fst subs)"
  shows "sorted_wrt (<) (map fst (slot_put subs s c))" and "set (map fst (slot_put subs s c)) = insert s (set (map fst subs))"
proof -
  have set: "set (map fst (slot_put subs s c)) = insert s (set (map fst subs))" for s c and subs :: "(nat \<times> 'a) list"
    by (induction subs s c rule: slot_put.induct) auto
  show "set (map fst (slot_put subs s c)) = insert s (set (map fst subs))" by (rule set)
  show "sorted_wrt (<) (map fst (slot_put subs s c))"
    using assms
  proof (induction subs s c rule: slot_put.induct)
    case (2 t d xs s c)
    have "t < fst x" if "x \<in> set (slot_put xs s c)" "\<not> s < t" "s \<noteq> t" for x
    proof -
      have "fst x \<in> insert s (set (map fst xs))" using set [of xs s c] that(1) by auto
      then show ?thesis using 2 that by auto
    qed
    with 2 show ?case by auto
  qed simp
qed

lemma slot_get_put:
  "sorted_wrt (<) (map fst subs) \<Longrightarrow> slot_get (slot_put subs s c) s' = (if s' = s then Some c else slot_get subs s')"
  by (induction subs s c rule: slot_put.induct) auto

definition slot_of :: "string \<Rightarrow> keypos \<Rightarrow> nat" where
  "slot_of src kp = keyHashSlot (key_bytes src kp)"

text \<open>The bytes a key adds to \<open>clen\<close>.\<close>

definition key_cost :: "string \<Rightarrow> cmd_type \<Rightarrow> keypos \<Rightarrow> u32" where
  "key_cost src t kp =
     (let key_len = word_of_nat (kp_end kp - kp_start kp) :: u32
      in key_len + word_of_nat (uint_len key_len) +
         (if t = CMD_REQ_REDIS_MSET then the (mset_remain src (kp_end kp)) else 0))"

definition sub_holds :: "string \<Rightarrow> cmd_type \<Rightarrow> nat \<Rightarrow> keypos list \<Rightarrow> cmd \<Rightarrow> bool" where
  "sub_holds src t slot kps sub \<longleftrightarrow>
     arr_wf (r_keys sub) \<and> arr_list (r_keys sub) = map (frag_key src t) kps \<and> r_narg sub = word_of_nat (length kps) \<and>
     r_clen sub = sum_list (map (key_cost src t) kps) \<and> r_slot_num sub = (if kps = [] then -1 else int slot)"

lemma add_key_holds:
  assumes "sub_holds src t slot kps sub" "length kps < 2 ^ 31" "no_oom al"
    and "t = CMD_REQ_REDIS_MSET \<Longrightarrow> mset_remain src (kp_end kp) \<noteq> None"
  shows "\<exists>sub' al'. add_key src t kp slot sub al = Some (Frag_ok, sub', al') \<and> sub_holds src t slot (kps @ [kp]) sub' \<and> no_oom al'"
proof -
  have wf: "arr_wf (r_keys sub)" "length (arr_list (r_keys sub)) < 2 ^ 31" using assms(1,2) by (auto simp: sub_holds_def)
  obtain keys al1 where push: "push_elem (r_keys sub) (frag_key src t kp) al = (True, keys, al1)" "arr_wf keys"
    "arr_list keys = arr_list (r_keys sub) @ [frag_key src t kp]" "no_oom al1"
    using hiarr.push_law [OF wf, of "frag_key src t kp" al] assms(3) by auto
  show ?thesis
  proof (cases "t = CMD_REQ_REDIS_MSET")
    case True
    then obtain rl where "mset_remain src (kp_end kp) = Some rl" using assms(4) by auto
    with True assms(1) push show ?thesis
      by (auto simp: add_key_def sub_holds_def key_cost_def Let_def algebra_simps)
  next
    case False
    with assms(1) push show ?thesis
      by (auto simp: add_key_def sub_holds_def key_cost_def Let_def algebra_simps)
  qed
qed

definition fill_inv :: "string \<Rightarrow> cmd_type \<Rightarrow> keypos list \<Rightarrow> (nat \<times> cmd) list \<Rightarrow> bool" where
  "fill_inv src t kps subs \<longleftrightarrow> sorted_wrt (<) (map fst subs) \<and> set (map fst subs) = slot_of src ` set kps \<and>
     (\<forall>(slot, sub) \<in> set subs. sub_holds src t slot (filter (\<lambda>kp. slot_of src kp = slot) kps) sub)"

lemma fill_invD:
  assumes "fill_inv src t kps subs" "(slot, sub) \<in> set subs"
  shows "sub_holds src t slot (filter (\<lambda>kp. slot_of src kp = slot) kps) sub" and "slot \<in> slot_of src ` set kps"
proof -
  show "sub_holds src t slot (filter (\<lambda>kp. slot_of src kp = slot) kps) sub"
    using assms by (auto simp: fill_inv_def)
  have "slot \<in> set (map fst subs)" using assms(2) by force
  then show "slot \<in> slot_of src ` set kps" using assms(1) by (simp add: fill_inv_def)
qed

lemma fill_inv_get:
  assumes "fill_inv src t kps subs" "slot_get subs slot = Some sub"
  shows "sub_holds src t slot (filter (\<lambda>kp. slot_of src kp = slot) kps) sub"
  using assms slot_get_map_of [of subs slot] by (auto simp: fill_inv_def dest: map_of_SomeD)

lemma fill_inv_put:
  assumes "fill_inv src t kps subs" "slot_of src kp = slot"
    and "sub_holds src t slot (filter (\<lambda>kp. slot_of src kp = slot) kps @ [kp]) sub"
  shows "fill_inv src t (kps @ [kp]) (slot_put subs slot sub)"
proof -
  have sorted: "sorted_wrt (<) (map fst subs)" using assms(1) by (simp add: fill_inv_def)
  note put = slot_put_sorted [OF sorted, of slot sub]
  have "sub_holds src t s (filter (\<lambda>kp. slot_of src kp = s) (kps @ [kp])) c" if "(s, c) \<in> set (slot_put subs slot sub)" for s c
  proof -
    have "distinct (map fst (slot_put subs slot sub))" using put(1) by (simp add: strict_sorted_iff)
    then have "slot_get (slot_put subs slot sub) s = Some c" using that put(1) by (simp add: slot_get_map_of)
    then show ?thesis using assms fill_inv_get [OF assms(1), of s c] by (auto simp: slot_get_put [OF sorted] split: if_splits)
  qed
  then show ?thesis using put assms(1,2) by (auto simp: fill_inv_def)
qed

lemma fill_loop_inv:
  assumes "fill_inv src t done subs" "length done + length kps < 2 ^ 31" "no_oom al"
    and "t = CMD_REQ_REDIS_MSET \<Longrightarrow> \<forall>kp \<in> set kps. mset_remain src (kp_end kp) \<noteq> None"
  shows "\<exists>subs' cid' al'. fill_loop src t kps subs (map (slot_of src) done) sn cid al =
    Some (Frag_ok, subs', map (slot_of src) (done @ kps), if kps = [] then sn else int (slot_of src (last kps)), cid', al') \<and>
    fill_inv src t (done @ kps) subs' \<and> no_oom al'"
  using assms
proof (induction kps arbitrary: "done" subs sn cid al)
  case Nil
  then show ?case by simp
next
  case (Cons kp kps)
  let ?slot = "slot_of src kp" and ?old = "filter (\<lambda>k. slot_of src k = slot_of src kp) done"
  obtain sub cid1 al1 where got: "(case slot_get subs ?slot of Some sub \<Rightarrow> (Some sub, cid, al) | None \<Rightarrow> command_get cid al) = (Some sub, cid1, al1)"
    and holds: "sub_holds src t ?slot ?old sub" and al1: "no_oom al1"
  proof (cases "slot_get subs ?slot")
    case None
    have "?slot \<notin> slot_of src ` set done"
      using None Cons.prems(1) by (auto simp: fill_inv_def slot_get_map_of map_of_eq_None_iff)
    then have "\<forall>k \<in> set done. slot_of src k \<noteq> ?slot" by (metis imageI)
    then have "?old = []" by (simp add: filter_empty_conv)
    obtain c n al' where c: "command_get cid al = (Some c, n, al')" "no_oom al'" using command_get_no_oom [OF Cons.prems(3)] by blast
    have "sub_holds src t ?slot [] c" using command_get_fresh [OF c(1)] by (simp add: sub_holds_def)
    with c None \<open>?old = []\<close> show ?thesis using that [of c n al'] by simp
  next
    case (Some sub)
    with fill_inv_get [OF Cons.prems(1) Some] Cons.prems(3) show ?thesis using that [of sub cid al] by simp
  qed
  have "length ?old < 2 ^ 31" using Cons.prems(2) length_filter_le [of _ "done"] by (meson le_add1 le_less_trans)
  moreover have "t = CMD_REQ_REDIS_MSET \<Longrightarrow> mset_remain src (kp_end kp) \<noteq> None" using Cons.prems(4) by simp
  ultimately obtain sub1 al2 where add: "add_key src t kp ?slot sub al1 = Some (Frag_ok, sub1, al2)"
    "sub_holds src t ?slot (?old @ [kp]) sub1" "no_oom al2"
    using add_key_holds [OF holds _ al1] by blast
  have inv: "fill_inv src t (done @ [kp]) (slot_put subs ?slot sub1)"
    using fill_inv_put [OF Cons.prems(1) refl add(2)] .
  have "length (done @ [kp]) + length kps < 2 ^ 31" using Cons.prems(2) by simp
  from Cons.IH [OF inv this add(3), of "int ?slot" cid1] Cons.prems(4) obtain subs' cid' al' where
    "fill_loop src t kps (slot_put subs ?slot sub1) (map (slot_of src) (done @ [kp])) (int ?slot) cid1 al2 =
      Some (Frag_ok, subs', map (slot_of src) ((done @ [kp]) @ kps), if kps = [] then int ?slot else int (slot_of src (last kps)), cid', al')"
    "fill_inv src t ((done @ [kp]) @ kps) subs'" "no_oom al'" by auto
  moreover have "keyHashSlot (key_bytes src kp) = ?slot" by (simp add: slot_of_def)
  ultimately show ?case using got add by (auto simp: Let_def)
qed


lemma header_loop_exact:
  assumes "\<And>slot sub ns al. (slot, sub) \<in> set subs \<Longrightarrow> 12 \<le> length ns \<Longrightarrow> no_oom al \<Longrightarrow>
      \<exists>ns' al'. format_by_type t src ns sub al = Some (Frag_ok, g sub, ns', al') \<and> 12 \<le> length ns' \<and> no_oom al'"
    and "12 \<le> length ns" "no_oom al"
  shows "\<exists>al'. header_loop src t subs commands ns al = Some (Frag_ok, commands @ map (\<lambda>(slot, sub). (g sub)\<lparr>r_type := t\<rparr>) subs, al') \<and> no_oom al'"
  using assms
proof (induction subs arbitrary: commands ns al)
  case Nil
  then show ?case by simp
next
  case (Cons x subs)
  obtain slot sub where x: "x = (slot, sub)" by (cases x)
  obtain ns1 al1 where 1: "format_by_type t src ns sub al = Some (Frag_ok, g sub, ns1, al1)" "12 \<le> length ns1" "no_oom al1"
    using Cons.prems(1) [of slot sub ns al] Cons.prems(2,3) x by auto
  obtain al2 where 2: "hi_alloc al1 = (True, al2)" "no_oom al2" using 1(3) by (rule hi_alloc_no_oomE)
  have "\<exists>al'. header_loop src t subs (commands @ [(g sub)\<lparr>r_type := t\<rparr>]) ns1 al2 =
      Some (Frag_ok, (commands @ [(g sub)\<lparr>r_type := t\<rparr>]) @ map (\<lambda>(slot, sub). (g sub)\<lparr>r_type := t\<rparr>) subs, al') \<and> no_oom al'"
    by (rule Cons.IH [OF Cons.prems(1) 1(2) 2(2)]) auto
  with 1 2 x show ?case by auto
qed

section \<open>Commands that take keys only\<close>

definition frag_name :: "cmd_type \<Rightarrow> string" where
  "frag_name t = (if t = CMD_REQ_REDIS_MGET then ''mget'' else if t = CMD_REQ_REDIS_DEL then ''del''
     else if t = CMD_REQ_REDIS_EXISTS then ''exists'' else ''mset'')"

lemma bulk_frag_names:
  "CRLF @ ''$4'' @ CRLF @ ''mget'' @ CRLF = CRLF @ bulk ''mget''"
  "CRLF @ ''$3'' @ CRLF @ ''del'' @ CRLF = CRLF @ bulk ''del''"
  "CRLF @ ''$6'' @ CRLF @ ''exists'' @ CRLF = CRLF @ bulk ''exists''"
  "CRLF @ ''$4'' @ CRLF @ ''mset'' @ CRLF = CRLF @ bulk ''mset''"
  by (simp_all add: bulk_def CRLF_def decimal.simps digit_char_def char_of_def bit_Suc_0_iff)

lemma length_bulk_frag_names:
  "length (bulk ''mget'') = 10" "length (bulk ''del'') = 9" "length (bulk ''exists'') = 12" "length (bulk ''mset'') = 10"
  by (simp_all add: length_bulk decimal.simps)

lemmas format_bulk_defs =
  format_mget_def [unfolded bulk_frag_names] format_del_def [unfolded bulk_frag_names]
  format_exists_def [unfolded bulk_frag_names] format_mset_def [unfolded bulk_frag_names]

lemma format_by_type_keys:
  assumes "redis_argx t"
  shows "format_by_type t src =
    format_sub src False 5 (3 + word_of_nat (length (bulk (frag_name t)))) (\<lambda>n. n + 1) (CRLF @ bulk (frag_name t))"
  using assms
  by (auto simp: fun_eq_iff redis_argx_def format_by_type_def format_bulk_defs frag_name_def length_bulk_frag_names)

definition key_inside :: "string \<Rightarrow> keypos \<Rightarrow> bool" where
  "key_inside src kp \<longleftrightarrow> kp_start kp \<le> kp_end kp \<and> kp_end kp \<le> length src \<and> kp_end kp - kp_start kp < 2 ^ 31"

lemma length_key_bytes: "key_inside src kp \<Longrightarrow> length (key_bytes src kp) = kp_end kp - kp_start kp"
  by (auto simp: key_inside_def key_bytes_def)

lemma key_piece_plain:
  assumes "key_inside src kp" "t \<noteq> CMD_REQ_REDIS_MSET"
  shows "key_payload src False (frag_key src t kp) = Some (key_bytes src kp @ CRLF)"
    and "key_piece src False (frag_key src t kp) = bulk (key_bytes src kp)"
    and "word_of_nat (length (bulk (key_bytes src kp))) = key_cost src t kp + 5"
proof -
  have n: "unat (word_of_nat (kp_end kp - kp_start kp) :: u32) = kp_end kp - kp_start kp"
    using assms(1) by (intro unat_u32_of_nat) (simp add: key_inside_def)
  show p: "key_payload src False (frag_key src t kp) = Some (key_bytes src kp @ CRLF)"
    using assms(1) n by (simp add: key_payload_def frag_key_def buf_slice_def key_inside_def key_bytes_def del: of_nat_diff)
  show "key_piece src False (frag_key src t kp) = bulk (key_bytes src kp)"
    using p length_key_bytes [OF assms(1)] by (simp add: key_piece_def bulk_def frag_key_def CRLF_def)
  show "word_of_nat (length (bulk (key_bytes src kp))) = key_cost src t kp + 5"
    using assms(2) n length_key_bytes [OF assms(1)] by (simp add: length_bulk key_cost_def Let_def del: of_nat_diff)
qed

lemma sum_key_cost:
  assumes "\<And>kp. kp \<in> set kps \<Longrightarrow> word_of_nat (length (f kp)) = key_cost src t kp + k"
  shows "sum_list (map (key_cost src t) kps) + k * word_of_nat (length kps) = word_of_nat (length (concat (map f kps)))"
  using assms
proof (induction kps)
  case (Cons kp kps)
  then have "word_of_nat (length (f kp)) = key_cost src t kp + k" by simp
  with Cons show ?case by (simp add: algebra_simps flip: Cons.IH)
qed simp


text \<open>The request for the keys of one slot, and the sub-command that holds it.\<close>

definition sub_request :: "cmd_type \<Rightarrow> string list \<Rightarrow> string" where
  "sub_request t ks = resp (frag_name t # ks)"

definition finished_sub :: "string \<Rightarrow> cmd_type \<Rightarrow> cmd \<Rightarrow> cmd" where
  "finished_sub src t sub =
     (let ks = map (key_bytes src) (arr_list (r_keys sub))
      in sub\<lparr>r_clen := word_of_nat (length (sub_request t ks)), r_narg := word_of_nat (Suc (length ks)),
             r_cmd := Some (sub_request t ks)\<rparr>)"

definition sub_safe :: "cmd_type \<Rightarrow> string list \<Rightarrow> bool" where
  "sub_safe t ks \<longleftrightarrow> length (sub_request t ks) < 2 ^ 31 \<and> zero_safe (Suc (length ks)) (map length ks)"

lemma key_bytes_frag_key [simp]: "key_bytes src (frag_key src t kp) = key_bytes src kp"
  by (simp add: key_bytes_def frag_key_def)

lemma frag_key_pos [simp]: "kp_start (frag_key src t kp) = kp_start kp" "kp_end (frag_key src t kp) = kp_end kp"
  by (simp_all add: frag_key_def)

lemma sub_bytes_request:
  assumes "\<forall>kp \<in> set kps. key_inside src kp" "t \<noteq> CMD_REQ_REDIS_MSET"
  shows "sub_bytes src False (Suc (length kps)) (CRLF @ bulk (frag_name t)) (map (frag_key src t) kps)
    = sub_request t (map (key_bytes src) kps)"
proof -
  have "map (key_piece src False) (map (frag_key src t) kps) = map bulk (map (key_bytes src) kps)"
    using assms key_piece_plain(2) by (simp add: comp_def)
  then show ?thesis
    unfolding sub_bytes_def by (simp add: sub_request_def resp_def resp_head_def CRLF_def del: map_map)
qed

lemma clen_keys:
  assumes "sub_holds src t slot kps sub" "redis_argx t" "\<forall>kp \<in> set kps. key_inside src kp"
  shows "r_clen sub + 5 * r_narg sub + (3 + word_of_nat (length (bulk (frag_name t)))) +
      word_of_nat (length (decimal (Suc (length kps)))) = word_of_nat (length (sub_request t (map (key_bytes src) kps)))"
proof -
  have t: "t \<noteq> CMD_REQ_REDIS_MSET" using assms(2) by (auto simp: redis_argx_def)
  have narg: "r_narg sub = word_of_nat (length kps)" and clen: "r_clen sub = sum_list (map (key_cost src t) kps)"
    using assms(1) by (auto simp: sub_holds_def)
  have "length (sub_request t (map (key_bytes src) kps)) = 1 + length (decimal (Suc (length kps))) +
      length (CRLF @ bulk (frag_name t)) + length (concat (map bulk (map (key_bytes src) kps)))"
    by (simp add: sub_request_def resp_def resp_head_def CRLF_def)
  moreover have "sum_list (map (key_cost src t) kps) + 5 * word_of_nat (length kps) =
    word_of_nat (length (concat (map bulk (map (key_bytes src) kps))))"
    using sum_key_cost [of kps "\<lambda>kp. bulk (key_bytes src kp)" src t 5] key_piece_plain(3) assms(3) t by (simp add: comp_def)
  ultimately show ?thesis by (simp add: clen narg CRLF_def)
qed

lemma format_keys_exact:
  assumes "sub_holds src t slot kps sub" "redis_argx t" "\<forall>kp \<in> set kps. key_inside src kp"
    and safe: "sub_safe t (map (key_bytes src) kps)" and "12 \<le> length ns" "no_oom al"
  shows "\<exists>ns' al'. format_by_type t src ns sub al = Some (Frag_ok, finished_sub src t sub, ns', al') \<and>
    12 \<le> length ns' \<and> no_oom al'"
proof -
  let ?n = "length kps" and ?fk = "map (frag_key src t) kps" and ?hdr = "CRLF @ bulk (frag_name t)"
  let ?R = "sub_request t (map (key_bytes src) kps)"
  have t: "t \<noteq> CMD_REQ_REDIS_MSET" using assms(2) by (auto simp: redis_argx_def)
  have keys: "arr_list (r_keys sub) = ?fk" and narg: "r_narg sub = word_of_nat ?n"
    using assms(1) by (auto simp: sub_holds_def)
  have R: "sub_bytes src False (Suc ?n) ?hdr ?fk = ?R" using assms(3) t by (rule sub_bytes_request)
  have small: "length ?R < 2 ^ 31" "zero_safe (Suc ?n) (map length (map (key_bytes src) kps))"
    using safe by (auto simp: sub_safe_def)
  obtain al1 where al1: "hi_alloc al = (True, al1)" "no_oom al1" using assms(6) by (rule hi_alloc_no_oomE)
  have lens: "map (\<lambda>kp. kp_end kp - kp_start kp) ?fk = map length (map (key_bytes src) kps)"
    using assms(3) by (simp add: length_key_bytes)
  have "?n < length ?R" using length_args_resp [of "frag_name t # map (key_bytes src) kps"] by (simp add: sub_request_def)
  moreover have "Suc ?n < length ?R" using length_args_resp [of "frag_name t # map (key_bytes src) kps"] by (simp add: sub_request_def)
  ultimately have n: "Suc ?n < 2 ^ 31" using small(1) by linarith
  have pl: "\<forall>kp \<in> set ?fk. key_payload src False kp \<noteq> None \<and> kp_end kp - kp_start kp < 2 ^ 31"
    using assms(3) key_piece_plain(1) t by (auto simp: key_inside_def)
  have z: "zero_safe (Suc ?n) (map (\<lambda>kp. kp_end kp - kp_start kp) ?fk)" unfolding lens by (rule small(2))
  have total_args: "r_narg sub + 1 = word_of_nat (Suc ?n)" by (simp add: narg)
  have "\<exists>ns'. 12 \<le> length ns' \<and> format_sub src False 5 (3 + word_of_nat (length (bulk (frag_name t)))) (\<lambda>n. n + 1) ?hdr ns sub al =
    Some (Frag_ok, sub\<lparr>r_clen := word_of_nat (length ?R), r_narg := word_of_nat (Suc ?n), r_cmd := Some ?R\<rparr>, ns', al1)"
    by (rule format_sub_exact [OF assms(5) al1(1), of "\<lambda>n. n + 1" sub "Suc ?n" src False ?hdr, unfolded keys R,
          OF total_args zero_less_Suc n z pl small(1) clen_keys [OF assms(1-3)]])
  then show ?thesis
    using al1(2) keys by (auto simp: format_by_type_keys [OF assms(2)] finished_sub_def Let_def comp_def)
qed

lemma pre_fragment_gen:
  assumes cmd: "r_cmd command = Some src" "r_type command = t"
    and kps: "kps = arr_list (r_keys command)" "kps \<noteq> []" "length kps < 2 ^ 31"
    and mset: "t = CMD_REQ_REDIS_MSET \<Longrightarrow> \<forall>kp \<in> set kps. mset_remain src (kp_end kp) \<noteq> None"
    and each: "\<And>slot sub ns al. sub_holds src t slot (filter (\<lambda>kp. slot_of src kp = slot) kps) sub \<Longrightarrow>
        slot \<in> slot_of src ` set kps \<Longrightarrow> 12 \<le> length ns \<Longrightarrow> no_oom al \<Longrightarrow>
        \<exists>ns' al'. format_by_type t src ns sub al = Some (Frag_ok, g sub, ns', al') \<and> 12 \<le> length ns' \<and> no_oom al'"
    and ns: "12 \<le> length ns" and al: "no_oom al"
  shows "\<exists>subs cid' al'. fill_inv src t kps subs \<and> no_oom al' \<and>
    command_pre_fragment cc command [] ns cid al =
     (if length subs = 1 then Some (int (slot_of src (last kps)), cc, command\<lparr>r_frag_seq := None, r_slot_num := int (slot_of src (last kps))\<rparr>, [], cid', al')
      else Some (int (slot_of src (last kps)), cc, command\<lparr>r_frag_seq := Some (map (slot_of src) kps)\<rparr>,
        map (\<lambda>(slot, sub). (g sub)\<lparr>r_type := t\<rparr>) subs, cid', al'))"
proof -
  obtain al1 where al1: "hi_alloc al = (True, al1)" "no_oom al1" using al by (rule hi_alloc_no_oomE)
  obtain al2 where al2: "hi_alloc al1 = (True, al2)" "no_oom al2" using al1(2) by (rule hi_alloc_no_oomE)
  have init: "fill_inv src t [] []" "length ([] :: keypos list) + length kps < 2 ^ 31" using kps(3) by (simp_all add: fill_inv_def)
  obtain subs cid' al3 where fill: "fill_loop src t kps [] [] (-1) cid al2 =
      Some (Frag_ok, subs, map (slot_of src) kps, int (slot_of src (last kps)), cid', al3)"
    "fill_inv src t kps subs" "no_oom al3"
    using fill_loop_inv [OF init al2(2) mset, of "-1" cid] kps(2) by auto
  have fmt: "\<exists>ns' al'. format_by_type t src ns sub al = Some (Frag_ok, g sub, ns', al') \<and> 12 \<le> length ns' \<and> no_oom al'"
    if "(slot, sub) \<in> set subs" "12 \<le> length ns" "no_oom al" for slot sub ns al
  proof -
    show ?thesis using each [OF fill_invD [OF fill(2) that(1)] that(2,3)] .
  qed
  have "\<exists>al4. header_loop src t subs [] ns al3 = Some (Frag_ok, [] @ map (\<lambda>(slot, sub). (g sub)\<lparr>r_type := t\<rparr>) subs, al4) \<and> no_oom al4"
    by (rule header_loop_exact [OF _ ns fill(3)]) (rule fmt)
  then obtain al4 where "header_loop src t subs [] ns al3 = Some (Frag_ok, map (\<lambda>(slot, sub). (g sub)\<lparr>r_type := t\<rparr>) subs, al4)" "no_oom al4"
    by auto
  then show ?thesis using fill al1 al2 cmd kps(1)
    by (intro exI [of _ subs] exI [of _ cid'] exI [of _ al4]) (auto simp: command_pre_fragment_def)
qed

lemma pre_fragment_keys:
  assumes "r_cmd command = Some src" "r_type command = t" "redis_argx t"
    and kps: "kps = arr_list (r_keys command)" "kps \<noteq> []" "length kps < 2 ^ 31" "\<forall>kp \<in> set kps. key_inside src kp"
    and safe: "\<And>s. s \<in> slot_of src ` set kps \<Longrightarrow> sub_safe t (map (key_bytes src) (filter (\<lambda>kp. slot_of src kp = s) kps))"
    and "12 \<le> length ns" "no_oom al"
  shows "\<exists>subs cid' al'. fill_inv src t kps subs \<and> no_oom al' \<and>
    command_pre_fragment cc command [] ns cid al =
     (if length subs = 1 then Some (int (slot_of src (last kps)), cc, command\<lparr>r_frag_seq := None, r_slot_num := int (slot_of src (last kps))\<rparr>, [], cid', al')
      else Some (int (slot_of src (last kps)), cc, command\<lparr>r_frag_seq := Some (map (slot_of src) kps)\<rparr>,
        map (\<lambda>(slot, sub). (finished_sub src t sub)\<lparr>r_type := t\<rparr>) subs, cid', al'))"
proof (rule pre_fragment_gen [OF assms(1,2) kps(1-3) _ _ assms(9,10)])
  show "\<forall>kp \<in> set kps. mset_remain src (kp_end kp) \<noteq> None" if "t = CMD_REQ_REDIS_MSET"
    using that assms(3) by (simp add: redis_argx_def)
  fix slot sub ns al
  assume *: "sub_holds src t slot (filter (\<lambda>kp. slot_of src kp = slot) kps) sub" "slot \<in> slot_of src ` set kps"
    "12 \<le> length (ns :: string)" "no_oom al"
  have "\<forall>kp \<in> set (filter (\<lambda>kp. slot_of src kp = slot) kps). key_inside src kp" using kps(4) by simp
  from format_keys_exact [OF *(1) assms(3) this safe [OF *(2)] *(3,4)]
  show "\<exists>ns' al'. format_by_type t src ns sub al = Some (Frag_ok, finished_sub src t sub, ns', al') \<and> 12 \<le> length ns' \<and> no_oom al'" .
qed

text \<open>The sub-commands in the order of their slots.\<close>

lemma fill_inv_slots:
  assumes "fill_inv src t kps subs"
  shows "map fst subs = sorted_list_of_set (slot_of src ` set kps)"
proof -
  have "sorted_wrt (<) (map fst subs)" "set (map fst subs) = slot_of src ` set kps"
    using assms by (simp_all add: fill_inv_def)
  then show ?thesis using sorted_list_of_set.idem_if_sorted_distinct strict_sorted_iff by metis
qed

lemma fill_inv_finished:
  assumes "fill_inv src t kps subs" "(slot, sub) \<in> set subs"
  shows "arr_list (r_keys (finished_sub src t sub)) = map (frag_key src t) (filter (\<lambda>kp. slot_of src kp = slot) kps)"
    and "r_slot_num (finished_sub src t sub) = int slot"
    and "r_cmd (finished_sub src t sub) = Some (sub_request t (map (key_bytes src) (filter (\<lambda>kp. slot_of src kp = slot) kps)))"
proof -
  have h: "sub_holds src t slot (filter (\<lambda>kp. slot_of src kp = slot) kps) sub" and s: "slot \<in> slot_of src ` set kps"
    using fill_invD [OF assms] by auto
  then have ne: "filter (\<lambda>kp. slot_of src kp = slot) kps \<noteq> []" by (auto simp: filter_empty_conv)
  show "arr_list (r_keys (finished_sub src t sub)) = map (frag_key src t) (filter (\<lambda>kp. slot_of src kp = slot) kps)"
    "r_slot_num (finished_sub src t sub) = int slot"
    "r_cmd (finished_sub src t sub) = Some (sub_request t (map (key_bytes src) (filter (\<lambda>kp. slot_of src kp = slot) kps)))"
    using h ne by (auto simp: finished_sub_def sub_holds_def Let_def comp_def)
qed

section \<open>MSET\<close>

text \<open>What follows the bytes of an argument in a request.\<close>

lemma drop_key_end:
  assumes "request args" "Suc i < length args"
  shows "\<exists>rest. drop (kp_start (key_at args i)) (resp args @ tail) = args ! i @ CRLF @ bulk (args ! Suc i) @ rest"
proof -
  let ?pre = "resp_head (length args) @ concat (map bulk (take i args))"
  let ?rest = "concat (map bulk (drop (Suc (Suc i)) args)) @ tail"
  have "drop (Suc i) args = args ! Suc i # drop (Suc (Suc i)) args" using assms(2) by (simp add: Cons_nth_drop_Suc)
  then have "resp args @ tail = (?pre @ ''$'' @ decimal (length (args ! i)) @ CRLF) @ args ! i @ CRLF @ bulk (args ! Suc i) @ ?rest"
    using resp_split [of i args] assms(2) by (simp add: bulk_def CRLF_def)
  moreover have "kp_start (key_at args i) = length (?pre @ ''$'' @ decimal (length (args ! i)) @ CRLF)"
    by (simp add: key_at_def arg_at_def arg_off_def CRLF_def)
  moreover have "drop (length xs) (xs @ ys) = ys" for xs ys :: string by simp
  ultimately show ?thesis by metis
qed

lemma key_at_simps [simp]: "kp_end (key_at args i) = kp_start (key_at args i) + length (args ! i)"
  by (simp add: key_at_def)

lemma mset_remain_at:
  assumes "request args" "Suc i < length args"
  shows "mset_remain (resp args @ tail) (kp_end (key_at args i)) = Some (word_of_nat (2 + length (bulk (args ! Suc i))))"
proof -
  let ?src = "resp args @ tail" and ?v = "args ! Suc i" and ?e = "kp_end (key_at args i)"
  let ?d = "decimal (length ?v)"
  obtain rest where rest: "drop (kp_start (key_at args i)) ?src = args ! i @ CRLF @ bulk ?v @ rest"
    using drop_key_end [OF assms] by blast
  have "drop ?e ?src = drop (length (args ! i)) (drop (kp_start (key_at args i)) ?src)"
    by (simp only: drop_drop key_at_simps add.commute)
  then have e: "drop ?e ?src = CR # LF # CHR ''$'' # ?d @ CR # LF # ?v @ CR # LF # rest"
    unfolding rest by (simp add: CRLF_def bulk_def)
  have "drop (?e + 1) ?src = drop 1 (drop ?e ?src)" by (simp only: drop_drop add.commute)
  then have e1: "drop (?e + 1) ?src = LF # CHR ''$'' # ?d @ CR # LF # ?v @ CR # LF # rest" unfolding e by simp
  have "drop (?e + 3) ?src = drop 3 (drop ?e ?src)" by (simp only: drop_drop add.commute)
  then have e3: "drop (?e + 3) ?src = ?d @ CR # LF # ?v @ CR # LF # rest" unfolding e by simp
  obtain c cs where d: "?d = c # cs" by (cases ?d) auto
  have "c_isdigit c" using decimal_digits [of "length ?v"] d by simp
  then have idx: "find_idx c_isdigit (drop (?e + 1) ?src) = Some 2" unfolding e1 d by simp
  have tw: "takeWhile c_isdigit (drop (?e + 3) ?src) = ?d" unfolding e3 by simp
  have long: "\<not> ?e + 3 + length ?d \<ge> length ?src"
    using arg_cong [OF e3, of length] by (simp del: drop_append)
  have fold: "foldl (\<lambda>len c. len * 10 + word_of_nat (digit_val c)) (word_of_nat a) ds = (word_of_nat (dval a ds) :: u32)" for a ds
  proof (induction ds arbitrary: a)
    case (Cons c ds)
    from Cons [of "a * 10 + digit_val c"] show ?case by simp
  qed simp
  have "foldl (\<lambda>len c. len * 10 + word_of_nat (digit_val c)) 0 ?d = (word_of_nat (length ?v) :: u32)"
    using fold [of 0 ?d] by simp
  then show ?thesis
    unfolding mset_remain_def idx option.case Let_def using tw long
    by (simp add: length_bulk numeral_eq_Suc del: drop_append key_at_simps)
qed

lemma mset_piece:
  fixes args :: "string list" and tail :: string
  assumes "request args" "Suc i < length args"
  defines "src \<equiv> resp args @ tail"
  shows "key_payload src True (frag_key src CMD_REQ_REDIS_MSET (key_at args i)) = Some (args ! i @ CRLF @ bulk (args ! Suc i))"
    and "key_piece src True (frag_key src CMD_REQ_REDIS_MSET (key_at args i)) = bulk (args ! i) @ bulk (args ! Suc i)"
    and "word_of_nat (length (bulk (args ! i) @ bulk (args ! Suc i))) = key_cost src CMD_REQ_REDIS_MSET (key_at args i) + 3"
proof -
  let ?kp = "key_at args i" and ?v = "args ! Suc i" and ?n = "length (args ! i) + (2 + length (bulk (args ! Suc i)))"
  obtain rest where rest: "drop (kp_start ?kp) src = args ! i @ CRLF @ bulk ?v @ rest"
    using drop_key_end [OF assms(1,2)] unfolding src_def by blast
  have rl: "mset_remain src (kp_end ?kp) = Some (word_of_nat (2 + length (bulk ?v)))"
    unfolding src_def by (rule mset_remain_at [OF assms(1,2)])
  have li: "length (args ! i) < 2 ^ 31" using arg_fits [OF assms(1), of i] assms(2) by simp
  have "length (resp args) \<ge> ?n"
    using arg_off_Suc [of i args] arg_off_Suc [of "Suc i" args] assms(2) resp_split [of "Suc i" args]
    by (simp add: arg_off_def length_bulk)
  then have small: "?n < 2 ^ 32" using assms(1) by (simp add: request_def)
  have un: "unat (word_of_nat ?n :: u32) = ?n" using small by (rule unat_u32_of_nat)
  have len: "kp_start ?kp + ?n \<le> length src"
  proof -
    have "length (drop (kp_start ?kp) src) \<ge> ?n" unfolding rest by (simp add: CRLF_def)
    then show ?thesis by (cases "kp_start ?kp \<le> length src") (auto simp: length_bulk)
  qed
  show p: "key_payload src True (frag_key src CMD_REQ_REDIS_MSET ?kp) = Some (args ! i @ CRLF @ bulk ?v)"
  proof -
    have "key_payload src True (frag_key src CMD_REQ_REDIS_MSET ?kp) = buf_slice src (kp_start ?kp) (unat (word_of_nat ?n :: u32))"
      using rl by (simp add: key_payload_def frag_key_def ac_simps)
    also have "\<dots> = Some (take ?n (drop (kp_start ?kp) src))" unfolding un using len by (simp add: buf_slice_def)
    also have "\<dots> = Some (args ! i @ CRLF @ bulk ?v)" unfolding rest by (simp add: CRLF_def)
    finally show ?thesis .
  qed
  show "key_piece src True (frag_key src CMD_REQ_REDIS_MSET ?kp) = bulk (args ! i) @ bulk ?v"
    unfolding key_piece_def p by (simp add: bulk_def CRLF_def)
  have "unat (word_of_nat (length (args ! i)) :: u32) = length (args ! i)" using li by (intro unat_u32_of_nat) simp
  then show "word_of_nat (length (bulk (args ! i) @ bulk ?v)) = key_cost src CMD_REQ_REDIS_MSET ?kp + 3"
    using rl by (simp add: key_cost_def Let_def length_bulk)
qed

text \<open>The request with the pairs of the given argument positions, and the sub-command that holds it.\<close>

definition mset_request :: "string list \<Rightarrow> nat list \<Rightarrow> string" where
  "mset_request args is = resp (''mset'' # concat (map (\<lambda>i. [args ! i, args ! Suc i]) is))"

definition mset_safe :: "string list \<Rightarrow> nat list \<Rightarrow> bool" where
  "mset_safe args is \<longleftrightarrow> length (mset_request args is) < 2 ^ 31 \<and> zero_safe (2 * length is + 1) (map (\<lambda>i. length (args ! i)) is)"

definition finished_mset :: "string \<Rightarrow> cmd \<Rightarrow> cmd" where
  "finished_mset src sub =
     (let kps = arr_list (r_keys sub); n = 2 * length kps + 1; R = sub_bytes src True n (CRLF @ bulk ''mset'') kps
      in sub\<lparr>r_clen := word_of_nat (length R), r_narg := word_of_nat n, r_cmd := Some R\<rparr>)"

lemma length_pairs: "length (concat (map (\<lambda>i. [f i, g i]) is)) = 2 * length is"
  by (induction "is") auto

lemma mset_sub_bytes:
  fixes args :: "string list" and tail :: string
  assumes "request args" "\<forall>i \<in> set is. Suc i < length args"
  defines "src \<equiv> resp args @ tail"
  shows "sub_bytes src True (2 * length is + 1) (CRLF @ bulk ''mset'') (map (frag_key src CMD_REQ_REDIS_MSET) (map (key_at args) is))
    = mset_request args is"
proof -
  have "concat (map (key_piece src True) (map (frag_key src CMD_REQ_REDIS_MSET) (map (key_at args) is)))
    = concat (map bulk (concat (map (\<lambda>i. [args ! i, args ! Suc i]) is)))"
    using assms(2)
  proof (induction "is")
    case (Cons i "is")
    then have "key_piece src True (frag_key src CMD_REQ_REDIS_MSET (key_at args i)) = bulk (args ! i) @ bulk (args ! Suc i)"
      using mset_piece(2) [OF assms(1)] unfolding src_def by simp
    with Cons show ?case by simp
  qed simp
  then show ?thesis
    unfolding sub_bytes_def mset_request_def by (simp add: resp_def resp_head_def CRLF_def length_pairs)
qed

lemma format_mset_exact:
  fixes args :: "string list" and tail :: string
  defines "src \<equiv> resp args @ tail"
  assumes req: "request args" and idx: "\<forall>i \<in> set is. Suc i < length args"
    and holds: "sub_holds src CMD_REQ_REDIS_MSET slot (map (key_at args) is) sub"
    and safe: "mset_safe args is" and ns: "12 \<le> length ns" and al: "no_oom al"
  shows "\<exists>ns' al'. format_by_type CMD_REQ_REDIS_MSET src ns sub al = Some (Frag_ok, finished_mset src sub, ns', al') \<and>
    12 \<le> length ns' \<and> no_oom al'"
proof -
  let ?n = "length is" and ?fk = "map (frag_key src CMD_REQ_REDIS_MSET) (map (key_at args) is)" and ?hdr = "CRLF @ bulk ''mset''"
  let ?R = "mset_request args is" and ?N = "2 * length is + 1"
  have keys: "arr_list (r_keys sub) = ?fk" and narg: "r_narg sub = word_of_nat ?n"
    and clen: "r_clen sub = sum_list (map (key_cost src CMD_REQ_REDIS_MSET) (map (key_at args) is))"
    using holds by (auto simp: sub_holds_def)
  have R: "sub_bytes src True ?N ?hdr ?fk = ?R" unfolding src_def by (rule mset_sub_bytes [OF req idx])
  have small: "length ?R < 2 ^ 31" "zero_safe ?N (map (\<lambda>i. length (args ! i)) is)" using safe by (auto simp: mset_safe_def)
  obtain al1 where al1: "hi_alloc al = (True, al1)" "no_oom al1" using al by (rule hi_alloc_no_oomE)
  have "map (\<lambda>kp. kp_end kp - kp_start kp) ?fk = map (\<lambda>i. length (args ! i)) is" by simp
  then have z: "zero_safe ?N (map (\<lambda>kp. kp_end kp - kp_start kp) ?fk)" using small(2) by (simp only:)
  have pl: "\<forall>kp \<in> set ?fk. key_payload src True kp \<noteq> None \<and> kp_end kp - kp_start kp < 2 ^ 31"
    using mset_piece(1) [OF req] arg_fits [OF req] idx unfolding src_def by fastforce
  have cost: "word_of_nat (length (key_piece src True (frag_key src CMD_REQ_REDIS_MSET kp))) = key_cost src CMD_REQ_REDIS_MSET kp + 3"
    if "kp \<in> set (map (key_at args) is)" for kp
  proof -
    obtain i where i: "i \<in> set is" "kp = key_at args i" using \<open>kp \<in> _\<close> by auto
    then have "Suc i < length args" using idx by simp
    from mset_piece(2,3) [OF req this, of tail] i(2) show ?thesis unfolding src_def by (simp only:)
  qed
  have "sum_list (map (key_cost src CMD_REQ_REDIS_MSET) (map (key_at args) is)) + 3 * word_of_nat ?n =
    word_of_nat (length (concat (map (key_piece src True) ?fk)))"
    using sum_key_cost [of "map (key_at args) is", OF cost] by (simp add: comp_def)
  then have c: "r_clen sub + 3 * r_narg sub + 13 + word_of_nat (length (decimal ?N)) = word_of_nat (length ?R)"
    unfolding R [symmetric] sub_bytes_def clen narg by (simp add: CRLF_def length_bulk_frag_names algebra_simps)
  have "?N < length ?R" using length_args_resp [of "''mset'' # concat (map (\<lambda>i. [args ! i, args ! Suc i]) is)"]
    by (simp add: mset_request_def length_pairs)
  then have n: "?N < 2 ^ 31" "0 < ?N" using small(1) by auto
  have total_args: "r_narg sub * 2 + 1 = word_of_nat ?N" by (simp add: narg)
  have "\<exists>ns'. 12 \<le> length ns' \<and> format_sub src True 3 13 (\<lambda>n. n * 2 + 1) ?hdr ns sub al =
    Some (Frag_ok, sub\<lparr>r_clen := word_of_nat (length ?R), r_narg := word_of_nat ?N, r_cmd := Some ?R\<rparr>, ns', al1)"
    by (rule format_sub_exact [OF ns al1(1), of "\<lambda>n. n * 2 + 1" sub ?N src True ?hdr, unfolded keys R,
          OF total_args n(2,1) z pl small(1) c])
  moreover have "finished_mset src sub = sub\<lparr>r_clen := word_of_nat (length ?R), r_narg := word_of_nat ?N, r_cmd := Some ?R\<rparr>"
    using R unfolding finished_mset_def keys Let_def length_map by (simp only:)
  ultimately show ?thesis
    using al1(2) by (auto simp: format_by_type_def format_bulk_defs)
qed

section \<open>Empty keys\<close>

lemma put_all_too_long: "length buf < idx + length (concat ss) \<Longrightarrow> idx \<le> length buf \<Longrightarrow> put_all buf idx ss = None"
proof (induction ss arbitrary: buf idx)
  case (Cons s ss)
  show ?case
  proof (cases "idx + length s \<le> length buf")
    case True
    then have "buf_put buf idx s = Some (take idx buf @ s @ drop (idx + length s) buf)" by (simp add: buf_put_def)
    with True Cons.IH [of "take idx buf @ s @ drop (idx + length s) buf" "idx + length s"] Cons.prems show ?thesis by simp
  qed (simp add: buf_put_def)
qed simp

text \<open>Zero written over a numeral of several digits keeps the other digits.\<close>

lemma put_num_zero_stale:
  assumes "cstr ns = decimal l" "10 \<le> l" "NUL \<in> set ns"
  shows "\<exists>ns'. put_num ns 0 = Some ns' \<and> length (cstr ns') = length (decimal l)"
proof -
  obtain a b cs where d: "decimal l = a # b # cs"
    using assms(2) decimal_not_Nil [of "l div 10"] by (subst (asm) decimal.simps) (cases "decimal (l div 10)"; cases "tl (decimal (l div 10))"; simp add: decimal.simps [of l])
  obtain r where ns: "ns = a # r" using assms(1) d by (cases ns) (auto simp: cstr_def split: if_splits)
  have "a \<noteq> NUL" using nul_free_decimal [of l] d by auto
  then have r: "cstr r = b # cs" using assms(1) d ns by (simp add: cstr_def)
  have "NUL \<in> set r" using assms(3) ns \<open>a \<noteq> NUL\<close> by auto
  then have "put_num ns 0 = Some (CHR ''0'' # r)" using ns by (simp add: put_num_def hi_itoa_def buf_set_def)
  moreover have "cstr (CHR ''0'' # r) = CHR ''0'' # b # cs" using r by (simp add: cstr_def)
  ultimately show ?thesis using d by auto
qed

lemma length_decimal_ge_2: "10 \<le> l \<Longrightarrow> 2 \<le> length (decimal l)"
  using decimal_not_Nil [of "l div 10"] by (simp add: decimal.simps [of l] Suc_le_eq)

lemma format_stale_overflow:
  assumes "sub_holds src t slot [k1, k0] sub" "redis_argx t" "key_inside src k1" "key_inside src k0"
    and "10 \<le> kp_end k1 - kp_start k1" "kp_end k1 - kp_start k1 < 2 ^ 20" "kp_end k0 = kp_start k0"
    and "12 \<le> length ns" "hi_alloc al = (True, al1)"
  shows "format_by_type t src ns sub al = None"
proof -
  let ?kps = "[k1, k0]" and ?fk = "map (frag_key src t) [k1, k0]" and ?l = "kp_end k1 - kp_start k1"
  let ?hdr = "CRLF @ bulk (frag_name t)" and ?b1 = "bulk (key_bytes src k1)"
  let ?R = "sub_request t (map (key_bytes src) ?kps)" and ?pre = "concat [''*'', decimal 3, CRLF @ bulk (frag_name t)]"
  have t: "t \<noteq> CMD_REQ_REDIS_MSET" using assms(2) by (auto simp: redis_argx_def)
  have k0: "key_bytes src k0 = []" using length_key_bytes [OF assms(4)] assms(7) by simp
  have len1: "length (key_bytes src k1) = ?l" by (rule length_key_bytes [OF assms(3)])
  have R: "?R = ?pre @ ?b1 @ bulk []" using k0 by (simp add: sub_request_def resp_def resp_head_def CRLF_def numeral_3_eq_3)
  have b0: "length (bulk []) = 6" by (simp add: length_bulk decimal.simps)
  have dl: "length (decimal ?l) \<le> 7" using length_decimal_le [of ?l 6] assms(6) by simp
  have name: "length (frag_name t) \<le> 6" by (simp add: frag_name_def)
  then have "length (decimal (length (frag_name t))) = 1" by (simp add: decimal.simps)
  then have "length ?R < 2 ^ 31" unfolding R using dl assms(6) len1 name b0
    by (simp add: length_bulk CRLF_def decimal.simps [of 3])
  then have unR: "unat (word_of_nat (length ?R) :: u32) = length ?R" by (intro unat_u32_of_nat) simp
  obtain ns1 where 1: "put_num ns (word_of_nat 3) = Some ns1" "cstr ns1 = decimal 3" "12 \<le> length ns1"
    using put_num_pos [of 3 ns] assms(8) by (auto simp: num_buf_def)
  have "0 < ?l" using assms(5) by linarith
  moreover have "?l < 2 ^ 31" using assms(6) by (rule less_le_trans) simp
  ultimately obtain ns2 where
    2: "put_num ns1 (word_of_nat ?l) = Some ns2" "cstr ns2 = decimal ?l" "NUL \<in> set ns2"
    using put_num_pos [OF _ _ 1(3), of ?l] by (auto simp: num_buf_def)
  obtain ns3 where 3: "put_num ns2 0 = Some ns3" "length (cstr ns3) = length (decimal ?l)"
    using put_num_zero_stale [OF 2(2) assms(5) 2(3)] by blast
  have pay: "key_payload src False (frag_key src t k1) = Some (key_bytes src k1 @ CRLF)"
    "key_payload src False (frag_key src t k0) = Some CRLF"
    using key_piece_plain(1) [OF assms(3) t] key_piece_plain(1) [OF assms(4) t] k0 by simp_all
  have head: "put_all (replicate (length ?R) NUL) 0 [''*'', decimal 3, ?hdr] = Some (?pre @ replicate (length ?b1 + 6) NUL, length ?pre)"
    using put_all_zeros [of "[''*'', decimal 3, ?hdr]" "length ?R" "[]"] unfolding R using b0 by simp
  have piece: "concat [''$'', cstr ns2, CRLF, key_bytes src k1 @ CRLF] = ?b1" using 2(2) len1 by (simp add: bulk_def CRLF_def)
  have first: "put_all (?pre @ replicate (length ?b1 + 6) NUL) (length ?pre) [''$'', cstr ns2, CRLF, key_bytes src k1 @ CRLF] =
    Some (?pre @ ?b1 @ replicate 6 NUL, length ?pre + length ?b1)"
    using put_all_zeros [of "[''$'', cstr ns2, CRLF, key_bytes src k1 @ CRLF]" "length ?b1 + 6" ?pre] unfolding piece by simp
  have "put_all (?pre @ ?b1 @ replicate 6 NUL) (length ?pre + length ?b1) [''$'', cstr ns3, CRLF, CRLF] = None"
    by (rule put_all_too_long) (use 3(2) length_decimal_ge_2 [OF assms(5)] in \<open>auto simp: CRLF_def\<close>)
  then have keys: "put_keys src False ?fk (?pre @ replicate (length ?b1 + 6) NUL) (length ?pre) ns1 = None"
    using 2(1) 3(1) pay first assms(7) by (simp del: of_nat_diff put_all.simps)
  have c: "r_clen sub + 5 * r_narg sub + (3 + word_of_nat (length (bulk (frag_name t)))) + word_of_nat (length (cstr ns1)) = word_of_nat (length ?R)"
    using clen_keys [OF assms(1,2)] assms(3,4) 1(2) by (simp add: numeral_3_eq_3)
  have narg: "r_narg sub + 1 = word_of_nat 3" "arr_list (r_keys sub) = ?fk" using assms(1) by (auto simp: sub_holds_def)
  show ?thesis
    unfolding format_by_type_keys [OF assms(2)] format_sub_def Let_def narg 1(1) option.case c [unfolded 1(2)] assms(9) prod.case bool.case unR 1(2) head keys ..
qed

section \<open>Reassembling\<close>

lemma take_elements_rev:
  assumes "\<And>k. k \<in> set ks \<Longrightarrow> repl (sl k) = Some (REDIS_REPLY_ARRAY (map f (filter (\<lambda>x. sl x = sl k) ks)))"
  shows "take_elements (rev (map sl ks)) repl acc = Inr (map f ks @ acc)"
  using assms
proof (induction ks arbitrary: repl acc rule: rev_induct)
  case Nil
  then show ?case by simp
next
  case (snoc k ks)
  let ?old = "map f (filter (\<lambda>x. sl x = sl k) ks)"
  have "repl (sl k) = Some (REDIS_REPLY_ARRAY (?old @ [f k]))" using snoc.prems [of k] by simp
  moreover have "take_elements (rev (map sl ks)) (repl(sl k \<mapsto> REDIS_REPLY_ARRAY ?old)) (f k # acc) = Inr (map f ks @ f k # acc)"
  proof (rule snoc.IH)
    fix k' assume "k' \<in> set ks"
    then show "(repl(sl k \<mapsto> REDIS_REPLY_ARRAY ?old)) (sl k') = Some (REDIS_REPLY_ARRAY (map f (filter (\<lambda>x. sl x = sl k') ks)))"
      using snoc.prems [of k'] by auto
  qed
  ultimately show ?case by simp
qed

lemma check_replies_arrays:
  assumes "\<And>sub. sub \<in> set subs \<Longrightarrow> \<exists>es. r_reply sub = Some (REDIS_REPLY_ARRAY es)"
  shows "check_replies CMD_REQ_REDIS_MGET cc subs n = Inr n"
  using assms
proof (induction subs)
  case (Cons sub subs)
  then obtain es where "r_reply sub = Some (REDIS_REPLY_ARRAY es)" by auto
  with Cons show ?case by simp
qed simp

lemma check_replies_ints:
  assumes "t = CMD_REQ_REDIS_DEL \<or> t = CMD_REQ_REDIS_EXISTS"
    and "map r_reply subs = map (\<lambda>n. Some (REDIS_REPLY_INTEGER n)) ns"
  shows "check_replies t cc subs c = Inr (c + sum_list ns)"
  using assms(2)
proof (induction subs arbitrary: ns c)
  case (Cons sub subs)
  then obtain n ns' where "ns = n # ns'" "r_reply sub = Some (REDIS_REPLY_INTEGER n)" by (cases ns) auto
  with Cons assms(1) show ?case by (auto simp: algebra_simps)
qed simp

definition answer_mget :: "string \<Rightarrow> (string \<Rightarrow> redisReply) \<Rightarrow> cmd \<Rightarrow> cmd" where
  "answer_mget src f sub =
     sub\<lparr>r_reply := Some (REDIS_REPLY_ARRAY (map f (map (key_bytes src) (arr_list (r_keys sub)))))\<rparr>"

lemma slot_replies_answer:
  assumes "fill_inv src t kps subs" "kp \<in> set kps"
  shows "slot_replies (map (answer_mget src f) (map (\<lambda>(slot, sub). (finished_sub src t sub)\<lparr>r_type := t\<rparr>) subs)) (slot_of src kp)
    = Some (REDIS_REPLY_ARRAY (map f (map (key_bytes src) (filter (\<lambda>k. slot_of src k = slot_of src kp) kps))))"
proof -
  let ?s = "slot_of src kp" and ?g = "\<lambda>(slot, sub). answer_mget src f ((finished_sub src t sub)\<lparr>r_type := t\<rparr>)"
  have num: "r_slot_num (?g x) = int (fst x)" if "x \<in> set subs" for x
    using fill_inv_finished(2) [OF assms(1), of "fst x" "snd x"] that by (cases x) (auto simp: answer_mget_def)
  have "?s \<in> set (map fst subs)" using assms by (simp add: fill_inv_def)
  then obtain sub where sub: "(?s, sub) \<in> set subs" by auto
  have "find (\<lambda>c. r_slot_num c = int ?s) (map ?g subs) = Some (?g (?s, sub))"
  proof -
    obtain i where i: "i < length subs" "subs ! i = (?s, sub)" using sub by (auto simp: in_set_conv_nth)
    have "distinct (map fst subs)" using assms(1) by (simp add: fill_inv_def strict_sorted_iff)
    then have other: "fst (subs ! j) \<noteq> ?s" if "j < i" for j
      using that i nth_eq_iff_index_eq [of "map fst subs" j i] by auto
    have "r_slot_num (map ?g subs ! j) \<noteq> int ?s" if "j < i" for j
      using other [OF that] num [of "subs ! j"] that i(1) by simp
    moreover have "r_slot_num (map ?g subs ! i) = int ?s" using i sub num [of "subs ! i"] by simp
    ultimately show ?thesis using i by (auto simp: find_Some_iff intro!: exI [of _ i])
  qed
  then show ?thesis
    using fill_inv_finished(1) [OF assms(1) sub]
    by (simp add: slot_replies_def comp_def split_def answer_mget_def)
qed

lemma post_fragment_mget:
  assumes "fill_inv src CMD_REQ_REDIS_MGET kps subs" "r_type command = CMD_REQ_REDIS_MGET"
    and "r_frag_seq command = Some (map (slot_of src) kps)" "no_oom al"
  shows "\<exists>al'. command_post_fragment cc command
      (map (answer_mget src f) (map (\<lambda>(slot, sub). (finished_sub src CMD_REQ_REDIS_MGET sub)\<lparr>r_type := CMD_REQ_REDIS_MGET\<rparr>) subs)) al
    = (Some (REDIS_REPLY_ARRAY (map f (map (key_bytes src) kps))), cc, al') \<and> no_oom al'"
proof -
  let ?cmds = "map (answer_mget src f) (map (\<lambda>(slot, sub). (finished_sub src CMD_REQ_REDIS_MGET sub)\<lparr>r_type := CMD_REQ_REDIS_MGET\<rparr>) subs)"
  obtain al1 where al1: "hi_alloc al = (True, al1)" "no_oom al1" using assms(4) by (rule hi_alloc_no_oomE)
  obtain al2 where al2: "hi_alloc al1 = (True, al2)" "no_oom al2" using al1(2) by (rule hi_alloc_no_oomE)
  have "check_replies CMD_REQ_REDIS_MGET cc ?cmds 0 = Inr 0"
    by (rule check_replies_arrays) (auto simp: answer_mget_def)
  moreover have "take_elements (rev (map (slot_of src) kps)) (slot_replies ?cmds) [] = Inr (map (f \<circ> key_bytes src) kps @ [])"
    by (rule take_elements_rev) (use slot_replies_answer [OF assms(1)] in \<open>simp add: comp_def\<close>)
  ultimately show ?thesis using al1 al2 assms(2,3) by (simp add: command_post_fragment_def)
qed


section \<open>Concrete commands\<close>

definition split_cmd :: "cmd_type \<Rightarrow> string list \<Rightarrow> nat list \<Rightarrow> cmd" where
  "split_cmd t args is = mget_cmd\<lparr>r_type := t, r_cmd := Some (resp args @ []),
     r_keys := \<lparr>a_nelem = word_of_nat (length is), a_elem = map (\<lambda>i. Some (key_at args i)) is, a_size = 24,
                a_nalloc = word_of_nat (length is)\<rparr>\<rparr>"

lemma split_cmd_simps [simp]:
  "r_type (split_cmd t args is) = t" "r_cmd (split_cmd t args is) = Some (resp args)"
  "length is < 2 ^ 32 \<Longrightarrow> arr_list (r_keys (split_cmd t args is)) = map (key_at args) is"
  by (simp_all add: split_cmd_def arr_list_def unat_u32_of_nat comp_def)

lemma key_at_inside:
  assumes "request args" "i < length args"
  shows "key_inside (resp args) (key_at args i)"
proof -
  obtain str len where at: "arg_at args i = (str, len)" by (cases "arg_at args i")
  have "unat len = length (args ! i)" using arg_fits [OF assms] at by (auto simp: arg_at_def unat_u32_of_nat)
  with redis_parse_bulk_bound [OF parse_arg(1) [OF assms, of "[]", unfolded at]] arg_fits [OF assms] at
  show ?thesis by (simp add: key_inside_def key_at_def)
qed

lemma key_at_slot: "request args \<Longrightarrow> i < length args \<Longrightarrow>
    key_bytes (resp args) (key_at args i) = args ! i \<and> slot_of (resp args) (key_at args i) = keyHashSlot (args ! i)"
  using key_bytes_at [of args i "[]"] by (simp add: slot_of_def)

lemma demo_slots:
  "keyHashSlot ''a'' = 15495" "keyHashSlot ''b'' = 3300" "keyHashSlot [] = 0" "keyHashSlot ''{06S}zzzzz'' = 0"
  by (simp_all add: keyHashSlot_def crc16_def crc16_step_def crc16tab_def ord_of_def)

lemma demo_request: "request [''mget'', ''a'', ''b'']" "request [''mset'', ''a'', ''1'', ''b'', ''2'']"
  "request [''del'', ''{06S}zzzzz'', []]"
  by (simp_all add: request_def resp_def resp_head_def bulk_def decimal.simps)

lemma demo_sub_safe: "sub_safe CMD_REQ_REDIS_MGET [''a'']" "sub_safe CMD_REQ_REDIS_MGET [''b'']"
  by (simp_all add: sub_safe_def sub_request_def frag_name_def resp_def resp_head_def bulk_def decimal.simps)

section \<open>Properties\<close>

text \<open>The sub-commands of a split, seen as what is sent: slot, bytes and type.\<close>

definition sent :: "cmd \<Rightarrow> int \<times> string option \<times> cmd_type" where
  "sent sub = (r_slot_num sub, r_cmd sub, r_type sub)"

lemma sent_finished:
  assumes "fill_inv src t kps subs"
  shows "map sent (map (\<lambda>(slot, sub). (finished_sub src t sub)\<lparr>r_type := t\<rparr>) subs) =
    map (\<lambda>s. (int s, Some (sub_request t (map (key_bytes src) (filter (\<lambda>kp. slot_of src kp = s) kps))), t))
      (sorted_list_of_set (slot_of src ` set kps))"
proof -
  have "sent ((finished_sub src t (snd x))\<lparr>r_type := t\<rparr>) =
      (int (fst x), Some (sub_request t (map (key_bytes src) (filter (\<lambda>kp. slot_of src kp = fst x) kps))), t)"
    if "x \<in> set subs" for x
    using fill_inv_finished [OF assms, of "fst x" "snd x"] that by (simp add: sent_def)
  then show ?thesis
    unfolding fill_inv_slots [OF assms, symmetric] by (simp add: comp_def split_def)
qed



text \<open>
  C8. MGET is put together again in the order of its keys: when every sub-command of a split MGET is
  answered with the array of the values of its keys, the reply of the whole command is the array
  of the values of all keys.
\<close>

theorem mget_split_roundtrip:
  assumes "r_cmd command = Some src" "r_type command = CMD_REQ_REDIS_MGET"
    and "kps = arr_list (r_keys command)" "kps \<noteq> []" "length kps < 2 ^ 31" "\<forall>kp \<in> set kps. key_inside src kp"
    and "\<forall>s \<in> slot_of src ` set kps. sub_safe CMD_REQ_REDIS_MGET (map (key_bytes src) (filter (\<lambda>kp. slot_of src kp = s) kps))"
    and "12 \<le> length ns" "no_oom al" "no_oom al2" "1 < card (slot_of src ` set kps)"
  shows "\<exists>command' commands cid' al' al3.
    command_pre_fragment cc command [] ns cid al = Some (int (slot_of src (last kps)), cc, command', commands, cid', al') \<and>
    command_post_fragment cc2 command' (map (answer_mget src f) commands) al2
      = (Some (REDIS_REPLY_ARRAY (map (\<lambda>kp. f (key_bytes src kp)) kps)), cc2, al3)"
proof -
  have t: "redis_argx CMD_REQ_REDIS_MGET" by (simp add: redis_argx_def)
  obtain subs cid' al' where f: "fill_inv src CMD_REQ_REDIS_MGET kps subs" and res: "command_pre_fragment cc command [] ns cid al =
     (if length subs = 1 then Some (int (slot_of src (last kps)), cc, command\<lparr>r_frag_seq := None, r_slot_num := int (slot_of src (last kps))\<rparr>, [], cid', al')
      else Some (int (slot_of src (last kps)), cc, command\<lparr>r_frag_seq := Some (map (slot_of src) kps)\<rparr>,
        map (\<lambda>(slot, sub). (finished_sub src CMD_REQ_REDIS_MGET sub)\<lparr>r_type := CMD_REQ_REDIS_MGET\<rparr>) subs, cid', al'))"
    using pre_fragment_keys [OF assms(1,2) t assms(3-6) bspec [OF assms(7)] assms(8,9)] by blast
  have len: "length subs = card (slot_of src ` set kps)"
    using arg_cong [OF fill_inv_slots [OF f], of length] by simp
  let ?c = "command\<lparr>r_frag_seq := Some (map (slot_of src) kps)\<rparr>"
  obtain al3 where "command_post_fragment cc2 ?c
      (map (answer_mget src f) (map (\<lambda>(slot, sub). (finished_sub src CMD_REQ_REDIS_MGET sub)\<lparr>r_type := CMD_REQ_REDIS_MGET\<rparr>) subs)) al2
    = (Some (REDIS_REPLY_ARRAY (map f (map (key_bytes src) kps))), cc2, al3)"
    using post_fragment_mget [OF f, of ?c al2 cc2 f] assms(2,10) by auto
  with res len assms(11) show ?thesis by (auto simp: comp_def)
qed

theorem mget_split_roundtrip_witness:
  "\<exists>command' commands cid' al' al3.
    command_pre_fragment \<lparr>cx_err = 0, cx_errstr = []\<rparr> (split_cmd CMD_REQ_REDIS_MGET [''mget'', ''a'', ''b''] [1, 2]) []
      (replicate 12 NUL) 0 [] = Some (3300, \<lparr>cx_err = 0, cx_errstr = []\<rparr>, command', commands, cid', al') \<and>
    command_post_fragment \<lparr>cx_err = 0, cx_errstr = []\<rparr> command' (map (answer_mget (resp [''mget'', ''a'', ''b'']) REDIS_REPLY_STRING) commands) []
      = (Some (REDIS_REPLY_ARRAY [REDIS_REPLY_STRING ''a'', REDIS_REPLY_STRING ''b'']), \<lparr>cx_err = 0, cx_errstr = []\<rparr>, al3)"
proof -
  let ?args = "[''mget'', ''a'', ''b'']" and ?t = CMD_REQ_REDIS_MGET
  let ?src = "resp ?args" and ?c = "split_cmd CMD_REQ_REDIS_MGET [''mget'', ''a'', ''b''] [1, 2]"
  have at: "key_bytes ?src (key_at ?args 1) = ''a''" "key_bytes ?src (key_at ?args 2) = ''b''"
    "slot_of ?src (key_at ?args 1) = 15495" "slot_of ?src (key_at ?args 2) = 3300"
    using key_at_slot [OF demo_request(1), of 1] key_at_slot [OF demo_request(1), of 2] demo_slots by simp_all
  have ins: "key_inside ?src (key_at ?args 1)" "key_inside ?src (key_at ?args 2)"
    using key_at_inside [OF demo_request(1)] by simp_all
  have kps: "arr_list (r_keys ?c) = [key_at ?args 1, key_at ?args 2]" by simp
  show ?thesis
    using mget_split_roundtrip [of ?c ?src "[key_at ?args 1, key_at ?args 2]" "replicate 12 NUL" "[]" "[]" "\<lparr>cx_err = 0, cx_errstr = []\<rparr>" 0
        "\<lparr>cx_err = 0, cx_errstr = []\<rparr>" REDIS_REPLY_STRING]
      kps at ins demo_sub_safe
    by (simp del: One_nat_def)
qed






text \<open>
  C33. An empty key breaks the split: for MGET, DEL or EXISTS of a key of ten or more bytes and the empty
  key, both of one slot, the length of the empty key is written with the digits left from the other
  length, and the request overruns the buffer that was allocated for it.
\<close>

theorem empty_key_overruns_buffer:
  assumes "r_cmd command = Some src" "r_type command = t" "redis_argx t" "arr_list (r_keys command) = [k1, k0]"
    and "key_inside src k1" "key_inside src k0" "10 \<le> kp_end k1 - kp_start k1" "kp_end k1 - kp_start k1 < 2 ^ 20"
    and "kp_end k0 = kp_start k0" "slot_of src k1 = slot_of src k0" "12 \<le> length ns" "no_oom al"
  shows "command_pre_fragment cc command [] ns cid al = None"
proof -
  obtain al1 where al1: "hi_alloc al = (True, al1)" "no_oom al1" using assms(12) by (rule hi_alloc_no_oomE)
  obtain al2 where al2: "hi_alloc al1 = (True, al2)" "no_oom al2" using al1(2) by (rule hi_alloc_no_oomE)
  have "fill_inv src t [] []" "length ([] :: keypos list) + length [k1, k0] < 2 ^ 31" "t \<noteq> CMD_REQ_REDIS_MSET"
    using assms(3) by (auto simp: fill_inv_def redis_argx_def)
  then obtain subs seq sn cid' al3 where fill: "fill_loop src t [k1, k0] [] [] (-1) cid al2 = Some (Frag_ok, subs, seq, sn, cid', al3)"
    "fill_inv src t [k1, k0] subs" "no_oom al3"
    using fill_loop_inv [of src t "[]" "[]" "[k1, k0]" al2 "-1" cid] al2(2) by (auto simp del: fill_loop.simps)
  let ?s = "slot_of src k0"
  have "map fst subs = [?s]" using fill_inv_slots [OF fill(2)] assms(10) by simp
  then obtain sub where subs: "subs = [(?s, sub)]" by (cases subs) auto
  have holds: "sub_holds src t ?s [k1, k0] sub" using fill_invD(1) [OF fill(2), of ?s sub] subs assms(10) by simp
  obtain al4 where "hi_alloc al3 = (True, al4)" using fill(3) by (rule hi_alloc_no_oomE)
  from format_stale_overflow [OF holds assms(3,5-9,11) this]
  have "header_loop src t subs [] ns al3 = None" by (simp add: subs)
  then show ?thesis using al1(1) al2(1) fill(1) assms(1,2,4) by (simp add: command_pre_fragment_def)
qed

theorem empty_key_overruns_buffer_witness:
  "command_pre_fragment \<lparr>cx_err = 0, cx_errstr = []\<rparr> (split_cmd CMD_REQ_REDIS_DEL [''del'', ''{06S}zzzzz'', []] [1, 2]) []
     (replicate 12 NUL) 0 [] = None"
proof -
  let ?args = "[''del'', ''{06S}zzzzz'', []]"
  let ?src = "resp ?args" and ?c = "split_cmd CMD_REQ_REDIS_DEL [''del'', ''{06S}zzzzz'', []] [1, 2]"
  have slots: "slot_of ?src (key_at ?args 1) = 0" "slot_of ?src (key_at ?args 2) = 0"
    using key_at_slot [OF demo_request(3), of 1] key_at_slot [OF demo_request(3), of 2] demo_slots by simp_all
  have ins: "key_inside ?src (key_at ?args 1)" "key_inside ?src (key_at ?args 2)"
    using key_at_inside [OF demo_request(3)] by simp_all
  show ?thesis
    by (rule empty_key_overruns_buffer [of _ ?src CMD_REQ_REDIS_DEL "key_at ?args 1" "key_at ?args 2"])
      (use slots ins in \<open>simp_all add: redis_argx_def\<close>)
qed

end
