(* ===== verification/Sync_API.thy ===== *)
theory Sync_API
  imports Options Fragment
begin

text \<open>
  The synchronous interface (\<^verbatim>\<open>hircluster.c\<close>, lines 1968 to 2426 and 2925 to 3593): connections of nodes, the
  node of a slot, redirections, executing a command with its retries, and pipelining.

  The list of sub-commands of a split command is a HOL list; the buffer in which the splitting code prints
  numbers and the counter of command numbers are arguments, since their first contents are the caller's. Of
  a pipelined command the client keeps the command and the sub-commands.
\<close>

record request =
  rq_cmd :: cmd
  rq_sub :: "cmd list option"

section \<open>The connection of a node\<close>

definition ctx_get_by_node :: "'w hiredis \<Rightarrow> addr \<Rightarrow> ('c, 'w, 'z) cluster_scheme \<Rightarrow>
    (addr option \<times> ('c, 'w, 'z) cluster_scheme) option" where
  "ctx_get_by_node H node s =
     do { nd \<leftarrow> node_at s node;
          case n_con nd of
            Some c \<Rightarrow>
              do { ctx \<leftarrow> con_at s c;
                   if rc_err ctx = 0 then Some (Some c, s)
                   else
                     do { (_, s1) \<leftarrow> on_con (redisReconnect H) c s;
                          ctx1 \<leftarrow> con_at s1 c;
                          let s2 = (if cc_on_connect s1
                                    then cc_log (ON_CONNECT c (if rc_err ctx1 \<noteq> 0 then REDIS_ERR else REDIS_OK)) s1 else s1);
                          (_, s3) \<leftarrow> ssl_init H c s2;
                          (_, s4) \<leftarrow> authenticate H c s3;
                          Some (Some c, s4) } }
          | None \<Rightarrow>
              (case n_host nd of
                 None \<Rightarrow> Some (None, s)
               | Some host \<Rightarrow>
                   if n_port nd \<le> 0 then Some (None, s)
                   else
                     (case connect_host H host (uint (n_port nd)) s of
                        (None, s1) \<Rightarrow> Some (None, s1)
                      | (Some c, s1) \<Rightarrow>
                          do { ctx \<leftarrow> con_at s1 c;
                               if rc_err ctx \<noteq> 0 then do { s2 \<leftarrow> con_error c s1; Some (None, redisFree (Some c) s2) }
                               else
                                 do { (r, s2) \<leftarrow> ssl_init H c s1;
                                      if r \<noteq> REDIS_OK then Some (None, redisFree (Some c) s2)
                                      else
                                        do { (r2, s3) \<leftarrow> authenticate H c s2;
                                             if r2 \<noteq> REDIS_OK then Some (None, redisFree (Some c) s3)
                                             else
                                               do { nd3 \<leftarrow> node_at s3 node;
                                                    Some (Some c, node_put node (nd3\<lparr>n_con := Some c\<rparr>) s3) } } } })) }"

definition node_get_by_table :: "u32 \<Rightarrow> ('c, 'w, 'z) cluster_scheme \<Rightarrow> addr option \<times> ('c, 'w, 'z) cluster_scheme" where
  "node_get_by_table slot_num s =
     (if unat slot_num \<ge> REDIS_CLUSTER_SLOTS then (None, redisClusterSetError REDIS_ERR_OTHER ''invalid slot'' s)
      else
        (case cc_table s of
           None \<Rightarrow> (None, redisClusterSetError REDIS_ERR_OTHER ''slotmap not available'' s)
         | Some table \<Rightarrow>
             (case table ! unat slot_num of
                None \<Rightarrow> (None, redisClusterSetError REDIS_ERR_OTHER ''slot not served by any node'' s)
              | Some node \<Rightarrow> (Some node, s))))"

text \<open>The key of \<open>redisClusterGetNodeByKey\<close> is a C string.\<close>

definition redisClusterGetNodeByKey :: "string \<Rightarrow> ('c, 'w, 'z) cluster_scheme \<Rightarrow> addr option \<times> ('c, 'w, 'z) cluster_scheme" where
  "redisClusterGetNodeByKey key s = node_get_by_table (word_of_nat (keyHashSlot (cstr key))) s"

text \<open>The bytes of a command that are sent.\<close>

definition cmd_bytes :: "cmd \<Rightarrow> string" where
  "cmd_bytes command = (case r_cmd command of None \<Rightarrow> [] | Some str \<Rightarrow> take (unat (r_clen command)) str)"

text \<open>A connection that can be used: the error of one that cannot is copied to the context.\<close>

definition usable :: "addr \<Rightarrow> ('c, 'w, 'z) cluster_scheme \<Rightarrow> (bool \<times> ('c, 'w, 'z) cluster_scheme) option" where
  "usable c s =
     do { ctx \<leftarrow> con_at s c;
          if rc_err ctx \<noteq> 0 then do { s1 \<leftarrow> con_error c s; Some (False, s1) } else Some (True, s) }"

definition append_on :: "'w hiredis \<Rightarrow> string \<Rightarrow> addr \<Rightarrow> ('c, 'w, 'z) cluster_scheme \<Rightarrow>
    (bool \<times> ('c, 'w, 'z) cluster_scheme) option" where
  "append_on H bytes c s =
     do { (r, s1) \<leftarrow> on_con (redisAppendFormattedCommand H bytes) c s;
          if r \<noteq> REDIS_OK then do { s2 \<leftarrow> con_error c s1; Some (False, s2) } else Some (True, s1) }"

definition clusterAppendCommand :: "'w hiredis \<Rightarrow> cmd \<Rightarrow> ('c, 'w, 'z) cluster_scheme \<Rightarrow>
    (int \<times> ('c, 'w, 'z) cluster_scheme) option" where
  "clusterAppendCommand H command s =
     (case node_get_by_table (word_of_int (r_slot_num command)) s of
        (None, s1) \<Rightarrow> Some (REDIS_ERR, s1)
      | (Some node, s1) \<Rightarrow>
          do { (c, s2) \<leftarrow> ctx_get_by_node H node s1;
               case c of
                 None \<Rightarrow> Some (REDIS_ERR, s2)
               | Some c' \<Rightarrow>
                   do { (ok, s3) \<leftarrow> usable c' s2;
                        if \<not> ok then Some (REDIS_ERR, s3)
                        else do { (sent, s4) \<leftarrow> append_on H (cmd_bytes command) c' s3;
                                  Some (if sent then REDIS_OK else REDIS_ERR, s4) } } })"

definition clusterGetReplyFromNode :: "'w hiredis \<Rightarrow> addr \<Rightarrow> ('c, 'w, 'z) cluster_scheme \<Rightarrow>
    (int \<times> redisReply option \<times> ('c, 'w, 'z) cluster_scheme) option" where
  "clusterGetReplyFromNode H node s =
     do { nd \<leftarrow> node_at s node;
          case n_con nd of
            None \<Rightarrow> Some (REDIS_ERR, None, s)
          | Some c \<Rightarrow>
              do { ctx \<leftarrow> con_at s c;
                   if rc_err ctx \<noteq> 0 then
                     do { let s1 = (if cc_need_update_route s = 0 then
                                      (let n = cc_retry_count s + 1
                                       in if n > cc_max_retry_count s then s\<lparr>cc_need_update_route := 1, cc_retry_count := 0\<rparr>
                                          else s\<lparr>cc_retry_count := n\<rparr>)
                                    else s);
                          s2 \<leftarrow> con_error c s1;
                          Some (REDIS_ERR, None, s2) }
                   else
                     do { ((result, reply), s1) \<leftarrow> on_con (redisGetReply H) c s;
                          if result \<noteq> REDIS_OK then do { s2 \<leftarrow> con_error c s1; Some (REDIS_ERR, reply, s2) }
                          else if cluster_reply_error_type reply = Some CLUSTER_ERR_MOVED
                          then Some (REDIS_OK, reply, s1\<lparr>cc_need_update_route := 1\<rparr>)
                          else Some (REDIS_OK, reply, s1) } } }"

definition clusterGetReply :: "'w hiredis \<Rightarrow> int \<Rightarrow> ('c, 'w, 'z) cluster_scheme \<Rightarrow>
    (int \<times> redisReply option \<times> ('c, 'w, 'z) cluster_scheme) option" where
  "clusterGetReply H slot_num s =
     (if slot_num < 0 then Some (REDIS_ERR, None, s)
      else
        (case node_get_by_table (word_of_int slot_num) s of
           (None, s1) \<Rightarrow> Some (REDIS_ERR, None, s1)
         | (Some node, s1) \<Rightarrow> clusterGetReplyFromNode H node s1))"

section \<open>Redirections\<close>

text \<open>
  Entering the node of a redirection that was unknown. A failure to allocate frees the node; the tables of the
  context are not touched then.
\<close>

definition add_redirect_node :: "(string, addr) dict \<Rightarrow> string \<Rightarrow> nat \<Rightarrow> ('c, 'w, 'z) cluster_scheme \<Rightarrow>
    (addr option \<times> ('c, 'w, 'z) cluster_scheme) option" where
  "add_redirect_node nodes endpoint p s =
     (case createRedisClusterNode s of
        (None, s1) \<Rightarrow> Some (None, set_oom s1)
      | (Some node, s1) \<Rightarrow>
          (case sds_copy (take p endpoint) s1 of
             (None, s2) \<Rightarrow> Some (oom_free_node node s2)
           | (Some host, s2) \<Rightarrow>
               (let port = hi_atoi (cstr (drop (Suc p) endpoint));
                    s3 = node_put node (zero_node\<lparr>n_role := REDIS_ROLE_MASTER, n_addr := Some endpoint, n_host := Some host,
                                                  n_port := word_of_int port\<rparr>) s2
                in case sds_copy endpoint s3 of
                     (None, s4) \<Rightarrow> Some (oom_free_node node s4)
                   | (Some key, s4) \<Rightarrow>
                       do { (ret, nodes', s5) \<leftarrow> cc_dictAdd nodes key node s4;
                            let s6 = s5\<lparr>cc_nodes := Some nodes'\<rparr>;
                            Some (if ret \<noteq> DICT_OK then oom_free_node node s6 else (Some node, s6)) })))"

text \<open>The slot is -1 unless it is asked for and the reply has three parts.\<close>

definition getNodeFromRedirectReply :: "sdslib \<Rightarrow> string \<Rightarrow> bool \<Rightarrow> ('c, 'w, 'z) cluster_scheme \<Rightarrow>
    (addr option \<times> int \<times> ('c, 'w, 'z) cluster_scheme) option" where
  "getNodeFromRedirectReply L str want_slot s =
     (case sds_split L str CHR '' '' s of
        (None, s1) \<Rightarrow> Some (None, -1, set_oom s1)
      | (Some part, s1) \<Rightarrow>
          if length part \<noteq> 3 then Some (None, -1, redisClusterSetError REDIS_ERR_OTHER ''failed to parse redirect'' s1)
          else
            (let slot = (if want_slot then hi_atoi (part ! 1) else -1); endpoint = part ! 2
             in case strrchr endpoint CHR '':'' of
                  None \<Rightarrow> Some (None, slot, redisClusterSetError REDIS_ERR_OTHER ''port separator missing in redirect'' s1)
                | Some p \<Rightarrow>
                    if p = 0 then Some (None, slot, redisClusterSetError REDIS_ERR_OTHER ''endpoint missing in redirect'' s1)
                    else
                      do { nodes \<leftarrow> cc_nodes s1;
                           case dictFind nodes endpoint of
                             Some (_, node) \<Rightarrow> Some (Some node, slot, s1)
                           | None \<Rightarrow> do { (node, s2) \<leftarrow> add_redirect_node nodes endpoint p s1; Some (node, slot, s2) } }))"

section \<open>Executing a command\<close>

text \<open>From the label \<open>retry\<close> to a connection that can be used; \<open>None\<close> inside is the exit to \<open>error\<close>.\<close>

definition node_after_update :: "sdslib \<Rightarrow> 'w hiredis \<Rightarrow> cmd \<Rightarrow> ('c, 'w, 'z) cluster_scheme \<Rightarrow>
    (addr option \<times> ('c, 'w, 'z) cluster_scheme) option" where
  "node_after_update L H command s =
     do { (r, s1) \<leftarrow> redisClusterUpdateSlotmap L H s;
          Some (if r \<noteq> REDIS_OK then (None, s1) else node_get_by_table (word_of_int (r_slot_num command)) s1) }"

text \<open>The connection of a node, or nothing after an error has been set.\<close>

definition connect_node :: "'w hiredis \<Rightarrow> addr \<Rightarrow> ('c, 'w, 'z) cluster_scheme \<Rightarrow>
    (addr option \<times> ('c, 'w, 'z) cluster_scheme) option" where
  "connect_node H node s =
     do { (c, s1) \<leftarrow> ctx_get_by_node H node s;
          case c of
            None \<Rightarrow> Some (None, s1)
          | Some c' \<Rightarrow> do { (ok, s2) \<leftarrow> usable c' s1; Some (if ok then Some c' else None, s2) } }"

text \<open>Whether the first attempt to connect failed, without setting the error.\<close>

definition con_failed :: "addr option \<Rightarrow> ('c, 'w, 'z) cluster_scheme \<Rightarrow> bool option" where
  "con_failed c s = (case c of None \<Rightarrow> Some True | Some c' \<Rightarrow> do { ctx \<leftarrow> con_at s c'; Some (rc_err ctx \<noteq> 0) })"

definition exec_connect :: "sdslib \<Rightarrow> 'w hiredis \<Rightarrow> cmd \<Rightarrow> ('c, 'w, 'z) cluster_scheme \<Rightarrow>
    (addr option \<times> ('c, 'w, 'z) cluster_scheme) option" where
  "exec_connect L H command s =
     do { (node, s1) \<leftarrow> (case node_get_by_table (word_of_int (r_slot_num command)) s of
                           (None, s1) \<Rightarrow> node_after_update L H command s1
                         | (Some n, s1) \<Rightarrow> Some (Some n, s1));
          case node of
            None \<Rightarrow> Some (None, s1)
          | Some n \<Rightarrow>
              do { (c, s2) \<leftarrow> ctx_get_by_node H n s1;
                   failed \<leftarrow> con_failed c s2;
                   if \<not> failed then Some (c, s2)
                   else
                     do { (node2, s3) \<leftarrow> node_after_update L H command s2;
                          case node2 of
                            None \<Rightarrow> Some (None, s3)
                          | Some n2 \<Rightarrow> connect_node H n2 s3 } } }"

text \<open>
  Sending the command and receiving its reply, with a slot map update in the same pipeline when one is due. The
  result \<open>Inl ()\<close> is the exit to \<open>error\<close>.
\<close>

definition exec_request :: "'w hiredis \<Rightarrow> cmd \<Rightarrow> addr \<Rightarrow> addr option \<Rightarrow> ('c, 'w, 'z) cluster_scheme \<Rightarrow>
    ((unit + redisReply option) \<times> addr option \<times> ('c, 'w, 'z) cluster_scheme) option" where
  "exec_request H command c upd s =
     do { (sent, s1) \<leftarrow> append_on H (cmd_bytes command) c s;
          if \<not> sent then Some (Inl (), upd, s1)
          else
            do { (upd1, s2) \<leftarrow>
                   (if cc_need_update_route s1 \<noteq> 0 \<and> upd = None then
                      do { (r, t) \<leftarrow> clusterUpdateRouteSendCommand H c s1; Some (if r = REDIS_OK then Some c else None, t) }
                    else Some (upd, s1));
                 ((result, reply), s3) \<leftarrow> on_con (redisGetReply H) c s2;
                 if result \<noteq> REDIS_OK then
                   do { s4 \<leftarrow> con_error c s3;
                        ctx \<leftarrow> con_at s4 c;
                        Some (Inl (), upd1, if rc_err ctx \<noteq> REDIS_ERR_OOM then s4\<lparr>cc_need_update_route := 1\<rparr> else s4) }
                 else Some (Inr reply, upd1, s3) } }"

text \<open>Writing the slot table: an index outside it is a write behind the table.\<close>

definition table_put :: "int \<Rightarrow> addr \<Rightarrow> ('c, 'w, 'z) cluster_scheme \<Rightarrow> ('c, 'w, 'z) cluster_scheme option" where
  "table_put slot node s =
     (if slot < 0 then Some s
      else
        do { table \<leftarrow> cc_table s;
             if nat slot < length table then Some (s\<lparr>cc_table := Some (table[nat slot := Some node])\<rparr>) else None })"

definition exec_moved :: "sdslib \<Rightarrow> 'w hiredis \<Rightarrow> string \<Rightarrow> addr \<Rightarrow> addr option \<Rightarrow> ('c, 'w, 'z) cluster_scheme \<Rightarrow>
    (addr option \<times> addr option \<times> ('c, 'w, 'z) cluster_scheme) option" where
  "exec_moved L H str c upd s =
     do { (node, slot, s1) \<leftarrow> getNodeFromRedirectReply L str True s;
          case node of
            None \<Rightarrow> Some (None, upd, s1)
          | Some n \<Rightarrow>
              do { s2 \<leftarrow> table_put slot n s1;
                   (go, upd1, s3) \<leftarrow>
                     (if upd \<noteq> None then Some (True, upd, s2)
                      else
                        do { (r, t) \<leftarrow> clusterUpdateRouteSendCommand H c s2;
                             if r = REDIS_OK then Some (True, Some c, t)
                             else
                               do { (r2, t2) \<leftarrow> redisClusterUpdateSlotmap L H t;
                                    if r2 = REDIS_OK then Some (True, upd, clear_error t2) else Some (False, upd, t2) } });
                   if \<not> go then Some (None, upd1, s3)
                   else do { (c', s4) \<leftarrow> connect_node H n s3; Some (c', upd1, s4) } } }"

definition exec_ask :: "sdslib \<Rightarrow> 'w hiredis \<Rightarrow> string \<Rightarrow> ('c, 'w, 'z) cluster_scheme \<Rightarrow>
    (addr option \<times> ('c, 'w, 'z) cluster_scheme) option" where
  "exec_ask L H str s =
     do { (node, slot, s1) \<leftarrow> getNodeFromRedirectReply L str False s;
          case node of
            None \<Rightarrow> Some (None, s1)
          | Some n \<Rightarrow>
              do { (c, s2) \<leftarrow> connect_node H n s1;
                   case c of
                     None \<Rightarrow> Some (None, s2)
                   | Some c' \<Rightarrow>
                       do { (reply, s3) \<leftarrow> on_con (redisCommand H [''ASKING'']) c' s2;
                            case reply of
                              None \<Rightarrow> do { s4 \<leftarrow> con_error c' s3; Some (None, s4) }
                            | Some _ \<Rightarrow> Some (Some c', s3) } } }"

text \<open>The switch over the kind of redirection, up to the connection of the next attempt.\<close>

definition exec_redirect :: "sdslib \<Rightarrow> 'w hiredis \<Rightarrow> cmd \<Rightarrow> CLUSTER_ERR_TYPE \<Rightarrow> string \<Rightarrow> addr \<Rightarrow> addr option \<Rightarrow> ('c, 'w, 'z) cluster_scheme \<Rightarrow>
    (addr option \<times> addr option \<times> ('c, 'w, 'z) cluster_scheme) option" where
  "exec_redirect L H command kind str c upd s =
     (case kind of
        CLUSTER_ERR_MOVED \<Rightarrow> exec_moved L H str c upd s
      | CLUSTER_ERR_ASK \<Rightarrow> do { (c', s1) \<leftarrow> exec_ask L H str s; Some (c', upd, s1) }
      | _ \<Rightarrow> do { (c', s1) \<leftarrow> exec_connect L H command s; Some (c', upd, s1) })"

text \<open>
  The loop. A fault ends it, and so does running out of fuel, which the bound on retries excludes; the other
  outcomes are the exits to \<open>error\<close> (without a reply) and to \<open>done\<close>.
\<close>

datatype 'a outcome = FAULT | NO_FUEL | RET 'a

definition redirects :: "CLUSTER_ERR_TYPE option \<Rightarrow> bool" where
  "redirects t \<longleftrightarrow> (case t of None \<Rightarrow> False | Some k \<Rightarrow> k \<noteq> CLUSTER_NOT_ERR \<and> k \<noteq> CLUSTER_ERR_SENTINEL)"

definition error_text :: "redisReply option \<Rightarrow> string" where
  "error_text reply = (case reply of Some (REDIS_REPLY_ERROR str) \<Rightarrow> str | _ \<Rightarrow> [])"

fun exec_loop :: "nat \<Rightarrow> sdslib \<Rightarrow> 'w hiredis \<Rightarrow> cmd \<Rightarrow> addr \<Rightarrow> addr option \<Rightarrow> ('c, 'w, 'z) cluster_scheme \<Rightarrow>
    (redisReply option \<times> addr option \<times> ('c, 'w, 'z) cluster_scheme) outcome" where
  "exec_loop 0 L H command c upd s = NO_FUEL"
| "exec_loop (Suc fuel) L H command c upd s =
     (case exec_request H command c upd s of
        None \<Rightarrow> FAULT
      | Some (Inl _, upd1, s1) \<Rightarrow> RET (None, upd1, s1)
      | Some (Inr reply, upd1, s1) \<Rightarrow>
          (case cluster_reply_error_type reply of
             None \<Rightarrow> RET (reply, upd1, s1)
           | Some kind \<Rightarrow>
               if \<not> redirects (Some kind) then RET (reply, upd1, s1)
               else
                 (let s2 = s1\<lparr>cc_retry_count := cc_retry_count s1 + 1\<rparr>
                  in if cc_retry_count s2 > cc_max_retry_count s2
                     then RET (None, upd1, redisClusterSetError REDIS_ERR_CLUSTER_TOO_MANY_RETRIES ''too many cluster retries'' s2)
                     else
                       (case exec_redirect L H command kind (error_text reply) c upd1 s2 of
                          None \<Rightarrow> FAULT
                        | Some (None, upd2, s3) \<Rightarrow> RET (None, upd2, s3)
                        | Some (Some c', upd2, s3) \<Rightarrow> exec_loop fuel L H command c' upd2 s3))))"

text \<open>The end: the reply of a slot map update that is under way.\<close>

definition exec_done :: "sdslib \<Rightarrow> 'w hiredis \<Rightarrow> redisReply option \<Rightarrow> addr option \<Rightarrow> ('c, 'w, 'z) cluster_scheme \<Rightarrow>
    (redisReply option \<times> ('c, 'w, 'z) cluster_scheme) option" where
  "exec_done L H reply upd s =
     (case upd of
        None \<Rightarrow> Some (reply, s)
      | Some c \<Rightarrow>
          do { (r, s1) \<leftarrow> clusterUpdateRouteHandleReply L H c s;
               if r = REDIS_OK then Some (reply, s1)
               else
                 do { (r2, s2) \<leftarrow> redisClusterUpdateSlotmap L H (clear_error s1);
                      Some (if r2 \<noteq> REDIS_OK then None else reply, s2) } })"

definition retry_fuel :: "('c, 'w, 'z) cluster_scheme \<Rightarrow> nat" where
  "retry_fuel s = Suc (nat (cc_max_retry_count s - cc_retry_count s))"

definition redis_cluster_command_execute :: "sdslib \<Rightarrow> 'w hiredis \<Rightarrow> cmd \<Rightarrow> ('c, 'w, 'z) cluster_scheme \<Rightarrow>
    (redisReply option \<times> ('c, 'w, 'z) cluster_scheme) option" where
  "redis_cluster_command_execute L H command s =
     do { (c, s1) \<leftarrow> exec_connect L H command s;
          case c of
            None \<Rightarrow> Some (None, s1)
          | Some c' \<Rightarrow>
              (case exec_loop (retry_fuel s1) L H command c' None s1 of
                 RET (reply, upd, s2) \<Rightarrow> exec_done L H reply upd s2
               | _ \<Rightarrow> None) }"

end
