(* ===== verification/Pipeline.thy ===== *)
theory Pipeline
  imports Sync_API
begin

text \<open>
  Commands as the user gives them, pipelining and the iterator over nodes (\<^verbatim>\<open>hircluster.c\<close>, lines 2925 to 3593 and
  4504 to 4544). The functions that format a command from a format string are hiredis's: what one of them
  returns, a length (negative on failure) and the text, is an argument.
\<close>

section \<open>One command\<close>

text \<open>Parsing and splitting a command, as all entry points do; the list of sub-commands is one allocation.\<close>

definition prepare_command :: "string \<Rightarrow> int \<Rightarrow> string \<Rightarrow> u64 \<Rightarrow> ('c, 'w, 'z) cluster_scheme \<Rightarrow>
    ((cmd \<times> cmd list) option \<times> u64 \<times> ('c, 'w, 'z) cluster_scheme) option" where
  "prepare_command cmd len num_str cid s =
     (case command_get cid (w_script s) of
        (None, cid1, al1) \<Rightarrow> Some (None, cid1, set_oom (s\<lparr>w_script := al1\<rparr>))
      | (Some command, cid1, al1) \<Rightarrow>
          (case hi_alloc al1 of
             (False, al2) \<Rightarrow> Some (None, cid1, set_oom (s\<lparr>w_script := al2\<rparr>))
           | (True, al2) \<Rightarrow>
               do { (slot_num, s1, command1, commands, cid2, al3) \<leftarrow>
                      command_format_by_slot (s\<lparr>w_script := al2\<rparr>) (command\<lparr>r_cmd := Some cmd, r_clen := word_of_int len\<rparr>) [] num_str cid1 al2;
                    let s2 = s1\<lparr>w_script := al3\<rparr>;
                    if slot_num < 0 then Some (None, cid2, s2)
                    else if slot_num \<ge> int REDIS_CLUSTER_SLOTS
                    then Some (None, cid2, redisClusterSetError REDIS_ERR_OTHER ''slot_num is out of range'' s2)
                    else Some (Some (command1, commands), cid2, s2) }))"

text \<open>
  The sub-commands one after the other: the first that fails or replies with an error ends the loop with that
  reply.
\<close>

fun execute_subs :: "sdslib \<Rightarrow> 'w hiredis \<Rightarrow> cmd list \<Rightarrow> cmd list \<Rightarrow> ('c, 'w, 'z) cluster_scheme \<Rightarrow>
    ((redisReply option + cmd list) \<times> ('c, 'w, 'z) cluster_scheme) option" where
  "execute_subs L H [] answered s = Some (Inr answered, s)"
| "execute_subs L H (sub_command # rest) answered s =
     do { (reply, s1) \<leftarrow> redis_cluster_command_execute L H sub_command s;
          case reply of
            None \<Rightarrow> Some (Inl None, s1)
          | Some (REDIS_REPLY_ERROR str) \<Rightarrow> Some (Inl reply, s1)
          | Some r \<Rightarrow> execute_subs L H rest (answered @ [sub_command\<lparr>r_reply := Some r\<rparr>]) s1 }"

definition redisClusterFormattedCommand :: "sdslib \<Rightarrow> 'w hiredis \<Rightarrow> string \<Rightarrow> int \<Rightarrow> string \<Rightarrow> u64 \<Rightarrow> ('c, 'w, 'z) cluster_scheme \<Rightarrow>
    (redisReply option \<times> u64 \<times> ('c, 'w, 'z) cluster_scheme) option" where
  "redisClusterFormattedCommand L H cmd len num_str cid s =
     do { let s0 = (if cx_err s \<noteq> 0 then clear_error s else s);
          (prepared, cid1, s1) \<leftarrow> prepare_command cmd len num_str cid s0;
          (reply, s2) \<leftarrow>
            (case prepared of
               None \<Rightarrow> Some (None, s1)
             | Some (command, commands) \<Rightarrow>
                 if length commands = 0 then redis_cluster_command_execute L H command s1
                 else
                   do { (answers, t) \<leftarrow> execute_subs L H commands [] s1;
                        Some (case answers of
                                Inl reply \<Rightarrow> (reply, t)
                              | Inr subs \<Rightarrow>
                                  (case command_post_fragment t command subs (w_script t) of
                                     (reply, t1, al) \<Rightarrow> (reply, t1\<lparr>w_script := al\<rparr>))) });
          Some (reply, cid1, s2\<lparr>cc_retry_count := 0\<rparr>) }"

text \<open>The results of formatting; -2 is an invalid format string.\<close>

definition redisClustervCommand :: "sdslib \<Rightarrow> 'w hiredis \<Rightarrow> int \<times> string \<Rightarrow> string \<Rightarrow> u64 \<Rightarrow> ('c, 'w, 'z) cluster_scheme \<Rightarrow>
    (redisReply option \<times> u64 \<times> ('c, 'w, 'z) cluster_scheme) option" where
  "redisClustervCommand L H formatted num_str cid s =
     (let len = fst formatted
      in if len = -1 then Some (None, cid, set_oom s)
         else if len = -2 then Some (None, cid, redisClusterSetError REDIS_ERR_OTHER ''Invalid format string'' s)
         else redisClusterFormattedCommand L H (snd formatted) len num_str cid s)"

definition redisClusterCommandArgv :: "sdslib \<Rightarrow> 'w hiredis \<Rightarrow> int \<times> string \<Rightarrow> string \<Rightarrow> u64 \<Rightarrow> ('c, 'w, 'z) cluster_scheme \<Rightarrow>
    (redisReply option \<times> u64 \<times> ('c, 'w, 'z) cluster_scheme) option" where
  "redisClusterCommandArgv L H formatted num_str cid s =
     (let len = fst formatted
      in if len = -1 then Some (None, cid, set_oom s)
         else redisClusterFormattedCommand L H (snd formatted) len num_str cid s)"

text \<open>A command to a given node, not redirected; \<open>args\<close> are the words the format gives.\<close>

definition redisClustervCommandToNode :: "sdslib \<Rightarrow> 'w hiredis \<Rightarrow> addr \<Rightarrow> string list \<Rightarrow> ('c, 'w, 'z) cluster_scheme \<Rightarrow>
    (redisReply option \<times> ('c, 'w, 'z) cluster_scheme) option" where
  "redisClustervCommandToNode L H node args s =
     do { (c, s1) \<leftarrow> connect_node H node s;
          case c of
            None \<Rightarrow> Some (None, s1)
          | Some c' \<Rightarrow>
              do { let s2 = (if cx_err s1 \<noteq> 0 then clear_error s1 else s1);
                   (ret, s3) \<leftarrow> on_con (redisAppendCommand H args) c' s2;
                   if ret \<noteq> REDIS_OK then do { s4 \<leftarrow> con_error c' s3; Some (None, s4) }
                   else
                     do { (updating, s4) \<leftarrow>
                            (if cc_need_update_route s3 \<noteq> 0 then
                               do { (r, t) \<leftarrow> clusterUpdateRouteSendCommand H c' s3; Some (r = REDIS_OK, t) }
                             else Some (False, s3));
                          ((result, reply), s5) \<leftarrow> on_con (redisGetReply H) c' s4;
                          if result \<noteq> REDIS_OK then
                            do { s6 \<leftarrow> con_error c' s5;
                                 ctx \<leftarrow> con_at s6 c';
                                 Some (None, if rc_err ctx \<noteq> REDIS_ERR_OOM then s6\<lparr>cc_need_update_route := 1\<rparr> else s6) }
                          else if \<not> updating then Some (reply, s5)
                          else
                            do { (r, s6) \<leftarrow> clusterUpdateRouteHandleReply L H c' s5;
                                 Some (reply, if r \<noteq> REDIS_OK then clear_error s6 else s6) } } } }"

section \<open>Pipelining\<close>

definition open_requests :: "('c, 'w, 'z) cluster_scheme \<Rightarrow> bool \<times> ('c, 'w, 'z) cluster_scheme" where
  "open_requests s =
     (case cc_requests s of
        Some _ \<Rightarrow> (True, s)
      | None \<Rightarrow> (case cc_alloc s of (False, s1) \<Rightarrow> (False, s1) | (True, s1) \<Rightarrow> (True, s1\<lparr>cc_requests := Some []\<rparr>)))"

definition push_request :: "'c \<Rightarrow> ('c, 'w, 'z) cluster_scheme \<Rightarrow> int \<times> ('c, 'w, 'z) cluster_scheme" where
  "push_request rq s =
     (case cc_alloc s of
        (False, s1) \<Rightarrow> (REDIS_ERR, set_oom s1)
      | (True, s1) \<Rightarrow> (REDIS_OK, s1\<lparr>cc_requests := map_option (\<lambda>rqs. rqs @ [rq]) (cc_requests s1)\<rparr>))"

fun append_subs :: "'w hiredis \<Rightarrow> cmd list \<Rightarrow> ('c, 'w, 'z) cluster_scheme \<Rightarrow> (int \<times> ('c, 'w, 'z) cluster_scheme) option" where
  "append_subs H [] s = Some (REDIS_OK, s)"
| "append_subs H (sub_command # rest) s =
     do { (r, s1) \<leftarrow> clusterAppendCommand H sub_command s;
          if r \<noteq> REDIS_OK then Some (REDIS_ERR, s1) else append_subs H rest s1 }"

definition redisClusterAppendFormattedCommand :: "'w hiredis \<Rightarrow> string \<Rightarrow> int \<Rightarrow> string \<Rightarrow> u64 \<Rightarrow> (request, 'w, 'z) cluster_scheme \<Rightarrow>
    (int \<times> u64 \<times> (request, 'w, 'z) cluster_scheme) option" where
  "redisClusterAppendFormattedCommand H cmd len num_str cid s =
     (case open_requests s of
        (False, s1) \<Rightarrow> Some (REDIS_ERR, cid, set_oom s1)
      | (True, s1) \<Rightarrow>
          do { (prepared, cid1, s2) \<leftarrow> prepare_command cmd len num_str cid s1;
               case prepared of
                 None \<Rightarrow> Some (REDIS_ERR, cid1, s2)
               | Some (command, commands) \<Rightarrow>
                   do { (r, s3) \<leftarrow> append_subs H (if length commands = 0 then [command] else commands) s2;
                        if r \<noteq> REDIS_OK then Some (REDIS_ERR, cid1, s3)
                        else
                          (case push_request \<lparr>rq_cmd = command\<lparr>r_cmd := None\<rparr>,
                                              rq_sub = (if length commands > 0 then Some commands else None)\<rparr> s3 of
                             (r, s4) \<Rightarrow> Some (r, cid1, s4)) } })"

definition redisClustervAppendCommand :: "'w hiredis \<Rightarrow> int \<times> string \<Rightarrow> string \<Rightarrow> u64 \<Rightarrow> (request, 'w, 'z) cluster_scheme \<Rightarrow>
    (int \<times> u64 \<times> (request, 'w, 'z) cluster_scheme) option" where
  "redisClustervAppendCommand H formatted num_str cid s =
     (let len = fst formatted
      in if len = -1 then Some (REDIS_ERR, cid, set_oom s)
         else if len = -2 then Some (REDIS_ERR, cid, redisClusterSetError REDIS_ERR_OTHER ''Invalid format string'' s)
         else redisClusterAppendFormattedCommand H (snd formatted) len num_str cid s)"

definition redisClusterAppendCommandArgv :: "'w hiredis \<Rightarrow> int \<times> string \<Rightarrow> string \<Rightarrow> u64 \<Rightarrow> (request, 'w, 'z) cluster_scheme \<Rightarrow>
    (int \<times> u64 \<times> (request, 'w, 'z) cluster_scheme) option" where
  "redisClusterAppendCommandArgv H formatted num_str cid s =
     (let len = fst formatted
      in if len = -1 then Some (REDIS_ERR, cid, set_oom s)
         else redisClusterAppendFormattedCommand H (snd formatted) len num_str cid s)"

definition redisClustervAppendCommandToNode :: "'w hiredis \<Rightarrow> addr \<Rightarrow> int \<times> string \<Rightarrow> u64 \<Rightarrow> (request, 'w, 'z) cluster_scheme \<Rightarrow>
    (int \<times> u64 \<times> (request, 'w, 'z) cluster_scheme) option" where
  "redisClustervAppendCommandToNode H node formatted cid s =
     (case open_requests s of
        (False, s1) \<Rightarrow> Some (REDIS_ERR, cid, set_oom s1)
      | (True, s1) \<Rightarrow>
          do { (c, s2) \<leftarrow> connect_node H node s1;
               case c of
                 None \<Rightarrow> Some (REDIS_ERR, cid, s2)
               | Some c' \<Rightarrow>
                   (let len = fst formatted
                    in if len = -1 then Some (REDIS_ERR, cid, set_oom s2)
                       else if len = -2 then Some (REDIS_ERR, cid, redisClusterSetError REDIS_ERR_OTHER ''Invalid format string'' s2)
                       else
                         do { (sent, s3) \<leftarrow> append_on H (take (nat len) (snd formatted)) c' s2;
                              if \<not> sent then Some (REDIS_ERR, cid, s3)
                              else
                                (case command_get cid (w_script s3) of
                                   (None, cid1, al) \<Rightarrow> Some (REDIS_ERR, cid1, set_oom (s3\<lparr>w_script := al\<rparr>))
                                 | (Some command, cid1, al) \<Rightarrow>
                                     do { nd \<leftarrow> node_at s3 node;
                                          address \<leftarrow> n_addr nd;
                                          Some (case sds_copy (cstr address) (s3\<lparr>w_script := al\<rparr>) of
                                                  (None, s4) \<Rightarrow> (REDIS_ERR, cid1, set_oom s4)
                                                | (Some node_addr, s4) \<Rightarrow>
                                                    (case push_request
                                                            \<lparr>rq_cmd = command\<lparr>r_cmd := Some (snd formatted), r_clen := word_of_int len,
                                                                             r_node_addr := Some node_addr\<rparr>,
                                                             rq_sub = None\<rparr> s4 of
                                                       (r, s5) \<Rightarrow> (r, cid1, s5))) }) }) })"

fun get_subs :: "'w hiredis \<Rightarrow> cmd list \<Rightarrow> cmd list \<Rightarrow> ('c, 'w, 'z) cluster_scheme \<Rightarrow>
    (cmd list option \<times> ('c, 'w, 'z) cluster_scheme) option" where
  "get_subs H [] answered s = Some (Some answered, s)"
| "get_subs H (sub_command # rest) answered s =
     (if r_slot_num sub_command < 0
      then Some (None, redisClusterSetError REDIS_ERR_OTHER ''sub_command slot_num is less then zero'' s)
      else
        do { (r, sub_reply, s1) \<leftarrow> clusterGetReply H (r_slot_num sub_command) s;
             if r \<noteq> REDIS_OK then Some (None, s1)
             else get_subs H rest (answered @ [sub_command\<lparr>r_reply := sub_reply\<rparr>]) s1 })"

definition redisClusterGetReply :: "'w hiredis \<Rightarrow> (request, 'w, 'z) cluster_scheme \<Rightarrow>
    (int \<times> redisReply option \<times> (request, 'w, 'z) cluster_scheme) option" where
  "redisClusterGetReply H s =
     (let s0 = clear_error s
      in case cc_requests s0 of
           None \<Rightarrow> Some (REDIS_ERR, None, s0)
         | Some [] \<Rightarrow> Some (REDIS_OK, None, s0)
         | Some (rq # rqs) \<Rightarrow>
             (let command = rq_cmd rq; s1 = s0\<lparr>cc_requests := Some rqs\<rparr>
              in if r_slot_num command \<ge> 0 then clusterGetReply H (r_slot_num command) s1
                 else
                   (case r_node_addr command of
                      Some node_addr \<Rightarrow>
                        do { nodes \<leftarrow> cc_nodes s1;
                             case dictFind nodes node_addr of
                               Some (_, node) \<Rightarrow> clusterGetReplyFromNode H node s1
                             | None \<Rightarrow>
                                 Some (REDIS_ERR, None,
                                   redisClusterSetError REDIS_ERR_OTHER ''command was sent to a now unknown node'' s1) }
                    | None \<Rightarrow>
                        (case rq_sub rq of
                           None \<Rightarrow> Some (REDIS_ERR, None, redisClusterSetError REDIS_ERR_OTHER ''sub_commands in command is null'' s1)
                         | Some commands \<Rightarrow>
                             do { (answers, s2) \<leftarrow> get_subs H commands [] s1;
                                  Some (case answers of
                                          None \<Rightarrow> (REDIS_ERR, None, s2)
                                        | Some subs \<Rightarrow>
                                            (case command_post_fragment s2 command subs (w_script s2) of
                                               (reply, s3, al) \<Rightarrow>
                                                 (if reply = None then REDIS_ERR else REDIS_OK, reply, s3\<lparr>w_script := al\<rparr>))) }))))"

section \<open>Ending a pipeline\<close>

text \<open>
  Writing until the buffer is empty: \<open>write\<close> is \<open>redisBufferWrite(c, &wdone)\<close>. Not returning is the value
  \<open>None\<close>, as is the use of a freed connection.
\<close>

partial_function (option) flush_con :: "(redisContext \<Rightarrow> 'w \<Rightarrow> (int \<times> bool) \<times> redisContext \<times> 'w) \<Rightarrow> addr \<Rightarrow> ('c, 'w, 'z) cluster_scheme \<Rightarrow>
    (int \<times> ('c, 'w, 'z) cluster_scheme) option" where
  "flush_con write c s =
     do { ((r, wdone), s1) \<leftarrow> on_con write c s;
          if r = REDIS_ERR then Some (REDIS_ERR, s1)
          else if wdone then Some (REDIS_OK, s1)
          else flush_con write c s1 }"

declare flush_con.simps [code]

fun send_loop :: "'w hiredis \<Rightarrow> (redisContext \<Rightarrow> 'w \<Rightarrow> (int \<times> bool) \<times> redisContext \<times> 'w) \<Rightarrow> (string \<times> addr) list \<Rightarrow> ('c, 'w, 'z) cluster_scheme \<Rightarrow>
    (int \<times> ('c, 'w, 'z) cluster_scheme) option" where
  "send_loop H write [] s = Some (REDIS_OK, s)"
| "send_loop H write (de # es) s =
     do { (c, s1) \<leftarrow> ctx_get_by_node H (snd de) s;
          case c of
            None \<Rightarrow> send_loop H write es s1
          | Some c' \<Rightarrow>
              do { (r, s2) \<leftarrow> flush_con write c' s1;
                   if r = REDIS_ERR then Some (REDIS_ERR, s2) else send_loop H write es s2 } }"

definition redisClusterSendAll :: "'w hiredis \<Rightarrow> (redisContext \<Rightarrow> 'w \<Rightarrow> (int \<times> bool) \<times> redisContext \<times> 'w) \<Rightarrow> ('c, 'w, 'z) cluster_scheme \<Rightarrow>
    (int \<times> ('c, 'w, 'z) cluster_scheme) option" where
  "redisClusterSendAll H write s =
     (case cc_nodes s of None \<Rightarrow> Some (REDIS_ERR, s) | Some d \<Rightarrow> send_loop H write (dict_iter d) s)"

fun clear_loop :: "(string \<times> addr) list \<Rightarrow> ('c, 'w, 'z) cluster_scheme \<Rightarrow> ('c, 'w, 'z) cluster_scheme option" where
  "clear_loop [] s = Some s"
| "clear_loop (de # es) s =
     do { nd \<leftarrow> node_at s (snd de);
          case n_con nd of
            None \<Rightarrow> clear_loop es s
          | Some c \<Rightarrow> clear_loop es (node_put (snd de) (nd\<lparr>n_con := None\<rparr>) (redisFree (Some c) s)) }"

definition redisClusterClearAll :: "('c, 'w, 'z) cluster_scheme \<Rightarrow> (int \<times> ('c, 'w, 'z) cluster_scheme) option" where
  "redisClusterClearAll s =
     (let s0 = (if cx_err s \<noteq> 0 then clear_error s else s)
      in case cc_nodes s0 of
           None \<Rightarrow> Some (REDIS_ERR, s0)
         | Some d \<Rightarrow> do { s1 \<leftarrow> clear_loop (dict_iter d) s0; Some (REDIS_OK, s1) })"

text \<open>
  Waiting for the outstanding replies. Every round takes one request off the list, so as many rounds as there
  are requests and one more are enough.
\<close>

fun drain :: "nat \<Rightarrow> 'w hiredis \<Rightarrow> (request, 'w, 'z) cluster_scheme \<Rightarrow> (request, 'w, 'z) cluster_scheme outcome" where
  "drain 0 H s = NO_FUEL"
| "drain (Suc fuel) H s =
     (case redisClusterGetReply H s of
        None \<Rightarrow> FAULT
      | Some (status, reply, s1) \<Rightarrow>
          if status \<noteq> REDIS_OK then (case redisClusterClearAll s1 of None \<Rightarrow> FAULT | Some (_, s2) \<Rightarrow> RET s2)
          else if reply = None then RET s1
          else drain fuel H s1)"

definition drain_fuel :: "(request, 'w, 'z) cluster_scheme \<Rightarrow> nat" where
  "drain_fuel s = Suc (case cc_requests s of None \<Rightarrow> 0 | Some rqs \<Rightarrow> length rqs)"

definition redisClusterReset :: "sdslib \<Rightarrow> 'w hiredis \<Rightarrow> (redisContext \<Rightarrow> 'w \<Rightarrow> (int \<times> bool) \<times> redisContext \<times> 'w) \<Rightarrow>
    (request, 'w, 'z) cluster_scheme \<Rightarrow> (request, 'w, 'z) cluster_scheme option" where
  "redisClusterReset L H write s =
     (case cc_nodes s of
        None \<Rightarrow> Some s
      | Some _ \<Rightarrow>
          do { s1 \<leftarrow> (if cx_err s \<noteq> 0 then do { (_, t) \<leftarrow> redisClusterClearAll s; Some t }
                     else
                       do { (_, t) \<leftarrow> redisClusterSendAll H write s;
                            case drain (drain_fuel t) H t of RET t1 \<Rightarrow> Some t1 | _ \<Rightarrow> None });
               let s2 = s1\<lparr>cc_requests := None\<rparr>;
               if cc_need_update_route s2 = 0 then Some s2
               else
                 do { (status, s3) \<leftarrow> redisClusterUpdateSlotmap L H s2;
                      Some (if status \<noteq> REDIS_OK then s3 else s3\<lparr>cc_need_update_route := 0\<rparr>) } })"

section \<open>Iterating over the nodes\<close>

text \<open>The iterator holds the table it walks over, which the client replaces when the slot map changes.\<close>

record redisClusterNodeIterator =
  ni_route_version :: u64
  ni_retries_left :: int
  ni_dict :: "(string, addr) dict"
  ni_di :: "(string, addr) dictIterator"

definition redisClusterInitNodeIterator :: "('c, 'w, 'z) cluster_scheme \<Rightarrow> redisClusterNodeIterator option" where
  "redisClusterInitNodeIterator s =
     do { d \<leftarrow> cc_nodes s;
          Some \<lparr>ni_route_version = cc_route_version s, ni_retries_left = 1, ni_dict = d, ni_di = dictInitIterator\<rparr> }"

definition redisClusterNodeNext :: "('c, 'w, 'z) cluster_scheme \<Rightarrow> redisClusterNodeIterator \<Rightarrow>
    (addr option \<times> redisClusterNodeIterator) option" where
  "redisClusterNodeNext s iter =
     (if ni_retries_left iter \<le> 0 then Some (None, iter)
      else
        do { it \<leftarrow> (if ni_route_version iter \<noteq> cc_route_version s then
                      do { d \<leftarrow> cc_nodes s;
                           Some (iter\<lparr>ni_dict := d, ni_di := dictInitIterator, ni_route_version := cc_route_version s,
                                      ni_retries_left := ni_retries_left iter - 1\<rparr>) }
                    else Some iter);
             Some (case dictNext (ni_dict it) (ni_di it) of
                     (de, di) \<Rightarrow> (map_option snd de, it\<lparr>ni_di := di\<rparr>)) })"

end
