(* ===== verification/Async_API.thy ===== *)
theory Async_API
  imports Pipeline
begin

text \<open>
  The asynchronous interface (\<^verbatim>\<open>hircluster.c\<close>, lines 3597 to 4502): connections of nodes, slot map updates under way,
  and commands whose replies arrive in callbacks.

  An asynchronous context contains a cluster context, \<open>acc_cc\<close>. What hiredis keeps for it, the callbacks of the
  commands that were sent and not yet answered, is the list \<open>acc_pending\<close> of pairs of a connection and a
  callback; hiredis runs the callbacks of one connection in the order in which the commands were sent. The
  calls of user callbacks are recorded in \<open>acc_calls\<close>, each with the reply it was given; a user callback is
  known by a number that stands for the function and its \<open>privdata\<close>, \<open>None\<close> being the null pointer. What a user
  callback does with the context is a later step.

  A connection that is freed while commands are pending on it stays in the list: hiredis runs these callbacks
  without a reply, which is a step of its own.
\<close>

section \<open>State\<close>

record cluster_async_data =
  cad_command :: cmd
  cad_callback :: "nat option"
  cad_retry_count :: int

datatype async_cb = NO_CB | SLOTS_CB | NODES_CB | CMD_CB cluster_async_data

record ('c, 'w) redisClusterAsyncContext =
  acc_cc :: "('c, 'w) cluster"
  acc_err :: int
  acc_errstr :: string
  acc_lastSlotmapUpdateAttempt :: int
  acc_adapter :: bool
  acc_onDisconnect :: bool
  acc_onConnect :: bool
  acc_onConnectNC :: bool
  acc_pending :: "(addr \<times> async_cb) list"
  acc_calls :: "(nat \<times> redisReply option) list"

abbreviation (input) NO_RETRY :: int where "NO_RETRY \<equiv> -1"
abbreviation (input) SLOTMAP_UPDATE_THROTTLE_USEC :: int where "SLOTMAP_UPDATE_THROTTLE_USEC \<equiv> 1000000"
abbreviation (input) SLOTMAP_UPDATE_ONGOING :: int where "SLOTMAP_UPDATE_ONGOING \<equiv> 9223372036854775807"

text \<open>
  The functions of hiredis, of the event library and of the C library, which act on a world. A command is the
  list of its words, or its bytes.
\<close>

record 'w hiredis_async =
  redisAsyncConnectWithOptions :: "string \<Rightarrow> int \<Rightarrow> timeval option \<Rightarrow> timeval option \<Rightarrow> 'w \<Rightarrow> redisAsyncContext option \<times> 'w"
  async_ssl_init_fn :: "redisContext \<Rightarrow> 'w \<Rightarrow> int \<times> redisContext \<times> 'w"
  redisAsyncCommand :: "string list \<Rightarrow> redisAsyncContext \<Rightarrow> 'w \<Rightarrow> int \<times> redisAsyncContext \<times> 'w"
  redisAsyncFormattedCommand :: "string \<Rightarrow> redisAsyncContext \<Rightarrow> 'w \<Rightarrow> int \<times> redisAsyncContext \<times> 'w"
  redisAsyncDisconnect :: "redisAsyncContext \<Rightarrow> 'w \<Rightarrow> unit \<times> redisAsyncContext \<times> 'w"
  attach_fn :: "redisAsyncContext \<Rightarrow> 'w \<Rightarrow> int \<times> redisAsyncContext \<times> 'w"
  gettimeofday :: "'w \<Rightarrow> (int \<times> int) option \<times> 'w"
  c_random :: "'w \<Rightarrow> nat \<times> 'w"

text \<open>An operation of hiredis on a connection; the member \<open>data\<close> belongs to the client.\<close>

definition on_acon :: "(redisAsyncContext \<Rightarrow> 'w \<Rightarrow> 'r \<times> redisAsyncContext \<times> 'w) \<Rightarrow> addr \<Rightarrow> ('c, 'w) redisClusterAsyncContext \<Rightarrow>
    ('r \<times> ('c, 'w) redisClusterAsyncContext) option" where
  "on_acon f a acc =
     (let s = acc_cc acc
      in do { ac \<leftarrow> acon_at s a;
              let (r, ac', w') = f ac (w_world s);
              Some (r, acc\<lparr>acc_cc := s\<lparr>w_acons := (w_acons s)[a := Some (ac'\<lparr>ac_data := ac_data ac\<rparr>)], w_world := w'\<rparr>\<rparr>) })"

text \<open>Sending a command: the callback is pending when hiredis has accepted it.\<close>

definition acon_send :: "(redisAsyncContext \<Rightarrow> 'w \<Rightarrow> int \<times> redisAsyncContext \<times> 'w) \<Rightarrow> async_cb \<Rightarrow> addr \<Rightarrow>
    ('c, 'w) redisClusterAsyncContext \<Rightarrow> (int \<times> ('c, 'w) redisClusterAsyncContext) option" where
  "acon_send f cb a acc =
     do { (r, acc1) \<leftarrow> on_acon f a acc;
          Some (r, if r = REDIS_OK then acc1\<lparr>acc_pending := acc_pending acc1 @ [(a, cb)]\<rparr> else acc1) }"

definition redisAsyncFree :: "addr \<Rightarrow> ('c, 'w) redisClusterAsyncContext \<Rightarrow> ('c, 'w) redisClusterAsyncContext" where
  "redisAsyncFree a acc = acc\<lparr>acc_cc := free_acon (Some a) (acc_cc acc)\<rparr>"

definition usec_now :: "'w hiredis_async \<Rightarrow> ('c, 'w) redisClusterAsyncContext \<Rightarrow> int \<times> ('c, 'w) redisClusterAsyncContext" where
  "usec_now HA acc =
     (case gettimeofday HA (w_world (acc_cc acc)) of
        (tod, w) \<Rightarrow> (hi_usec_now tod, acc\<lparr>acc_cc := (acc_cc acc)\<lparr>w_world := w\<rparr>\<rparr>))"

section \<open>Errors and creation\<close>

definition redisClusterAsyncSetError :: "int \<Rightarrow> string \<Rightarrow> ('c, 'w) redisClusterAsyncContext \<Rightarrow> ('c, 'w) redisClusterAsyncContext" where
  "redisClusterAsyncSetError type str acc =
     (let s = cstr str; len = (if length s < 128 - 1 then length s else 128 - 1)
      in acc\<lparr>acc_err := type, acc_errstr := take len s\<rparr>)"

abbreviation async_oom :: "('c, 'w) redisClusterAsyncContext \<Rightarrow> ('c, 'w) redisClusterAsyncContext" where
  "async_oom acc \<equiv> redisClusterAsyncSetError REDIS_ERR_OOM ''Out of memory'' acc"

text \<open>The error of the cluster context, copied.\<close>

definition copy_cc_error :: "('c, 'w) redisClusterAsyncContext \<Rightarrow> ('c, 'w) redisClusterAsyncContext" where
  "copy_cc_error acc = redisClusterAsyncSetError (cx_err (acc_cc acc)) (cx_errstr (acc_cc acc)) acc"

text \<open>The error of a connection: \<open>ac->err\<close> and \<open>ac->c.err\<close>.\<close>

definition acon_error :: "addr \<Rightarrow> ('c, 'w) redisClusterAsyncContext \<Rightarrow> ('c, 'w) redisClusterAsyncContext option" where
  "acon_error a acc = do { ac \<leftarrow> acon_at (acc_cc acc) a; Some (redisClusterAsyncSetError (ac_err ac) (ac_errstr ac) acc) }"

definition acon_c_error :: "addr \<Rightarrow> ('c, 'w) redisClusterAsyncContext \<Rightarrow> ('c, 'w) redisClusterAsyncContext option" where
  "acon_c_error a acc =
     do { ac \<leftarrow> acon_at (acc_cc acc) a; Some (redisClusterAsyncSetError (rc_err (ac_c ac)) (rc_errstr (ac_c ac)) acc) }"

text \<open>\<open>None\<close> is the null pointer, for which the caller frees the cluster context.\<close>

definition redisClusterAsyncInitialize :: "('c, 'w) cluster \<Rightarrow> ('c, 'w) redisClusterAsyncContext option" where
  "redisClusterAsyncInitialize cc =
     (case cc_alloc cc of
        (False, _) \<Rightarrow> None
      | (True, cc1) \<Rightarrow>
          Some \<lparr>acc_cc = cc1, acc_err = cx_err cc1, acc_errstr = cx_errstr cc1, acc_lastSlotmapUpdateAttempt = 0,
                acc_adapter = False, acc_onDisconnect = False, acc_onConnect = False, acc_onConnectNC = False,
                acc_pending = [], acc_calls = []\<rparr>)"

definition cluster_async_data_create :: "('c, 'w) redisClusterAsyncContext \<Rightarrow> bool \<times> ('c, 'w) redisClusterAsyncContext" where
  "cluster_async_data_create acc = (case cc_alloc (acc_cc acc) of (b, cc) \<Rightarrow> (b, acc\<lparr>acc_cc := cc\<rparr>))"

definition redisClusterAsyncContextInit :: "alloc \<Rightarrow> 'w \<Rightarrow> ('c, 'w) redisClusterAsyncContext option" where
  "redisClusterAsyncContextInit al w =
     (case redisClusterContextInit al w of None \<Rightarrow> None | Some cc \<Rightarrow> redisClusterAsyncInitialize cc)"

definition redisClusterAsyncConnect :: "sdslib \<Rightarrow> 'w hiredis \<Rightarrow> string \<Rightarrow> u32 \<Rightarrow> alloc \<Rightarrow> 'w \<Rightarrow>
    ('c, 'w) redisClusterAsyncContext option option" where
  "redisClusterAsyncConnect L H addrs flags al w =
     do { made \<leftarrow> redisClusterConnect L H addrs flags al w;
          case made of
            None \<Rightarrow> Some None
          | Some cc \<Rightarrow>
              (case redisClusterAsyncInitialize cc of
                 None \<Rightarrow> do { _ \<leftarrow> redisClusterFree cc; Some None }
               | Some acc \<Rightarrow> Some (Some acc)) }"

section \<open>The connection of a node\<close>

definition unlinkAsyncContextAndNode :: "addr option \<Rightarrow> ('c, 'w, 'z) cluster_scheme \<Rightarrow> ('c, 'w, 'z) cluster_scheme option" where
  "unlinkAsyncContextAndNode data s =
     (case data of
        None \<Rightarrow> Some s
      | Some node \<Rightarrow> do { nd \<leftarrow> node_at s node; Some (node_put node (nd\<lparr>n_acon := None\<rparr>) s) })"

text \<open>The steps on a new connection; \<open>False\<close> after an error has been set, on which the connection is freed.\<close>

definition async_ssl_init :: "'w hiredis_async \<Rightarrow> addr \<Rightarrow> ('c, 'w) redisClusterAsyncContext \<Rightarrow>
    (bool \<times> ('c, 'w) redisClusterAsyncContext) option" where
  "async_ssl_init HA a acc =
     (if \<not> cc_ssl (acc_cc acc) then Some (True, acc)
      else
        do { (r, acc1) \<leftarrow> on_acon (\<lambda>ac w. case async_ssl_init_fn HA (ac_c ac) w of (r, c, w') \<Rightarrow> (r, ac\<lparr>ac_c := c\<rparr>, w')) a acc;
             if r \<noteq> REDIS_OK then do { acc2 \<leftarrow> acon_c_error a acc1; Some (False, acc2) } else Some (True, acc1) })"

definition async_authenticate :: "'w hiredis_async \<Rightarrow> addr \<Rightarrow> ('c, 'w) redisClusterAsyncContext \<Rightarrow>
    (bool \<times> ('c, 'w) redisClusterAsyncContext) option" where
  "async_authenticate HA a acc =
     (case cc_password (acc_cc acc) of
        None \<Rightarrow> Some (True, acc)
      | Some password \<Rightarrow>
          do { (r, acc1) \<leftarrow> acon_send (redisAsyncCommand HA (auth_args password (cc_username (acc_cc acc)))) NO_CB a acc;
               if r \<noteq> REDIS_OK then do { acc2 \<leftarrow> acon_c_error a acc1; Some (False, acc2) } else Some (True, acc1) })"

definition async_attach :: "'w hiredis_async \<Rightarrow> addr \<Rightarrow> ('c, 'w) redisClusterAsyncContext \<Rightarrow>
    (bool \<times> ('c, 'w) redisClusterAsyncContext) option" where
  "async_attach HA a acc =
     (if \<not> acc_adapter acc then Some (True, acc)
      else
        do { (r, acc1) \<leftarrow> on_acon (attach_fn HA) a acc;
             Some (if r \<noteq> REDIS_OK
                   then (False, redisClusterAsyncSetError REDIS_ERR_OTHER ''Failed to attach event adapter'' acc1)
                   else (True, acc1)) })"

definition acon_setup :: "'w hiredis_async \<Rightarrow> addr \<Rightarrow> ('c, 'w) redisClusterAsyncContext \<Rightarrow>
    (bool \<times> ('c, 'w) redisClusterAsyncContext) option" where
  "acon_setup HA a acc =
     do { ac \<leftarrow> acon_at (acc_cc acc) a;
          if ac_err ac \<noteq> 0 then Some (False, redisClusterAsyncSetError (ac_err ac) (ac_errstr ac) acc)
          else
            do { (ok, acc1) \<leftarrow> async_ssl_init HA a acc;
                 if \<not> ok then Some (False, acc1)
                 else
                   do { (ok2, acc2) \<leftarrow> async_authenticate HA a acc1;
                        if \<not> ok2 then Some (False, acc2) else async_attach HA a acc2 } } }"

text \<open>Linking a connection and its node.\<close>

definition acon_link :: "addr \<Rightarrow> addr \<Rightarrow> ('c, 'w, 'z) cluster_scheme \<Rightarrow> ('c, 'w, 'z) cluster_scheme option" where
  "acon_link a node s =
     do { ac \<leftarrow> acon_at s a;
          nd \<leftarrow> node_at s node;
          Some (node_put node (nd\<lparr>n_acon := Some a\<rparr>) (s\<lparr>w_acons := (w_acons s)[a := Some (ac\<lparr>ac_data := Some node\<rparr>)]\<rparr>)) }"

definition actx_connect :: "'w hiredis_async \<Rightarrow> addr \<Rightarrow> string \<Rightarrow> ('c, 'w) redisClusterAsyncContext \<Rightarrow>
    (addr option \<times> ('c, 'w) redisClusterAsyncContext) option" where
  "actx_connect HA node host acc =
     (case usec_now HA acc of
        (now, acc1) \<Rightarrow>
          do { nd \<leftarrow> node_at (acc_cc acc1) node;
               let s = node_put node (nd\<lparr>n_lastConnectionAttempt := now\<rparr>) (acc_cc acc1);
               case redisAsyncConnectWithOptions HA host (uint (n_port nd)) (cc_connect_timeout s) (cc_command_timeout s) (w_world s) of
                 (None, w) \<Rightarrow> Some (None, async_oom (acc1\<lparr>acc_cc := s\<lparr>w_world := w\<rparr>\<rparr>))
               | (Some ac, w) \<Rightarrow>
                   (let a = length (w_acons s)
                    in do { (ok, acc2) \<leftarrow>
                              acon_setup HA a (acc1\<lparr>acc_cc := s\<lparr>w_world := w, w_acons := w_acons s @ [Some (ac\<lparr>ac_data := None\<rparr>)]\<rparr>\<rparr>);
                            if \<not> ok then Some (None, redisAsyncFree a acc2)
                            else do { s2 \<leftarrow> acon_link a node (acc_cc acc2); Some (Some a, acc2\<lparr>acc_cc := s2\<rparr>) } }) })"

definition actx_get_by_node :: "'w hiredis_async \<Rightarrow> addr option \<Rightarrow> ('c, 'w) redisClusterAsyncContext \<Rightarrow>
    (addr option \<times> ('c, 'w) redisClusterAsyncContext) option" where
  "actx_get_by_node HA node acc =
     (case node of
        None \<Rightarrow> Some (None, acc)
      | Some n \<Rightarrow>
          do { nd \<leftarrow> node_at (acc_cc acc) n;
               case n_acon nd of
                 Some a \<Rightarrow>
                   do { ac \<leftarrow> acon_at (acc_cc acc) a;
                        Some (if rc_err (ac_c ac) = 0 then (Some a, acc)
                              else (None, redisClusterAsyncSetError (rc_err (ac_c ac)) (rc_errstr (ac_c ac)) acc)) }
               | None \<Rightarrow>
                   (case n_host nd of
                      None \<Rightarrow> Some (None, redisClusterAsyncSetError REDIS_ERR_OTHER ''node host or port is error'' acc)
                    | Some host \<Rightarrow>
                        if n_port nd \<le> 0
                        then Some (None, redisClusterAsyncSetError REDIS_ERR_OTHER ''node host or port is error'' acc)
                        else actx_connect HA n host acc) })"

text \<open>The hooks are opaque; the argument tells whether the given function is not null.\<close>

definition redisClusterAsyncSetConnectCallback :: "bool \<Rightarrow> ('c, 'w) redisClusterAsyncContext \<Rightarrow>
    int \<times> ('c, 'w) redisClusterAsyncContext" where
  "redisClusterAsyncSetConnectCallback fn acc =
     (if acc_onConnect acc then (REDIS_ERR, acc)
      else if acc_onConnectNC acc then (REDIS_ERR, acc)
      else (REDIS_OK, acc\<lparr>acc_onConnect := fn\<rparr>))"

definition redisClusterAsyncSetConnectCallbackNC :: "bool \<Rightarrow> ('c, 'w) redisClusterAsyncContext \<Rightarrow>
    int \<times> ('c, 'w) redisClusterAsyncContext" where
  "redisClusterAsyncSetConnectCallbackNC fn acc =
     (if acc_onConnectNC acc \<or> acc_onConnect acc then (REDIS_ERR, acc) else (REDIS_OK, acc\<lparr>acc_onConnectNC := fn\<rparr>))"

definition redisClusterAsyncSetDisconnectCallback :: "bool \<Rightarrow> ('c, 'w) redisClusterAsyncContext \<Rightarrow>
    int \<times> ('c, 'w) redisClusterAsyncContext" where
  "redisClusterAsyncSetDisconnectCallback fn acc =
     (if \<not> acc_onDisconnect acc then (REDIS_OK, acc\<lparr>acc_onDisconnect := fn\<rparr>) else (REDIS_ERR, acc))"

section \<open>Slot map updates\<close>

definition nodeIsConnected :: "addr \<Rightarrow> ('c, 'w, 'z) cluster_scheme \<Rightarrow> bool option" where
  "nodeIsConnected n s =
     do { nd \<leftarrow> node_at s n;
          case n_acon nd of
            None \<Rightarrow> Some False
          | Some a \<Rightarrow> do { ac \<leftarrow> acon_at s a; Some (ac_err ac = 0 \<and> ac_connected ac) } }"

definition selectedConnected :: "addr option \<Rightarrow> ('c, 'w, 'z) cluster_scheme \<Rightarrow> bool option" where
  "selectedConnected selected s = (case selected of None \<Rightarrow> Some False | Some n \<Rightarrow> nodeIsConnected n s)"

fun select_loop :: "int \<Rightarrow> nat \<Rightarrow> nat \<Rightarrow> addr option \<Rightarrow> (string \<times> addr) list \<Rightarrow> ('c, 'w, 'z) cluster_scheme \<Rightarrow> addr option option" where
  "select_loop throttleLimit checkIndex currentIndex selected [] s = Some selected"
| "select_loop throttleLimit checkIndex currentIndex selected (de # es) s =
     (let node = snd de
      in do { nd \<leftarrow> node_at s node;
              con \<leftarrow> nodeIsConnected node s;
              selcon \<leftarrow> selectedConnected selected s;
              let selected' =
                (if con then Some node
                 else if n_lastConnectionAttempt nd < throttleLimit \<and> (selected = None \<or> (currentIndex < checkIndex \<and> \<not> selcon))
                 then Some node else selected);
              selcon' \<leftarrow> selectedConnected selected' s;
              if currentIndex \<ge> checkIndex \<and> selected' \<noteq> None \<and> selcon' then Some selected'
              else select_loop throttleLimit checkIndex (currentIndex + 1) selected' es s })"

text \<open>An empty table of nodes is a division by zero.\<close>

definition selectNode :: "'w hiredis_async \<Rightarrow> (string, addr) dict \<Rightarrow> ('c, 'w) redisClusterAsyncContext \<Rightarrow>
    (addr option \<times> ('c, 'w) redisClusterAsyncContext) option" where
  "selectNode HA nodes acc =
     (case usec_now HA acc of
        (now, acc1) \<Rightarrow>
          (case c_random HA (w_world (acc_cc acc1)) of
             (rnd, w) \<Rightarrow>
               (let throttleLimit = now - SLOTMAP_UPDATE_THROTTLE_USEC; acc2 = acc1\<lparr>acc_cc := (acc_cc acc1)\<lparr>w_world := w\<rparr>\<rparr>
                in if d_used nodes = 0 then None
                   else
                     do { selected \<leftarrow> select_loop throttleLimit (rnd mod d_used nodes) 0 None (dict_iter nodes) (acc_cc acc2);
                          Some (selected, acc2) })))"

definition stamp_attempt :: "'w hiredis_async \<Rightarrow> ('c, 'w) redisClusterAsyncContext \<Rightarrow> ('c, 'w) redisClusterAsyncContext" where
  "stamp_attempt HA acc = (case usec_now HA acc of (now, acc1) \<Rightarrow> acc1\<lparr>acc_lastSlotmapUpdateAttempt := now\<rparr>)"

text \<open>The connection to ask: the given one, or that of a selected node.\<close>

definition update_acon :: "'w hiredis_async \<Rightarrow> addr option \<Rightarrow> ('c, 'w) redisClusterAsyncContext \<Rightarrow>
    (addr option \<times> ('c, 'w) redisClusterAsyncContext) option" where
  "update_acon HA ac acc =
     (case ac of
        Some a \<Rightarrow> Some (Some a, acc)
      | None \<Rightarrow>
          (case cc_nodes (acc_cc acc) of
             None \<Rightarrow> Some (None, redisClusterAsyncSetError REDIS_ERR_OTHER ''no nodes added'' acc)
           | Some nodes \<Rightarrow>
               do { (node, acc1) \<leftarrow> selectNode HA nodes acc;
                    case node of None \<Rightarrow> Some (None, acc1) | Some n \<Rightarrow> actx_get_by_node HA (Some n) acc1 }))"

definition updateSlotMapAsync :: "'w hiredis_async \<Rightarrow> addr option \<Rightarrow> ('c, 'w) redisClusterAsyncContext \<Rightarrow>
    (int \<times> ('c, 'w) redisClusterAsyncContext) option" where
  "updateSlotMapAsync HA ac acc =
     (if acc_lastSlotmapUpdateAttempt acc = SLOTMAP_UPDATE_ONGOING then Some (REDIS_ERR, acc)
      else if has_flag HIRCLUSTER_FLAG_SHUTDOWN (acc_cc acc) then Some (REDIS_ERR, acc)
      else
        do { (chosen, acc1) \<leftarrow> update_acon HA ac acc;
             case chosen of
               None \<Rightarrow> Some (REDIS_ERR, stamp_attempt HA acc1)
             | Some a \<Rightarrow>
                 do { (status, acc2) \<leftarrow>
                        (if has_flag HIRCLUSTER_FLAG_ROUTE_USE_SLOTS (acc_cc acc1)
                         then acon_send (redisAsyncCommand HA [''CLUSTER'', ''SLOTS'']) SLOTS_CB a acc1
                         else acon_send (redisAsyncCommand HA [''CLUSTER'', ''NODES'']) NODES_CB a acc1);
                      Some (if status = REDIS_OK then (REDIS_OK, acc2\<lparr>acc_lastSlotmapUpdateAttempt := SLOTMAP_UPDATE_ONGOING\<rparr>)
                            else (REDIS_ERR, stamp_attempt HA acc2)) } })"

definition redisClusterAsyncConnect2 :: "'w hiredis_async \<Rightarrow> ('c, 'w) redisClusterAsyncContext \<Rightarrow>
    (int \<times> ('c, 'w) redisClusterAsyncContext) option" where
  "redisClusterAsyncConnect2 HA acc = (if \<not> acc_adapter acc then Some (REDIS_ERR, acc) else updateSlotMapAsync HA None acc)"

definition throttledUpdateSlotMapAsync :: "'w hiredis_async \<Rightarrow> addr option \<Rightarrow> ('c, 'w) redisClusterAsyncContext \<Rightarrow>
    ('c, 'w) redisClusterAsyncContext option" where
  "throttledUpdateSlotMapAsync HA ac acc =
     (if acc_lastSlotmapUpdateAttempt acc = SLOTMAP_UPDATE_ONGOING then Some acc
      else
        (case usec_now HA acc of
           (now, acc1) \<Rightarrow>
             if acc_lastSlotmapUpdateAttempt acc1 + SLOTMAP_UPDATE_THROTTLE_USEC < now
             then do { (_, acc2) \<leftarrow> updateSlotMapAsync HA ac acc1; Some acc2 }
             else Some acc1))"

text \<open>The nodes of a reply: the end of both reply callbacks.\<close>

definition take_nodes :: "'w hiredis_async \<Rightarrow> (string, addr) dict option \<Rightarrow> ('c, 'w) cluster \<Rightarrow> ('c, 'w) redisClusterAsyncContext \<Rightarrow>
    ('c, 'w) redisClusterAsyncContext option" where
  "take_nodes HA nodes cc acc =
     do { (r, cc1) \<leftarrow> updateNodesAndSlotmap nodes cc;
          if r \<noteq> REDIS_OK then do { (_, acc1) \<leftarrow> updateSlotMapAsync HA None (acc\<lparr>acc_cc := cc1\<rparr>); Some acc1 }
          else Some (acc\<lparr>acc_cc := cc1\<rparr>) }"

definition clusterSlotsReplyCallback :: "sdslib \<Rightarrow> 'w hiredis_async \<Rightarrow> redisAsyncContext \<Rightarrow> redisReply option \<Rightarrow>
    ('c, 'w) redisClusterAsyncContext \<Rightarrow> ('c, 'w) redisClusterAsyncContext option" where
  "clusterSlotsReplyCallback L HA ac reply acc =
     (let acc1 = stamp_attempt HA acc
      in case reply of
           None \<Rightarrow> do { (_, acc2) \<leftarrow> updateSlotMapAsync HA None acc1; Some acc2 }
         | Some r \<Rightarrow>
             do { (nodes, cc) \<leftarrow> parse_cluster_slots L (rc_host (ac_c ac)) (Some r) (acc_cc acc1);
                  take_nodes HA nodes cc acc1 })"

text \<open>The text of a reply: \<open>str\<close> is null and \<open>len\<close> zero in one that has none.\<close>

definition reply_str :: "redisReply \<Rightarrow> string" where
  "reply_str r =
     (case r of REDIS_REPLY_STRING str \<Rightarrow> str | REDIS_REPLY_STATUS str \<Rightarrow> str | REDIS_REPLY_ERROR str \<Rightarrow> str | _ \<Rightarrow> [])"

definition clusterNodesReplyCallback :: "sdslib \<Rightarrow> 'w hiredis_async \<Rightarrow> redisAsyncContext \<Rightarrow> redisReply option \<Rightarrow>
    ('c, 'w) redisClusterAsyncContext \<Rightarrow> ('c, 'w) redisClusterAsyncContext option" where
  "clusterNodesReplyCallback L HA ac reply acc =
     (let acc1 = stamp_attempt HA acc
      in case reply of
           None \<Rightarrow> do { (_, acc2) \<leftarrow> updateSlotMapAsync HA None acc1; Some acc2 }
         | Some r \<Rightarrow>
             do { (nodes, cc) \<leftarrow> parse_cluster_nodes L (rc_host (ac_c ac)) (reply_str r) (acc_cc acc1);
                  take_nodes HA nodes cc acc1 })"

section \<open>Replies to commands\<close>

text \<open>From the label \<open>done\<close>: a null callback is a call of the null pointer.\<close>

definition async_finish :: "cluster_async_data \<Rightarrow> redisReply option \<Rightarrow> ('c, 'w) redisClusterAsyncContext \<Rightarrow>
    ('c, 'w) redisClusterAsyncContext option" where
  "async_finish cad r acc =
     do { callback \<leftarrow> cad_callback cad;
          let acc1 = acc\<lparr>acc_calls := acc_calls acc @ [(callback, if acc_err acc \<noteq> 0 then None else r)]\<rparr>;
          let acc2 = (if cx_err (acc_cc acc1) \<noteq> 0 then acc1\<lparr>acc_cc := clear_error (acc_cc acc1)\<rparr> else acc1);
          Some (if acc_err acc2 \<noteq> 0 then acc2\<lparr>acc_err := 0, acc_errstr := ''''\<rparr> else acc2) }"

text \<open>How the switch over the redirections ends; the connection of a retry is a pointer that may be null.\<close>

datatype retry_exit = GOTO_DONE | GOTO_RETRY "addr option" | GOTO_ERR

definition async_moved :: "sdslib \<Rightarrow> 'w hiredis_async \<Rightarrow> string \<Rightarrow> addr \<Rightarrow> ('c, 'w) redisClusterAsyncContext \<Rightarrow>
    (retry_exit \<times> ('c, 'w) redisClusterAsyncContext) option" where
  "async_moved L HA str a acc =
     do { acc1 \<leftarrow> throttledUpdateSlotMapAsync HA (Some a) acc;
          (node, slot, cc) \<leftarrow> getNodeFromRedirectReply L str True (acc_cc acc1);
          case node of
            None \<Rightarrow> Some (GOTO_DONE, copy_cc_error (acc1\<lparr>acc_cc := cc\<rparr>))
          | Some n \<Rightarrow>
              do { cc1 \<leftarrow> table_put slot n cc;
                   (ac_retry, acc2) \<leftarrow> actx_get_by_node HA (Some n) (acc1\<lparr>acc_cc := cc1\<rparr>);
                   Some (GOTO_RETRY ac_retry, acc2) } }"

definition async_ask :: "sdslib \<Rightarrow> 'w hiredis_async \<Rightarrow> string \<Rightarrow> ('c, 'w) redisClusterAsyncContext \<Rightarrow>
    (retry_exit \<times> ('c, 'w) redisClusterAsyncContext) option" where
  "async_ask L HA str acc =
     do { (node, slot, cc) \<leftarrow> getNodeFromRedirectReply L str False (acc_cc acc);
          case node of
            None \<Rightarrow> Some (GOTO_DONE, copy_cc_error (acc\<lparr>acc_cc := cc\<rparr>))
          | Some n \<Rightarrow>
              do { (ac_retry, acc1) \<leftarrow> actx_get_by_node HA (Some n) (acc\<lparr>acc_cc := cc\<rparr>);
                   case ac_retry of
                     None \<Rightarrow> Some (GOTO_DONE, acc1)
                   | Some a \<Rightarrow>
                       do { (ret, acc2) \<leftarrow> acon_send (redisAsyncCommand HA [''ASKING'']) NO_CB a acc1;
                            Some (if ret \<noteq> REDIS_OK then GOTO_ERR else GOTO_RETRY (Some a), acc2) } } }"

definition async_redirect :: "sdslib \<Rightarrow> 'w hiredis_async \<Rightarrow> CLUSTER_ERR_TYPE \<Rightarrow> string \<Rightarrow> addr \<Rightarrow> ('c, 'w) redisClusterAsyncContext \<Rightarrow>
    (retry_exit \<times> ('c, 'w) redisClusterAsyncContext) option" where
  "async_redirect L HA kind str a acc =
     (case kind of
        CLUSTER_ERR_MOVED \<Rightarrow> async_moved L HA str a acc
      | CLUSTER_ERR_ASK \<Rightarrow> async_ask L HA str acc
      | CLUSTER_ERR_TRYAGAIN \<Rightarrow> Some (GOTO_RETRY (Some a), acc)
      | CLUSTER_ERR_CLUSTERDOWN \<Rightarrow> Some (GOTO_RETRY (Some a), acc)
      | _ \<Rightarrow> Some (GOTO_DONE, acc))"

text \<open>From the label \<open>retry\<close>: a refused command goes to \<open>error\<close>, which frees it.\<close>

definition async_retry :: "'w hiredis_async \<Rightarrow> cluster_async_data \<Rightarrow> addr option \<Rightarrow> ('c, 'w) redisClusterAsyncContext \<Rightarrow>
    ('c, 'w) redisClusterAsyncContext option" where
  "async_retry HA cad ac_retry acc =
     do { a \<leftarrow> ac_retry;
          (ret, acc1) \<leftarrow> acon_send (redisAsyncFormattedCommand HA (cmd_bytes (cad_command cad))) (CMD_CB cad) a acc;
          Some acc1 }"

text \<open>The null checks of the arguments always pass: the callback is sent with its data, its context and command.\<close>

definition redisClusterAsyncCallback :: "sdslib \<Rightarrow> 'w hiredis_async \<Rightarrow> addr \<Rightarrow> redisAsyncContext \<Rightarrow> redisReply option \<Rightarrow>
    cluster_async_data \<Rightarrow> ('c, 'w) redisClusterAsyncContext \<Rightarrow> ('c, 'w) redisClusterAsyncContext option" where
  "redisClusterAsyncCallback L HA a ac reply cad acc =
     (case reply of
        None \<Rightarrow>
          (let acc1 = redisClusterAsyncSetError (ac_err ac) (ac_errstr ac) acc
           in case ac_data ac of
                None \<Rightarrow> async_finish cad None acc1
              | Some _ \<Rightarrow> do { acc2 \<leftarrow> throttledUpdateSlotMapAsync HA None acc1; async_finish cad None acc2 })
      | Some r \<Rightarrow>
          if cad_retry_count cad = NO_RETRY \<or> has_flag HIRCLUSTER_FLAG_SHUTDOWN (acc_cc acc) then async_finish cad reply acc
          else
            (case cluster_reply_error_type reply of
               None \<Rightarrow> async_finish cad reply acc
             | Some kind \<Rightarrow>
                 if \<not> redirects (Some kind) then async_finish cad reply acc
                 else
                   (let cad1 = cad\<lparr>cad_retry_count := cad_retry_count cad + 1\<rparr>
                    in if cad_retry_count cad1 > cc_max_retry_count (acc_cc acc)
                       then async_finish (cad1\<lparr>cad_retry_count := 0\<rparr>) reply
                              (redisClusterAsyncSetError REDIS_ERR_CLUSTER_TOO_MANY_RETRIES ''too many cluster retries'' acc)
                       else
                         do { (exit, acc1) \<leftarrow> async_redirect L HA kind (error_text reply) a acc;
                              case exit of
                                GOTO_DONE \<Rightarrow> async_finish cad1 reply acc1
                              | GOTO_ERR \<Rightarrow> Some acc1
                              | GOTO_RETRY ac_retry \<Rightarrow> async_retry HA cad1 ac_retry acc1 })))"

section \<open>Commands\<close>

definition async_clear_errors :: "('c, 'w) redisClusterAsyncContext \<Rightarrow> ('c, 'w) redisClusterAsyncContext" where
  "async_clear_errors acc =
     (let acc1 = (if cx_err (acc_cc acc) \<noteq> 0 then acc\<lparr>acc_cc := clear_error (acc_cc acc)\<rparr> else acc)
      in if acc_err acc1 \<noteq> 0 then acc1\<lparr>acc_err := 0, acc_errstr := ''''\<rparr> else acc1)"

text \<open>A copy of the command; \<open>None\<close> when memory is short.\<close>

definition async_copy_command :: "string \<Rightarrow> int \<Rightarrow> u64 \<Rightarrow> ('c, 'w) redisClusterAsyncContext \<Rightarrow>
    cmd option \<times> u64 \<times> ('c, 'w) redisClusterAsyncContext" where
  "async_copy_command cmd len cid acc =
     (case command_get cid (w_script (acc_cc acc)) of
        (None, cid1, al1) \<Rightarrow> (None, cid1, acc\<lparr>acc_cc := (acc_cc acc)\<lparr>w_script := al1\<rparr>\<rparr>)
      | (Some command, cid1, al1) \<Rightarrow>
          (case hi_alloc al1 of
             (ok, al2) \<Rightarrow>
               (if ok then Some (command\<lparr>r_cmd := Some (take (nat len) cmd), r_clen := word_of_int len\<rparr>) else None,
                cid1, acc\<lparr>acc_cc := (acc_cc acc)\<lparr>w_script := al2\<rparr>\<rparr>)))"

text \<open>Parsing the copy and checking that one slot holds all its keys; \<open>None\<close> after an error has been set.\<close>

definition async_slot :: "cmd \<Rightarrow> string \<Rightarrow> u64 \<Rightarrow> ('c, 'w) redisClusterAsyncContext \<Rightarrow>
    ((cmd \<times> int) option \<times> u64 \<times> ('c, 'w) redisClusterAsyncContext) option" where
  "async_slot command num_str cid acc =
     (case cc_alloc (acc_cc acc) of
        (False, cc) \<Rightarrow> Some (None, cid, async_oom (acc\<lparr>acc_cc := cc\<rparr>))
      | (True, cc) \<Rightarrow>
          do { (slot_num, cc1, command1, commands, cid1, al) \<leftarrow> command_format_by_slot cc command [] num_str cid (w_script cc);
               let acc1 = acc\<lparr>acc_cc := cc1\<lparr>w_script := al\<rparr>\<rparr>;
               Some (if slot_num < 0 then (None, cid1, copy_cc_error acc1)
                     else if slot_num \<ge> int REDIS_CLUSTER_SLOTS
                     then (None, cid1, redisClusterAsyncSetError REDIS_ERR_OTHER ''slot_num is out of range'' acc1)
                     else if length commands > 0
                     then (None, cid1, redisClusterAsyncSetError REDIS_ERR_OTHER ''Asynchronous API now not support multi-key command'' acc1)
                     else (Some (command1, slot_num), cid1, acc1)) })"

text \<open>Handing a command to hiredis with its data.\<close>

definition async_submit :: "'w hiredis_async \<Rightarrow> string \<Rightarrow> cluster_async_data \<Rightarrow> addr \<Rightarrow> ('c, 'w) redisClusterAsyncContext \<Rightarrow>
    (int \<times> ('c, 'w) redisClusterAsyncContext) option" where
  "async_submit HA bytes cad a acc =
     do { (status, acc1) \<leftarrow> acon_send (redisAsyncFormattedCommand HA bytes) (CMD_CB cad) a acc;
          if status \<noteq> REDIS_OK then do { acc2 \<leftarrow> acon_error a acc1; Some (REDIS_ERR, acc2) }
          else Some (REDIS_OK, acc1) }"

definition redisClusterAsyncFormattedCommand :: "'w hiredis_async \<Rightarrow> nat option \<Rightarrow> string \<Rightarrow> int \<Rightarrow> string \<Rightarrow> u64 \<Rightarrow>
    ('c, 'w) redisClusterAsyncContext \<Rightarrow> (int \<times> u64 \<times> ('c, 'w) redisClusterAsyncContext) option" where
  "redisClusterAsyncFormattedCommand HA fn cmd len num_str cid acc =
     (if has_flag HIRCLUSTER_FLAG_SHUTDOWN (acc_cc acc)
      then Some (REDIS_ERR, cid, redisClusterAsyncSetError REDIS_ERR_OTHER ''client closing'' acc)
      else
        (case async_copy_command cmd len cid (async_clear_errors acc) of
           (None, cid1, acc1) \<Rightarrow> Some (REDIS_ERR, cid1, async_oom acc1)
         | (Some command, cid1, acc1) \<Rightarrow>
             do { (parsed, cid2, acc2) \<leftarrow> async_slot command num_str cid1 acc1;
                  case parsed of
                    None \<Rightarrow> Some (REDIS_ERR, cid2, acc2)
                  | Some (command1, slot_num) \<Rightarrow>
                      (case node_get_by_table (word_of_int slot_num) (acc_cc acc2) of
                         (None, cc) \<Rightarrow>
                           do { acc3 \<leftarrow> throttledUpdateSlotMapAsync HA None (acc2\<lparr>acc_cc := cc\<rparr>);
                                Some (REDIS_ERR, cid2, copy_cc_error acc3) }
                       | (Some node, cc) \<Rightarrow>
                           do { (ac, acc3) \<leftarrow> actx_get_by_node HA (Some node) (acc2\<lparr>acc_cc := cc\<rparr>);
                                case ac of
                                  None \<Rightarrow> Some (REDIS_ERR, cid2, acc3)
                                | Some a \<Rightarrow>
                                    (case cluster_async_data_create acc3 of
                                       (False, acc4) \<Rightarrow> Some (REDIS_ERR, cid2, async_oom acc4)
                                     | (True, acc4) \<Rightarrow>
                                         do { (r, acc5) \<leftarrow>
                                                async_submit HA (take (nat len) cmd)
                                                  \<lparr>cad_command = command1, cad_callback = fn, cad_retry_count = 0\<rparr> a acc4;
                                              Some (r, cid2, acc5) }) }) }))"

definition redisClusterAsyncFormattedCommandToNode :: "'w hiredis_async \<Rightarrow> addr option \<Rightarrow> nat option \<Rightarrow> string \<Rightarrow> int \<Rightarrow> u64 \<Rightarrow>
    ('c, 'w) redisClusterAsyncContext \<Rightarrow> (int \<times> u64 \<times> ('c, 'w) redisClusterAsyncContext) option" where
  "redisClusterAsyncFormattedCommandToNode HA node fn cmd len cid acc =
     (if has_flag HIRCLUSTER_FLAG_SHUTDOWN (acc_cc acc)
      then Some (REDIS_ERR, cid, redisClusterAsyncSetError REDIS_ERR_OTHER ''disconnecting'' acc)
      else
        do { (ac, acc1) \<leftarrow> actx_get_by_node HA node acc;
             case ac of
               None \<Rightarrow> Some (REDIS_ERR, cid, acc1)
             | Some a \<Rightarrow>
                 (let oom = redisClusterAsyncSetError REDIS_ERR_OTHER ''Out of memory''
                  in case async_copy_command cmd len cid (async_clear_errors acc1) of
                       (None, cid1, acc2) \<Rightarrow> Some (REDIS_ERR, cid1, oom acc2)
                     | (Some command, cid1, acc2) \<Rightarrow>
                         (case cluster_async_data_create acc2 of
                            (False, acc3) \<Rightarrow> Some (REDIS_ERR, cid1, oom acc3)
                          | (True, acc3) \<Rightarrow>
                              do { (r, acc4) \<leftarrow>
                                     async_submit HA (take (nat len) cmd)
                                       \<lparr>cad_command = command, cad_callback = fn, cad_retry_count = NO_RETRY\<rparr> a acc3;
                                   Some (r, cid1, acc4) })) })"

text \<open>The other entry points format the command first; what hiredis returns is an argument.\<close>

definition redisClustervAsyncCommand :: "'w hiredis_async \<Rightarrow> nat option \<Rightarrow> int \<times> string \<Rightarrow> string \<Rightarrow> u64 \<Rightarrow>
    ('c, 'w) redisClusterAsyncContext \<Rightarrow> (int \<times> u64 \<times> ('c, 'w) redisClusterAsyncContext) option" where
  "redisClustervAsyncCommand HA fn formatted num_str cid acc =
     (let len = fst formatted
      in if len = -1 then Some (REDIS_ERR, cid, async_oom acc)
         else if len = -2 then Some (REDIS_ERR, cid, redisClusterAsyncSetError REDIS_ERR_OTHER ''Invalid format string'' acc)
         else redisClusterAsyncFormattedCommand HA fn (snd formatted) len num_str cid acc)"

definition redisClusterAsyncCommand :: "'w hiredis_async \<Rightarrow> nat option \<Rightarrow> int \<times> string \<Rightarrow> string \<Rightarrow> u64 \<Rightarrow>
    ('c, 'w) redisClusterAsyncContext \<Rightarrow> (int \<times> u64 \<times> ('c, 'w) redisClusterAsyncContext) option" where
  "redisClusterAsyncCommand HA fn formatted num_str cid acc = redisClustervAsyncCommand HA fn formatted num_str cid acc"

definition redisClusterAsyncCommandToNode :: "'w hiredis_async \<Rightarrow> addr option \<Rightarrow> nat option \<Rightarrow> int \<times> string \<Rightarrow> u64 \<Rightarrow>
    ('c, 'w) redisClusterAsyncContext \<Rightarrow> (int \<times> u64 \<times> ('c, 'w) redisClusterAsyncContext) option" where
  "redisClusterAsyncCommandToNode HA node fn formatted cid acc =
     (let len = fst formatted
      in if len = -1 then Some (REDIS_ERR, cid, redisClusterAsyncSetError REDIS_ERR_OTHER ''Out of memory'' acc)
         else if len = -2 then Some (REDIS_ERR, cid, redisClusterAsyncSetError REDIS_ERR_OTHER ''Invalid format string'' acc)
         else redisClusterAsyncFormattedCommandToNode HA node fn (snd formatted) len cid acc)"

definition redisClusterAsyncCommandArgv :: "'w hiredis_async \<Rightarrow> nat option \<Rightarrow> int \<times> string \<Rightarrow> string \<Rightarrow> u64 \<Rightarrow>
    ('c, 'w) redisClusterAsyncContext \<Rightarrow> (int \<times> u64 \<times> ('c, 'w) redisClusterAsyncContext) option" where
  "redisClusterAsyncCommandArgv HA fn formatted num_str cid acc =
     (let len = fst formatted
      in if len = -1 then Some (REDIS_ERR, cid, async_oom acc)
         else redisClusterAsyncFormattedCommand HA fn (snd formatted) len num_str cid acc)"

definition redisClusterAsyncCommandArgvToNode :: "'w hiredis_async \<Rightarrow> addr option \<Rightarrow> nat option \<Rightarrow> int \<times> string \<Rightarrow> u64 \<Rightarrow>
    ('c, 'w) redisClusterAsyncContext \<Rightarrow> (int \<times> u64 \<times> ('c, 'w) redisClusterAsyncContext) option" where
  "redisClusterAsyncCommandArgvToNode HA node fn formatted cid acc =
     (let len = fst formatted
      in if len = -1 then Some (REDIS_ERR, cid, async_oom acc)
         else redisClusterAsyncFormattedCommandToNode HA node fn (snd formatted) len cid acc)"

section \<open>Shutdown\<close>

fun disconnect_loop :: "'w hiredis_async \<Rightarrow> (string \<times> addr) list \<Rightarrow> ('c, 'w) redisClusterAsyncContext \<Rightarrow>
    ('c, 'w) redisClusterAsyncContext option" where
  "disconnect_loop HA [] acc = Some acc"
| "disconnect_loop HA (de # es) acc =
     do { nd \<leftarrow> node_at (acc_cc acc) (snd de);
          case n_acon nd of
            None \<Rightarrow> disconnect_loop HA es acc
          | Some a \<Rightarrow> do { (_, acc1) \<leftarrow> on_acon (redisAsyncDisconnect HA) a acc; disconnect_loop HA es acc1 } }"

definition async_shutdown :: "('c, 'w) redisClusterAsyncContext \<Rightarrow> ('c, 'w) redisClusterAsyncContext" where
  "async_shutdown acc = acc\<lparr>acc_cc := snd (set_flag HIRCLUSTER_FLAG_SHUTDOWN (acc_cc acc))\<rparr>"

definition redisClusterAsyncDisconnect :: "'w hiredis_async \<Rightarrow> ('c, 'w) redisClusterAsyncContext \<Rightarrow>
    ('c, 'w) redisClusterAsyncContext option" where
  "redisClusterAsyncDisconnect HA acc =
     (let acc1 = async_shutdown acc
      in case cc_nodes (acc_cc acc1) of None \<Rightarrow> Some acc1 | Some nodes \<Rightarrow> disconnect_loop HA (dict_iter nodes) acc1)"

section \<open>What hiredis calls\<close>

text \<open>The first pending callback of a connection.\<close>

fun take_pending :: "addr \<Rightarrow> (addr \<times> async_cb) list \<Rightarrow> (async_cb \<times> (addr \<times> async_cb) list) option" where
  "take_pending a [] = None"
| "take_pending a ((b, cb) # ps) =
     (if b = a then Some (cb, ps)
      else (case take_pending a ps of None \<Rightarrow> None | Some (cb', qs) \<Rightarrow> Some (cb', (b, cb) # qs)))"

definition run_callback :: "sdslib \<Rightarrow> 'w hiredis_async \<Rightarrow> addr \<Rightarrow> redisAsyncContext \<Rightarrow> redisReply option \<Rightarrow> async_cb \<Rightarrow>
    ('c, 'w) redisClusterAsyncContext \<Rightarrow> ('c, 'w) redisClusterAsyncContext option" where
  "run_callback L HA a ac reply cb acc =
     (case cb of
        NO_CB \<Rightarrow> Some acc
      | SLOTS_CB \<Rightarrow> clusterSlotsReplyCallback L HA ac reply acc
      | NODES_CB \<Rightarrow> clusterNodesReplyCallback L HA ac reply acc
      | CMD_CB cad \<Rightarrow> redisClusterAsyncCallback L HA a ac reply cad acc)"

definition deliver :: "sdslib \<Rightarrow> 'w hiredis_async \<Rightarrow> addr \<Rightarrow> redisAsyncContext \<Rightarrow> redisReply option \<Rightarrow>
    ('c, 'w) redisClusterAsyncContext \<Rightarrow> ('c, 'w) redisClusterAsyncContext option" where
  "deliver L HA a ac reply acc =
     do { (cb, ps) \<leftarrow> take_pending a (acc_pending acc);
          run_callback L HA a ac reply cb (acc\<lparr>acc_pending := ps\<rparr>) }"

text \<open>The end of a connection on which nothing is pending: its \<open>dataCleanup\<close>, then it is freed.\<close>

definition acon_cleanup :: "addr \<Rightarrow> ('c, 'w) redisClusterAsyncContext \<Rightarrow> ('c, 'w) redisClusterAsyncContext option" where
  "acon_cleanup a acc =
     do { ac \<leftarrow> acon_at (acc_cc acc) a;
          cc \<leftarrow> unlinkAsyncContextAndNode (ac_data ac) (acc_cc acc);
          Some (acc\<lparr>acc_cc := cc\<lparr>w_acons := (w_acons cc)[a := None]\<rparr>\<rparr>) }"

text \<open>
  Freeing the context frees its connections, for each of which hiredis runs the pending callbacks, the node being
  detached. \<open>lost\<close> are the connections with their last contents.
\<close>

fun drop_pending :: "sdslib \<Rightarrow> 'w hiredis_async \<Rightarrow> (addr \<Rightarrow> redisAsyncContext) \<Rightarrow> (addr \<times> async_cb) list \<Rightarrow>
    ('c, 'w) redisClusterAsyncContext \<Rightarrow> ('c, 'w) redisClusterAsyncContext option" where
  "drop_pending L HA lost [] acc = Some acc"
| "drop_pending L HA lost ((a, cb) # ps) acc =
     do { acc1 \<leftarrow> run_callback L HA a ((lost a)\<lparr>ac_data := None\<rparr>) None cb acc; drop_pending L HA lost ps acc1 }"

text \<open>The connections that are freed, in that order: those logged as freed since \<open>s\<close>.\<close>

definition freed_acons :: "('c, 'w, 'z) cluster_scheme \<Rightarrow> ('c, 'w, 'z) cluster_scheme \<Rightarrow> addr list" where
  "freed_acons s t = concat (map (\<lambda>e. case e of ASYNC_FREE a \<Rightarrow> [a] | _ \<Rightarrow> []) (drop (length (w_log s)) (w_log t)))"

definition redisClusterAsyncFree :: "sdslib \<Rightarrow> 'w hiredis_async \<Rightarrow> ('c, 'w) redisClusterAsyncContext \<Rightarrow>
    ('c, 'w) redisClusterAsyncContext option" where
  "redisClusterAsyncFree L HA acc =
     (let acc1 = async_shutdown acc; s = acc_cc acc1
      in do { t \<leftarrow> redisClusterFree s;
              let calls = concat (map (\<lambda>a. filter (\<lambda>p. fst p = a) (acc_pending acc1)) (freed_acons s t));
              let rest = filter (\<lambda>p. fst p \<notin> set (freed_acons s t)) (acc_pending acc1);
              drop_pending L HA (\<lambda>a. the (acon_at s a)) calls (acc1\<lparr>acc_cc := t, acc_pending := rest\<rparr>) })"

section \<open>Attaching an event library\<close>

text \<open>The five adapters store the event loop, or refuse a null pointer, and register their function \<open>attach_fn\<close>.\<close>

definition adapter_attach :: "bool \<Rightarrow> ('c, 'w) redisClusterAsyncContext \<Rightarrow> int \<times> ('c, 'w) redisClusterAsyncContext" where
  "adapter_attach loop acc = (if \<not> loop then (REDIS_ERR, acc) else (REDIS_OK, acc\<lparr>acc_adapter := True\<rparr>))"

definition redisClusterAeAttach :: "bool \<Rightarrow> ('c, 'w) redisClusterAsyncContext \<Rightarrow> int \<times> ('c, 'w) redisClusterAsyncContext" where
  "redisClusterAeAttach loop acc = adapter_attach loop acc"

definition redisClusterGlibAttach :: "bool \<Rightarrow> ('c, 'w) redisClusterAsyncContext \<Rightarrow> int \<times> ('c, 'w) redisClusterAsyncContext" where
  "redisClusterGlibAttach adapter acc = adapter_attach adapter acc"

definition redisClusterLibevAttach :: "bool \<Rightarrow> ('c, 'w) redisClusterAsyncContext \<Rightarrow> int \<times> ('c, 'w) redisClusterAsyncContext" where
  "redisClusterLibevAttach loop acc = adapter_attach loop acc"

definition redisClusterLibeventAttach :: "bool \<Rightarrow> ('c, 'w) redisClusterAsyncContext \<Rightarrow> int \<times> ('c, 'w) redisClusterAsyncContext" where
  "redisClusterLibeventAttach base acc = adapter_attach base acc"

definition redisClusterLibuvAttach :: "bool \<Rightarrow> ('c, 'w) redisClusterAsyncContext \<Rightarrow> int \<times> ('c, 'w) redisClusterAsyncContext" where
  "redisClusterLibuvAttach loop acc = adapter_attach loop acc"

definition redisClusterSetOptionEnableSSL :: "bool \<Rightarrow> ('c, 'w, 'z) cluster_scheme \<Rightarrow> int \<times> ('c, 'w, 'z) cluster_scheme" where
  "redisClusterSetOptionEnableSSL ssl s = (if \<not> ssl then (REDIS_ERR, s) else (REDIS_OK, s\<lparr>cc_ssl := True\<rparr>))"

section \<open>The steps of a client\<close>

text \<open>
  A step is a call of the user, or something that hiredis does: it changes a connection, runs a callback of a live
  connection with a reply or without one, ends a connection, or runs a callback of a connection that has been
  freed. The world may change between steps. A step is labelled with the callbacks of the commands it accepts.
\<close>

definition accepted :: "int \<Rightarrow> nat option \<Rightarrow> nat option list" where
  "accepted r fn = (if r = REDIS_OK then [fn] else [])"

inductive async_step :: "sdslib \<Rightarrow> 'w hiredis_async \<Rightarrow> ('c, 'w) redisClusterAsyncContext \<Rightarrow> nat option list \<Rightarrow>
    ('c, 'w) redisClusterAsyncContext \<Rightarrow> bool"
  for L HA where
  command: "redisClusterAsyncFormattedCommand HA fn cmd len num_str cid acc = Some (r, cid', acc') \<Longrightarrow>
     async_step L HA acc (accepted r fn) acc'"
| command_to_node: "redisClusterAsyncFormattedCommandToNode HA node fn cmd len cid acc = Some (r, cid', acc') \<Longrightarrow>
     async_step L HA acc (accepted r fn) acc'"
| connect: "redisClusterAsyncConnect2 HA acc = Some (r, acc') \<Longrightarrow> async_step L HA acc [] acc'"
| disconnect: "redisClusterAsyncDisconnect HA acc = Some acc' \<Longrightarrow> async_step L HA acc [] acc'"
| world: "async_step L HA acc [] (acc\<lparr>acc_cc := (acc_cc acc)\<lparr>w_world := w\<rparr>\<rparr>)"
| hiredis: "on_acon (\<lambda>ac w. ((), f ac, w)) a acc = Some (r, acc') \<Longrightarrow> async_step L HA acc [] acc'"
| reply: "acon_at (acc_cc acc) a = Some ac \<Longrightarrow> deliver L HA a ac r acc = Some acc' \<Longrightarrow> async_step L HA acc [] acc'"
| cleanup: "take_pending a (acc_pending acc) = None \<Longrightarrow> acon_cleanup a acc = Some acc' \<Longrightarrow> async_step L HA acc [] acc'"
| dropped: "acon_at (acc_cc acc) a = None \<Longrightarrow> ac_data ac = None \<Longrightarrow> deliver L HA a ac None acc = Some acc' \<Longrightarrow>
     async_step L HA acc [] acc'"

inductive async_run :: "sdslib \<Rightarrow> 'w hiredis_async \<Rightarrow> ('c, 'w) redisClusterAsyncContext \<Rightarrow> nat option list \<Rightarrow>
    ('c, 'w) redisClusterAsyncContext \<Rightarrow> bool"
  for L HA where
  start: "async_run L HA acc [] acc"
| more: "async_run L HA acc fns acc' \<Longrightarrow> async_step L HA acc' gs acc'' \<Longrightarrow> async_run L HA acc (fns @ gs) acc''"

inductive_cases async_stepE: "async_step L HA acc gs acc'"

end
