(* ===== verification/Frame.thy ===== *)
theory Frame
  imports Pipeline
begin

text \<open>
  What no step of an update or of a command changes: the options of the context, the number of retries and
  the outstanding requests. The facts hold for every operation that returns, from any state, for any reply and
  any behaviour of hiredis; they bound the number of retries and the rounds of the loops over requests.
\<close>

definition settings :: "('c, 'w, 'z) cluster_scheme \<Rightarrow> u32 \<times> int \<times> int \<times> 'c list option \<times> string option \<times> string option" where
  "settings s = (cc_flags s, cc_max_retry_count s, cc_retry_count s, cc_requests s, cc_username s, cc_password s)"

named_theorems keeps \<open>operations that keep the settings\<close>

lemma settings_simps [simp]:
  "settings (redisClusterSetError e m s) = settings s" "settings (node_put n nd s) = settings s" "settings (cc_log ev s) = settings s"
  "settings (s\<lparr>w_script := al\<rparr>) = settings s" "settings (s\<lparr>w_nodes := ns\<rparr>) = settings s" "settings (redisFree c s) = settings s"
  "settings (free_acon ac s) = settings s" "settings (release_node a nd s) = settings s" "settings (clear_error s) = settings s"
  "settings (con_put a ctx s) = settings s" "settings (s\<lparr>w_world := w\<rparr>) = settings s" "settings (s\<lparr>w_cons := cs\<rparr>) = settings s"
  "settings (s\<lparr>w_acons := as\<rparr>) = settings s" "settings (s\<lparr>cc_nodes := ds\<rparr>) = settings s" "settings (s\<lparr>cc_table := tab\<rparr>) = settings s"
  "settings (s\<lparr>cc_route_version := v\<rparr>) = settings s" "settings (s\<lparr>cc_need_update_route := b\<rparr>) = settings s"
  by (simp_all add: settings_def redisClusterSetError_def Let_def node_put_def cc_log_def redisFree_def free_acon_def release_node_def
      clear_error_def con_put_def split: option.splits)

lemmas keeps_splits = option.split_asm prod.split_asm if_split_asm bool.split_asm

lemma bind_SomeE: "Option.bind m f = Some r \<Longrightarrow> (\<And>z. m = Some z \<Longrightarrow> f z = Some r \<Longrightarrow> P) \<Longrightarrow> P"
  by (cases m) simp_all

section \<open>Nodes and the CLUSTER SLOTS reply\<close>

lemma cc_alloc_keeps [keeps]: "cc_alloc s = (b, t) \<Longrightarrow> settings t = settings s"
  by (auto elim!: bind_SomeE simp: cc_alloc_def split: keeps_splits)

lemma sds_copy_keeps [keeps]: "sds_copy str s = (r, t) \<Longrightarrow> settings t = settings s"
  by (auto elim!: bind_SomeE simp: sds_copy_def split: keeps_splits dest!: keeps)

lemma sds_cat_keeps [keeps]: "sds_cat L str port s = (r, t) \<Longrightarrow> settings t = settings s"
  by (auto elim!: bind_SomeE simp: sds_cat_def split: keeps_splits)

lemma sds_split_keeps [keeps]: "sds_split L str sep s = (r, t) \<Longrightarrow> settings t = settings s"
  by (auto elim!: bind_SomeE simp: sds_split_def split: keeps_splits)

lemma cc_dictAdd_keeps [keeps]: "cc_dictAdd d k n s = Some (st, d', t) \<Longrightarrow> settings t = settings s"
  by (auto elim!: bind_SomeE simp: cc_dictAdd_def split: keeps_splits)

lemma cc_dictCreate_keeps [keeps]: "cc_dictCreate ty s = (d, t) \<Longrightarrow> settings t = settings s"
  by (auto elim!: bind_SomeE simp: cc_dictCreate_def split: keeps_splits)

lemma createRedisClusterNode_keeps [keeps]: "createRedisClusterNode s = (r, t) \<Longrightarrow> settings t = settings s"
  by (auto elim!: bind_SomeE simp: createRedisClusterNode_def split: keeps_splits dest!: keeps)

lemma free_nodes_keeps [keeps]: "free_nodes as s = Some t \<Longrightarrow> settings t = settings s"
  by (induction as s rule: free_nodes.induct) (auto elim!: bind_SomeE split: keeps_splits)

lemma freeRedisClusterNode_keeps [keeps]: "freeRedisClusterNode a s = Some t \<Longrightarrow> settings t = settings s"
  by (auto elim!: bind_SomeE simp: freeRedisClusterNode_def simp del: free_nodes.simps dest!: keeps)

lemma release_nodes_dict_keeps [keeps]: "release_nodes_dict d s = Some t \<Longrightarrow> settings t = settings s"
  by (auto elim!: bind_SomeE simp: release_nodes_dict_def simp del: free_nodes.simps dest!: keeps)

lemma slots_append_keeps [keeps]: "slots_append n nd slot s = (b, t) \<Longrightarrow> settings t = settings s"
  by (auto elim!: bind_SomeE simp: slots_append_def Let_def split: keeps_splits dest!: keeps)

lemma cluster_slot_create_keeps [keeps]: "cluster_slot_create node s = Some (r, t) \<Longrightarrow> settings t = settings s"
  by (auto elim!: bind_SomeE simp: cluster_slot_create_def Let_def split: keeps_splits dest!: keeps)

lemma cluster_slot_ref_node_keeps [keeps]: "cluster_slot_ref_node slot node s = Some (r, t) \<Longrightarrow> settings t = settings s"
  by (auto elim!: bind_SomeE simp: cluster_slot_ref_node_def split: keeps_splits dest!: keeps)

lemma slots_node_fields_keeps [keeps]: "slots_node_fields L host port role s = (r, t) \<Longrightarrow> settings t = settings s"
  by (auto elim!: bind_SomeE simp: slots_node_fields_def split: keeps_splits dest!: keeps)

lemma node_get_with_slots_keeps [keeps]: "node_get_with_slots L host port role s = (r, t) \<Longrightarrow> settings t = settings s"
  by (auto elim!: bind_SomeE simp: node_get_with_slots_def oom_free_node_def split: keeps_splits dest!: keeps)

lemma ref_master_keeps [keeps]: "ref_master m fl v s = Some (fl', v', t) \<Longrightarrow> settings t = settings s"
  by (auto elim!: bind_SomeE simp: ref_master_def split: keeps_splits dest!: keeps)

lemma slots_add_master_keeps [keeps]: "slots_add_master L host port v s = Some (fl, v', t) \<Longrightarrow> settings t = settings s"
  by (auto elim!: bind_SomeE simp: slots_add_master_def split: keeps_splits dest!: keeps)

lemma slots_master_keeps [keeps]: "slots_master L host port v s = Some (fl, v', t) \<Longrightarrow> settings t = settings s"
  by (auto elim!: bind_SomeE simp: slots_master_def split: keeps_splits dest!: keeps)

lemma slots_slave_keeps [keeps]: "slots_slave L host port v s = Some (fl, v', t) \<Longrightarrow> settings t = settings s"
  by (auto elim!: bind_SomeE simp: slots_slave_def Let_def split: keeps_splits dest!: keeps)

lemma slots_node_keeps [keeps]: "slots_node L h i e v s = Some (fl, v', t) \<Longrightarrow> settings t = settings s"
  by (auto elim!: bind_SomeE simp: slots_node_def split: keeps_splits redisReply.split_asm list.split_asm dest!: keeps)

lemma slots_elem_keeps [keeps]: "slots_elem L h i e v s = Some (fl, v', t) \<Longrightarrow> settings t = settings s"
  by (auto elim!: bind_SomeE simp: slots_elem_def Let_def split: keeps_splits redisReply.split_asm dest!: keeps)

lemma slots_region_keeps [keeps]: "slots_region L h i es v s = Some (fl, v', t) \<Longrightarrow> settings t = settings s"
  by (induction es arbitrary: i v s) (auto elim!: bind_SomeE split: keeps_splits flow.split_asm dest!: keeps)

lemma slots_loop_keeps [keeps]: "slots_loop L h es v s = Some (fl, v', t) \<Longrightarrow> settings t = settings s"
  by (induction es arbitrary: v s) (auto elim!: bind_SomeE split: keeps_splits flow.split_asm redisReply.split_asm dest!: keeps)

lemma slots_exit_keeps [keeps]: "slots_exit fl v s = Some (r, t) \<Longrightarrow> settings t = settings s"
  by (auto elim!: bind_SomeE simp: slots_exit_def split: keeps_splits flow.split_asm dest!: keeps)

lemma parse_cluster_slots_keeps [keeps]: "parse_cluster_slots L h r s = Some (d, t) \<Longrightarrow> settings t = settings s"
  by (auto simp del: slots_loop.simps elim!: bind_SomeE simp: parse_cluster_slots_def Let_def split: keeps_splits redisReply.split_asm list.split_asm dest!: keeps)

section \<open>The CLUSTER NODES reply\<close>

lemma error_free_node_keeps [keeps]: "error_free_node n s = Some (r, t) \<Longrightarrow> settings t = settings s"
  by (auto elim!: bind_SomeE simp: error_free_node_def dest!: keeps)

lemma nodes_addr_host_keeps [keeps]: "nodes_addr_host L h info p port s = (r, t) \<Longrightarrow> settings t = settings s"
  by (auto simp: nodes_addr_host_def split: keeps_splits dest!: keeps)

lemma node_get_with_nodes_keeps [keeps]: "node_get_with_nodes L h infos role s = Some (r, t) \<Longrightarrow> settings t = settings s"
  by (auto simp: node_get_with_nodes_def Let_def split: keeps_splits dest!: keeps)

lemma move_slaves_keeps [keeps]: "move_slaves xs to s = (b, ys, zs, t) \<Longrightarrow> settings t = settings s"
  by (induction xs arbitrary: to s) (auto split: keeps_splits dest!: keeps)

lemma adopt_slaves_keeps [keeps]: "adopt_slaves node nd node_old old s = (b, t) \<Longrightarrow> settings t = settings s"
  by (auto simp: adopt_slaves_def Let_def split: keeps_splits dest!: keeps)

lemma add_slave_keeps [keeps]: "add_slave node node_old old s = (b, t) \<Longrightarrow> settings t = settings s"
  by (auto simp: add_slave_def Let_def split: keeps_splits dest!: keeps)

lemma mapping_found_keeps [keeps]: "mapping_found names m node node_old s = Some (r, names', t) \<Longrightarrow> settings t = settings s"
  by (auto elim!: bind_SomeE simp: mapping_found_def oom_mapping_def split: keeps_splits dest!: keeps)

lemma cluster_master_slave_mapping_keeps [keeps]:
  "cluster_master_slave_mapping_with_name nodes node m s = Some (r, names, t) \<Longrightarrow> settings t = settings s"
  by (auto elim!: bind_SomeE simp: cluster_master_slave_mapping_with_name_def oom_mapping_def split: keeps_splits dest!: keeps)

lemma cluster_open_slot_create_keeps [keeps]: "cluster_open_slot_create i mg name node s = (r, t) \<Longrightarrow> settings t = settings s"
  by (auto simp: cluster_open_slot_create_def split: keeps_splits dest!: keeps)

lemma push_open_slot_keeps [keeps]: "push_open_slot arr oslot s = Some (b, arr', t) \<Longrightarrow> settings t = settings s"
  by (auto elim!: bind_SomeE simp: push_open_slot_def split: keeps_splits)

lemma nodes_open_slot_keeps [keeps]: "nodes_open_slot m i mg name s = Some (fl, t) \<Longrightarrow> settings t = settings s"
  by (auto elim!: bind_SomeE simp: nodes_open_slot_def Let_def split: keeps_splits dest!: keeps)

lemma nodes_open_field_keeps [keeps]: "nodes_open_field L m xs s = Some (fl, t) \<Longrightarrow> settings t = settings s"
  by (auto simp: nodes_open_field_def Let_def split: keeps_splits list.split_asm dest!: keeps)

lemma slot_write_keeps [keeps]: "slot_write n a b s = Some t \<Longrightarrow> settings t = settings s"
  by (auto elim!: bind_SomeE simp: slot_write_def split: keeps_splits)

lemma nodes_slot_field_keeps [keeps]: "nodes_slot_field L m f found s = Some (fl, found', t) \<Longrightarrow> settings t = settings s"
  by (auto elim!: bind_SomeE simp: nodes_slot_field_def split: keeps_splits list.split_asm dest!: keeps)

lemma nodes_slots_keeps [keeps]: "nodes_slots L m fs found s = Some (fl, found', t) \<Longrightarrow> settings t = settings s"
  by (induction fs arbitrary: found s) (auto elim!: bind_SomeE split: keeps_splits dest!: keeps)

lemma nodes_master_line_keeps [keeps]: "nodes_master_line L h part v s = Some (fl, v', t) \<Longrightarrow> settings t = settings s"
  by (auto elim!: bind_SomeE simp: nodes_master_line_def Let_def split: keeps_splits dest!: keeps)

lemma nodes_slave_line_keeps [keeps]: "nodes_slave_line L h part v s = Some (fl, v', t) \<Longrightarrow> settings t = settings s"
  by (auto elim!: bind_SomeE simp: nodes_slave_line_def Let_def split: keeps_splits dest!: keeps)

lemma nodes_line_keeps [keeps]: "nodes_line L h line v s = Some (fl, v', t) \<Longrightarrow> settings t = settings s"
  by (auto simp: nodes_line_def Let_def split: keeps_splits dest!: keeps)

lemma nodes_loop_keeps [keeps]: "nodes_loop L h str pos start v s = Some (fl, v', t) \<Longrightarrow> settings t = settings s"
proof (induction L h str pos start v s rule: nodes_loop.induct)
  case (1 L h str pos start v s)
  let ?line = "nodes_line L h (take (pos - start) (drop start str)) v s"
  note eq = 1(3) [unfolded nodes_loop.simps [of L h str pos start v s]]
  show ?case
  proof (cases "pos < length str")
    case False
    with eq show ?thesis by simp
  next
    case in_text: True
    show ?thesis
    proof (cases "str ! pos = LF")
      case False
      with eq in_text 1(2) show ?thesis by simp
    next
      case True
      then obtain fl1 v1 s1 where l: "?line = Some (fl1, v1, s1)" using eq in_text by (auto split: option.split_asm)
      note k = nodes_line_keeps [OF l]
      show ?thesis
      proof (cases "fl1 = NEXT")
        case True
        with eq in_text \<open>str ! pos = LF\<close> l have "nodes_loop L h str (pos + 1 + 1) (pos + 1) v1 s1 = Some (fl, v', t)" by simp
        with 1(1) [OF _ \<open>str ! pos = LF\<close> l refl refl True] in_text k show ?thesis by simp
      next
        case False
        with eq in_text \<open>str ! pos = LF\<close> l k show ?thesis by simp
      qed
    qed
  qed
qed

lemma parse_cluster_nodes_keeps [keeps]: "parse_cluster_nodes L h str s = Some (d, t) \<Longrightarrow> settings t = settings s"
  by (auto elim!: bind_SomeE simp: parse_cluster_nodes_def nodes_exit_def split: keeps_splits dest!: keeps)

section \<open>The slot map\<close>

lemma set_acon_data_keeps [keeps]: "set_acon_data a n s = Some t \<Longrightarrow> settings t = settings s"
  by (auto elim!: bind_SomeE simp: set_acon_data_def split: keeps_splits)

lemma swap_node_keeps [keeps]: "swap_node d n s = Some t \<Longrightarrow> settings t = settings s"
  by (auto elim!: bind_SomeE simp: swap_node_def Let_def split: keeps_splits dest!: keeps)

lemma swap_loop_keeps [keeps]: "swap_loop d es s = Some t \<Longrightarrow> settings t = settings s"
  by (induction es arbitrary: s) (auto elim!: bind_SomeE dest!: keeps)

lemma cluster_nodes_swap_ctx_keeps [keeps]: "cluster_nodes_swap_ctx f d s = Some t \<Longrightarrow> settings t = settings s"
  by (auto simp: cluster_nodes_swap_ctx_def split: keeps_splits dest!: keeps)

lemma update_events_settings [simp]: "settings (update_events s) = settings s"
  by (simp add: update_events_def Let_def)

lemma updateNodesAndSlotmap_keeps [keeps]: "updateNodesAndSlotmap nodes s = Some (r, t) \<Longrightarrow> settings t = settings s"
  by (auto elim!: bind_SomeE simp: updateNodesAndSlotmap_def Let_def split: keeps_splits sum.split_asm dest!: keeps)

lemma on_con_keeps [keeps]: "on_con f c s = Some (r, t) \<Longrightarrow> settings t = settings s"
  by (auto elim!: bind_SomeE simp: on_con_def Let_def split: keeps_splits)

lemma con_error_keeps [keeps]: "con_error c s = Some t \<Longrightarrow> settings t = settings s"
  by (auto elim!: bind_SomeE simp: con_error_def)

lemma connect_host_keeps [keeps]: "connect_host H host port s = (c, t) \<Longrightarrow> settings t = settings s"
  by (auto simp: connect_host_def Let_def split: keeps_splits)

lemma ssl_init_keeps [keeps]: "ssl_init H c s = Some (r, t) \<Longrightarrow> settings t = settings s"
  by (auto elim!: bind_SomeE simp: ssl_init_def split: keeps_splits dest!: keeps)

lemma authenticate_keeps [keeps]: "authenticate H c s = Some (r, t) \<Longrightarrow> settings t = settings s"
  by (auto elim!: bind_SomeE simp: authenticate_def split: keeps_splits redisReply.split_asm dest!: keeps)

lemma clusterUpdateRouteSendCommand_keeps [keeps]: "clusterUpdateRouteSendCommand H c s = Some (r, t) \<Longrightarrow> settings t = settings s"
  by (auto elim!: bind_SomeE simp: clusterUpdateRouteSendCommand_def Let_def split: keeps_splits dest!: keeps)

lemma reply_failed_keeps [keeps]: "reply_failed what c s = Some (r, t) \<Longrightarrow> settings t = settings s"
  by (auto elim!: bind_SomeE simp: reply_failed_def split: keeps_splits)

lemma reply_mistyped_keeps [keeps]: "reply_mistyped msg reply s = (r, t) \<Longrightarrow> settings t = settings s"
  by (auto simp: reply_mistyped_def split: redisReply.split_asm)

lemma handleClusterSlotsReply_keeps [keeps]: "handleClusterSlotsReply L H c s = Some (r, t) \<Longrightarrow> settings t = settings s"
  by (auto elim!: bind_SomeE simp: handleClusterSlotsReply_def split: keeps_splits redisReply.split_asm dest!: keeps)

lemma handleClusterNodesReply_keeps [keeps]: "handleClusterNodesReply L H c s = Some (r, t) \<Longrightarrow> settings t = settings s"
  by (auto elim!: bind_SomeE simp: handleClusterNodesReply_def split: keeps_splits redisReply.split_asm dest!: keeps)

lemma clusterUpdateRouteHandleReply_keeps [keeps]: "clusterUpdateRouteHandleReply L H c s = Some (r, t) \<Longrightarrow> settings t = settings s"
  by (auto simp: clusterUpdateRouteHandleReply_def split: keeps_splits dest!: keeps)

lemma update_route_on_keeps [keeps]: "update_route_on L H c s = Some (r, t) \<Longrightarrow> settings t = settings s"
  by (auto elim!: bind_SomeE simp: update_route_on_def split: keeps_splits dest!: keeps)

lemma cluster_update_route_by_addr_keeps [keeps]: "cluster_update_route_by_addr L H ip port s = Some (r, t) \<Longrightarrow> settings t = settings s"
  by (auto elim!: bind_SomeE simp: cluster_update_route_by_addr_def split: keeps_splits dest!: keeps)

lemma update_loop_keeps [keeps]: "update_loop L H es b s = Some (r, t) \<Longrightarrow> settings t = settings s"
  by (induction es arbitrary: b s) (auto elim!: bind_SomeE split: keeps_splits dest!: keeps)

lemma redisClusterUpdateSlotmap_keeps [keeps]: "redisClusterUpdateSlotmap L H s = Some (r, t) \<Longrightarrow> settings t = settings s"
  by (auto simp: redisClusterUpdateSlotmap_def split: keeps_splits dest!: keeps)

section \<open>Commands\<close>

lemma ctx_get_by_node_keeps [keeps]: "ctx_get_by_node H n s = Some (c, t) \<Longrightarrow> settings t = settings s"
  by (auto elim!: bind_SomeE simp: ctx_get_by_node_def Let_def split: keeps_splits dest!: keeps)

lemma node_get_by_table_keeps [keeps]: "node_get_by_table i s = (n, t) \<Longrightarrow> settings t = settings s"
  by (auto simp: node_get_by_table_def split: keeps_splits)

lemma usable_keeps [keeps]: "usable c s = Some (b, t) \<Longrightarrow> settings t = settings s"
  by (auto elim!: bind_SomeE simp: usable_def split: keeps_splits dest!: keeps)

lemma append_on_keeps [keeps]: "append_on H bytes c s = Some (b, t) \<Longrightarrow> settings t = settings s"
  by (auto elim!: bind_SomeE simp: append_on_def split: keeps_splits dest!: keeps)

lemma clusterAppendCommand_keeps [keeps]: "clusterAppendCommand H command s = Some (r, t) \<Longrightarrow> settings t = settings s"
  by (auto elim!: bind_SomeE simp: clusterAppendCommand_def split: keeps_splits dest!: keeps)

lemma add_redirect_node_keeps [keeps]: "add_redirect_node d e p s = Some (n, t) \<Longrightarrow> settings t = settings s"
  by (auto elim!: bind_SomeE simp: add_redirect_node_def oom_free_node_def Let_def split: keeps_splits dest!: keeps)

lemma getNodeFromRedirectReply_keeps [keeps]: "getNodeFromRedirectReply L str b s = Some (n, i, t) \<Longrightarrow> settings t = settings s"
  by (auto elim!: bind_SomeE simp: getNodeFromRedirectReply_def Let_def split: keeps_splits dest!: keeps)

lemma node_after_update_keeps [keeps]: "node_after_update L H command s = Some (n, t) \<Longrightarrow> settings t = settings s"
  by (auto elim!: bind_SomeE simp: node_after_update_def split: keeps_splits dest!: keeps)

lemma connect_node_keeps [keeps]: "connect_node H n s = Some (c, t) \<Longrightarrow> settings t = settings s"
  by (auto elim!: bind_SomeE simp: connect_node_def split: keeps_splits dest!: keeps)

lemma exec_connect_keeps [keeps]: "exec_connect L H command s = Some (c, t) \<Longrightarrow> settings t = settings s"
  by (auto elim!: bind_SomeE simp: exec_connect_def split: keeps_splits dest!: keeps)

lemma exec_request_keeps [keeps]: "exec_request H command c upd s = Some (r, upd', t) \<Longrightarrow> settings t = settings s"
  by (auto elim!: bind_SomeE simp: exec_request_def split: keeps_splits dest!: keeps)

lemma table_put_keeps [keeps]: "table_put i n s = Some t \<Longrightarrow> settings t = settings s"
  by (auto elim!: bind_SomeE simp: table_put_def split: keeps_splits)

lemma exec_moved_keeps [keeps]: "exec_moved L H str c upd s = Some (c', upd', t) \<Longrightarrow> settings t = settings s"
  by (auto elim!: bind_SomeE simp: exec_moved_def split: keeps_splits dest!: keeps)

lemma exec_ask_keeps [keeps]: "exec_ask L H str s = Some (c, t) \<Longrightarrow> settings t = settings s"
  by (auto elim!: bind_SomeE simp: exec_ask_def split: keeps_splits dest!: keeps)

lemma exec_redirect_keeps [keeps]: "exec_redirect L H command kind str c upd s = Some (c', upd', t) \<Longrightarrow> settings t = settings s"
  by (auto elim!: bind_SomeE simp: exec_redirect_def split: keeps_splits CLUSTER_ERR_TYPE.split_asm dest!: keeps)

lemma exec_done_keeps [keeps]: "exec_done L H reply upd s = Some (r, t) \<Longrightarrow> settings t = settings s"
  by (auto elim!: bind_SomeE simp: exec_done_def split: keeps_splits dest!: keeps)

lemma settings_retries: "settings t = settings s \<Longrightarrow> cc_retry_count t = cc_retry_count s \<and> cc_max_retry_count t = cc_max_retry_count s"
  by (simp add: settings_def)

lemma settings_requests: "settings t = settings s \<Longrightarrow> cc_requests t = cc_requests s"
  by (simp add: settings_def)

text \<open>Every round of the loop counts one retry, so the fuel lasts.\<close>

lemma exec_loop_fuel:
  assumes "cc_max_retry_count s - cc_retry_count s < int fuel" "fuel \<noteq> 0"
  shows "exec_loop fuel L H command c upd s \<noteq> NO_FUEL"
  using assms
proof (induction fuel arbitrary: c upd s)
  case (Suc fuel)
  show ?case
  proof (cases "exec_request H command c upd s")
    case None
    then show ?thesis by simp
  next
    case (Some res)
    obtain a upd1 s1 where res: "res = (a, upd1, s1)" by (cases res)
    have 1: "cc_retry_count s1 = cc_retry_count s" "cc_max_retry_count s1 = cc_max_retry_count s"
      using settings_retries [OF exec_request_keeps] Some res by blast+
    show ?thesis
    proof (cases a)
      case (Inl _)
      with Some res show ?thesis by simp
    next
      case (Inr reply)
      let ?s2 = "s1\<lparr>cc_retry_count := cc_retry_count s1 + 1\<rparr>"
      consider "\<not> redirects (cluster_reply_error_type reply)" | "redirects (cluster_reply_error_type reply)" "cc_retry_count ?s2 > cc_max_retry_count ?s2"
        | kind where "cluster_reply_error_type reply = Some kind" "redirects (Some kind)" "\<not> cc_retry_count ?s2 > cc_max_retry_count ?s2"
        by (cases "cluster_reply_error_type reply") (auto simp: redirects_def)
      then show ?thesis
      proof cases
        case 1
        with Some res Inr show ?thesis by (auto split: option.split)
      next
        case 2
        with Some res Inr show ?thesis by (auto split: option.split)
      next
        case 3
        show ?thesis
        proof (cases "exec_redirect L H command kind (error_text reply) c upd1 ?s2")
          case None
          with 3 Some res Inr show ?thesis by simp
        next
          case red: (Some nxt)
          obtain c' upd2 s3 where n: "nxt = (c', upd2, s3)" by (cases nxt)
          have k: "cc_retry_count s3 = cc_retry_count s + 1" "cc_max_retry_count s3 = cc_max_retry_count s"
            using settings_retries [OF exec_redirect_keeps [OF red [unfolded n]]] 1 by simp_all
          with 3(3) 1 Suc.prems(1) have f: "cc_max_retry_count s3 - cc_retry_count s3 < int fuel" "fuel \<noteq> 0" by auto
          from Suc.IH [OF f] 3 Some res Inr red n show ?thesis by (simp split: option.split)
        qed
      qed
    qed
  qed
qed simp

section \<open>Outstanding requests\<close>

lemma check_replies_error: "check_replies ty cc subs n = Inl (r, cc') \<Longrightarrow> cc' = cc \<or> (\<exists>e m. cc' = redisClusterSetError e m cc)"
  by (induction subs arbitrary: n) (auto simp: Let_def split: option.split_asm if_split_asm redisReply.split_asm)

lemma command_post_fragment_error:
  "command_post_fragment cc command subs al = (r, cc', al') \<Longrightarrow> cc' = cc \<or> (\<exists>e m. cc' = redisClusterSetError e m cc)"
  unfolding command_post_fragment_def Let_def
  by (auto split: sum.split_asm prod.split_asm bool.split_asm if_split_asm dest: check_replies_error)

lemma command_post_fragment_keeps [keeps]:
  fixes s :: "('c, 'w, 'z) cluster_scheme"
  shows "command_post_fragment s command subs al = (r, t, al') \<Longrightarrow> settings t = settings s"
  by (drule command_post_fragment_error) auto

lemmas keeps_requests = keeps [THEN settings_requests]

lemma clusterGetReplyFromNode_requests: "clusterGetReplyFromNode H n s = Some (r, reply, t) \<Longrightarrow> cc_requests t = cc_requests s"
  by (auto elim!: bind_SomeE simp: clusterGetReplyFromNode_def Let_def split: keeps_splits dest!: keeps_requests)

lemma clusterGetReply_requests: "clusterGetReply H i s = Some (r, reply, t) \<Longrightarrow> cc_requests t = cc_requests s"
  by (auto simp: clusterGetReply_def split: keeps_splits dest!: clusterGetReplyFromNode_requests keeps_requests)

lemma get_subs_requests: "get_subs H subs done s = Some (r, t) \<Longrightarrow> cc_requests t = cc_requests s"
  by (induction subs arbitrary: "done" s)
    (auto elim!: bind_SomeE simp: redisClusterSetError_def Let_def split: keeps_splits dest!: clusterGetReply_requests)

lemma redisClusterGetReply_pops:
  assumes "redisClusterGetReply H s = Some (r, reply, t)"
  shows "cc_requests t = map_option tl (cc_requests s)"
  using assms
  by (auto elim!: bind_SomeE simp: redisClusterGetReply_def clear_error_def Let_def redisClusterSetError_def
      split: keeps_splits list.split_asm
      dest!: clusterGetReply_requests clusterGetReplyFromNode_requests get_subs_requests keeps_requests)

lemma redisClusterGetReply_last:
  assumes "redisClusterGetReply H s = Some (REDIS_OK, reply, t)" "cc_requests s = None \<or> cc_requests s = Some []"
  shows "reply = None"
  using assms by (auto simp: redisClusterGetReply_def clear_error_def Let_def split: option.split_asm list.split_asm)

lemma drain_enough:
  assumes "drain_fuel s \<le> fuel"
  shows "drain fuel H s \<noteq> NO_FUEL"
  using assms
proof (induction fuel arbitrary: s)
  case 0
  then show ?case by (simp add: drain_fuel_def)
next
  case (Suc fuel)
  show ?case
  proof (cases "redisClusterGetReply H s")
    case None
    then show ?thesis by simp
  next
    case (Some res)
    obtain r reply t where res: "res = (r, reply, t)" by (cases res)
    show ?thesis
    proof (cases "r = REDIS_OK \<and> reply \<noteq> None")
      case False
      with Some res show ?thesis by (auto split: option.split)
    next
      case True
      then obtain rq rqs where q: "cc_requests s = Some (rq # rqs)"
        using redisClusterGetReply_last [of H s reply t] Some res by (metis neq_Nil_conv not_None_eq)
      have "drain_fuel t \<le> fuel" using Suc.prems redisClusterGetReply_pops [OF Some [unfolded res]] q by (simp add: drain_fuel_def)
      with Suc.IH Some res True show ?thesis by simp
    qed
  qed
qed

lemma command_pre_fragment_error:
  "command_pre_fragment cc command subs num_str cid al = Some (i, cc', command', subs', cid', al') \<Longrightarrow>
     cc' = cc \<or> (\<exists>e m. cc' = redisClusterSetError e m cc)"
  unfolding command_pre_fragment_def Let_def by (auto split: keeps_splits frag_status.split_asm)

lemma command_format_by_slot_error:
  "command_format_by_slot cc command subs num_str cid al = Some (i, cc', command', subs', cid', al') \<Longrightarrow>
     cc' = cc \<or> (\<exists>e m. cc' = redisClusterSetError e m cc)"
  unfolding command_format_by_slot_def Let_def by (auto split: keeps_splits dest: command_pre_fragment_error)

lemma command_format_by_slot_keeps [keeps]:
  fixes s :: "('c, 'w, 'z) cluster_scheme"
  shows "command_format_by_slot s command subs num_str cid al = Some (i, t, command', subs', cid', al') \<Longrightarrow> settings t = settings s"
  by (drule command_format_by_slot_error) auto

lemma prepare_command_keeps [keeps]: "prepare_command cmd len num_str cid s = Some (r, cid', t) \<Longrightarrow> settings t = settings s"
  by (auto elim!: bind_SomeE simp: prepare_command_def Let_def split: keeps_splits dest!: keeps)

lemma append_subs_keeps [keeps]: "append_subs H subs s = Some (r, t) \<Longrightarrow> settings t = settings s"
  by (induction subs arbitrary: s) (auto elim!: bind_SomeE split: keeps_splits dest!: keeps)

section \<open>Fuel\<close>

text \<open>More fuel than enough changes nothing.\<close>

lemma exec_loop_more: "exec_loop fuel L H command c upd s \<noteq> NO_FUEL \<Longrightarrow> exec_loop (fuel + k) L H command c upd s = exec_loop fuel L H command c upd s"
proof (induction fuel arbitrary: c upd s)
  case (Suc fuel)
  show ?case
  proof (cases "exec_request H command c upd s")
    case (Some res)
    obtain a upd1 s1 where res: "res = (a, upd1, s1)" by (cases res)
    show ?thesis
    proof (cases a)
      case (Inr reply)
      let ?s2 = "s1\<lparr>cc_retry_count := cc_retry_count s1 + 1\<rparr>"
      show ?thesis
      proof (cases "cluster_reply_error_type reply")
        case (Some kind)
        show ?thesis
        proof (cases "redirects (Some kind) \<and> \<not> cc_retry_count ?s2 > cc_max_retry_count ?s2")
          case False
          with Some res Inr \<open>exec_request H command c upd s = Some res\<close> show ?thesis by auto
        next
          case True
          show ?thesis
          proof (cases "exec_redirect L H command kind (error_text reply) c upd1 ?s2")
            case red: (Some nxt)
            obtain c' upd2 s3 where n: "nxt = (c', upd2, s3)" by (cases nxt)
            show ?thesis
            proof (cases c')
              case (Some c1)
              with Suc.prems True \<open>cluster_reply_error_type reply = Some kind\<close> res Inr \<open>exec_request H command c upd s = Some res\<close> red n
              have "exec_loop fuel L H command c1 upd2 s3 \<noteq> NO_FUEL" by simp
              from Suc.IH [OF this] Some True \<open>cluster_reply_error_type reply = Some kind\<close> res Inr \<open>exec_request H command c upd s = Some res\<close> red n
              show ?thesis by simp
            qed (use True Some res Inr \<open>exec_request H command c upd s = Some res\<close> red n in simp)
          qed (use True Some res Inr \<open>exec_request H command c upd s = Some res\<close> in simp)
        qed
      qed (use Inr res Some in simp)
    qed (use res Some in simp)
  qed simp
qed simp

lemma drain_more: "drain fuel H s \<noteq> NO_FUEL \<Longrightarrow> drain (fuel + k) H s = drain fuel H s"
proof (induction fuel arbitrary: s)
  case (Suc fuel)
  then show ?case by (cases "redisClusterGetReply H s") (auto split: option.split prod.split)
qed simp

end
