(* ===== verification/Async_Frame.thy ===== *)
theory Async_Frame
  imports Async_API Frame "HOL-Library.Multiset"
begin

text \<open>
  What the steps of the asynchronous interface do to the pending callbacks, whatever the replies are and however
  hiredis behaves: how many slot map updates are under way, which user callbacks are still to be called or have
  been called, and the settings of the context.
\<close>

section \<open>The books\<close>

text \<open>Pending replies of slot map updates.\<close>

definition is_update :: "async_cb \<Rightarrow> bool" where
  "is_update cb \<longleftrightarrow> cb = SLOTS_CB \<or> cb = NODES_CB"

definition updates :: "('c, 'w) redisClusterAsyncContext \<Rightarrow> nat" where
  "updates acc = length (filter (\<lambda>p. is_update (snd p)) (acc_pending acc))"

text \<open>The user callbacks that are pending or have been called.\<close>

definition cb_users :: "async_cb \<Rightarrow> nat option multiset" where
  "cb_users cb = (case cb of CMD_CB cad \<Rightarrow> {#cad_callback cad#} | _ \<Rightarrow> {#})"

definition waiting :: "(addr \<times> async_cb) list \<Rightarrow> nat option multiset" where
  "waiting ps = sum_list (map (\<lambda>p. cb_users (snd p)) ps)"

definition answered :: "('c, 'w) redisClusterAsyncContext \<Rightarrow> nat option multiset" where
  "answered acc = mset (map (\<lambda>p. Some (fst p)) (acc_calls acc))"

definition account :: "('c, 'w) redisClusterAsyncContext \<Rightarrow> nat option multiset" where
  "account acc = waiting (acc_pending acc) + answered acc"

text \<open>At most one update is under way, and the time stamp tells whether there is one.\<close>

definition one_update :: "('c, 'w) redisClusterAsyncContext \<Rightarrow> bool" where
  "one_update acc \<longleftrightarrow> updates acc = (if acc_lastSlotmapUpdateAttempt acc = SLOTMAP_UPDATE_ONGOING then 1 else 0)"

definition books :: "('c, 'w) redisClusterAsyncContext \<Rightarrow>
    int \<times> nat \<times> nat option multiset \<times> u32 \<times> int \<times> int \<times> 'c list option \<times> string option \<times> string option" where
  "books acc = (acc_lastSlotmapUpdateAttempt acc, updates acc, account acc, settings (acc_cc acc))"

text \<open>The clock does not show the value that marks an update, the largest of its type.\<close>

definition clock_ok :: "'w hiredis_async \<Rightarrow> bool" where
  "clock_ok HA \<longleftrightarrow> (\<forall>w. hi_usec_now (fst (gettimeofday HA w)) \<noteq> SLOTMAP_UPDATE_ONGOING)"

text \<open>Hiredis takes every command.\<close>

definition accepting :: "'w hiredis_async \<Rightarrow> bool" where
  "accepting HA \<longleftrightarrow> (\<forall>ws ac w. fst (redisAsyncCommand HA ws ac w) = REDIS_OK) \<and> (\<forall>bs ac w. fst (redisAsyncFormattedCommand HA bs ac w) = REDIS_OK)"

lemma waiting_simps [simp]:
  "waiting [] = {#}" "waiting (p # ps) = cb_users (snd p) + waiting ps" "waiting (ps @ qs) = waiting ps + waiting qs"
  by (simp_all add: waiting_def)

lemma cb_users_simps [simp]: "cb_users NO_CB = {#}" "cb_users SLOTS_CB = {#}" "cb_users NODES_CB = {#}" "cb_users (CMD_CB cad) = {#cad_callback cad#}"
  by (simp_all add: cb_users_def)

lemma is_update_simps [simp]: "is_update SLOTS_CB" "is_update NODES_CB" "\<not> is_update NO_CB" "\<not> is_update (CMD_CB cad)"
  by (simp_all add: is_update_def)

lemma books_simps [simp]:
  "books (redisClusterAsyncSetError e m acc) = books acc" "books (redisAsyncFree a acc) = books acc" "books (copy_cc_error acc) = books acc"
  "books (async_clear_errors acc) = books acc" "settings s = settings (acc_cc acc) \<Longrightarrow> books (acc\<lparr>acc_cc := s\<rparr>) = books acc"
  by (simp_all add: books_def updates_def account_def answered_def redisClusterAsyncSetError_def Let_def redisAsyncFree_def copy_cc_error_def
      async_clear_errors_def)

lemma books_settings: "books acc' = books acc \<Longrightarrow> settings (acc_cc acc') = settings (acc_cc acc)"
  by (simp add: books_def)

lemma settings_flag: "settings t = settings s \<Longrightarrow> has_flag f t = has_flag f s"
  by (simp add: settings_def has_flag_def)

named_theorems booked \<open>operations that keep the books\<close>

section \<open>Operations that keep them\<close>

lemma on_acon_booked [booked]: "on_acon f a acc = Some (r, acc') \<Longrightarrow> books acc' = books acc"
  by (auto elim!: bind_SomeE simp: on_acon_def Let_def split: keeps_splits)

lemma usec_now_booked [booked]: "usec_now HA acc = (t, acc') \<Longrightarrow> books acc' = books acc"
  by (auto simp: usec_now_def split: keeps_splits)

lemma acon_send_none_booked [booked]: "acon_send f NO_CB a acc = Some (r, acc') \<Longrightarrow> books acc' = books acc"
  by (auto elim!: bind_SomeE simp: acon_send_def books_def updates_def account_def answered_def split: keeps_splits dest!: on_acon_booked)

lemma acon_error_booked [booked]: "acon_error a acc = Some acc' \<Longrightarrow> books acc' = books acc"
  by (auto elim!: bind_SomeE simp: acon_error_def)

lemma acon_c_error_booked [booked]: "acon_c_error a acc = Some acc' \<Longrightarrow> books acc' = books acc"
  by (auto elim!: bind_SomeE simp: acon_c_error_def)

lemma async_ssl_init_booked [booked]: "async_ssl_init HA a acc = Some (b, acc') \<Longrightarrow> books acc' = books acc"
  by (auto elim!: bind_SomeE simp: async_ssl_init_def split: keeps_splits dest!: booked)

lemma async_authenticate_booked [booked]: "async_authenticate HA a acc = Some (b, acc') \<Longrightarrow> books acc' = books acc"
  by (auto elim!: bind_SomeE simp: async_authenticate_def split: keeps_splits dest!: booked)

lemma async_attach_booked [booked]: "async_attach HA a acc = Some (b, acc') \<Longrightarrow> books acc' = books acc"
  by (auto elim!: bind_SomeE simp: async_attach_def split: keeps_splits dest!: booked)

lemma acon_setup_booked [booked]: "acon_setup HA a acc = Some (b, acc') \<Longrightarrow> books acc' = books acc"
  by (auto elim!: bind_SomeE simp: acon_setup_def split: keeps_splits dest!: booked)

lemma acon_link_keeps [keeps]: "acon_link a n s = Some t \<Longrightarrow> settings t = settings s"
  by (auto elim!: bind_SomeE simp: acon_link_def)

lemma actx_connect_booked [booked]: "actx_connect HA n host acc = Some (a, acc') \<Longrightarrow> books acc' = books acc"
  by (auto elim!: bind_SomeE simp: actx_connect_def Let_def split: keeps_splits dest!: booked keeps)

lemma actx_get_by_node_booked [booked]: "actx_get_by_node HA n acc = Some (a, acc') \<Longrightarrow> books acc' = books acc"
  by (auto elim!: bind_SomeE simp: actx_get_by_node_def split: keeps_splits dest!: booked)

lemma selectNode_booked [booked]: "selectNode HA d acc = Some (n, acc') \<Longrightarrow> books acc' = books acc"
  by (auto elim!: bind_SomeE simp: selectNode_def Let_def split: keeps_splits dest!: booked)

lemma update_acon_booked [booked]: "update_acon HA ac acc = Some (a, acc') \<Longrightarrow> books acc' = books acc"
  by (auto elim!: bind_SomeE simp: update_acon_def split: keeps_splits dest!: booked)

lemma cluster_async_data_create_booked [booked]: "cluster_async_data_create acc = (b, acc') \<Longrightarrow> books acc' = books acc"
  by (auto simp: cluster_async_data_create_def split: keeps_splits dest!: keeps)

lemma async_copy_command_booked [booked]: "async_copy_command cmd len cid acc = (c, cid', acc') \<Longrightarrow> books acc' = books acc"
  by (auto simp: async_copy_command_def split: keeps_splits)

lemma async_slot_booked [booked]: "async_slot command num_str cid acc = Some (r, cid', acc') \<Longrightarrow> books acc' = books acc"
  by (auto elim!: bind_SomeE simp: async_slot_def Let_def split: keeps_splits dest!: keeps)

section \<open>Slot map updates\<close>

text \<open>
  A step that leaves the user callbacks and the settings alone, and the rule of one update.
\<close>

definition tidy :: "'w hiredis_async \<Rightarrow> ('c, 'w) redisClusterAsyncContext \<Rightarrow> ('c, 'w) redisClusterAsyncContext \<Rightarrow> bool" where
  "tidy HA acc acc' \<longleftrightarrow> account acc' = account acc \<and> settings (acc_cc acc') = settings (acc_cc acc) \<and>
     (clock_ok HA \<longrightarrow> one_update acc \<longrightarrow> one_update acc')"

lemma tidy_refl [simp]: "tidy HA acc acc"
  by (simp add: tidy_def)

lemma tidy_trans [trans]: "tidy HA acc acc' \<Longrightarrow> tidy HA acc' acc'' \<Longrightarrow> tidy HA acc acc''"
  by (simp add: tidy_def)

lemma booked_tidy: "books acc' = books acc \<Longrightarrow> tidy HA acc acc'"
  by (simp add: tidy_def books_def one_update_def)

lemma one_update_books: "books acc' = books acc \<Longrightarrow> one_update acc' = one_update acc"
  by (simp add: books_def one_update_def)

lemma acon_send_books:
  assumes "acon_send f cb a acc = Some (r, acc')"
  shows "acc_lastSlotmapUpdateAttempt acc' = acc_lastSlotmapUpdateAttempt acc" "settings (acc_cc acc') = settings (acc_cc acc)"
    "updates acc' = updates acc + (if r = REDIS_OK \<and> is_update cb then 1 else 0)"
    "account acc' = account acc + (if r = REDIS_OK then cb_users cb else {#})"
  using assms
  by (auto elim!: bind_SomeE simp: acon_send_def books_def updates_def account_def answered_def split: keeps_splits dest!: on_acon_booked)

lemma stamp_attempt_books:
  "updates (stamp_attempt HA acc) = updates acc" "account (stamp_attempt HA acc) = account acc"
  "settings (acc_cc (stamp_attempt HA acc)) = settings (acc_cc acc)"
  "clock_ok HA \<Longrightarrow> acc_lastSlotmapUpdateAttempt (stamp_attempt HA acc) \<noteq> SLOTMAP_UPDATE_ONGOING"
proof -
  obtain t acc1 where u: "usec_now HA acc = (t, acc1)" by (cases "usec_now HA acc")
  then have t: "clock_ok HA \<Longrightarrow> t \<noteq> SLOTMAP_UPDATE_ONGOING"
    unfolding clock_ok_def usec_now_def by (metis (mono_tags, lifting) fst_conv prod.case_eq_if prod.collapse)
  from usec_now_booked [OF u] u
  show "updates (stamp_attempt HA acc) = updates acc" "account (stamp_attempt HA acc) = account acc"
    "settings (acc_cc (stamp_attempt HA acc)) = settings (acc_cc acc)"
    by (simp_all add: stamp_attempt_def books_def updates_def account_def answered_def)
  show "clock_ok HA \<Longrightarrow> acc_lastSlotmapUpdateAttempt (stamp_attempt HA acc) \<noteq> SLOTMAP_UPDATE_ONGOING"
    using u t by (simp add: stamp_attempt_def)
qed

lemma ask_tidy:
  assumes idle: "acc_lastSlotmapUpdateAttempt acc \<noteq> SLOTMAP_UPDATE_ONGOING" and cb: "is_update cb" "cb_users cb = {#}"
    and s: "acon_send f cb a acc = Some (r, acc')"
  shows "tidy HA acc (if r = REDIS_OK then acc'\<lparr>acc_lastSlotmapUpdateAttempt := SLOTMAP_UPDATE_ONGOING\<rparr> else stamp_attempt HA acc')"
  using idle acon_send_books [OF s] stamp_attempt_books [of HA acc'] cb
  by (auto simp: tidy_def one_update_def updates_def account_def answered_def)

lemma updateSlotMapAsync_tidy:
  assumes u: "updateSlotMapAsync HA ac acc = Some (r, acc')"
  shows "tidy HA acc acc'"
proof (cases "acc_lastSlotmapUpdateAttempt acc = SLOTMAP_UPDATE_ONGOING \<or> has_flag HIRCLUSTER_FLAG_SHUTDOWN (acc_cc acc)")
  case True
  then show ?thesis using u by (auto simp: updateSlotMapAsync_def split: if_splits)
next
  case False
  obtain chosen acc1 where 1: "update_acon HA ac acc = Some (chosen, acc1)"
    using u False by (auto simp: updateSlotMapAsync_def elim!: bind_SomeE)
  note b = update_acon_booked [OF 1]
  show ?thesis
  proof (cases chosen)
    case None
    then have "acc' = stamp_attempt HA acc1" using u False 1 by (simp add: updateSlotMapAsync_def)
    then show ?thesis
      using b stamp_attempt_books [of HA acc1] False by (auto simp: tidy_def one_update_def books_def)
  next
    case (Some a)
    define cb ws where "cb = (if has_flag HIRCLUSTER_FLAG_ROUTE_USE_SLOTS (acc_cc acc1) then SLOTS_CB else NODES_CB)"
      and "ws = (if has_flag HIRCLUSTER_FLAG_ROUTE_USE_SLOTS (acc_cc acc1) then [''CLUSTER'', ''SLOTS''] else [''CLUSTER'', ''NODES''])"
    obtain status acc2 where 2: "acon_send (redisAsyncCommand HA ws) cb a acc1 = Some (status, acc2)"
      "acc' = (if status = REDIS_OK then acc2\<lparr>acc_lastSlotmapUpdateAttempt := SLOTMAP_UPDATE_ONGOING\<rparr> else stamp_attempt HA acc2)"
      using u False 1 Some by (auto simp: updateSlotMapAsync_def cb_def ws_def split: if_splits elim!: bind_SomeE)
    have "tidy HA acc1 acc'" unfolding 2(2)
      by (rule ask_tidy [OF _ _ _ 2(1)]) (use b False in \<open>auto simp: books_def cb_def\<close>)
    with booked_tidy [OF b] show ?thesis by (rule tidy_trans)
  qed
qed

lemma throttled_tidy:
  assumes "throttledUpdateSlotMapAsync HA ac acc = Some acc'"
  shows "tidy HA acc acc'"
proof -
  obtain t acc1 where u: "usec_now HA acc = (t, acc1)" by (cases "usec_now HA acc")
  have "acc' = acc \<or> acc' = acc1 \<or> (\<exists>r. updateSlotMapAsync HA ac acc1 = Some (r, acc'))"
    using assms u by (auto simp: throttledUpdateSlotMapAsync_def elim!: bind_SomeE split: if_splits)
  moreover have "tidy HA acc acc1" using booked_tidy [OF usec_now_booked [OF u]] .
  ultimately show ?thesis using updateSlotMapAsync_tidy tidy_trans tidy_refl by blast
qed

text \<open>An update that ends: its pending reply has been taken from the list.\<close>

definition settled :: "'w hiredis_async \<Rightarrow> ('c, 'w) redisClusterAsyncContext \<Rightarrow> ('c, 'w) redisClusterAsyncContext \<Rightarrow> bool" where
  "settled HA acc acc' \<longleftrightarrow> account acc' = account acc \<and> settings (acc_cc acc') = settings (acc_cc acc) \<and>
     (clock_ok HA \<longrightarrow> updates acc = 0 \<longrightarrow> one_update acc')"

lemma settled_tidy: "settled HA acc acc' \<Longrightarrow> tidy HA acc' acc'' \<Longrightarrow> settled HA acc acc''"
  by (simp add: settled_def tidy_def)

lemma stamp_settled: "settled HA acc (stamp_attempt HA acc)"
  using stamp_attempt_books [of HA acc] by (simp add: settled_def one_update_def)

lemma take_nodes_tidy:
  assumes t: "take_nodes HA nodes cc acc = Some acc'" and s: "settings cc = settings (acc_cc acc)"
  shows "tidy HA acc acc'"
proof -
  obtain r cc1 where u: "updateNodesAndSlotmap nodes cc = Some (r, cc1)"
    and e: "acc' = acc\<lparr>acc_cc := cc1\<rparr> \<or> (\<exists>q. updateSlotMapAsync HA None (acc\<lparr>acc_cc := cc1\<rparr>) = Some (q, acc'))"
    using t by (auto simp: take_nodes_def elim!: bind_SomeE split: if_splits)
  have "tidy HA acc (acc\<lparr>acc_cc := cc1\<rparr>)"
    using updateNodesAndSlotmap_keeps [OF u] s by (intro booked_tidy) simp
  with e show ?thesis using updateSlotMapAsync_tidy tidy_trans by blast
qed

lemma clusterSlotsReplyCallback_settled:
  assumes "clusterSlotsReplyCallback L HA ac reply acc = Some acc'"
  shows "settled HA acc acc'"
proof -
  have "tidy HA (stamp_attempt HA acc) acc'"
    using assms by (auto simp: clusterSlotsReplyCallback_def Let_def elim!: bind_SomeE split: option.splits
        dest: updateSlotMapAsync_tidy take_nodes_tidy [OF _ parse_cluster_slots_keeps])
  then show ?thesis by (rule settled_tidy [OF stamp_settled])
qed

lemma clusterNodesReplyCallback_settled:
  assumes "clusterNodesReplyCallback L HA ac reply acc = Some acc'"
  shows "settled HA acc acc'"
proof -
  have "tidy HA (stamp_attempt HA acc) acc'"
    using assms by (auto simp: clusterNodesReplyCallback_def Let_def elim!: bind_SomeE split: option.splits
        dest: updateSlotMapAsync_tidy take_nodes_tidy [OF _ parse_cluster_nodes_keeps])
  then show ?thesis by (rule settled_tidy [OF stamp_settled])
qed

section \<open>Replies to commands\<close>

text \<open>The callbacks \<open>u\<close> are called, or pending again; they may be lost when hiredis refuses a command.\<close>

definition served :: "'w hiredis_async \<Rightarrow> nat option multiset \<Rightarrow> ('c, 'w) redisClusterAsyncContext \<Rightarrow> ('c, 'w) redisClusterAsyncContext \<Rightarrow> bool" where
  "served HA u acc acc' \<longleftrightarrow> account acc' \<subseteq># account acc + u \<and> (accepting HA \<longrightarrow> account acc' = account acc + u) \<and>
     settings (acc_cc acc') = settings (acc_cc acc) \<and> (clock_ok HA \<longrightarrow> one_update acc \<longrightarrow> one_update acc')"

lemma tidy_served: "tidy HA acc acc' \<Longrightarrow> served HA u acc' acc'' \<Longrightarrow> served HA u acc acc''"
  by (simp add: tidy_def served_def)

lemma acon_send_accepting:
  assumes "acon_send f cb a acc = Some (r, acc')" and "\<forall>ac w. fst (f ac w) = REDIS_OK"
  shows "r = REDIS_OK"
proof -
  obtain ac where "acon_at (acc_cc acc) a = Some ac" "r = fst (f ac (w_world (acc_cc acc)))"
    using assms(1) by (auto simp: acon_send_def on_acon_def Let_def elim!: bind_SomeE split: prod.splits if_splits)
  with assms(2) show ?thesis by simp
qed

lemma async_finish_served:
  assumes "async_finish cad r acc = Some acc'"
  shows "served HA {#cad_callback cad#} acc acc'"
  using assms
  by (auto simp: async_finish_def served_def account_def answered_def one_update_def updates_def Let_def elim!: bind_SomeE split: if_splits)

lemma async_retry_served:
  assumes r: "async_retry HA cad ac acc = Some acc'"
  shows "served HA {#cad_callback cad#} acc acc'"
proof -
  obtain a ret where s: "acon_send (redisAsyncFormattedCommand HA (cmd_bytes (cad_command cad))) (CMD_CB cad) a acc = Some (ret, acc')"
    using r by (auto simp: async_retry_def elim!: bind_SomeE)
  moreover have "accepting HA \<Longrightarrow> ret = REDIS_OK" using acon_send_accepting [OF s] by (simp add: accepting_def)
  ultimately show ?thesis using acon_send_books [OF s] by (simp add: served_def one_update_def)
qed

lemma async_moved_tidy:
  assumes "async_moved L HA str a acc = Some (e, acc')"
  shows "tidy HA acc acc'" "e \<noteq> GOTO_ERR"
proof -
  obtain acc1 where 1: "throttledUpdateSlotMapAsync HA (Some a) acc = Some acc1" "books acc' = books acc1" "e \<noteq> GOTO_ERR"
    using assms by (auto simp: async_moved_def elim!: bind_SomeE split: keeps_splits dest!: booked keeps)
  show "tidy HA acc acc'" "e \<noteq> GOTO_ERR" using tidy_trans [OF throttled_tidy [OF 1(1)] booked_tidy [OF 1(2)]] 1(3) by simp_all
qed

lemma async_ask_books:
  assumes a: "async_ask L HA str acc = Some (e, acc')"
  shows "books acc' = books acc" "accepting HA \<Longrightarrow> e \<noteq> GOTO_ERR"
proof -
  show "books acc' = books acc"
    using a by (auto simp: async_ask_def elim!: bind_SomeE split: keeps_splits dest!: booked keeps)
  show "e \<noteq> GOTO_ERR" if "accepting HA"
    using a that by (auto simp: async_ask_def accepting_def elim!: bind_SomeE split: keeps_splits dest!: acon_send_accepting)
qed

lemma async_redirect_tidy:
  assumes "async_redirect L HA kind str a acc = Some (e, acc')"
  shows "tidy HA acc acc'" "accepting HA \<Longrightarrow> e \<noteq> GOTO_ERR"
  using assms async_moved_tidy [of L HA str a acc e acc'] booked_tidy [OF async_ask_books(1), of L HA str acc e acc' HA] async_ask_books(2) [of L HA str acc e acc']
  by (auto simp: async_redirect_def split: CLUSTER_ERR_TYPE.splits)

lemma lost_served: "tidy HA acc acc' \<Longrightarrow> \<not> accepting HA \<Longrightarrow> served HA u acc acc'"
  by (simp add: tidy_def served_def)

lemma redirected_served:
  assumes r: "async_redirect L HA kind str a acc = Some (e, acc1)"
    and e: "(case e of GOTO_DONE \<Rightarrow> async_finish cad reply acc1 | GOTO_ERR \<Rightarrow> Some acc1 | GOTO_RETRY ac \<Rightarrow> async_retry HA cad ac acc1) = Some acc'"
  shows "served HA {#cad_callback cad#} acc acc'"
proof (cases e)
  case GOTO_DONE
  then show ?thesis using e tidy_served [OF async_redirect_tidy(1) [OF r] async_finish_served] by simp
next
  case (GOTO_RETRY ac)
  then show ?thesis using e tidy_served [OF async_redirect_tidy(1) [OF r] async_retry_served] by simp
next
  case GOTO_ERR
  then show ?thesis using e async_redirect_tidy [OF r] lost_served by auto
qed

lemma redisClusterAsyncCallback_served:
  assumes c: "redisClusterAsyncCallback L HA a ac reply cad acc = Some acc'"
  shows "served HA {#cad_callback cad#} acc acc'"
proof (cases reply)
  case None
  let ?acc = "redisClusterAsyncSetError (ac_err ac) (ac_errstr ac) acc"
  have e: "tidy HA acc ?acc" by (rule booked_tidy) simp
  have "\<exists>acc1. tidy HA ?acc acc1 \<and> async_finish cad None acc1 = Some acc'"
    using c None by (cases "ac_data ac") (auto simp: redisClusterAsyncCallback_def elim!: bind_SomeE dest!: throttled_tidy intro: tidy_refl)
  then show ?thesis using tidy_served [OF tidy_trans [OF e] async_finish_served] by blast
next
  case (Some r)
  let ?cad = "cad\<lparr>cad_retry_count := cad_retry_count cad + 1\<rparr>"
  let ?many = "redisClusterAsyncSetError REDIS_ERR_CLUSTER_TOO_MANY_RETRIES ''too many cluster retries'' acc"
  consider (finish) "async_finish cad reply acc = Some acc'"
    | (many) "async_finish (?cad\<lparr>cad_retry_count := 0\<rparr>) reply ?many = Some acc'"
    | (again) kind e acc1 where "async_redirect L HA kind (error_text reply) a acc = Some (e, acc1)"
        "(case e of GOTO_DONE \<Rightarrow> async_finish ?cad reply acc1 | GOTO_ERR \<Rightarrow> Some acc1 | GOTO_RETRY ac \<Rightarrow> async_retry HA ?cad ac acc1) = Some acc'"
    using c Some by (auto simp: redisClusterAsyncCallback_def Let_def elim!: bind_SomeE split: option.splits if_splits)
  then show ?thesis
  proof cases
    case finish
    then show ?thesis by (rule async_finish_served)
  next
    case many
    have "tidy HA acc ?many" by (rule booked_tidy) simp
    with async_finish_served [OF many, of HA] show ?thesis by (simp add: tidy_served)
  next
    case again
    then show ?thesis using redirected_served [OF again] by simp
  qed
qed

section \<open>Steps\<close>

lemma take_pending_books:
  "take_pending a ps = Some (cb, qs) \<Longrightarrow> mset ps = add_mset (a, cb) (mset qs)"
  by (induction ps arbitrary: qs) (auto split: if_splits option.splits)

lemma waiting_mset: "waiting ps = (\<Sum>p \<in># mset ps. cb_users (snd p))"
  by (induction ps) simp_all

lemma updates_mset: "updates acc = size (filter_mset (\<lambda>p. is_update (snd p)) (mset (acc_pending acc)))"
  unfolding updates_def by (metis mset_filter size_mset)

lemma deliver_run:
  assumes "deliver L HA a ac reply acc = Some acc'"
  obtains cb qs where "run_callback L HA a ac reply cb (acc\<lparr>acc_pending := qs\<rparr>) = Some acc'"
    "mset (acc_pending acc) = add_mset (a, cb) (mset qs)"
    "account acc = account (acc\<lparr>acc_pending := qs\<rparr>) + cb_users cb"
    "updates acc = updates (acc\<lparr>acc_pending := qs\<rparr>) + (if is_update cb then 1 else 0)"
proof -
  obtain cb qs where t: "take_pending a (acc_pending acc) = Some (cb, qs)" "run_callback L HA a ac reply cb (acc\<lparr>acc_pending := qs\<rparr>) = Some acc'"
    using assms by (auto simp: deliver_def elim!: bind_SomeE)
  note m = take_pending_books [OF t(1)]
  show thesis
    by (rule that [OF t(2) m]) (simp_all add: account_def answered_def waiting_mset updates_mset m)
qed

lemma run_callback_books:
  assumes r: "run_callback L HA a ac reply cb acc = Some acc'"
  shows "account acc' \<subseteq># account acc + cb_users cb" "accepting HA \<Longrightarrow> account acc' = account acc + cb_users cb"
    "settings (acc_cc acc') = settings (acc_cc acc)"
    "clock_ok HA \<Longrightarrow> \<not> is_update cb \<Longrightarrow> one_update acc \<Longrightarrow> one_update acc'" "clock_ok HA \<Longrightarrow> is_update cb \<Longrightarrow> updates acc = 0 \<Longrightarrow> one_update acc'"
  using r clusterSlotsReplyCallback_settled [of L HA ac reply acc acc'] clusterNodesReplyCallback_settled [of L HA ac reply acc acc']
    redisClusterAsyncCallback_served [of L HA a ac reply _ acc acc']
  by (cases cb; simp add: run_callback_def settled_def served_def)+

text \<open>Running a pending callback.\<close>

lemma deliver_served:
  assumes d: "deliver L HA a ac reply acc = Some acc'"
  shows "served HA {#} acc acc'"
proof -
  obtain cb qs where q: "run_callback L HA a ac reply cb (acc\<lparr>acc_pending := qs\<rparr>) = Some acc'"
    "account acc = account (acc\<lparr>acc_pending := qs\<rparr>) + cb_users cb"
    "updates acc = updates (acc\<lparr>acc_pending := qs\<rparr>) + (if is_update cb then 1 else 0)"
    using deliver_run [OF d] by metis
  have "one_update acc'" if c: "clock_ok HA" "one_update acc"
  proof (cases "is_update cb")
    case True
    then have "updates (acc\<lparr>acc_pending := qs\<rparr>) = 0" using c(2) q(3) by (simp add: one_update_def split: if_splits)
    then show ?thesis using run_callback_books(5) [OF q(1) c(1) True] by blast
  next
    case False
    then have "one_update (acc\<lparr>acc_pending := qs\<rparr>)" using c(2) q(3) by (simp add: one_update_def)
    then show ?thesis using run_callback_books(4) [OF q(1) c(1) False] by blast
  qed
  then show ?thesis using run_callback_books(1-3) [OF q(1)] q(2) by (simp add: served_def)
qed

lemma async_submit_served:
  assumes s: "async_submit HA bytes cad a acc = Some (r, acc')"
  shows "account acc' = account acc + mset (accepted r (cad_callback cad))" "settings (acc_cc acc') = settings (acc_cc acc)"
    "one_update acc' = one_update acc"
proof -
  obtain acc1 st where 1: "acon_send (redisAsyncFormattedCommand HA bytes) (CMD_CB cad) a acc = Some (st, acc1)"
    "books acc' = books acc1" "r = REDIS_OK \<longleftrightarrow> st = REDIS_OK"
    using s by (auto simp: async_submit_def elim!: bind_SomeE split: if_splits dest!: booked)
  then show "account acc' = account acc + mset (accepted r (cad_callback cad))" "settings (acc_cc acc') = settings (acc_cc acc)"
    "one_update acc' = one_update acc"
    using acon_send_books [OF 1(1)] by (auto simp: books_def accepted_def one_update_def)
qed

text \<open>A command is refused, with all books kept, or handed to hiredis.\<close>

definition submitted :: "'w hiredis_async \<Rightarrow> nat option \<Rightarrow> int \<Rightarrow> ('c, 'w) redisClusterAsyncContext \<Rightarrow> ('c, 'w) redisClusterAsyncContext \<Rightarrow> bool" where
  "submitted HA fn r acc acc' \<longleftrightarrow> account acc' = account acc + mset (accepted r fn) \<and>
     settings (acc_cc acc') = settings (acc_cc acc) \<and> (clock_ok HA \<longrightarrow> one_update acc \<longrightarrow> one_update acc')"

lemma tidy_submitted: "tidy HA acc acc' \<Longrightarrow> submitted HA fn r acc' acc'' \<Longrightarrow> submitted HA fn r acc acc''"
  by (simp add: tidy_def submitted_def)

lemma refused_submitted: "tidy HA acc acc' \<Longrightarrow> submitted HA fn REDIS_ERR acc acc'"
  by (simp add: tidy_def submitted_def accepted_def)

lemma async_submit_submitted: "async_submit HA bytes cad a acc = Some (r, acc') \<Longrightarrow> submitted HA (cad_callback cad) r acc acc'"
  using async_submit_served [of HA bytes cad a acc r acc'] by (simp add: submitted_def)

lemma commandToNode_submitted:
  assumes c: "redisClusterAsyncFormattedCommandToNode HA node fn cmd len cid acc = Some (r, cid', acc')"
  shows "submitted HA fn r acc acc'"
proof -
  have "r = REDIS_ERR \<and> books acc' = books acc \<or>
      (\<exists>acc1 bytes cad a. books acc1 = books acc \<and> cad_callback cad = fn \<and> async_submit HA bytes cad a acc1 = Some (r, acc'))"
    using c by (auto simp: redisClusterAsyncFormattedCommandToNode_def Let_def elim!: bind_SomeE split: keeps_splits dest!: booked)
  then show ?thesis using refused_submitted [OF booked_tidy] tidy_submitted [OF booked_tidy async_submit_submitted] by blast
qed

lemma command_submitted:
  assumes c: "redisClusterAsyncFormattedCommand HA fn cmd len num_str cid acc = Some (r, cid', acc')"
  shows "submitted HA fn r acc acc'"
proof -
  have "r = REDIS_ERR \<and> books acc' = books acc \<or>
      r = REDIS_ERR \<and> (\<exists>acc1 acc2. books acc1 = books acc \<and> throttledUpdateSlotMapAsync HA None acc1 = Some acc2 \<and> books acc' = books acc2) \<or>
      (\<exists>acc1 bytes cad a. books acc1 = books acc \<and> cad_callback cad = fn \<and> async_submit HA bytes cad a acc1 = Some (r, acc'))"
    using c by (auto simp: redisClusterAsyncFormattedCommand_def Let_def elim!: bind_SomeE split: keeps_splits dest!: booked node_get_by_table_keeps)
       (metis books_simps(3,5) cluster_async_data.select_convs(2))+
  then show ?thesis
    using refused_submitted [OF booked_tidy] tidy_submitted [OF booked_tidy async_submit_submitted]
      refused_submitted [OF tidy_trans [OF booked_tidy tidy_trans [OF throttled_tidy booked_tidy]]] by blast
qed

lemma disconnect_loop_booked [booked]: "disconnect_loop HA es acc = Some acc' \<Longrightarrow> books acc' = books acc"
  by (induction es arbitrary: acc) (auto elim!: bind_SomeE split: keeps_splits dest!: on_acon_booked)

lemma async_shutdown_books:
  "updates (async_shutdown acc) = updates acc" "account (async_shutdown acc) = account acc"
  "acc_lastSlotmapUpdateAttempt (async_shutdown acc) = acc_lastSlotmapUpdateAttempt acc" "acc_pending (async_shutdown acc) = acc_pending acc"
  "has_flag HIRCLUSTER_FLAG_SHUTDOWN (acc_cc (async_shutdown acc))"
proof -
  have "bit (HIRCLUSTER_FLAG_SHUTDOWN :: u32) 15" by (simp add: bit_numeral_rec)
  then have "bit (and (or (cc_flags (acc_cc acc)) HIRCLUSTER_FLAG_SHUTDOWN) HIRCLUSTER_FLAG_SHUTDOWN) 15"
    by (simp only: bit_and_iff bit_or_iff simp_thms)
  then have "and (or (cc_flags (acc_cc acc)) HIRCLUSTER_FLAG_SHUTDOWN) HIRCLUSTER_FLAG_SHUTDOWN \<noteq> 0" by force
  then show "has_flag HIRCLUSTER_FLAG_SHUTDOWN (acc_cc (async_shutdown acc))"
    by (simp add: async_shutdown_def has_flag_def set_flag_def)
qed (simp_all add: async_shutdown_def updates_def account_def answered_def)

lemma redisClusterAsyncDisconnect_books:
  assumes "redisClusterAsyncDisconnect HA acc = Some acc'"
  shows "books acc' = books (async_shutdown acc)"
  using assms by (auto simp: redisClusterAsyncDisconnect_def Let_def split: option.splits dest!: booked)

lemma unlinkAsyncContextAndNode_keeps [keeps]: "unlinkAsyncContextAndNode d s = Some t \<Longrightarrow> settings t = settings s"
  by (auto simp: unlinkAsyncContextAndNode_def elim!: bind_SomeE split: option.splits)

lemma acon_cleanup_booked [booked]: "acon_cleanup a acc = Some acc' \<Longrightarrow> books acc' = books acc"
  by (auto simp: acon_cleanup_def elim!: bind_SomeE dest!: keeps)

lemma connect_tidy: "redisClusterAsyncConnect2 HA acc = Some (r, acc') \<Longrightarrow> tidy HA acc acc'"
  by (auto simp: redisClusterAsyncConnect2_def split: if_splits dest: updateSlotMapAsync_tidy)

lemma served_none_tidy: "tidy HA acc acc' \<Longrightarrow> served HA {#} acc acc'"
  by (simp add: tidy_def served_def)

lemma async_step_account:
  assumes "async_step L HA acc gs acc'"
  shows "account acc' \<subseteq># account acc + mset gs" "accepting HA \<Longrightarrow> account acc' = account acc + mset gs"
    "clock_ok HA \<Longrightarrow> one_update acc \<Longrightarrow> one_update acc'"
proof -
  have "account acc' \<subseteq># account acc + mset gs \<and> (accepting HA \<longrightarrow> account acc' = account acc + mset gs) \<and>
      (clock_ok HA \<longrightarrow> one_update acc \<longrightarrow> one_update acc')"
    using assms
  proof cases
    case command
    then show ?thesis using command_submitted [OF command(2)] by (simp add: submitted_def)
  next
    case command_to_node
    then show ?thesis using commandToNode_submitted [OF command_to_node(2)] by (simp add: submitted_def)
  next
    case connect
    then show ?thesis using connect_tidy [OF connect(2)] by (simp add: tidy_def)
  next
    case disconnect
    then show ?thesis using redisClusterAsyncDisconnect_books [of HA acc acc'] async_shutdown_books [of acc] by (simp add: books_def one_update_def)
  next
    case world
    then show ?thesis by (simp add: account_def answered_def one_update_def updates_def)
  next
    case hiredis
    then show ?thesis using booked_tidy [OF on_acon_booked [OF hiredis(2)]] by (simp add: tidy_def)
  next
    case reply
    then show ?thesis using deliver_served [OF reply(3)] by (simp add: served_def)
  next
    case cleanup
    then show ?thesis using booked_tidy [OF acon_cleanup_booked [OF cleanup(3)]] by (simp add: tidy_def)
  next
    case dropped
    then show ?thesis using deliver_served [OF dropped(4)] by (simp add: served_def)
  qed
  then show "account acc' \<subseteq># account acc + mset gs" "accepting HA \<Longrightarrow> account acc' = account acc + mset gs"
    "clock_ok HA \<Longrightarrow> one_update acc \<Longrightarrow> one_update acc'" by blast+
qed

lemma async_run_account:
  assumes "async_run L HA acc gs acc'"
  shows "account acc' \<subseteq># account acc + mset gs \<and> (accepting HA \<longrightarrow> account acc' = account acc + mset gs)"
  using assms
proof induction
  case start
  then show ?case by simp
next
  case (more acc fns acc1 gs acc2)
  have "account acc2 \<subseteq># (account acc + mset fns) + mset gs"
    using subset_mset.order_trans [OF async_step_account(1) [OF more.hyps(2)]] more.IH by (meson mset_subset_eq_mono_add_right_cancel)
  then show ?case using more.IH async_step_account(2) [OF more.hyps(2)] by (simp add: ac_simps)
qed

lemma async_run_one_update:
  assumes "async_run L HA acc gs acc'" and "clock_ok HA" and "one_update acc"
  shows "one_update acc'"
  using assms by induction (auto dest: async_step_account(3))

section \<open>Shutdown\<close>

text \<open>After the user has asked for a shutdown nothing is added to the pending callbacks.\<close>

abbreviation closing :: "('c, 'w) redisClusterAsyncContext \<Rightarrow> bool" where
  "closing acc \<equiv> has_flag HIRCLUSTER_FLAG_SHUTDOWN (acc_cc acc)"

lemma pending_simps [simp]:
  "acc_pending (redisClusterAsyncSetError e m acc) = acc_pending acc" "acc_pending (stamp_attempt HA acc) = acc_pending acc"
  "closing (redisClusterAsyncSetError e m acc) = closing acc" "closing (stamp_attempt HA acc) = closing acc"
  "acc_cc (redisClusterAsyncSetError e m acc) = acc_cc acc"
  by (simp_all add: redisClusterAsyncSetError_def Let_def stamp_attempt_def usec_now_def has_flag_def split: prod.splits)

lemma updateSlotMapAsync_closing: "closing acc \<Longrightarrow> updateSlotMapAsync HA ac acc = Some (REDIS_ERR, acc)"
  by (simp add: updateSlotMapAsync_def)

lemma throttled_closing: "closing acc \<Longrightarrow> throttledUpdateSlotMapAsync HA ac acc = Some acc' \<Longrightarrow> acc_pending acc' = acc_pending acc"
  by (auto simp: throttledUpdateSlotMapAsync_def usec_now_def updateSlotMapAsync_def has_flag_def split: if_splits prod.splits)

lemma async_finish_pending: "async_finish cad r acc = Some acc' \<Longrightarrow> acc_pending acc' = acc_pending acc"
  by (auto simp: async_finish_def Let_def elim!: bind_SomeE)

lemma take_nodes_closing:
  assumes c: "closing acc" and s: "settings cc = settings (acc_cc acc)" and t: "take_nodes HA nodes cc acc = Some acc'"
  shows "acc_pending acc' = acc_pending acc"
proof -
  obtain r cc1 where u: "updateNodesAndSlotmap nodes cc = Some (r, cc1)"
    and e: "acc' = acc\<lparr>acc_cc := cc1\<rparr> \<or> (\<exists>q. updateSlotMapAsync HA None (acc\<lparr>acc_cc := cc1\<rparr>) = Some (q, acc'))"
    using t by (auto simp: take_nodes_def elim!: bind_SomeE split: if_splits)
  have "closing (acc\<lparr>acc_cc := cc1\<rparr>)"
    using settings_flag [of cc1 "acc_cc acc"] updateNodesAndSlotmap_keeps [OF u] s c by simp
  with e show ?thesis using updateSlotMapAsync_closing by fastforce
qed

lemma run_callback_closing:
  assumes c: "closing acc" and r: "run_callback L HA a ac reply cb acc = Some acc'"
  shows "acc_pending acc' = acc_pending acc"
proof (cases cb)
  case NO_CB
  then show ?thesis using r by (simp add: run_callback_def)
next
  case SLOTS_CB
  then show ?thesis
    using r c updateSlotMapAsync_closing [of "stamp_attempt HA acc" HA None] take_nodes_closing [of "stamp_attempt HA acc"]
    by (auto simp: run_callback_def clusterSlotsReplyCallback_def Let_def elim!: bind_SomeE split: option.splits dest!: parse_cluster_slots_keeps)
next
  case NODES_CB
  then show ?thesis
    using r c updateSlotMapAsync_closing [of "stamp_attempt HA acc" HA None] take_nodes_closing [of "stamp_attempt HA acc"]
    by (auto simp: run_callback_def clusterNodesReplyCallback_def Let_def elim!: bind_SomeE split: option.splits dest!: parse_cluster_nodes_keeps)
next
  case (CMD_CB cad)
  then show ?thesis
    using r c throttled_closing [of "redisClusterAsyncSetError (ac_err ac) (ac_errstr ac) acc" HA None]
    by (auto simp: run_callback_def redisClusterAsyncCallback_def Let_def elim!: bind_SomeE split: option.splits dest!: async_finish_pending)
qed

lemma deliver_closing:
  assumes "closing acc" and "deliver L HA a ac reply acc = Some acc'"
  shows "mset (acc_pending acc') \<subseteq># mset (acc_pending acc)" "closing acc'"
proof -
  obtain cb qs where q: "run_callback L HA a ac reply cb (acc\<lparr>acc_pending := qs\<rparr>) = Some acc'" "mset (acc_pending acc) = add_mset (a, cb) (mset qs)"
    using deliver_run [OF assms(2)] by metis
  show "mset (acc_pending acc') \<subseteq># mset (acc_pending acc)" using run_callback_closing [OF _ q(1)] assms(1) q(2) by simp
  show "closing acc'" using settings_flag [OF run_callback_books(3) [OF q(1)]] assms(1) by simp
qed

lemma on_acon_pending: "on_acon f a acc = Some (r, acc') \<Longrightarrow> acc_pending acc' = acc_pending acc"
  by (auto simp: on_acon_def Let_def elim!: bind_SomeE split: prod.splits)

lemma disconnect_loop_pending: "disconnect_loop HA es acc = Some acc' \<Longrightarrow> acc_pending acc' = acc_pending acc"
  by (induction es arbitrary: acc) (auto elim!: bind_SomeE split: option.splits dest!: on_acon_pending)

lemma async_step_closing:
  assumes c: "closing acc" and s: "async_step L HA acc gs acc'"
  shows "gs = [] \<and> closing acc' \<and> mset (acc_pending acc') \<subseteq># mset (acc_pending acc)"
  using s
proof cases
  case command
  then show ?thesis using c by (auto simp: redisClusterAsyncFormattedCommand_def accepted_def)
next
  case command_to_node
  then show ?thesis using c by (auto simp: redisClusterAsyncFormattedCommandToNode_def accepted_def)
next
  case connect
  then show ?thesis using c by (auto simp: redisClusterAsyncConnect2_def updateSlotMapAsync_closing split: if_splits)
next
  case disconnect
  have "closing acc'"
    using settings_flag [OF books_settings [OF redisClusterAsyncDisconnect_books [OF disconnect(2)]]] async_shutdown_books(5) by blast
  moreover have "acc_pending acc' = acc_pending acc"
    using disconnect(2) async_shutdown_books(4) [of acc]
    by (auto simp: redisClusterAsyncDisconnect_def Let_def split: option.splits dest!: disconnect_loop_pending)
  ultimately show ?thesis using disconnect by simp
next
  case world
  then show ?thesis using c by (simp add: has_flag_def)
next
  case hiredis
  then show ?thesis
    using on_acon_pending [OF hiredis(2)] settings_flag [OF books_settings [OF on_acon_booked [OF hiredis(2)]]] c by simp
next
  case reply
  then show ?thesis using deliver_closing [OF c reply(3)] by simp
next
  case cleanup
  have "acc_pending acc' = acc_pending acc" using cleanup(3) by (auto simp: acon_cleanup_def elim!: bind_SomeE)
  then show ?thesis using settings_flag [OF books_settings [OF acon_cleanup_booked [OF cleanup(3)]]] c cleanup by simp
next
  case dropped
  then show ?thesis using deliver_closing [OF c dropped(4)] by simp
qed

lemma async_run_closing:
  assumes "async_run L HA acc gs acc'" and "closing acc"
  shows "gs = [] \<and> closing acc' \<and> mset (acc_pending acc') \<subseteq># mset (acc_pending acc)"
  using assms
proof induction
  case start
  then show ?case by simp
next
  case (more acc fns acc1 gs acc2)
  then show ?case using async_step_closing [OF _ more.hyps(2)] by (auto intro: subset_mset.order_trans)
qed

end
