(* ===== verification/Cluster_Node_Inv.thy ===== *)
theory Cluster_Node_Inv
  imports Cluster_Node
begin

text \<open>
  Ownership of nodes. A table owns the nodes it maps to and the slaves in their lists. As long as each node
  is owned once, releasing the table frees every node once; the lemmas of this theory show that parsing a
  CLUSTER SLOTS reply keeps it so, whatever the reply holds and whichever allocation fails.
\<close>

section \<open>Which members an operation touches\<close>

named_theorems step_intros \<open>steps that touch only the nodes, the allocator and the error\<close>

definition node_step :: "('c, 'w, 'z) cluster_scheme \<Rightarrow> ('c, 'w, 'z) cluster_scheme \<Rightarrow> bool" where
  "node_step s s' \<longleftrightarrow> (\<exists>e m al ns. s' = s\<lparr>cx_err := e, cx_errstr := m, w_script := al, w_nodes := ns\<rparr>)"

lemma node_stepI: "t = s\<lparr>cx_err := e, cx_errstr := m, w_script := al, w_nodes := ns\<rparr> \<Longrightarrow> node_step s t"
  unfolding node_step_def by blast

lemma node_stepE:
  assumes "node_step s t"
  obtains e m al ns where "t = s\<lparr>cx_err := e, cx_errstr := m, w_script := al, w_nodes := ns\<rparr>"
  using assms unfolding node_step_def by blast

lemma node_step_refl [step_intros]: "node_step s s"
  by (rule node_stepI [where e = "cx_err s" and m = "cx_errstr s" and al = "w_script s" and ns = "w_nodes s"]) simp

lemma node_step_trans [trans]: "node_step s t \<Longrightarrow> node_step t u \<Longrightarrow> node_step s u"
proof (elim node_stepE)
  fix e m al ns e' m' al' ns'
  assume "t = s\<lparr>cx_err := e, cx_errstr := m, w_script := al, w_nodes := ns\<rparr>"
    and "u = t\<lparr>cx_err := e', cx_errstr := m', w_script := al', w_nodes := ns'\<rparr>"
  then show ?thesis by (intro node_stepI [where e = e' and m = m' and al = al' and ns = ns']) simp
qed

lemma node_step_script [step_intros]: "node_step s t \<Longrightarrow> node_step s (t\<lparr>w_script := al\<rparr>)"
  by (erule node_step_trans) (rule node_stepI [where e = "cx_err t" and m = "cx_errstr t" and al = al and ns = "w_nodes t"], simp)

lemma node_step_nodes [step_intros]: "node_step s t \<Longrightarrow> node_step s (t\<lparr>w_nodes := ns\<rparr>)"
  by (erule node_step_trans) (rule node_stepI [where e = "cx_err t" and m = "cx_errstr t" and al = "w_script t" and ns = ns], simp)

lemma node_step_put [step_intros]: "node_step s t \<Longrightarrow> node_step s (node_put n nd t)"
  unfolding node_put_def by (rule node_step_nodes)

lemma node_step_error [step_intros]: "node_step s t \<Longrightarrow> node_step s (redisClusterSetError e m t)"
  by (erule node_step_trans)
    (rule node_stepI [where e = e and m = "take (if length (cstr m) < 127 then length (cstr m) else 127) (cstr m)" and al = "w_script t" and ns = "w_nodes t"],
     simp add: redisClusterSetError_def Let_def)

lemma node_stepD:
  assumes "node_step s t"
  shows "cc_flags t = cc_flags s" "cc_nodes t = cc_nodes s" "cc_table t = cc_table s" "cc_route_version t = cc_route_version s"
    "w_cons t = w_cons s" "w_acons t = w_acons s" "w_log t = w_log s" "w_world t = w_world s"
    "cc_need_update_route t = cc_need_update_route s" "cc_event_callback t = cc_event_callback s"
    "cc_requests t = cc_requests s" "cc_max_retry_count t = cc_max_retry_count s" "cc_retry_count t = cc_retry_count s"
    "cc_password t = cc_password s" "cc_username t = cc_username s" "cc_ssl t = cc_ssl s" "cc_on_connect t = cc_on_connect s"
    "has_flag f t = has_flag f s"
  using assms by (auto simp: node_step_def has_flag_def)

lemma set_error_simps [simp]:
  "w_nodes (redisClusterSetError e m s) = w_nodes s" "w_script (redisClusterSetError e m s) = w_script s"
  "w_cons (redisClusterSetError e m s) = w_cons s" "w_acons (redisClusterSetError e m s) = w_acons s"
  "cc_nodes (redisClusterSetError e m s) = cc_nodes s" "cc_table (redisClusterSetError e m s) = cc_table s"
  "cc_flags (redisClusterSetError e m s) = cc_flags s" "cc_route_version (redisClusterSetError e m s) = cc_route_version s"
  "w_log (redisClusterSetError e m s) = w_log s" "w_world (redisClusterSetError e m s) = w_world s"
  by (simp_all add: redisClusterSetError_def Let_def)

lemma node_put_simps [simp]:
  "w_nodes (node_put n nd s) = (w_nodes s)[n := Some nd]" "w_script (node_put n nd s) = w_script s"
  "w_cons (node_put n nd s) = w_cons s" "w_acons (node_put n nd s) = w_acons s"
  by (simp_all add: node_put_def)

lemma cc_alloc_cases:
  obtains b al where "cc_alloc s = (b, s\<lparr>w_script := al\<rparr>)" "no_oom (w_script s) \<Longrightarrow> b \<and> no_oom al"
  by (cases "hi_alloc (w_script s)") (use hi_alloc_no_oom [of "w_script s"] in \<open>auto simp: cc_alloc_def\<close>)

lemma cc_alloc_ex: "\<exists>b al. cc_alloc s = (b, s\<lparr>w_script := al\<rparr>) \<and> (no_oom (w_script s) \<longrightarrow> b \<and> no_oom al)"
  by (rule cc_alloc_cases [of s]) blast

lemma alloc_if_ex:
  "\<exists>b al. (if c then cc_alloc s else (True, s)) = (b, s\<lparr>w_script := al\<rparr>) \<and> (no_oom (w_script s) \<longrightarrow> b \<and> no_oom al)"
proof (cases c)
  case True
  then show ?thesis using cc_alloc_ex by (simp only: if_True)
next
  case False
  then show ?thesis by (intro exI [of _ True] exI [of _ "w_script s"]) simp
qed

lemma sds_copy_ex: "\<exists>r al. sds_copy str s = (r, s\<lparr>w_script := al\<rparr>) \<and> (r = None \<or> r = Some str) \<and>
    (no_oom (w_script s) \<longrightarrow> r = Some str \<and> no_oom al)"
proof -
  obtain b al where b: "cc_alloc s = (b, s\<lparr>w_script := al\<rparr>)" "no_oom (w_script s) \<longrightarrow> b \<and> no_oom al"
    using cc_alloc_ex by blast
  then show ?thesis
    by (intro exI [of _ "if b then Some str else None"] exI [of _ al]) (cases b; simp add: sds_copy_def)
qed

section \<open>Laws of sds\<close>

fun split_at_sep :: "char \<Rightarrow> string \<Rightarrow> string list" where
  "split_at_sep sep [] = [[]]"
| "split_at_sep sep (c # cs) =
     (if c = sep then [] # split_at_sep sep cs
      else (case split_at_sep sep cs of [] \<Rightarrow> [[c]] | f # fs \<Rightarrow> (c # f) # fs))"

text \<open>
  What sds promises: \<open>sdscatfmt\<close> appends the number in decimal, \<open>sdssplitlen\<close> splits a nonempty
  string at every separator, \<open>sdsrange\<close> keeps the characters of an inclusive range of indices, of
  which negative ones count from the end; the two that allocate fail only for lack of memory.
\<close>

definition sds_cat_ok :: "sdslib \<Rightarrow> bool" where
  "sds_cat_ok L \<longleftrightarrow>
     (\<forall>str port al r al'. 0 \<le> port \<longrightarrow> sdscatfmt_port L str port al = (r, al') \<longrightarrow>
        (r = None \<or> r = Some (str @ CHR '':'' # decimal (nat port))) \<and> (no_oom al \<longrightarrow> r \<noteq> None \<and> no_oom al'))"

definition sds_split_ok :: "sdslib \<Rightarrow> bool" where
  "sds_split_ok L \<longleftrightarrow>
     (\<forall>str sep al r al'. str \<noteq> [] \<longrightarrow> sdssplitlen L str sep al = (r, al') \<longrightarrow>
        (r = None \<or> r = Some (split_at_sep sep str)) \<and> (no_oom al \<longrightarrow> r \<noteq> None \<and> no_oom al'))"

definition sds_range_ok :: "sdslib \<Rightarrow> bool" where
  "sds_range_ok L \<longleftrightarrow>
     (\<forall>str i j. i \<le> j \<longrightarrow> j < length str \<longrightarrow> sdsrange L str (int i) (int j) = take (Suc j - i) (drop i str)) \<and>
     (\<forall>str. sdsrange L str 1 (-1) = drop 1 str \<and> sdsrange L str 0 (-2) = butlast str)"

definition sds_ok :: "sdslib \<Rightarrow> bool" where
  "sds_ok L \<longleftrightarrow> sds_cat_ok L \<and> sds_split_ok L \<and> sds_range_ok L"

text \<open>A library that keeps them.\<close>

definition ref_sds :: sdslib where
  "ref_sds =
     \<lparr>sdscatfmt_port = (\<lambda>str port al. case hi_alloc al of
          (b, al') \<Rightarrow> (if b then Some (str @ CHR '':'' # decimal (nat port)) else None, al')),
      sdssplitlen = (\<lambda>str sep al. case hi_alloc al of (b, al') \<Rightarrow> (if b then Some (split_at_sep sep str) else None, al')),
      sdsrange = (\<lambda>str i j. let len = int (length str); i' = (if i < 0 then len + i else i); j' = (if j < 0 then len + j else j)
                           in take (nat (j' - i' + 1)) (drop (nat i') str))\<rparr>"

lemma ref_sds_ok: "sds_ok ref_sds"
proof -
  have "nat (int j - int i + 1) = Suc j - i" if "i \<le> j" for i j
    using that by linarith
  moreover have "nat (int n - 1) = n - 1" for n by simp
  ultimately have "sds_range_ok ref_sds"
    by (simp add: sds_range_ok_def ref_sds_def Let_def butlast_conv_take)
  moreover have "sds_cat_ok ref_sds" "sds_split_ok ref_sds"
    using hi_alloc_no_oom by (auto simp: sds_cat_ok_def sds_split_ok_def ref_sds_def case_prod_unfold)
  ultimately show ?thesis by (simp add: sds_ok_def)
qed

lemma sds_cat_ex: "\<exists>r al. sds_cat L str port s = (r, s\<lparr>w_script := al\<rparr>) \<and>
    (sds_ok L \<longrightarrow> 0 \<le> port \<longrightarrow> (r = None \<or> r = Some (str @ CHR '':'' # decimal (nat port))) \<and>
       (no_oom (w_script s) \<longrightarrow> r \<noteq> None \<and> no_oom al))"
proof (cases "sdscatfmt_port L str port (w_script s)")
  case (Pair r al)
  have "sds_cat L str port s = (r, s\<lparr>w_script := al\<rparr>)" by (simp add: sds_cat_def Pair)
  with Pair show ?thesis unfolding sds_ok_def sds_cat_ok_def by blast
qed

lemma sds_split_ex: "\<exists>r al. sds_split L str sep s = (r, s\<lparr>w_script := al\<rparr>) \<and>
    (sds_ok L \<longrightarrow> str \<noteq> [] \<longrightarrow> (r = None \<or> r = Some (split_at_sep sep str)) \<and>
       (no_oom (w_script s) \<longrightarrow> r \<noteq> None \<and> no_oom al))"
proof (cases "sdssplitlen L str sep (w_script s)")
  case (Pair r al)
  have "sds_split L str sep s = (r, s\<lparr>w_script := al\<rparr>)" by (simp add: sds_split_def Pair)
  with Pair show ?thesis unfolding sds_ok_def sds_split_ok_def by blast
qed

section \<open>Freeing what is owned\<close>

definition slaves_at :: "('c, 'w, 'z) cluster_scheme \<Rightarrow> addr \<Rightarrow> addr list" where
  "slaves_at s n = (case node_at s n of None \<Rightarrow> [] | Some nd \<Rightarrow> owned_slaves nd)"

definition owned :: "('c, 'w, 'z) cluster_scheme \<Rightarrow> addr list \<Rightarrow> addr list" where
  "owned s ns = concat (map (\<lambda>n. n # slaves_at s n) ns)"

definition release_all :: "addr list \<Rightarrow> ('c, 'w, 'z) cluster_scheme \<Rightarrow> ('c, 'w, 'z) cluster_scheme" where
  "release_all xs s = foldl (\<lambda>t a. release_node a (the (node_at t a)) t) s xs"

text \<open>Each node is reached once, and slaves have no slaves of their own.\<close>

definition free_ok :: "('c, 'w, 'z) cluster_scheme \<Rightarrow> addr list \<Rightarrow> bool" where
  "free_ok s ns \<longleftrightarrow> distinct (owned s ns) \<and>
     (\<forall>n \<in> set ns. node_at s n \<noteq> None \<and> (\<forall>x \<in> set (slaves_at s n). node_at s x \<noteq> None \<and> slaves_at s x = []))"

lemma free_okD:
  assumes "free_ok s ns" and "n \<in> set ns"
  shows "node_at s n \<noteq> None" "\<forall>x \<in> set (slaves_at s n). node_at s x \<noteq> None \<and> slaves_at s x = []"
  using assms unfolding free_ok_def by blast+

lemma release_all_simps [simp]:
  "release_all [] s = s"
  "release_all (a # as) s = release_all as (release_node a (the (node_at s a)) s)"
  "release_all (as @ bs) s = release_all bs (release_all as s)"
  by (simp_all add: release_all_def)

lemma release_node_nodes [simp]: "w_nodes (release_node a nd s) = (w_nodes s)[a := None]"
  by (simp add: release_node_def)

lemma store_at_freed [simp]: "store_at (h[a := None]) b = (if b = a then None else store_at h b)"
  by (auto simp: store_at_def)

lemma store_at_ge [simp]: "\<not> a < length h \<Longrightarrow> store_at h a = None"
  by (simp add: store_at_def)

lemma release_all_node_at [simp]:
  "node_at (release_all xs s) a = (if a \<in> set xs then None else node_at s a)"
  "length (w_nodes (release_all xs s)) = length (w_nodes s)"
  by (induction xs arbitrary: s) auto

lemma slaves_at_release: "slaves_at (release_all xs s) a = (if a \<in> set xs then [] else slaves_at s a)"
  by (simp add: slaves_at_def)

lemma free_leaves:
  assumes "distinct xs" and "\<forall>x \<in> set xs. node_at s x \<noteq> None \<and> slaves_at s x = []"
  shows "free_nodes (xs @ ys) s = free_nodes ys (release_all xs s)"
  using assms
proof (induction xs arbitrary: s)
  case Nil
  then show ?case by simp
next
  case (Cons x xs)
  obtain nd where nd: "node_at s x = Some nd" "owned_slaves nd = []"
    using Cons.prems(2) by (auto simp: slaves_at_def)
  let ?s = "release_node x nd s"
  have "\<forall>y \<in> set xs. node_at ?s y \<noteq> None \<and> slaves_at ?s y = []"
    using Cons.prems by (auto simp: slaves_at_def)
  with Cons.IH [of ?s] Cons.prems(1) nd show ?case by simp
qed

lemma owned_Cons: "owned s (n # ns) = (n # slaves_at s n) @ owned s ns"
  by (simp add: owned_def)

lemma owned_release:
  assumes "set xs \<inter> set (owned s ns) = {}"
  shows "owned (release_all xs s) ns = owned s ns"
proof -
  have "n \<notin> set xs" if "n \<in> set ns" for n using assms that by (auto simp: owned_def)
  then show ?thesis by (simp add: owned_def slaves_at_release cong: map_cong)
qed

lemma free_nodes_owned:
  assumes "free_ok s ns"
  shows "free_nodes ns s = Some (release_all (owned s ns) s)"
  using assms
proof (induction ns arbitrary: s)
  case Nil
  then show ?case by (simp add: owned_def)
next
  case (Cons n ns)
  let ?xs = "slaves_at s n"
  obtain nd where nd: "node_at s n = Some nd" using Cons.prems by (auto simp: free_ok_def)
  then have xs: "?xs = owned_slaves nd" by (simp add: slaves_at_def)
  have d: "distinct (n # ?xs)" "set (n # ?xs) \<inter> set (owned s ns) = {}" "distinct (owned s ns)"
    using Cons.prems by (auto simp: free_ok_def owned_Cons)
  let ?s1 = "release_all (n # ?xs) s"
  have same: "node_at ?s1 a = node_at s a" "slaves_at ?s1 a = slaves_at s a" if "a \<in> set (owned s ns)" for a
    using d(2) that by (auto simp: slaves_at_release simp del: release_all_simps)
  have "\<forall>x \<in> set ?xs. node_at (release_node n nd s) x \<noteq> None \<and> slaves_at (release_node n nd s) x = []"
    using Cons.prems d(1) by (auto simp: free_ok_def slaves_at_def)
  then have "free_nodes (n # ns) s = free_nodes ns ?s1"
    using free_leaves [of ?xs "release_node n nd s" ns] d(1) nd xs by simp
  moreover have o1: "owned ?s1 ns = owned s ns" using d(2) by (intro owned_release) blast
  have "free_ok ?s1 ns"
    unfolding free_ok_def o1
  proof (intro conjI d(3) ballI)
    fix m assume m: "m \<in> set ns"
    then have "set (m # slaves_at s m) \<subseteq> set (owned s ns)" by (auto simp: owned_def)
    then have mem: "m \<in> set (owned s ns)" "\<And>x. x \<in> set (slaves_at s m) \<Longrightarrow> x \<in> set (owned s ns)" by auto
    have "m \<in> set (n # ns)" using m by simp
    note ok = free_okD [OF Cons.prems this]
    from ok(1) same(1) [OF mem(1)] show "node_at ?s1 m \<noteq> None" by metis
    fix x assume "x \<in> set (slaves_at ?s1 m)"
    then have x: "x \<in> set (slaves_at s m)" using same(2) [OF mem(1)] by metis
    with ok(2) same [OF mem(2) [OF x]] show "node_at ?s1 x \<noteq> None" "slaves_at ?s1 x = []" by metis+
  qed
  then have "free_nodes ns ?s1 = Some (release_all (owned s ns) ?s1)" using Cons.IH [of ?s1] o1 by metis
  ultimately show ?case by (metis owned_Cons release_all_simps(3))
qed

lemma release_all_step:
  assumes "distinct xs" and "\<forall>x \<in> set xs. \<exists>nd. node_at s x = Some nd \<and> n_con nd = None \<and> n_acon nd = None"
  shows "node_step s (release_all xs s)"
  using assms
proof (induction xs arbitrary: s)
  case Nil
  then show ?case by (simp add: node_step_refl)
next
  case (Cons x xs)
  obtain nd where nd: "node_at s x = Some nd" "n_con nd = None" "n_acon nd = None" using Cons.prems(2) by auto
  let ?s = "release_node x nd s"
  have "node_step s ?s"
    using nd by (simp add: release_node_def redisFree_def free_acon_def node_step_nodes [OF node_step_refl])
  also have "node_step ?s (release_all xs ?s)" using Cons by (intro Cons.IH) auto
  finally show ?case using nd by simp
qed

lemma release_node_con [simp]:
  "w_cons (release_node a nd s) = (case n_con nd of None \<Rightarrow> w_cons s | Some c \<Rightarrow> (w_cons s)[c := None])"
  "w_acons (release_node a nd s) = (case n_acon nd of None \<Rightarrow> w_acons s | Some c \<Rightarrow> (w_acons s)[c := None])"
  by (simp_all add: release_node_def free_acon_def redisFree_def cc_log_def split: option.splits)

lemma release_all_con:
  assumes "distinct xs" and "\<forall>x \<in> set xs. node_at s x \<noteq> None"
  shows "con_at (release_all xs s) c =
      (if \<exists>x \<in> set xs. \<exists>nd. node_at s x = Some nd \<and> n_con nd = Some c then None else con_at s c) \<and>
    acon_at (release_all xs s) c =
      (if \<exists>x \<in> set xs. \<exists>nd. node_at s x = Some nd \<and> n_acon nd = Some c then None else acon_at s c)"
  using assms
proof (induction xs arbitrary: s)
  case Nil
  then show ?case by simp
next
  case (Cons x xs)
  obtain nd where nd: "node_at s x = Some nd" using Cons.prems(2) by auto
  let ?s = "release_node x nd s"
  have "distinct xs" "\<forall>y \<in> set xs. node_at ?s y \<noteq> None" and same: "\<And>y. y \<in> set xs \<Longrightarrow> node_at ?s y = node_at s y"
    using Cons.prems by auto
  note IH = Cons.IH [OF this(1,2)]
  have step: "con_at ?s c = (if n_con nd = Some c then None else con_at s c)"
    "acon_at ?s c = (if n_acon nd = Some c then None else acon_at s c)"
    by (auto split: option.splits)
  have ex: "(\<exists>y \<in> set (x # xs). \<exists>nd'. node_at s y = Some nd' \<and> P nd') \<longleftrightarrow> P nd \<or> (\<exists>y \<in> set xs. \<exists>nd'. node_at ?s y = Some nd' \<and> P nd')" for P
    using same nd by auto
  show ?case using IH unfolding release_all_simps nd option.sel ex step by auto
qed

lemma release_node_cc [simp]:
  "cc_nodes (release_node a nd s) = cc_nodes s" "cc_table (release_node a nd s) = cc_table s"
  "cc_route_version (release_node a nd s) = cc_route_version s" "cc_flags (release_node a nd s) = cc_flags s"
  "cc_event_callback (release_node a nd s) = cc_event_callback s" "cc_need_update_route (release_node a nd s) = cc_need_update_route s"
  "cc_max_retry_count (release_node a nd s) = cc_max_retry_count s" "cc_retry_count (release_node a nd s) = cc_retry_count s"
  "cc_requests (release_node a nd s) = cc_requests s" "w_world (release_node a nd s) = w_world s"
  by (simp_all add: release_node_def free_acon_def redisFree_def cc_log_def split: option.splits)

lemma release_all_cc [simp]:
  "cc_nodes (release_all xs s) = cc_nodes s" "cc_table (release_all xs s) = cc_table s"
  "cc_route_version (release_all xs s) = cc_route_version s" "cc_flags (release_all xs s) = cc_flags s"
  "cc_event_callback (release_all xs s) = cc_event_callback s" "cc_need_update_route (release_all xs s) = cc_need_update_route s"
  "cc_max_retry_count (release_all xs s) = cc_max_retry_count s" "cc_retry_count (release_all xs s) = cc_retry_count s"
  "cc_requests (release_all xs s) = cc_requests s" "w_world (release_all xs s) = w_world s"
  by (induction xs arbitrary: s) simp_all

lemma release_node_script [simp]: "w_script (release_node a nd s) = w_script s"
  by (simp add: release_node_def free_acon_def redisFree_def cc_log_def split: option.splits)

lemma release_all_script [simp]: "w_script (release_all xs s) = w_script s"
  by (induction xs arbitrary: s) simp_all

section \<open>A table that owns its nodes\<close>

text \<open>
  Every node is stored under its own address and is no slave; the slaves of a node are live, are marked as
  slaves, have no slaves, and belong to one node.
\<close>

definition slave_ok :: "('c, 'w, 'z) cluster_scheme \<Rightarrow> addr \<Rightarrow> bool" where
  "slave_ok s x \<longleftrightarrow> (\<exists>sl. node_at s x = Some sl \<and> n_role sl = REDIS_ROLE_SLAVE \<and> n_slaves sl = None)"

definition member_ok :: "('c, 'w, 'z) cluster_scheme \<Rightarrow> string \<Rightarrow> addr \<Rightarrow> bool" where
  "member_ok s k n \<longleftrightarrow>
     (\<exists>nd. node_at s n = Some nd \<and> n_addr nd = Some k \<and> n_role nd \<noteq> REDIS_ROLE_SLAVE \<and>
        (case n_slaves nd of None \<Rightarrow> True | Some (fr, xs) \<Rightarrow> fr \<and> distinct xs \<and> (\<forall>x \<in> set xs. slave_ok s x)))"

definition nodes_own :: "(string, addr) dict \<Rightarrow> ('c, 'w, 'z) cluster_scheme \<Rightarrow> bool" where
  "nodes_own d s \<longleftrightarrow> dict_wf d \<and> d_type d = clusterNodesDictType \<and>
     (\<forall>k n. dict_map d k = Some n \<longrightarrow> member_ok s k n) \<and>
     (\<forall>k n k' n'. dict_map d k = Some n \<longrightarrow> dict_map d k' = Some n' \<longrightarrow> n \<noteq> n' \<longrightarrow>
        set (slaves_at s n) \<inter> set (slaves_at s n') = {})"

abbreviation owned_by :: "(string, addr) dict \<Rightarrow> ('c, 'w, 'z) cluster_scheme \<Rightarrow> addr list" where
  "owned_by d s \<equiv> owned s (map snd (dict_entries d))"

lemma member_okD:
  assumes "member_ok s k n"
  shows "node_at s n \<noteq> None" "distinct (slaves_at s n)" "\<forall>x \<in> set (slaves_at s n). slave_ok s x" "\<not> slave_ok s n"
proof -
  from assms obtain nd where nd: "node_at s n = Some nd" "n_role nd \<noteq> REDIS_ROLE_SLAVE"
    and sl: "case n_slaves nd of None \<Rightarrow> True | Some (fr, xs) \<Rightarrow> fr \<and> distinct xs \<and> (\<forall>x \<in> set xs. slave_ok s x)"
    unfolding member_ok_def by blast
  then show "node_at s n \<noteq> None" "\<not> slave_ok s n" by (simp_all add: slave_ok_def)
  show "distinct (slaves_at s n)" "\<forall>x \<in> set (slaves_at s n). slave_ok s x"
    using sl nd(1) by (cases "n_slaves nd"; auto simp: slaves_at_def owned_slaves_def split: bool.splits)+
qed

lemma slave_okD: "slave_ok s x \<Longrightarrow> node_at s x \<noteq> None \<and> slaves_at s x = []"
  by (auto simp: slave_ok_def slaves_at_def owned_slaves_def)

lemma distinct_owned:
  assumes "distinct ns" and "\<forall>n \<in> set ns. \<exists>k. member_ok s k n"
    and "\<forall>n \<in> set ns. \<forall>n' \<in> set ns. n \<noteq> n' \<longrightarrow> set (slaves_at s n) \<inter> set (slaves_at s n') = {}"
  shows "distinct (owned s ns)"
  using assms
proof (induction ns)
  case Nil
  then show ?case by (simp add: owned_def)
next
  case (Cons n ns)
  have no_slave: "\<not> slave_ok s m" if "m \<in> set (n # ns)" for m
    using Cons.prems(2) that member_okD(4) by blast
  have slave: "slave_ok s x" if "m \<in> set (n # ns)" "x \<in> set (slaves_at s m)" for m x
    using Cons.prems(2) that member_okD(3) by blast
  have "set (n # slaves_at s n) \<inter> set (owned s ns) = {}"
    using no_slave slave Cons.prems(1,3) by (fastforce simp: owned_def)
  moreover have "distinct (n # slaves_at s n)"
    using Cons.prems(2) no_slave [of n] slave [of n] member_okD(2) by auto
  ultimately show ?case using Cons by (auto simp: owned_Cons)
qed

lemma nodes_ownD:
  assumes "nodes_own d s"
  shows "dict_wf d" "d_type d = clusterNodesDictType" "dict_map d k = Some n \<Longrightarrow> member_ok s k n"
    "dict_map d k = Some n \<Longrightarrow> dict_map d k' = Some n' \<Longrightarrow> n \<noteq> n' \<Longrightarrow> set (slaves_at s n) \<inter> set (slaves_at s n') = {}"
  using assms unfolding nodes_own_def by blast+

lemma dict_nodes_distinct:
  assumes "nodes_own d s"
  shows "distinct (map snd (dict_entries d))"
proof -
  have wf: "dict_wf d" using assms by (simp add: nodes_own_def)
  have "fst e = fst e'" if "e \<in> set (dict_entries d)" "e' \<in> set (dict_entries d)" "snd e = snd e'" for e e'
  proof -
    have "member_ok s (fst e) (snd e)" if "e \<in> set (dict_entries d)" for e
      using that dict_map_entries [OF wf, of "fst e" "snd e"] nodes_ownD(3) [OF assms] by simp
    then have "member_ok s (fst e) (snd e)" "member_ok s (fst e') (snd e')" using that by blast+
    with that(3) show ?thesis by (auto simp: member_ok_def)
  qed
  then have "inj_on snd (set (dict_entries d))" by (meson inj_onI prod_eqI)
  moreover have "distinct (dict_entries d)"
    using wf by (simp add: dict_wf_def distinct_map)
  ultimately show ?thesis by (simp add: distinct_map)
qed

lemma nodes_own_free_ok:
  assumes "nodes_own d s"
  shows "free_ok s (map snd (dict_entries d))"
proof -
  have wf: "dict_wf d" using assms by (simp add: nodes_own_def)
  have mem: "\<exists>k. dict_map d k = Some n \<and> member_ok s k n" if "n \<in> set (map snd (dict_entries d))" for n
    using that assms dict_map_entries [OF wf] by (fastforce simp: nodes_own_def)
  have "distinct (owned_by d s)"
  proof (rule distinct_owned [OF dict_nodes_distinct [OF assms]])
    show "\<forall>n \<in> set (map snd (dict_entries d)). \<exists>k. member_ok s k n" using mem by blast
    show "\<forall>n \<in> set (map snd (dict_entries d)). \<forall>n' \<in> set (map snd (dict_entries d)).
        n \<noteq> n' \<longrightarrow> set (slaves_at s n) \<inter> set (slaves_at s n') = {}"
      using mem assms unfolding nodes_own_def by meson
  qed
  then show ?thesis
    unfolding free_ok_def
  proof (intro conjI ballI)
    fix n assume "n \<in> set (map snd (dict_entries d))"
    with mem obtain k where k: "member_ok s k n" by blast
    show "node_at s n \<noteq> None" using member_okD(1) [OF k] .
    fix x assume "x \<in> set (slaves_at s n)"
    then show "node_at s x \<noteq> None" "slaves_at s x = []" using member_okD(3) [OF k] slave_okD by blast+
  qed
qed

lemma release_dict_own:
  assumes "nodes_own d s"
  shows "release_nodes_dict d s = Some (release_all (owned_by d s) s)"
proof -
  have "keyDestructor (d_type d)" "valDestructor (d_type d)" "dict_wf d"
    using assms by (simp_all add: nodes_own_def clusterNodesDictType_def)
  then show ?thesis
    using free_nodes_owned [OF nodes_own_free_ok [OF assms]] by (simp add: release_nodes_dict_def dictRelease_all)
qed

section \<open>Framing\<close>

text \<open>Ownership depends on these members of a node only.\<close>

definition own_view :: "redisClusterNode \<Rightarrow> string option \<times> redis_role \<times> (bool \<times> addr list) option \<times> addr option \<times> addr option" where
  "own_view nd = (n_addr nd, n_role nd, n_slaves nd, n_con nd, n_acon nd)"

definition view_at :: "('c, 'w, 'z) cluster_scheme \<Rightarrow> addr \<Rightarrow> (string option \<times> redis_role \<times> (bool \<times> addr list) option \<times> addr option \<times> addr option) option" where
  "view_at s x = map_option own_view (node_at s x)"

definition struct_at :: "('c, 'w, 'z) cluster_scheme \<Rightarrow> addr \<Rightarrow> (string option \<times> redis_role \<times> (bool \<times> addr list) option) option" where
  "struct_at s x = map_option (\<lambda>nd. (n_addr nd, n_role nd, n_slaves nd)) (node_at s x)"

lemma view_struct: "view_at t x = view_at s x \<Longrightarrow> struct_at t x = struct_at s x"
  by (auto simp: view_at_def own_view_def struct_at_def map_option_case split: option.splits)

lemma slaves_at_struct: "struct_at t x = struct_at s x \<Longrightarrow> slaves_at t x = slaves_at s x"
  by (auto simp: struct_at_def slaves_at_def owned_slaves_def map_option_case split: option.splits)

lemma slave_ok_struct: "struct_at t x = struct_at s x \<Longrightarrow> slave_ok t x = slave_ok s x"
  by (auto simp: struct_at_def slave_ok_def map_option_case split: option.splits)

lemma slaves_at_member:
  assumes "member_ok s k n" "node_at s n = Some nd"
  shows "n_slaves nd = None \<and> slaves_at s n = [] \<or> n_slaves nd = Some (True, slaves_at s n)"
proof (cases "n_slaves nd")
  case None
  with assms show ?thesis by (simp add: slaves_at_def owned_slaves_def)
next
  case (Some l)
  with assms show ?thesis by (cases l) (auto simp: member_ok_def slaves_at_def owned_slaves_def)
qed

lemma member_okI:
  assumes "node_at s n = Some nd" "n_addr nd = Some k" "n_role nd \<noteq> REDIS_ROLE_SLAVE"
    "n_slaves nd = None \<or> n_slaves nd = Some (True, slaves_at s n)"
    "distinct (slaves_at s n)" "\<And>x. x \<in> set (slaves_at s n) \<Longrightarrow> slave_ok s x"
  shows "member_ok s k n"
  using assms(1-3) assms(5,6) assms(4) unfolding member_ok_def by (auto split: option.splits)

lemma member_ok_struct:
  assumes "member_ok s k n" and "struct_at t n = struct_at s n"
    and "\<And>x. x \<in> set (slaves_at s n) \<Longrightarrow> struct_at t x = struct_at s x"
  shows "member_ok t k n"
proof -
  obtain nd where nd: "node_at s n = Some nd" using member_okD(1) [OF assms(1)] by blast
  obtain nd' where nd': "node_at t n = Some nd'" "n_addr nd' = n_addr nd" "n_role nd' = n_role nd" "n_slaves nd' = n_slaves nd"
    using assms(2) nd by (auto simp: struct_at_def)
  have sl: "slaves_at t n = slaves_at s n" using assms(2) by (rule slaves_at_struct)
  show ?thesis
  proof (rule member_okI [OF nd'(1)])
    show "n_addr nd' = Some k" "n_role nd' \<noteq> REDIS_ROLE_SLAVE"
      using assms(1) nd nd'(2,3) by (auto simp: member_ok_def)
    show "n_slaves nd' = None \<or> n_slaves nd' = Some (True, slaves_at t n)"
      using slaves_at_member [OF assms(1) nd] nd'(4) sl by auto
    show "distinct (slaves_at t n)" using member_okD(2) [OF assms(1)] sl by simp
    show "slave_ok t x" if "x \<in> set (slaves_at t n)" for x
      using that sl assms(3) slave_ok_struct member_okD(3) [OF assms(1)] by metis
  qed
qed

definition owns :: "(string, addr) dict \<Rightarrow> ('c, 'w, 'z) cluster_scheme \<Rightarrow> addr \<Rightarrow> bool" where
  "owns d s x \<longleftrightarrow> (\<exists>k n. dict_map d k = Some n \<and> (x = n \<or> x \<in> set (slaves_at s n)))"

lemma set_owned_by: "dict_wf d \<Longrightarrow> x \<in> set (owned_by d s) \<longleftrightarrow> owns d s x"
proof -
  assume "dict_wf d"
  then have "n \<in> snd ` set (dict_entries d) \<longleftrightarrow> (\<exists>k. dict_map d k = Some n)" for n
    using dict_map_entries [of d] by (metis (no_types, lifting) image_iff snd_conv surjective_pairing)
  moreover have "x \<in> set (owned_by d s) \<longleftrightarrow> (\<exists>n \<in> snd ` set (dict_entries d). x = n \<or> x \<in> set (slaves_at s n))"
    by (auto simp: owned_def)
  ultimately show ?thesis unfolding owns_def by metis
qed

lemma owns_live:
  assumes "nodes_own d s" and "owns d s x"
  shows "node_at s x \<noteq> None"
proof -
  from assms(2) obtain k n where kn: "dict_map d k = Some n" "x = n \<or> x \<in> set (slaves_at s n)"
    unfolding owns_def by blast
  note m = nodes_ownD(3) [OF assms(1) kn(1)]
  from kn(2) show ?thesis using member_okD(1,3) [OF m] slave_okD [of s x] by blast
qed

lemma owns_struct:
  assumes "\<And>x. owns d s x \<Longrightarrow> struct_at t x = struct_at s x"
  shows "owns d t x = owns d s x"
proof -
  have "slaves_at t n = slaves_at s n" if "dict_map d k = Some n" for k n
    using assms that slaves_at_struct unfolding owns_def by blast
  then show ?thesis unfolding owns_def by metis
qed

lemma nodes_own_struct:
  assumes "nodes_own d s" and "\<And>x. owns d s x \<Longrightarrow> struct_at t x = struct_at s x"
  shows "nodes_own d t"
proof -
  have sl: "slaves_at t n = slaves_at s n" if "dict_map d k = Some n" for k n
    using assms(2) that slaves_at_struct unfolding owns_def by blast
  have "member_ok t k n" if "dict_map d k = Some n" for k n
    using that assms(2) by (intro member_ok_struct [OF nodes_ownD(3) [OF assms(1) that]]) (auto simp: owns_def)
  then show ?thesis
    using assms(1) sl unfolding nodes_own_def by metis
qed

lemma owns_view:
  assumes "\<And>x. owns d s x \<Longrightarrow> view_at t x = view_at s x"
  shows "owns d t x = owns d s x"
  by (rule owns_struct [OF view_struct [OF assms]])

lemma nodes_own_view:
  assumes "nodes_own d s" and "\<And>x. owns d s x \<Longrightarrow> view_at t x = view_at s x"
  shows "nodes_own d t"
  by (rule nodes_own_struct [OF assms(1) view_struct [OF assms(2)]])

lemma member_ok_view:
  assumes "member_ok s k n" and "view_at t n = view_at s n"
    and "\<And>x. x \<in> set (slaves_at s n) \<Longrightarrow> view_at t x = view_at s x"
  shows "member_ok t k n"
  by (rule member_ok_struct [OF assms(1) view_struct [OF assms(2)] view_struct [OF assms(3)]])

text \<open>The nodes of a table under construction lie beyond the old ones, are masters and have no connection.\<close>

definition nodes_fresh :: "nat \<Rightarrow> (string, addr) dict \<Rightarrow> ('c, 'w, 'z) cluster_scheme \<Rightarrow> bool" where
  "nodes_fresh n0 d s \<longleftrightarrow>
     (\<forall>x. owns d s x \<longrightarrow> n0 \<le> x \<and> (\<exists>nd. node_at s x = Some nd \<and> n_con nd = None \<and> n_acon nd = None)) \<and>
     (\<forall>k n nd. dict_map d k = Some n \<longrightarrow> node_at s n = Some nd \<longrightarrow> n_role nd = REDIS_ROLE_MASTER)"

lemma nodes_fresh_view:
  assumes "nodes_fresh n0 d s" and v: "\<And>x. owns d s x \<Longrightarrow> view_at t x = view_at s x"
  shows "nodes_fresh n0 d t"
proof -
  have "owns d t x \<longleftrightarrow> owns d s x" for x using v by (rule owns_view)
  moreover have "\<exists>nd. node_at t x = Some nd \<and> n_con nd = None \<and> n_acon nd = None" if o: "owns d s x" for x
  proof -
    obtain nd where "node_at s x = Some nd" "n_con nd = None" "n_acon nd = None"
      using assms(1) o unfolding nodes_fresh_def by blast
    with v [OF o] show ?thesis by (auto simp: view_at_def own_view_def)
  qed
  moreover have "n_role nd = REDIS_ROLE_MASTER" if kn: "dict_map d k = Some n" "node_at t n = Some nd" for k n nd
  proof -
    have "owns d s n" using kn(1) by (auto simp: owns_def)
    then obtain nd0 where nd0: "node_at s n = Some nd0" "n_role nd0 = REDIS_ROLE_MASTER"
      using assms(1) kn(1) unfolding nodes_fresh_def by blast
    with v [OF \<open>owns d s n\<close>] kn(2) show ?thesis by (auto simp: view_at_def own_view_def)
  qed
  ultimately show ?thesis using assms(1) unfolding nodes_fresh_def by metis
qed

definition building :: "nat \<Rightarrow> (string, addr) dict \<Rightarrow> ('c, 'w, 'z) cluster_scheme \<Rightarrow> bool" where
  "building n0 d s \<longleftrightarrow> nodes_own d s \<and> nodes_fresh n0 d s \<and> n0 \<le> length (w_nodes s)"

text \<open>Two states that agree below \<open>n0\<close>; the store does not shrink.\<close>

definition agree_below :: "nat \<Rightarrow> ('c, 'w, 'z) cluster_scheme \<Rightarrow> ('c, 'w, 'z) cluster_scheme \<Rightarrow> bool" where
  "agree_below n0 s t \<longleftrightarrow> (\<forall>a < n0. node_at t a = node_at s a) \<and> length (w_nodes s) \<le> length (w_nodes t)"

lemma agree_below_refl [simp]: "agree_below n0 s s"
  by (simp add: agree_below_def)

lemma agree_below_trans [trans]: "agree_below n0 s t \<Longrightarrow> agree_below n0 t u \<Longrightarrow> agree_below n0 s u"
  by (auto simp: agree_below_def)

lemma building_view:
  assumes "building n0 d s" and "\<And>x. owns d s x \<Longrightarrow> view_at t x = view_at s x" and "length (w_nodes s) \<le> length (w_nodes t)"
  shows "building n0 d t"
  using assms nodes_own_view [of d s t] nodes_fresh_view [of n0 d s t] unfolding building_def by auto

text \<open>A table under construction can be released; nothing else changes.\<close>

lemma building_release:
  assumes "building n0 d s"
  shows "\<exists>t. release_nodes_dict d s = Some t \<and> node_step s t \<and> agree_below n0 s t \<and> w_script t = w_script s"
proof -
  have own: "nodes_own d s" and fr: "nodes_fresh n0 d s" using assms by (simp_all add: building_def)
  let ?xs = "owned_by d s"
  have mem: "x \<in> set ?xs \<longleftrightarrow> owns d s x" for x using set_owned_by nodes_ownD(1) [OF own] by blast
  have "distinct ?xs" using nodes_own_free_ok [OF own] by (simp add: free_ok_def)
  moreover have "\<forall>x \<in> set ?xs. \<exists>nd. node_at s x = Some nd \<and> n_con nd = None \<and> n_acon nd = None"
    using fr mem unfolding nodes_fresh_def by blast
  ultimately have "node_step s (release_all ?xs s)" by (rule release_all_step)
  moreover have "n0 \<le> x" if "x \<in> set ?xs" for x using that mem fr unfolding nodes_fresh_def by blast
  then have "agree_below n0 s (release_all ?xs s)" by (auto simp: agree_below_def dest: leD)
  ultimately show ?thesis using release_dict_own [OF own] by auto
qed

end
