(* ===== verification/Slots_Reply_Inv.thy ===== *)
theory Slots_Reply_Inv
  imports Cluster_Node_Inv
begin

text \<open>
  What each operation of the CLUSTER SLOTS parser does to the nodes: it keeps the ownership of the table
  under construction and touches no older node. The lemmas also say what is stored where when no
  allocation fails, for the correctness of the parsed table.
\<close>

section \<open>Extending a table under construction\<close>

lemma owns_less:
  assumes "nodes_own d s" "owns d s x"
  shows "x < length (w_nodes s)"
proof (rule ccontr)
  assume "\<not> x < length (w_nodes s)"
  then have "node_at s x = None" by simp
  with owns_live [OF assms] show False by contradiction
qed

lemma nodes_own_inj:
  assumes "nodes_own d s" "dict_map d j = Some n" "dict_map d k = Some n"
  shows "j = k"
  using nodes_ownD(3) [OF assms(1,2)] nodes_ownD(3) [OF assms(1,3)] by (auto simp: member_ok_def)

lemma building_add:
  assumes b: "building n0 d s" and nd: "node_at s n = Some nd" "n_addr nd = Some k" "n_role nd = REDIS_ROLE_MASTER"
    "n_slaves nd = None" "n_con nd = None" "n_acon nd = None" and new: "n0 \<le> n" "\<not> owns d s n"
    and d': "dict_wf d'" "d_type d' = d_type d" "dict_map d' = (dict_map d)(k \<mapsto> n)" "dict_map d k = None"
  shows "building n0 d' s" "owns d' s x \<longleftrightarrow> owns d s x \<or> x = n"
proof -
  have own: "nodes_own d s" and fr: "nodes_fresh n0 d s" using b by (simp_all add: building_def)
  have sl: "slaves_at s n = []" using nd by (simp add: slaves_at_def owned_slaves_def)
  show ow: "owns d' s x \<longleftrightarrow> owns d s x \<or> x = n" for x
  proof
    show "owns d' s x \<Longrightarrow> owns d s x \<or> x = n" using d'(3) sl by (auto simp: owns_def split: if_splits)
    have "dict_map d' j = Some a" if "dict_map d j = Some a" for j a using that d'(3,4) by auto
    moreover have "dict_map d' k = Some n" using d'(3) by simp
    ultimately show "owns d s x \<or> x = n \<Longrightarrow> owns d' s x" unfolding owns_def by blast
  qed
  have "member_ok s k n" using nd sl by (intro member_okI [of _ _ nd]) auto
  then have "nodes_own d' s"
    using own d'(1-3) sl unfolding nodes_own_def by (auto split: if_splits)
  moreover have "nodes_fresh n0 d' s"
    using fr ow d'(3) nd new(1) unfolding nodes_fresh_def by auto
  ultimately show "building n0 d' s" using b by (simp add: building_def)
qed

lemma building_same_map:
  assumes "building n0 d s" "dict_wf d'" "d_type d' = d_type d" "dict_map d' = dict_map d"
  shows "building n0 d' s"
proof -
  have "owns d' s x = owns d s x" for x by (simp add: owns_def assms(4))
  with assms show ?thesis by (simp add: building_def nodes_own_def nodes_fresh_def)
qed

lemma owns_same_map: "dict_map d' = dict_map d \<Longrightarrow> owns d' s x = owns d s x"
  by (simp add: owns_def)

lemma owns_script [simp]: "owns d (s\<lparr>w_script := al\<rparr>) x = owns d s x"
  by (simp add: owns_def slaves_at_def)

lemma view_at_put:
  assumes "n < length (w_nodes s)"
  shows "view_at (node_put n nd s) x = (if x = n then Some (own_view nd) else view_at s x)"
  using assms by (simp add: view_at_def)

lemma building_add_slave:
  assumes b: "building n0 d s" and m: "dict_map d k = Some m" "node_at s m = Some nd"
    and x: "node_at s x = Some sl" "n_role sl = REDIS_ROLE_SLAVE" "n_slaves sl = None" "n_con sl = None" "n_acon sl = None"
    and new: "n0 \<le> x" "\<not> owns d s x"
  shows "building n0 d (node_put m (nd\<lparr>n_slaves := Some (True, slaves_at s m @ [x])\<rparr>) s)" (is "building n0 d ?t")
proof -
  have own: "nodes_own d s" and fr: "nodes_fresh n0 d s" using b by (simp_all add: building_def)
  have ml: "m < length (w_nodes s)" using m(2) by (rule store_at_less)
  have xm: "x \<noteq> m" using m(1) new(2) by (auto simp: owns_def)
  have at: "node_at ?t a = (if a = m then Some (nd\<lparr>n_slaves := Some (True, slaves_at s m @ [x])\<rparr>) else node_at s a)" for a
    using ml by simp
  then have sl: "slaves_at ?t a = (if a = m then slaves_at s m @ [x] else slaves_at s a)" for a
    by (simp add: slaves_at_def owned_slaves_def)
  have sok: "slave_ok ?t a \<longleftrightarrow> slave_ok s a" if "a \<noteq> m" for a using that at by (simp add: slave_ok_def)
  have mok: "member_ok s k m" using nodes_ownD(3) [OF own m(1)] .
  have not_m: "\<not> slave_ok s m" using member_okD(4) [OF mok] .
  have "slave_ok s x" using x by (auto simp: slave_ok_def)
  have x_out: "x \<notin> set (slaves_at s a)" if "dict_map d j = Some a" for j a
    using new(2) that by (auto simp: owns_def)
  have mem: "member_ok ?t j a" if "dict_map d j = Some a" for j a
  proof -
    note ja = nodes_ownD(3) [OF own that]
    show ?thesis
    proof (cases "a = m")
      case True
      have "n_addr nd = Some j" "n_role nd \<noteq> REDIS_ROLE_SLAVE" using ja m(2) True by (auto simp: member_ok_def)
      moreover have "slave_ok ?t y" if "y \<in> set (slaves_at ?t m)" for y
        using that sl sok not_m \<open>slave_ok s x\<close> xm member_okD(3) [OF mok] by (metis (no_types, lifting) Un_iff empty_iff empty_set insert_iff list.set(2) set_append)
      moreover have "distinct (slaves_at ?t m)"
        using sl member_okD(2) [OF mok] x_out [OF m(1)] by simp
      ultimately show ?thesis unfolding True
        by (intro member_okI [of ?t m "nd\<lparr>n_slaves := Some (True, slaves_at s m @ [x])\<rparr>"]) (simp_all add: at sl ml)
    next
      case False
      have "y \<noteq> m" if "y \<in> set (slaves_at s a)" for y using that member_okD(3) [OF ja] not_m by blast
      then show ?thesis
        using False ml by (intro member_ok_view [OF ja]) (simp_all add: view_at_put)
    qed
  qed
  have "nodes_own d ?t"
    using own mem sl x_out unfolding nodes_own_def by (auto split: if_splits)
  moreover have ow: "owns d ?t a \<Longrightarrow> owns d s a \<or> a = x" for a
    unfolding owns_def using sl by (auto split: if_splits)
  have "nodes_fresh n0 d ?t"
    unfolding nodes_fresh_def
  proof (intro conjI allI impI)
    fix a assume "owns d ?t a"
    then have "owns d s a \<or> a = x" by (rule ow)
    then have "n0 \<le> a \<and> (\<exists>nd. node_at s a = Some nd \<and> n_con nd = None \<and> n_acon nd = None)"
      using fr x new(1) unfolding nodes_fresh_def by blast
    then show "n0 \<le> a" "\<exists>nd. node_at ?t a = Some nd \<and> n_con nd = None \<and> n_acon nd = None"
      using at m(2) by auto
  next
    fix j a nd' assume ja: "dict_map d j = Some a" "node_at ?t a = Some nd'"
    have role: "n_role nd0 = REDIS_ROLE_MASTER" if "node_at s a = Some nd0" for nd0
      using fr ja(1) that unfolding nodes_fresh_def by blast
    show "n_role nd' = REDIS_ROLE_MASTER"
    proof (cases "a = m")
      case True
      with ja(2) at [of m] have "nd' = nd\<lparr>n_slaves := Some (True, slaves_at s m @ [x])\<rparr>" by (simp only: simp_thms if_True option.inject)
      with role [of nd] True m(2) show ?thesis by simp
    next
      case False
      with ja(2) at [of a] have "node_at s a = Some nd'" by (simp only: simp_thms if_False)
      with role show ?thesis .
    qed
  qed
  ultimately show ?thesis using b by (simp add: building_def)
qed

section \<open>Creating a node\<close>

definition slots_node_new :: "string \<Rightarrow> string \<Rightarrow> int \<Rightarrow> redis_role \<Rightarrow> redisClusterNode" where
  "slots_node_new address host port role =
     zero_node\<lparr>n_slots := (if role = REDIS_ROLE_MASTER then Some [] else None), n_addr := Some address,
               n_host := Some host, n_name := None, n_port := word_of_int port, n_role := role\<rparr>"

lemma slots_node_new_simps [simp]:
  "n_addr (slots_node_new a h p r) = Some a" "n_host (slots_node_new a h p r) = Some h" "n_role (slots_node_new a h p r) = r"
  "n_slaves (slots_node_new a h p r) = None" "n_con (slots_node_new a h p r) = None" "n_acon (slots_node_new a h p r) = None"
  "n_port (slots_node_new a h p r) = word_of_int p" "n_slots (slots_node_new a h p REDIS_ROLE_MASTER) = Some []"
  by (simp_all add: slots_node_new_def zero_node_def)

definition address_of :: "string \<Rightarrow> int \<Rightarrow> string" where
  "address_of host port = cstr host @ CHR '':'' # decimal (nat port)"

lemma slots_node_fields_ex:
  "\<exists>r al. slots_node_fields L host port role s = (r, s\<lparr>w_script := al\<rparr>) \<and>
     (\<forall>a h. r = Some (a, h) \<longrightarrow> h = cstr host \<and> (sds_ok L \<longrightarrow> 0 \<le> port \<longrightarrow> a = address_of host port)) \<and>
     (sds_ok L \<longrightarrow> 0 \<le> port \<longrightarrow> no_oom (w_script s) \<longrightarrow> r \<noteq> None \<and> no_oom al)"
proof -
  obtain b1 al1 where 1: "(if role = REDIS_ROLE_MASTER then cc_alloc s else (True, s)) = (b1, s\<lparr>w_script := al1\<rparr>)"
    "no_oom (w_script s) \<longrightarrow> b1 \<and> no_oom al1" using alloc_if_ex [of "role = REDIS_ROLE_MASTER" s] by blast
  let ?s1 = "s\<lparr>w_script := al1\<rparr>"
  obtain r2 al2 where 2: "sds_copy (cstr host) ?s1 = (r2, ?s1\<lparr>w_script := al2\<rparr>)" "r2 = None \<or> r2 = Some (cstr host)"
    "no_oom (w_script ?s1) \<longrightarrow> r2 = Some (cstr host) \<and> no_oom al2"
    using sds_copy_ex by blast
  let ?s2 = "?s1\<lparr>w_script := al2\<rparr>"
  obtain r3 al3 where 3: "sds_cat L (cstr host) port ?s2 = (r3, ?s2\<lparr>w_script := al3\<rparr>)"
    "sds_ok L \<longrightarrow> 0 \<le> port \<longrightarrow> (r3 = None \<or> r3 = Some (cstr host @ CHR '':'' # decimal (nat port))) \<and>
       (no_oom (w_script ?s2) \<longrightarrow> r3 \<noteq> None \<and> no_oom al3)"
    using sds_cat_ex by blast
  let ?s3 = "?s2\<lparr>w_script := al3\<rparr>"
  obtain r4 al4 where 4: "sds_copy (cstr host) ?s3 = (r4, ?s3\<lparr>w_script := al4\<rparr>)" "r4 = None \<or> r4 = Some (cstr host)"
    "no_oom (w_script ?s3) \<longrightarrow> r4 = Some (cstr host) \<and> no_oom al4"
    using sds_copy_ex by blast
  note defs = slots_node_fields_def 1(1)
  show ?thesis
  proof (cases "b1 \<and> r2 \<noteq> None \<and> r3 \<noteq> None \<and> r4 \<noteq> None")
    case True
    then obtain a where a: "r3 = Some a" by blast
    have "r2 = Some (cstr host)" "r4 = Some (cstr host)" using True 2(2) 4(2) by auto
    note r = this
    have "slots_node_fields L host port role s = (Some (a, cstr host), s\<lparr>w_script := al4\<rparr>)"
      using True a r 2(1) 3(1) 4(1) unfolding defs by simp
    moreover have "sds_ok L \<longrightarrow> 0 \<le> port \<longrightarrow> a = address_of host port" using 3(2) a by (simp add: address_of_def)
    moreover have "sds_ok L \<longrightarrow> 0 \<le> port \<longrightarrow> no_oom (w_script s) \<longrightarrow> no_oom al4"
      using 1(2) 2(3) 3(2) 4(3) by simp
    ultimately show ?thesis by blast
  next
    case False
    let ?al = "if \<not> b1 then al1 else if r2 = None then al2 else if r3 = None then al3 else al4"
    have "slots_node_fields L host port role s = (None, s\<lparr>w_script := ?al\<rparr>)"
    proof (cases "b1 \<and> r2 \<noteq> None")
      case True
      then have "r2 = Some (cstr host)" using 2(2) by blast
      with False True 2(1) 3(1) 4(1) show ?thesis unfolding defs by (cases r3; cases r4) simp_all
    next
      case False
      with 2(1) show ?thesis unfolding defs by (cases b1; cases r2) simp_all
    qed
    moreover have "\<not> (sds_ok L \<and> 0 \<le> port \<and> no_oom (w_script s))"
      using False 1(2) 2(3) 3(2) 4(3) by auto
    ultimately show ?thesis by blast
  qed
qed

lemma node_get_with_slots_ex:
  "\<exists>r t. node_get_with_slots L host port role s = (r, t) \<and> node_step s t \<and> agree_below (length (w_nodes s)) s t \<and>
     (\<forall>n. r = Some n \<longrightarrow> n = length (w_nodes s) \<and>
       (\<exists>a. node_at t n = Some (slots_node_new a (cstr host) port role) \<and> (sds_ok L \<longrightarrow> 0 \<le> port \<longrightarrow> a = address_of host port))) \<and>
     (sds_ok L \<longrightarrow> 0 \<le> port \<longrightarrow> no_oom (w_script s) \<longrightarrow> r \<noteq> None \<and> no_oom (w_script t))"
proof -
  obtain b al where b: "cc_alloc s = (b, s\<lparr>w_script := al\<rparr>)" "no_oom (w_script s) \<longrightarrow> b \<and> no_oom al"
    using cc_alloc_ex by blast
  let ?n = "length (w_nodes s)"
  let ?s1 = "s\<lparr>w_script := al, w_nodes := w_nodes s @ [Some zero_node]\<rparr>"
  obtain r1 al1 where f: "slots_node_fields L host port role ?s1 = (r1, ?s1\<lparr>w_script := al1\<rparr>)"
    "\<forall>a h. r1 = Some (a, h) \<longrightarrow> h = cstr host \<and> (sds_ok L \<longrightarrow> 0 \<le> port \<longrightarrow> a = address_of host port)"
    "sds_ok L \<longrightarrow> 0 \<le> port \<longrightarrow> no_oom (w_script ?s1) \<longrightarrow> r1 \<noteq> None \<and> no_oom al1"
    using slots_node_fields_ex [of L host port role ?s1] by (elim exE conjE) (rule that)
  show ?thesis
  proof (cases b)
    case False
    have "node_get_with_slots L host port role s = (None, set_oom (s\<lparr>w_script := al\<rparr>))"
      using False b(1) by (simp add: node_get_with_slots_def createRedisClusterNode_def)
    moreover have "node_step s (set_oom (s\<lparr>w_script := al\<rparr>))" by (intro step_intros)
    moreover have "agree_below ?n s (set_oom (s\<lparr>w_script := al\<rparr>))" by (simp add: agree_below_def)
    ultimately show ?thesis using b(2) False by blast
  next
    case True
    have create: "createRedisClusterNode s = (Some ?n, ?s1)"
      using True b(1) by (simp add: createRedisClusterNode_def)
    show ?thesis
    proof (cases r1)
      case None
      let ?t = "(set_oom (?s1\<lparr>w_script := al1\<rparr>))\<lparr>w_nodes := (w_nodes ?s1)[?n := None]\<rparr>"
      have "node_get_with_slots L host port role s = (None, ?t)"
        using create f(1) None by (simp add: node_get_with_slots_def oom_free_node_def)
      moreover have "node_step s ?t" by (intro step_intros)
      moreover have "agree_below ?n s ?t" by (simp add: agree_below_def)
      moreover have "\<not> (sds_ok L \<and> 0 \<le> port \<and> no_oom (w_script s))" using f(3) b(2) None by auto
      ultimately show ?thesis by blast
    next
      case (Some ah)
      then obtain a h where ah: "r1 = Some (a, h)" by (cases ah) auto
      let ?t = "node_put ?n (slots_node_new a h port role) (?s1\<lparr>w_script := al1\<rparr>)"
      have "node_get_with_slots L host port role s = (Some ?n, ?t)"
        using create f(1) ah by (simp add: node_get_with_slots_def slots_node_new_def)
      moreover have "node_step s ?t" by (intro step_intros)
      moreover have "agree_below ?n s ?t" by (simp add: agree_below_def)
      moreover have "node_at ?t ?n = Some (slots_node_new a (cstr host) port role)" using f(2) ah by simp
      moreover have "sds_ok L \<longrightarrow> 0 \<le> port \<longrightarrow> a = address_of host port" using f(2) ah by blast
      moreover have "sds_ok L \<longrightarrow> 0 \<le> port \<longrightarrow> no_oom (w_script s) \<longrightarrow> no_oom (w_script ?t)" using f(3) b(2) by simp
      ultimately show ?thesis by blast
    qed
  qed
qed

section \<open>Slot ranges\<close>

text \<open>Appending a range changes no member that ownership depends on.\<close>

lemma slots_append_ex:
  assumes "node_at s n = Some nd"
  shows "\<exists>b t. slots_append n nd slot s = (b, t) \<and> node_step s t \<and> length (w_nodes t) = length (w_nodes s) \<and>
     (\<forall>a. a \<noteq> n \<longrightarrow> node_at t a = node_at s a) \<and> view_at t n = view_at s n \<and>
     (b \<longrightarrow> node_at t n = Some (nd\<lparr>n_slots := Some ((case n_slots nd of None \<Rightarrow> [] | Some xs \<Rightarrow> xs) @ [slot])\<rparr>)) \<and>
     (no_oom (w_script s) \<longrightarrow> b \<and> no_oom (w_script t))"
proof -
  let ?old = "case n_slots nd of None \<Rightarrow> [] | Some xs \<Rightarrow> xs"
  have n: "n < length (w_nodes s)" using assms by (rule store_at_less)
  have alloc: "(case n_slots nd of None \<Rightarrow> cc_alloc s | Some _ \<Rightarrow> (True, s)) = (if n_slots nd = None then cc_alloc s else (True, s))"
    by (cases "n_slots nd") auto
  obtain b1 al1 where 1: "(if n_slots nd = None then cc_alloc s else (True, s)) = (b1, s\<lparr>w_script := al1\<rparr>)"
    "no_oom (w_script s) \<longrightarrow> b1 \<and> no_oom al1" using alloc_if_ex [of "n_slots nd = None" s] by blast
  obtain b2 al2 where 2: "cc_alloc (s\<lparr>w_script := al1\<rparr>) = (b2, s\<lparr>w_script := al1\<rparr>\<lparr>w_script := al2\<rparr>)"
    "no_oom (w_script (s\<lparr>w_script := al1\<rparr>)) \<longrightarrow> b2 \<and> no_oom al2"
    using cc_alloc_ex by blast
  define t where "t = (if \<not> b1 then s\<lparr>w_script := al1\<rparr>
    else node_put n (nd\<lparr>n_slots := Some (if b2 then ?old @ [slot] else ?old)\<rparr>) (s\<lparr>w_script := al2\<rparr>))"
  have "slots_append n nd slot s = (b1 \<and> b2, t)"
    unfolding slots_append_def alloc 1(1) t_def using 2(1) by (cases b1; cases b2) (simp_all add: Let_def)
  moreover have "node_step s t" unfolding t_def by (auto intro!: step_intros)
  moreover have "view_at t n = view_at s n" using n assms by (simp add: t_def view_at_def own_view_def)
  moreover have "no_oom (w_script s) \<longrightarrow> (b1 \<and> b2) \<and> no_oom (w_script t)" using 1(2) 2(2) by (auto simp: t_def)
  moreover have "b1 \<and> b2 \<longrightarrow> node_at t n = Some (nd\<lparr>n_slots := Some (?old @ [slot])\<rparr>)" using n by (simp add: t_def)
  moreover have "length (w_nodes t) = length (w_nodes s)" "\<forall>a. a \<noteq> n \<longrightarrow> node_at t a = node_at s a" by (simp_all add: t_def)
  ultimately show ?thesis by blast
qed

section \<open>What a table says\<close>

text \<open>The host, port and slot ranges stored under an address.\<close>

definition entry :: "redisClusterNode \<Rightarrow> string option \<times> u16 \<times> (u32 \<times> u32) list" where
  "entry nd = (n_host nd, n_port nd, map (\<lambda>sl. (cs_start sl, cs_end sl)) (case n_slots nd of None \<Rightarrow> [] | Some xs \<Rightarrow> xs))"

definition contents :: "(string, addr) dict \<Rightarrow> ('c, 'w, 'z) cluster_scheme \<Rightarrow> string \<rightharpoonup> string option \<times> u16 \<times> (u32 \<times> u32) list" where
  "contents d s k = (case dict_map d k of None \<Rightarrow> None | Some n \<Rightarrow> map_option entry (node_at s n))"

lemma contents_frame:
  assumes "\<And>k n. dict_map d k = Some n \<Longrightarrow> node_at t n = node_at s n"
  shows "contents d t = contents d s"
  using assms by (auto simp: contents_def fun_eq_iff split: option.splits)

definition add_range :: "string \<Rightarrow> string \<Rightarrow> int \<Rightarrow> u32 \<times> u32 \<Rightarrow>
    (string \<rightharpoonup> string option \<times> u16 \<times> (u32 \<times> u32) list) \<Rightarrow> (string \<rightharpoonup> string option \<times> u16 \<times> (u32 \<times> u32) list)" where
  "add_range k host port r c =
     (case c k of
        None \<Rightarrow> c(k \<mapsto> (Some host, word_of_int port, [r]))
      | Some (h, p, rs) \<Rightarrow> c(k \<mapsto> (h, p, rs @ [r])))"

section \<open>Steps of the parser\<close>

definition parse_step :: "nat \<Rightarrow> ('c, 'w, 'z) cluster_scheme \<Rightarrow> ('c, 'w, 'z) cluster_scheme \<Rightarrow> bool" where
  "parse_step n0 s t \<longleftrightarrow> node_step s t \<and> agree_below n0 s t"

lemma parse_step_refl [simp]: "parse_step n0 s s"
  by (simp add: parse_step_def node_step_refl)

lemma parse_step_trans [trans]: "parse_step n0 s t \<Longrightarrow> parse_step n0 t u \<Longrightarrow> parse_step n0 s u"
  unfolding parse_step_def using node_step_trans agree_below_trans by blast

lemma parse_step_script [simp]: "parse_step n0 s (s\<lparr>w_script := al\<rparr>)"
  by (simp add: parse_step_def agree_below_def node_step_script node_step_refl)

lemma parse_step_error [simp]: "parse_step n0 s (redisClusterSetError e m s)"
  by (simp add: parse_step_def agree_below_def node_step_error node_step_refl)

lemma building_script [simp]: "building n0 d (s\<lparr>w_script := al\<rparr>) = building n0 d s"
proof -
  have "building n0 d t" if "building n0 d s" "w_nodes t = w_nodes s" for s t :: "('a, 'b, 'c) cluster_scheme"
    using that by (intro building_view [of n0 d s t]) (simp_all add: view_at_def)
  from this [of s "s\<lparr>w_script := al\<rparr>"] this [of "s\<lparr>w_script := al\<rparr>" s] show ?thesis by auto
qed

lemma building_error [simp]: "building n0 d s \<Longrightarrow> building n0 d (redisClusterSetError e m s)"
  by (rule building_view [of n0 d s]) (simp_all add: view_at_def)

lemma contents_script [simp]: "contents d (s\<lparr>w_script := al\<rparr>) = contents d s"
  by (simp add: contents_def fun_eq_iff split: option.splits)

lemma cluster_slot_ref_node_ex:
  assumes b: "building n0 d s" and k: "dict_map d k = Some m"
  shows "\<exists>ret t. cluster_slot_ref_node slot (Some m) s = Some (ret, t) \<and> parse_step n0 s t \<and> building n0 d t \<and>
     (\<forall>sl. slot = Some sl \<longrightarrow> no_oom (w_script s) \<longrightarrow> ret = REDIS_OK \<and> no_oom (w_script t)) \<and>
     (\<forall>sl h p rs. slot = Some sl \<longrightarrow> ret = REDIS_OK \<longrightarrow> contents d s k = Some (h, p, rs) \<longrightarrow>
        contents d t = (contents d s)(k \<mapsto> (h, p, rs @ [(cs_start sl, cs_end sl)])))"
proof (cases slot)
  case None
  then show ?thesis using b by (simp add: cluster_slot_ref_node_def)
next
  case (Some sl)
  have own: "nodes_own d s" and fr: "nodes_fresh n0 d s" using b by (simp_all add: building_def)
  have o: "owns d s m" using k by (auto simp: owns_def)
  then obtain nd where nd: "node_at s m = Some nd" "n_role nd = REDIS_ROLE_MASTER" "n0 \<le> m"
    using fr k unfolding nodes_fresh_def by blast
  obtain ok t where t: "slots_append m nd (sl\<lparr>cs_node := Some m\<rparr>) s = (ok, t)" "node_step s t"
    "length (w_nodes t) = length (w_nodes s)" "\<forall>a. a \<noteq> m \<longrightarrow> node_at t a = node_at s a" "view_at t m = view_at s m"
    "ok \<longrightarrow> node_at t m = Some (nd\<lparr>n_slots := Some ((case n_slots nd of None \<Rightarrow> [] | Some xs \<Rightarrow> xs) @ [sl\<lparr>cs_node := Some m\<rparr>])\<rparr>)"
    "no_oom (w_script s) \<longrightarrow> ok \<and> no_oom (w_script t)"
    using slots_append_ex [OF nd(1), of "sl\<lparr>cs_node := Some m\<rparr>"] by (elim exE conjE) (rule that)
  have run: "cluster_slot_ref_node slot (Some m) s = Some (if ok then REDIS_OK else REDIS_ERR, t)"
    using nd t(1) Some by (simp add: cluster_slot_ref_node_def split: bool.splits)
  have view: "view_at t x = view_at s x" for x using t(4,5) by (cases "x = m") (simp_all add: view_at_def)
  have "parse_step n0 s t" using t(2,3,4) nd(3) by (auto simp: parse_step_def agree_below_def)
  moreover have "building n0 d t" using building_view [OF b, of t] view t(3) by simp
  moreover have "contents d t = (contents d s)(k \<mapsto> (h, p, rs @ [(cs_start sl, cs_end sl)]))"
    if "ok" "contents d s k = Some (h, p, rs)" for h p rs
  proof
    fix j
    have inj: "n \<noteq> m" if "dict_map d j = Some n" "j \<noteq> k" for n
      using that k nodes_own_inj [OF own, of j n k] by blast
    show "contents d t j = ((contents d s)(k \<mapsto> (h, p, rs @ [(cs_start sl, cs_end sl)]))) j"
    proof (cases "j = k")
      case True
      with that t(6) k nd(1) show ?thesis by (auto simp: contents_def entry_def)
    next
      case False
      with inj t(4) show ?thesis by (auto simp: contents_def split: option.splits)
    qed
  qed
  ultimately show ?thesis unfolding run using t(7) Some by simp
qed

text \<open>The outcome of a step of the region loop.\<close>

definition master_known :: "slots_vars \<Rightarrow> bool" where
  "master_known v \<longleftrightarrow> (\<exists>k m. sv_master v = Some m \<and> dict_map (sv_nodes v) k = Some m)"

definition elem_result :: "nat \<Rightarrow> nat \<Rightarrow> slots_vars \<Rightarrow> ('c, 'w, 'z) cluster_scheme \<Rightarrow> flow \<Rightarrow> slots_vars \<Rightarrow>
    ('c, 'w, 'z) cluster_scheme \<Rightarrow> bool" where
  "elem_result n0 grow v s fl v' t \<longleftrightarrow> parse_step n0 s t \<and> building n0 (sv_nodes v') t \<and>
     d_used (sv_nodes v') \<le> d_used (sv_nodes v) + grow"

lemma ref_master_ex:
  assumes "building n0 (sv_nodes v) s" and "dict_map (sv_nodes v) k = Some m" and "fl = NEXT \<or> fl = BREAK"
  shows "\<exists>fl' v' t. ref_master m fl v s = Some (fl', v', t) \<and> elem_result n0 0 v s fl' v' t \<and>
     (fl' = fl \<and> master_known v' \<or> fl' = GOTO_OOM) \<and>
     (\<forall>sl h p rs. sv_slot v = Some sl \<longrightarrow> no_oom (w_script s) \<longrightarrow> contents (sv_nodes v) s k = Some (h, p, rs) \<longrightarrow>
        fl' = fl \<and> no_oom (w_script t) \<and>
        contents (sv_nodes v') t = (contents (sv_nodes v) s)(k \<mapsto> (h, p, rs @ [(cs_start sl, cs_end sl)])))"
proof -
  obtain ret t where r: "cluster_slot_ref_node (sv_slot v) (Some m) s = Some (ret, t)" "parse_step n0 s t" "building n0 (sv_nodes v) t"
    "\<forall>sl. sv_slot v = Some sl \<longrightarrow> no_oom (w_script s) \<longrightarrow> ret = REDIS_OK \<and> no_oom (w_script t)"
    "\<forall>sl h p rs. sv_slot v = Some sl \<longrightarrow> ret = REDIS_OK \<longrightarrow> contents (sv_nodes v) s k = Some (h, p, rs) \<longrightarrow>
        contents (sv_nodes v) t = (contents (sv_nodes v) s)(k \<mapsto> (h, p, rs @ [(cs_start sl, cs_end sl)]))"
    using cluster_slot_ref_node_ex [OF assms(1,2), of "sv_slot v"] by (elim exE conjE) (rule that)
  show ?thesis
  proof (cases "ret = REDIS_OK")
    case True
    let ?v = "v\<lparr>sv_master := Some m, sv_slot := None\<rparr>"
    have "ref_master m fl v s = Some (fl, ?v, t)" using r(1) True by (simp add: ref_master_def)
    moreover have "elem_result n0 0 v s fl ?v t" using r(2,3) by (simp add: elem_result_def)
    moreover have "master_known ?v" using assms(2) by (auto simp: master_known_def)
    ultimately show ?thesis using r(4,5) True by (intro exI [of _ fl] exI [of _ ?v] exI [of _ t]) simp
  next
    case False
    let ?v = "v\<lparr>sv_master := Some m\<rparr>"
    have "ref_master m fl v s = Some (GOTO_OOM, ?v, t)" using r(1) False by (simp add: ref_master_def)
    moreover have "elem_result n0 0 v s GOTO_OOM ?v t" using r(2,3) by (simp add: elem_result_def)
    ultimately show ?thesis using r(4) False by (intro exI [of _ GOTO_OOM] exI [of _ ?v] exI [of _ t]) simp
  qed
qed

text \<open>A node that no table owns yet is freed alone.\<close>

lemma free_single:
  assumes "node_at s n = Some nd" "n_slaves nd = None" "n_con nd = None" "n_acon nd = None"
  shows "freeRedisClusterNode n s = Some (s\<lparr>w_nodes := (w_nodes s)[n := None]\<rparr>)"
  using assms by (simp add: freeRedisClusterNode_def owned_slaves_def release_node_def redisFree_def free_acon_def)

lemma building_free:
  assumes "building n0 d s" "\<not> owns d s n" "n0 \<le> n"
  shows "building n0 d (s\<lparr>w_nodes := (w_nodes s)[n := None]\<rparr>)" "parse_step n0 s (s\<lparr>w_nodes := (w_nodes s)[n := None]\<rparr>)"
proof -
  have "view_at (s\<lparr>w_nodes := (w_nodes s)[n := None]\<rparr>) x = view_at s x" if "owns d s x" for x
    using that assms(2) by (auto simp: view_at_def)
  then show "building n0 d (s\<lparr>w_nodes := (w_nodes s)[n := None]\<rparr>)" by (intro building_view [OF assms(1)]) simp_all
  show "parse_step n0 s (s\<lparr>w_nodes := (w_nodes s)[n := None]\<rparr>)"
    using assms(3) by (auto simp: parse_step_def agree_below_def intro!: step_intros)
qed

lemma cc_dictAdd_ex:
  assumes "nodes_own d s" "d_used d < 2 ^ 30"
  shows "\<exists>st d' al. cc_dictAdd d k n t = Some (st, d', t\<lparr>w_script := al\<rparr>) \<and> dict_wf d' \<and> d_type d' = d_type d \<and>
     dict_map d' = (if st = DICT_OK then (dict_map d)(k \<mapsto> n) else dict_map d) \<and>
     d_used d' = (if st = DICT_OK then d_used d + 1 else d_used d) \<and> (st = DICT_OK \<longrightarrow> dict_map d k = None) \<and>
     (no_oom (w_script t) \<longrightarrow> no_oom al \<and> (st = DICT_OK \<longleftrightarrow> dict_map d k = None))"
proof -
  obtain st d' al where "dictAdd d k n (w_script t) = Some (st, d', al)" "dict_wf d'" "d_type d' = d_type d"
     "dict_map d' = (if st = DICT_OK then (dict_map d)(k \<mapsto> n) else dict_map d)"
     "d_used d' = (if st = DICT_OK then d_used d + 1 else d_used d)" "st = DICT_OK \<longrightarrow> dict_map d k = None"
     "no_oom (w_script t) \<longrightarrow> no_oom al \<and> (st = DICT_OK \<longleftrightarrow> dict_map d k = None)"
    using dictAdd_wf [OF nodes_ownD(1) [OF assms(1)] assms(2), of k n "w_script t"] by (elim exE conjE) (rule that)
  then show ?thesis by (intro exI [of _ st] exI [of _ d'] exI [of _ al]) (simp add: cc_dictAdd_def)
qed

text \<open>A new master, stored under its own address.\<close>

lemma slots_add_master_ex:
  assumes b: "building n0 (sv_nodes v) s" and u: "d_used (sv_nodes v) < 2 ^ 30"
  shows "\<exists>fl v' t. slots_add_master L host port v s = Some (fl, v', t) \<and> elem_result n0 1 v s fl v' t \<and>
     (fl = NEXT \<and> master_known v' \<or> fl = GOTO_OOM \<or> fl = GOTO_ERROR) \<and>
     (\<forall>sl. sv_slot v = Some sl \<longrightarrow> sds_ok L \<longrightarrow> 0 \<le> port \<longrightarrow> no_oom (w_script s) \<longrightarrow>
        dict_map (sv_nodes v) (address_of host port) = None \<longrightarrow>
        fl = NEXT \<and> no_oom (w_script t) \<and> contents (sv_nodes v') t =
          (contents (sv_nodes v) s)(address_of host port \<mapsto> (Some (cstr host), word_of_int port, [(cs_start sl, cs_end sl)])))"
proof -
  let ?n = "length (w_nodes s)"
  have own: "nodes_own (sv_nodes v) s" and n0: "n0 \<le> ?n" using b by (simp_all add: building_def)
  obtain r t where g: "node_get_with_slots L host port REDIS_ROLE_MASTER s = (r, t)" "node_step s t" "agree_below ?n s t"
    "\<forall>n. r = Some n \<longrightarrow> n = ?n \<and> (\<exists>a. node_at t n = Some (slots_node_new a (cstr host) port REDIS_ROLE_MASTER) \<and>
        (sds_ok L \<longrightarrow> 0 \<le> port \<longrightarrow> a = address_of host port))"
    "sds_ok L \<longrightarrow> 0 \<le> port \<longrightarrow> no_oom (w_script s) \<longrightarrow> r \<noteq> None \<and> no_oom (w_script t)"
    using node_get_with_slots_ex [of L host port REDIS_ROLE_MASTER s] by (elim exE conjE) (rule that)
  have old: "x < ?n" if "owns (sv_nodes v) s x" for x using owns_less [OF own that] .
  then have same: "node_at t x = node_at s x" if "owns (sv_nodes v) s x" for x using g(3) that by (simp add: agree_below_def)
  have st: "parse_step n0 s t" using g(2,3) n0 by (auto simp: parse_step_def agree_below_def)
  have bt: "building n0 (sv_nodes v) t" using same g(3) by (intro building_view [OF b]) (simp_all add: view_at_def agree_below_def)
  have ct: "contents (sv_nodes v) t = contents (sv_nodes v) s" using same by (intro contents_frame) (auto simp: owns_def)
  have ow: "owns (sv_nodes v) t x = owns (sv_nodes v) s x" for x using same by (intro owns_view) (simp add: view_at_def)
  have new: "\<not> owns (sv_nodes v) t ?n" using old ow by blast
  show ?thesis
  proof (cases r)
    case None
    have "slots_add_master L host port v s = Some (GOTO_ERROR, v\<lparr>sv_master := None\<rparr>, t)"
      using g(1) None by (simp add: slots_add_master_def)
    moreover have "elem_result n0 1 v s GOTO_ERROR (v\<lparr>sv_master := None\<rparr>) t" using st bt by (simp add: elem_result_def)
    moreover have "\<not> (sds_ok L \<and> 0 \<le> port \<and> no_oom (w_script s))" using g(5) None by blast
    ultimately show ?thesis by blast
  next
    case (Some n)
    with g(4) obtain a where n: "n = ?n" and nd: "node_at t ?n = Some (slots_node_new a (cstr host) port REDIS_ROLE_MASTER)"
      and a: "sds_ok L \<longrightarrow> 0 \<le> port \<longrightarrow> a = address_of host port" by blast
    obtain r2 al2 where c: "sds_copy a t = (r2, t\<lparr>w_script := al2\<rparr>)" "r2 = None \<or> r2 = Some a"
      "no_oom (w_script t) \<longrightarrow> r2 = Some a \<and> no_oom al2" using sds_copy_ex by blast
    let ?t2 = "t\<lparr>w_script := al2\<rparr>"
    show ?thesis
    proof (cases r2)
      case None
      let ?t3 = "?t2\<lparr>w_nodes := (w_nodes ?t2)[?n := None]\<rparr>"
      have "slots_add_master L host port v s = Some (GOTO_OOM, v\<lparr>sv_master := Some ?n\<rparr>, ?t3)"
        using g(1) Some n nd c(1) None free_single [of ?t2 ?n] by (simp add: slots_add_master_def)
      moreover have "building n0 (sv_nodes v) ?t3" "parse_step n0 ?t2 ?t3"
        using building_free [of n0 "sv_nodes v" ?t2 ?n] bt n0 new by simp_all
      moreover have "parse_step n0 s ?t3"
        using parse_step_trans [OF parse_step_trans [OF st parse_step_script] \<open>parse_step n0 ?t2 ?t3\<close>] .
      moreover have "\<not> (sds_ok L \<and> 0 \<le> port \<and> no_oom (w_script s))" using g(5) c(3) None by auto
      ultimately show ?thesis by (auto simp: elem_result_def)
    next
      case r2: (Some a')
      then have a': "r2 = Some a" using c(2) by simp
      obtain st3 d3 al3 where d: "cc_dictAdd (sv_nodes v) a ?n ?t2 = Some (st3, d3, ?t2\<lparr>w_script := al3\<rparr>)" "dict_wf d3"
        "d_type d3 = d_type (sv_nodes v)"
        "dict_map d3 = (if st3 = DICT_OK then (dict_map (sv_nodes v))(a \<mapsto> ?n) else dict_map (sv_nodes v))"
        "d_used d3 = (if st3 = DICT_OK then d_used (sv_nodes v) + 1 else d_used (sv_nodes v))"
        "st3 = DICT_OK \<longrightarrow> dict_map (sv_nodes v) a = None"
        "no_oom (w_script ?t2) \<longrightarrow> no_oom al3 \<and> (st3 = DICT_OK \<longleftrightarrow> dict_map (sv_nodes v) a = None)"
        using cc_dictAdd_ex [OF own u, of a ?n ?t2] by (elim exE conjE) (rule that)
      let ?t3 = "?t2\<lparr>w_script := al3\<rparr>"
      have s3: "parse_step n0 s ?t3" using parse_step_trans [OF st, of "t\<lparr>w_script := al3\<rparr>"] by simp
      show ?thesis
      proof (cases "st3 = DICT_OK")
        case False
        let ?t4 = "?t3\<lparr>w_nodes := (w_nodes ?t3)[?n := None]\<rparr>"
        let ?v = "v\<lparr>sv_master := Some ?n, sv_nodes := d3\<rparr>"
        have "slots_add_master L host port v s = Some (GOTO_OOM, ?v, ?t4)"
          using g(1) Some n nd c(1) a' d(1) False free_single [of ?t3 ?n] by (simp add: slots_add_master_def)
        moreover have "\<not> owns d3 ?t3 ?n" using new d(4) False by (simp add: owns_same_map [of d3 "sv_nodes v"])
        have "building n0 d3 ?t3"
          using building_same_map [OF bt d(2,3)] d(4) False by simp
        then have "building n0 d3 ?t4" "parse_step n0 ?t3 ?t4"
          using building_free [OF _ \<open>\<not> owns d3 ?t3 ?n\<close> n0] by simp_all
        moreover have "parse_step n0 s ?t4" using parse_step_trans [OF s3 \<open>parse_step n0 ?t3 ?t4\<close>] .
        moreover have "\<not> (sds_ok L \<and> 0 \<le> port \<and> no_oom (w_script s) \<and> dict_map (sv_nodes v) (address_of host port) = None)"
          using g(5) c(3) d(7) a False by auto
        ultimately show ?thesis using d(5) False by (auto simp: elem_result_def)
      next
        case True
        let ?v = "v\<lparr>sv_nodes := d3\<rparr>"
        have "building n0 d3 t" and dm: "dict_map d3 a = Some ?n"
          using building_add [OF bt nd, of a d3] n0 new d True by simp_all
        then have b3: "building n0 (sv_nodes ?v) ?t3" by simp
        have c3: "contents (sv_nodes ?v) ?t3 = (contents (sv_nodes v) s)(a \<mapsto> (Some (cstr host), word_of_int port, []))"
        proof
          fix j
          have "contents (sv_nodes ?v) ?t3 j = contents d3 t j" by simp
          also have "\<dots> = ((contents (sv_nodes v) t)(a \<mapsto> (Some (cstr host), word_of_int port, []))) j"
            using nd d(4) True by (auto simp: contents_def entry_def)
          finally show "contents (sv_nodes ?v) ?t3 j = ((contents (sv_nodes v) s)(a \<mapsto> (Some (cstr host), word_of_int port, []))) j"
            using ct by simp
        qed
        have dm': "dict_map (sv_nodes ?v) a = Some ?n" using dm by simp
        obtain fl' v' u where m: "ref_master ?n NEXT ?v ?t3 = Some (fl', v', u)" "elem_result n0 0 ?v ?t3 fl' v' u"
          "fl' = NEXT \<and> master_known v' \<or> fl' = GOTO_OOM"
          "\<forall>sl h p rs. sv_slot ?v = Some sl \<longrightarrow> no_oom (w_script ?t3) \<longrightarrow> contents (sv_nodes ?v) ?t3 a = Some (h, p, rs) \<longrightarrow>
            fl' = NEXT \<and> no_oom (w_script u) \<and>
            contents (sv_nodes v') u = (contents (sv_nodes ?v) ?t3)(a \<mapsto> (h, p, rs @ [(cs_start sl, cs_end sl)]))"
          using ref_master_ex [OF b3 dm' disjI1 [OF refl]] by (elim exE conjE) (rule that)
        have "slots_add_master L host port v s = Some (fl', v', u)"
          using g(1) Some n nd c(1) a' d(1) True m(1) by (simp add: slots_add_master_def)
        moreover have "elem_result n0 1 v s fl' v' u"
          using m(2) parse_step_trans [OF s3] d(5) True by (auto simp: elem_result_def)
        moreover have "fl' = NEXT \<and> no_oom (w_script u) \<and> contents (sv_nodes v') u =
            (contents (sv_nodes v) s)(address_of host port \<mapsto> (Some (cstr host), word_of_int port, [(cs_start sl, cs_end sl)]))"
          if "sv_slot v = Some sl" "sds_ok L" "0 \<le> port" "no_oom (w_script s)" for sl
        proof -
          have "no_oom (w_script ?t3)" using that g(5) c(3) d(7) by simp
          then show ?thesis using m(4) that(1) c3 a that(2,3) by simp
        qed
        ultimately show ?thesis using m(3) by blast
      qed
    qed
  qed
qed

end
