(* ===== verification/Slots_Reply.thy ===== *)
theory Slots_Reply
  imports Slots_Reply_Inv
begin

text \<open>
  The parser of the CLUSTER SLOTS reply as a whole. Whatever the server replies and whichever allocation
  fails, it returns a table that owns its nodes or releases all it has built; on a well-formed reply the
  table holds, for every master, its host, port and slot ranges.
\<close>

section \<open>Masters and replicas\<close>

lemma slots_master_ex:
  assumes b: "building n0 (sv_nodes v) s" and u: "d_used (sv_nodes v) < 2 ^ 30"
  shows "\<exists>fl v' t. slots_master L host port v s = Some (fl, v', t) \<and> elem_result n0 1 v s fl v' t \<and>
     (fl \<in> {NEXT, BREAK} \<longrightarrow> master_known v') \<and>
     (\<forall>sl. sv_slot v = Some sl \<longrightarrow> sds_ok L \<longrightarrow> 0 \<le> port \<longrightarrow> no_oom (w_script s) \<longrightarrow>
        fl \<in> {NEXT, BREAK} \<and> no_oom (w_script t) \<and> contents (sv_nodes v') t =
          add_range (address_of host port) (cstr host) port (cs_start sl, cs_end sl) (contents (sv_nodes v) s))"
proof -
  obtain r1 al1 where 1: "sds_copy (cstr host) s = (r1, s\<lparr>w_script := al1\<rparr>)" "r1 = None \<or> r1 = Some (cstr host)"
    "no_oom (w_script s) \<longrightarrow> r1 = Some (cstr host) \<and> no_oom al1" using sds_copy_ex by blast
  let ?s1 = "s\<lparr>w_script := al1\<rparr>"
  obtain r2 al2 where 2: "sds_cat L (cstr host) port ?s1 = (r2, ?s1\<lparr>w_script := al2\<rparr>)"
    "sds_ok L \<longrightarrow> 0 \<le> port \<longrightarrow> (r2 = None \<or> r2 = Some (cstr host @ CHR '':'' # decimal (nat port))) \<and>
       (no_oom (w_script ?s1) \<longrightarrow> r2 \<noteq> None \<and> no_oom al2)"
    using sds_cat_ex by blast
  let ?s2 = "s\<lparr>w_script := al2\<rparr>"
  show ?thesis
  proof (cases "r1 = None \<or> r2 = None")
    case True
    let ?al = "if r1 = None then al1 else al2"
    have "slots_master L host port v s = Some (GOTO_OOM, v, s\<lparr>w_script := ?al\<rparr>)"
      using 1(1,2) 2(1) True by (cases r1; cases r2) (auto simp: slots_master_def)
    moreover have "elem_result n0 1 v s GOTO_OOM v (s\<lparr>w_script := ?al\<rparr>)" using b by (simp add: elem_result_def)
    moreover have "\<not> (sds_ok L \<and> 0 \<le> port \<and> no_oom (w_script s))" using 1(3) 2(2) True by auto
    ultimately show ?thesis by blast
  next
    case False
    then obtain a where r: "r1 = Some (cstr host)" "r2 = Some a" using 1(2) by auto
    have a: "sds_ok L \<longrightarrow> 0 \<le> port \<longrightarrow> a = address_of host port" using 2(2) r by (simp add: address_of_def)
    have oom: "sds_ok L \<longrightarrow> 0 \<le> port \<longrightarrow> no_oom (w_script s) \<longrightarrow> no_oom (w_script ?s2)" using 1(3) 2(2) by simp
    have b2: "building n0 (sv_nodes v) ?s2" using b by simp
    have res: "elem_result n0 1 v s fl v' t" if "elem_result n0 g v ?s2 fl v' t" "g \<le> 1" for g fl v' t
      using that parse_step_trans [OF parse_step_script [of n0 s al2]] by (auto simp: elem_result_def)
    have wf: "dict_wf (sv_nodes v)" and own: "nodes_own (sv_nodes v) s" using b by (simp_all add: building_def nodes_own_def)
    show ?thesis
    proof (cases "dict_map (sv_nodes v) a")
      case None
      then have run: "slots_master L host port v s = slots_add_master L host port v ?s2"
        using 1(1) 2(1) r by (simp add: slots_master_def dictFind_map [OF wf])
      obtain fl v' t where m: "slots_add_master L host port v ?s2 = Some (fl, v', t)" "elem_result n0 1 v ?s2 fl v' t"
        "fl = NEXT \<and> master_known v' \<or> fl = GOTO_OOM \<or> fl = GOTO_ERROR"
        "\<forall>sl. sv_slot v = Some sl \<longrightarrow> sds_ok L \<longrightarrow> 0 \<le> port \<longrightarrow> no_oom (w_script ?s2) \<longrightarrow>
        dict_map (sv_nodes v) (address_of host port) = None \<longrightarrow>
        fl = NEXT \<and> no_oom (w_script t) \<and> contents (sv_nodes v') t =
          (contents (sv_nodes v) ?s2)(address_of host port \<mapsto> (Some (cstr host), word_of_int port, [(cs_start sl, cs_end sl)]))"
        using slots_add_master_ex [OF b2 u, of L host port] by (elim exE conjE) (rule that)
      have "fl \<in> {NEXT, BREAK} \<longrightarrow> master_known v'" using m(3) by auto
      moreover have "fl \<in> {NEXT, BREAK} \<and> no_oom (w_script t) \<and> contents (sv_nodes v') t =
          add_range (address_of host port) (cstr host) port (cs_start sl, cs_end sl) (contents (sv_nodes v) s)"
        if "sv_slot v = Some sl" "sds_ok L" "0 \<le> port" "no_oom (w_script s)" for sl
        using that m(4) oom a None by (auto simp: add_range_def contents_def)
      ultimately show ?thesis unfolding run m(1) using res [OF m(2)] by blast
    next
      case (Some n)
      then have run: "slots_master L host port v s = ref_master n BREAK v ?s2"
        using 1(1) 2(1) r by (simp add: slots_master_def dictFind_map [OF wf])
      obtain fl v' t where m: "ref_master n BREAK v ?s2 = Some (fl, v', t)" "elem_result n0 0 v ?s2 fl v' t"
        "fl = BREAK \<and> master_known v' \<or> fl = GOTO_OOM"
        "\<forall>sl h p rs. sv_slot v = Some sl \<longrightarrow> no_oom (w_script ?s2) \<longrightarrow> contents (sv_nodes v) ?s2 a = Some (h, p, rs) \<longrightarrow>
        fl = BREAK \<and> no_oom (w_script t) \<and>
        contents (sv_nodes v') t = (contents (sv_nodes v) ?s2)(a \<mapsto> (h, p, rs @ [(cs_start sl, cs_end sl)]))"
        using ref_master_ex [OF b2 Some disjI2 [OF refl]] by (elim exE conjE) (rule that)
      have "owns (sv_nodes v) s n" using Some by (auto simp: owns_def)
      then obtain nd where "node_at s n = Some nd" using owns_live [OF own] by blast
      then have "contents (sv_nodes v) s a = Some (entry nd)" using Some by (simp add: contents_def)
      then obtain h p rs where c: "contents (sv_nodes v) s a = Some (h, p, rs)" by (cases "entry nd") auto
      have "fl \<in> {NEXT, BREAK} \<longrightarrow> master_known v'" using m(3) by auto
      moreover have "fl \<in> {NEXT, BREAK} \<and> no_oom (w_script t) \<and> contents (sv_nodes v') t =
          add_range (address_of host port) (cstr host) port (cs_start sl, cs_end sl) (contents (sv_nodes v) s)"
        if "sv_slot v = Some sl" "sds_ok L" "0 \<le> port" "no_oom (w_script s)" for sl
        using that m(4) oom a c by (auto simp: add_range_def)
      ultimately show ?thesis unfolding run m(1) using res [OF m(2)] by blast
    qed
  qed
qed

lemma slots_slave_ex:
  assumes b: "building n0 (sv_nodes v) s" and m: "master_known v"
  shows "\<exists>fl v' t. slots_slave L host port v s = Some (fl, v', t) \<and> elem_result n0 0 v s fl v' t \<and>
     (fl \<in> {NEXT, BREAK} \<longrightarrow> v' = v) \<and>
     (sds_ok L \<longrightarrow> 0 \<le> port \<longrightarrow> no_oom (w_script s) \<longrightarrow>
        fl = NEXT \<and> no_oom (w_script t) \<and> contents (sv_nodes v') t = contents (sv_nodes v) s)"
proof -
  let ?n = "length (w_nodes s)" and ?d = "sv_nodes v"
  obtain k ms where ms: "sv_master v = Some ms" "dict_map ?d k = Some ms" using m by (auto simp: master_known_def)
  have own: "nodes_own ?d s" and n0: "n0 \<le> ?n" using b by (simp_all add: building_def)
  obtain r t where g: "node_get_with_slots L host port REDIS_ROLE_SLAVE s = (r, t)" "node_step s t" "agree_below ?n s t"
    "\<forall>n. r = Some n \<longrightarrow> n = ?n \<and> (\<exists>a. node_at t n = Some (slots_node_new a (cstr host) port REDIS_ROLE_SLAVE) \<and>
        (sds_ok L \<longrightarrow> 0 \<le> port \<longrightarrow> a = address_of host port))"
    "sds_ok L \<longrightarrow> 0 \<le> port \<longrightarrow> no_oom (w_script s) \<longrightarrow> r \<noteq> None \<and> no_oom (w_script t)"
    using node_get_with_slots_ex [of L host port REDIS_ROLE_SLAVE s] by (elim exE conjE) (rule that)
  have same: "node_at t x = node_at s x" if "owns ?d s x" for x
    using g(3) owns_less [OF own that] by (simp add: agree_below_def)
  have st: "parse_step n0 s t" using g(2,3) n0 by (auto simp: parse_step_def agree_below_def)
  have bt: "building n0 ?d t" using same g(3) by (intro building_view [OF b]) (simp_all add: view_at_def agree_below_def)
  have ct: "contents ?d t = contents ?d s" using same by (intro contents_frame) (auto simp: owns_def)
  have ow: "owns ?d t x = owns ?d s x" for x using same by (intro owns_view) (simp add: view_at_def)
  have new: "\<not> owns ?d t ?n" using owns_less [OF own] ow by blast
  have om: "owns ?d t ms" using ms(2) by (auto simp: owns_def)
  have own_t: "nodes_own ?d t" using bt by (simp add: building_def)
  obtain nd where nd: "node_at t ms = Some nd" using owns_live [OF own_t om] by blast
  show ?thesis
  proof (cases r)
    case None
    have "slots_slave L host port v s = Some (GOTO_ERROR, v, t)" using g(1) None by (simp add: slots_slave_def)
    moreover have "elem_result n0 0 v s GOTO_ERROR v t" using st bt by (simp add: elem_result_def)
    moreover have "\<not> (sds_ok L \<and> 0 \<le> port \<and> no_oom (w_script s))" using g(5) None by blast
    ultimately show ?thesis by blast
  next
    case (Some n)
    with g(4) obtain a where n: "n = ?n" and sl: "node_at t ?n = Some (slots_node_new a (cstr host) port REDIS_ROLE_SLAVE)" by blast
    have xs: "n_slaves nd = None \<and> slaves_at t ms = [] \<or> n_slaves nd = Some (True, slaves_at t ms)"
      using slaves_at_member [OF nodes_ownD(3) [OF own_t ms(2)] nd] .
    have alloc: "(case n_slaves nd of None \<Rightarrow> cc_alloc t | Some _ \<Rightarrow> (True, t)) = (if n_slaves nd = None then cc_alloc t else (True, t))"
      by (cases "n_slaves nd") auto
    have l: "(case n_slaves nd of None \<Rightarrow> (True, []) | Some l \<Rightarrow> l) = (True, slaves_at t ms)" using xs by auto
    obtain b1 al1 where 1: "(if n_slaves nd = None then cc_alloc t else (True, t)) = (b1, t\<lparr>w_script := al1\<rparr>)"
      "no_oom (w_script t) \<longrightarrow> b1 \<and> no_oom al1" using alloc_if_ex [of "n_slaves nd = None" t] by blast
    let ?t1 = "t\<lparr>w_script := al1\<rparr>"
    obtain b2 al2 where 2: "cc_alloc ?t1 = (b2, ?t1\<lparr>w_script := al2\<rparr>)" "no_oom (w_script ?t1) \<longrightarrow> b2 \<and> no_oom al2"
      using cc_alloc_ex by blast
    let ?t2 = "t\<lparr>w_script := al2\<rparr>"
    have ml: "ms < length (w_nodes t)" using nd by (rule store_at_less)
    have mn: "ms \<noteq> ?n" using om new by metis
    have put: "contents ?d (node_put ms (nd\<lparr>n_slaves := z\<rparr>) ?t2) = contents ?d s" for z
    proof -
      have "contents ?d (node_put ms (nd\<lparr>n_slaves := z\<rparr>) ?t2) = contents ?d t"
        using nd ml by (auto simp: contents_def fun_eq_iff entry_def split: option.splits)
      with ct show ?thesis by simp
    qed
    have oom: "sds_ok L \<longrightarrow> 0 \<le> port \<longrightarrow> no_oom (w_script s) \<longrightarrow> b1 \<and> b2 \<and> no_oom al2" using g(5) 1(2) 2(2) by simp
    have ps: "parse_step n0 s (t\<lparr>w_script := al\<rparr>)" for al using parse_step_trans [OF st parse_step_script] .
    consider (f1) "\<not> b1" | (f2) "b1" "\<not> b2" | (ok) "b1" "b2" by blast
    then show ?thesis
    proof cases
      case f1
      let ?t3 = "?t1\<lparr>w_nodes := (w_nodes ?t1)[?n := None]\<rparr>"
      have "slots_slave L host port v s = Some (GOTO_OOM, v, ?t3)"
        using g(1) Some n ms(1) nd alloc 1(1) f1 sl free_single [of ?t1 ?n] by (simp add: slots_slave_def)
      moreover have "building n0 ?d ?t3" "parse_step n0 ?t1 ?t3" using building_free [of n0 ?d ?t1 ?n] bt n0 new by simp_all
      moreover have "parse_step n0 s ?t3" using parse_step_trans [OF ps \<open>parse_step n0 ?t1 ?t3\<close>] .
      ultimately show ?thesis using oom f1 by (auto simp: elem_result_def)
    next
      case f2
      let ?u = "node_put ms (nd\<lparr>n_slaves := Some (True, slaves_at t ms)\<rparr>) ?t2"
      let ?t3 = "?u\<lparr>w_nodes := (w_nodes ?u)[?n := None]\<rparr>"
      have bu: "building n0 ?d ?u" "\<And>x. owns ?d ?u x = owns ?d t x"
      proof -
        note mok = nodes_ownD(3) [OF own_t ms(2)]
        have same_sl: "slaves_at ?u x = slaves_at t x" for x
          using nd ml xs by (auto simp: slaves_at_def owned_slaves_def)
        have at: "node_at ?u x = (if x = ms then Some (nd\<lparr>n_slaves := Some (True, slaves_at t ms)\<rparr>) else node_at t x)" for x
          using ml by simp
        show ow_u: "owns ?d ?u x = owns ?d t x" for x by (simp add: owns_def same_sl del: node_put_simps)
        have sok: "slave_ok ?u x" if "slave_ok t x" for x
          using that member_okD(4) [OF mok] at by (auto simp: slave_ok_def simp del: node_put_simps)
        have "member_ok ?u j y" if "dict_map ?d j = Some y" for j y
        proof -
          note my = nodes_ownD(3) [OF own_t that]
          obtain ny where ny: "node_at t y = Some ny" using member_okD(1) [OF my] by blast
          show ?thesis
          proof (rule member_okI [of ?u y "if y = ms then nd\<lparr>n_slaves := Some (True, slaves_at t ms)\<rparr> else ny"])
            show "slave_ok ?u x" if "x \<in> set (slaves_at ?u y)" for x
              using that same_sl sok member_okD(3) [OF my] by metis
          qed (use my ny nd at same_sl member_okD(2) [OF my] slaves_at_member [OF my ny] in \<open>auto simp: member_ok_def simp del: node_put_simps\<close>)
        qed
        then have "nodes_own ?d ?u" using own_t same_sl unfolding nodes_own_def by simp
        moreover have "nodes_fresh n0 ?d ?u"
          using bt nd at ow_u unfolding building_def nodes_fresh_def by (auto simp del: node_put_simps split: if_splits)
        ultimately show "building n0 ?d ?u" using bt by (simp add: building_def)
      qed
      have "slots_slave L host port v s = Some (GOTO_OOM, v, ?t3)"
        using g(1) Some n ms(1) nd alloc 1(1) 2(1) f2 sl l mn free_single [of ?u ?n] by (simp add: slots_slave_def)
      moreover have "building n0 ?d ?t3" "parse_step n0 ?u ?t3" using building_free [of n0 ?d ?u ?n] bu n0 new by simp_all
      moreover have "parse_step n0 ?t2 ?u"
        using bt om ml unfolding parse_step_def agree_below_def building_def nodes_fresh_def by (auto intro!: step_intros)
      then have "parse_step n0 s ?t3" using parse_step_trans [OF parse_step_trans [OF ps] \<open>parse_step n0 ?u ?t3\<close>] by blast
      ultimately show ?thesis using oom f2 by (auto simp: elem_result_def)
    next
      case ok
      let ?t3 = "node_put ms (nd\<lparr>n_slaves := Some (True, slaves_at t ms @ [?n])\<rparr>) ?t2"
      have "slots_slave L host port v s = Some (NEXT, v, ?t3)"
        using g(1) Some n ms(1) nd alloc 1(1) 2(1) ok l by (simp add: slots_slave_def)
      moreover have "building n0 ?d ?t3"
        using building_add_slave [of n0 ?d ?t2 k ms nd ?n "slots_node_new a (cstr host) port REDIS_ROLE_SLAVE"] bt ms(2) nd sl n0 new
        by (simp add: slaves_at_def)
      moreover have "parse_step n0 ?t2 ?t3"
        using bt om ml unfolding parse_step_def agree_below_def building_def nodes_fresh_def by (auto intro!: step_intros)
      then have "parse_step n0 s ?t3" using parse_step_trans [OF ps] by blast
      ultimately show ?thesis using oom put by (auto simp: elem_result_def simp del: node_put_simps) (simp add: node_put_def)
    qed
  qed
qed

section \<open>One range\<close>

text \<open>What a well-formed element says: the endpoint of a node, and a range with the endpoint of its master.\<close>

definition node_reads :: "string option \<Rightarrow> redisReply \<Rightarrow> (string \<times> int) option" where
  "node_reads tcp_host e =
     (case e of
        REDIS_REPLY_ARRAY (ip # port # _) \<Rightarrow>
          (case elem_type_ok ip port of
             None \<Rightarrow> None
           | Some (str, p) \<Rightarrow> if str \<noteq> [] then Some (str, p) else map_option (\<lambda>h. (h, p)) tcp_host)
      | _ \<Rightarrow> None)"

definition region_reads :: "string option \<Rightarrow> redisReply \<Rightarrow> (u32 \<times> u32 \<times> string \<times> int) option" where
  "region_reads tcp_host e =
     (case e of
        REDIS_REPLY_ARRAY (REDIS_REPLY_INTEGER a # REDIS_REPLY_INTEGER b # m # replicas) \<Rightarrow>
          if (word_of_int a :: u32) \<le> word_of_int b \<and> (\<forall>r \<in> set replicas. node_reads tcp_host r \<noteq> None)
          then map_option (\<lambda>(h, p). (word_of_int a, word_of_int b, h, p)) (node_reads tcp_host m) else None
      | _ \<Rightarrow> None)"

lemma elem_type_ok_port: "elem_type_ok ip port = Some (str, p) \<Longrightarrow> 1 \<le> p \<and> p \<le> 65535"
  by (auto simp: elem_type_ok_def hi_valid_port_def Let_def split: redisReply.splits if_splits)

lemma node_reads_port: "node_reads th e = Some (h, p) \<Longrightarrow> 1 \<le> p \<and> p \<le> 65535"
  by (auto simp: node_reads_def dest: elem_type_ok_port split: redisReply.splits list.splits option.splits if_splits)

lemma slots_node_reads:
  assumes "node_reads th e = Some (h, p)"
  shows "slots_node L th idx e v s =
     (if idx = 2 then slots_master L h p v s
      else if has_flag HIRCLUSTER_FLAG_ADD_SLAVE s then slots_slave L h p v s else Some (NEXT, v, s))"
  using assms by (auto simp: node_reads_def slots_node_def split: redisReply.splits list.splits option.splits if_splits)

lemma slots_node_not_reads:
  assumes "node_reads th e = None" "e \<noteq> NULL_ELEMENT"
  shows "\<exists>fl e' m. slots_node L th idx e v s = Some (fl, v, s) \<and> fl = GOTO_OOM \<or>
      slots_node L th idx e v s = Some (GOTO_ERROR, v, redisClusterSetError e' m s)"
  using assms by (auto simp: node_reads_def slots_node_def split: redisReply.splits list.splits option.splits if_splits)

lemma slots_node_ex:
  assumes b: "building n0 (sv_nodes v) s" and "e \<noteq> NULL_ELEMENT" and u: "d_used (sv_nodes v) < 2 ^ 30"
    and m: "idx \<noteq> 2 \<longrightarrow> master_known v"
  shows "\<exists>fl v' t. slots_node L th idx e v s = Some (fl, v', t) \<and> elem_result n0 (if idx = 2 then 1 else 0) v s fl v' t \<and>
     (fl \<in> {NEXT, BREAK} \<longrightarrow> master_known v')"
proof (cases "node_reads th e")
  case None
  from slots_node_not_reads [OF this assms(2), of L idx v s] b show ?thesis
    by (elim exE disjE) (simp_all add: elem_result_def)
next
  case (Some hp)
  then obtain h p where hp: "node_reads th e = Some (h, p)" by (cases hp) auto
  show ?thesis
  proof (cases "idx = 2")
    case True
    then show ?thesis
      using slots_master_ex [OF b u, of L h p] unfolding slots_node_reads [OF hp] by (simp, blast)
  next
    case False
    then have mk: "master_known v" using m by blast
    with False show ?thesis
      using slots_slave_ex [OF b mk, of L h p] b unfolding slots_node_reads [OF hp]
      by (cases "has_flag HIRCLUSTER_FLAG_ADD_SLAVE s") (simp_all add: elem_result_def, blast)
  qed
qed

lemma slots_elem_ex:
  assumes b: "building n0 (sv_nodes v) s" and "e \<noteq> NULL_ELEMENT" and u: "d_used (sv_nodes v) < 2 ^ 30"
    and sl: "idx \<le> 1 \<longrightarrow> sv_slot v \<noteq> None" and m: "2 < idx \<longrightarrow> master_known v"
  shows "\<exists>fl v' t. slots_elem L th idx e v s = Some (fl, v', t) \<and> elem_result n0 (if idx = 2 then 1 else 0) v s fl v' t \<and>
     (fl = NEXT \<longrightarrow> (idx = 0 \<longrightarrow> sv_slot v' \<noteq> None) \<and> (2 \<le> idx \<longrightarrow> master_known v'))"
proof (cases "idx \<le> 1")
  case True
  then obtain slot where "sv_slot v = Some slot" using sl by blast
  with True b assms(2) show ?thesis
    by (cases e; cases "idx = 0") (auto simp: slots_elem_def elem_result_def Let_def)
next
  case False
  then have run: "slots_elem L th idx e v s = slots_node L th idx e v s" by (simp add: slots_elem_def)
  have "idx \<noteq> 2 \<longrightarrow> master_known v" using False m by simp
  from slots_node_ex [OF b assms(2) u this, of L th] False show ?thesis
    unfolding run by (elim exE conjE) auto
qed

lemma slots_region_ex:
  assumes "building n0 (sv_nodes v) s" and "NULL_ELEMENT \<notin> set es" and "d_used (sv_nodes v) < 2 ^ 30 - 1 \<or> 2 < idx \<and> d_used (sv_nodes v) < 2 ^ 30"
    and "idx \<le> 1 \<longrightarrow> sv_slot v \<noteq> None" and "2 < idx \<longrightarrow> master_known v"
  shows "\<exists>fl v' t. slots_region L th idx es v s = Some (fl, v', t) \<and> elem_result n0 (if idx \<le> 2 then 1 else 0) v s fl v' t \<and> fl \<noteq> BREAK"
  using assms
proof (induction es arbitrary: idx v s)
  case Nil
  then show ?case by (simp add: elem_result_def)
next
  case (Cons e es)
  have e: "e \<noteq> NULL_ELEMENT" "NULL_ELEMENT \<notin> set es" and u: "d_used (sv_nodes v) < 2 ^ 30" using Cons.prems(2,3) by auto
  obtain fl v' t where r: "slots_elem L th idx e v s = Some (fl, v', t)" "elem_result n0 (if idx = 2 then 1 else 0) v s fl v' t"
    "fl = NEXT \<longrightarrow> (idx = 0 \<longrightarrow> sv_slot v' \<noteq> None) \<and> (2 \<le> idx \<longrightarrow> master_known v')"
    using slots_elem_ex [OF Cons.prems(1) e(1) u Cons.prems(4,5), of L th] by (elim exE conjE) (rule that)
  show ?case
  proof (cases "fl = NEXT")
    case True
    have "\<exists>fl2 v2 t2. slots_region L th (idx + 1) es v' t = Some (fl2, v2, t2) \<and>
        elem_result n0 (if idx + 1 \<le> 2 then 1 else 0) v' t fl2 v2 t2 \<and> fl2 \<noteq> BREAK"
      using r True Cons.prems(3) e by (intro Cons.IH) (auto simp: elem_result_def split: if_splits)
    then obtain fl2 v2 t2 where r2: "slots_region L th (idx + 1) es v' t = Some (fl2, v2, t2)"
      "elem_result n0 (if idx + 1 \<le> 2 then 1 else 0) v' t fl2 v2 t2" "fl2 \<noteq> BREAK" by blast
    have "parse_step n0 s t2" using r(2) r2(2) parse_step_trans unfolding elem_result_def by blast
    with r r2 True show ?thesis by (auto simp: elem_result_def split: if_splits)
  next
    case False
    with r show ?thesis by (cases fl) (auto simp: elem_result_def split: if_splits)
  qed
qed

lemma has_flag_parse_step: "parse_step n0 s t \<Longrightarrow> has_flag f t = has_flag f s"
  by (simp add: parse_step_def node_stepD)

lemma replicas_run:
  assumes "building n0 (sv_nodes v) s" "master_known v" "\<forall>e \<in> set es. node_reads th e \<noteq> None" "2 < idx"
    "sds_ok L" "no_oom (w_script s)"
  shows "\<exists>t. slots_region L th idx es v s = Some (NEXT, v, t) \<and> parse_step n0 s t \<and> building n0 (sv_nodes v) t \<and>
     no_oom (w_script t) \<and> contents (sv_nodes v) t = contents (sv_nodes v) s"
  using assms
proof (induction es arbitrary: idx s)
  case Nil
  then show ?case by simp
next
  case (Cons e es)
  obtain h p where hp: "node_reads th e = Some (h, p)" using Cons.prems(3) by fastforce
  then have p: "0 \<le> p" using node_reads_port [OF hp] by simp
  have "\<exists>t. slots_elem L th idx e v s = Some (NEXT, v, t) \<and> parse_step n0 s t \<and> building n0 (sv_nodes v) t \<and>
      no_oom (w_script t) \<and> contents (sv_nodes v) t = contents (sv_nodes v) s"
  proof (cases "has_flag HIRCLUSTER_FLAG_ADD_SLAVE s")
    case True
    then have run: "slots_elem L th idx e v s = slots_slave L h p v s"
      using Cons.prems(4) slots_node_reads [OF hp, of L idx v s] by (simp add: slots_elem_def)
    obtain fl v' t where "slots_slave L h p v s = Some (fl, v', t)" "elem_result n0 0 v s fl v' t" "fl \<in> {NEXT, BREAK} \<longrightarrow> v' = v"
      "sds_ok L \<longrightarrow> 0 \<le> p \<longrightarrow> no_oom (w_script s) \<longrightarrow> fl = NEXT \<and> no_oom (w_script t) \<and> contents (sv_nodes v') t = contents (sv_nodes v) s"
      using slots_slave_ex [OF Cons.prems(1,2), of L h p] by (elim exE conjE) (rule that)
    with p Cons.prems(5,6) show ?thesis unfolding run by (auto simp: elem_result_def)
  next
    case False
    then have "slots_elem L th idx e v s = Some (NEXT, v, s)"
      using Cons.prems(4) slots_node_reads [OF hp, of L idx v s] by (simp add: slots_elem_def)
    with Cons.prems show ?thesis by auto
  qed
  then obtain t where t: "slots_elem L th idx e v s = Some (NEXT, v, t)" "parse_step n0 s t" "building n0 (sv_nodes v) t"
      "no_oom (w_script t)" "contents (sv_nodes v) t = contents (sv_nodes v) s" by blast
  obtain t2 where t2: "slots_region L th (idx + 1) es v t = Some (NEXT, v, t2)" "parse_step n0 t t2" "building n0 (sv_nodes v) t2"
      "no_oom (w_script t2)" "contents (sv_nodes v) t2 = contents (sv_nodes v) t"
    using Cons.IH [of t "idx + 1"] Cons.prems t by auto
  have "parse_step n0 s t2" using parse_step_trans [OF t(2) t2(2)] .
  with t t2 show ?case by auto
qed

lemma region_run:
  assumes b: "building n0 (sv_nodes v) s" and u: "d_used (sv_nodes v) < 2 ^ 30" and r: "region_reads th (REDIS_REPLY_ARRAY xs) = Some (a, b', h, p)"
    and sl: "sv_slot v = Some slot" and ok: "sds_ok L" "no_oom (w_script s)"
  shows "\<exists>v' t. slots_region L th 0 xs v s = Some (NEXT, v', t) \<and> elem_result n0 1 v s NEXT v' t \<and> no_oom (w_script t) \<and>
     contents (sv_nodes v') t = add_range (address_of h p) (cstr h) p (a, b') (contents (sv_nodes v) s)"
proof -
  obtain i j m reps where xs: "xs = REDIS_REPLY_INTEGER i # REDIS_REPLY_INTEGER j # m # reps"
    and ij: "word_of_int i = a" "word_of_int j = b'" "a \<le> b'" and reps: "\<forall>e \<in> set reps. node_reads th e \<noteq> None"
    and m: "node_reads th m = Some (h, p)"
    using r by (auto simp: region_reads_def split: list.splits redisReply.splits if_splits)
  let ?v = "v\<lparr>sv_slot := Some (slot\<lparr>cs_start := a, cs_end := b'\<rparr>)\<rparr>"
  have p: "0 \<le> p" using node_reads_port [OF m] by simp
  have bv: "building n0 (sv_nodes ?v) s" and uv: "d_used (sv_nodes ?v) < 2 ^ 30" using b u by simp_all
  have e0: "slots_elem L th 0 (REDIS_REPLY_INTEGER i) v s = Some (NEXT, v\<lparr>sv_slot := Some (slot\<lparr>cs_start := a\<rparr>)\<rparr>, s)"
    using sl ij(1) by (simp add: slots_elem_def)
  have e1: "slots_elem L th 1 (REDIS_REPLY_INTEGER j) (v\<lparr>sv_slot := Some (slot\<lparr>cs_start := a\<rparr>)\<rparr>) s = Some (NEXT, ?v, s)"
    using ij by (simp add: slots_elem_def Let_def not_less)
  have e2: "slots_elem L th 2 m ?v s = slots_master L h p ?v s"
    using slots_node_reads [OF m, of L 2 ?v s] by (simp add: slots_elem_def)
  obtain fl v1 t1 where t1: "slots_master L h p ?v s = Some (fl, v1, t1)" "elem_result n0 1 ?v s fl v1 t1"
    "fl \<in> {NEXT, BREAK} \<longrightarrow> master_known v1"
    "\<forall>sl. sv_slot ?v = Some sl \<longrightarrow> sds_ok L \<longrightarrow> 0 \<le> p \<longrightarrow> no_oom (w_script s) \<longrightarrow>
        fl \<in> {NEXT, BREAK} \<and> no_oom (w_script t1) \<and> contents (sv_nodes v1) t1 =
          add_range (address_of h p) (cstr h) p (cs_start sl, cs_end sl) (contents (sv_nodes ?v) s)"
    using slots_master_ex [OF bv uv, of L h p] by (elim exE conjE) (rule that)
  from t1(4) ok p have t1': "fl \<in> {NEXT, BREAK}" "no_oom (w_script t1)"
    "contents (sv_nodes v1) t1 = add_range (address_of h p) (cstr h) p (a, b') (contents (sv_nodes v) s)" by simp_all
  have res: "elem_result n0 1 v s NEXT v1 t1" using t1(2) by (simp add: elem_result_def)
  have run: "slots_region L th 0 xs v s = (case fl of NEXT \<Rightarrow> slots_region L th 3 reps v1 t1
      | BREAK \<Rightarrow> Some (NEXT, v1, t1) | _ \<Rightarrow> Some (fl, v1, t1))"
    unfolding xs using e0 e1 e2 t1(1) by (cases fl) (simp_all add: eval_nat_numeral)
  show ?thesis
  proof (cases "fl = NEXT")
    case True
    have b1: "building n0 (sv_nodes v1) t1" using res by (simp add: elem_result_def)
    obtain t2 where t2: "slots_region L th 3 reps v1 t1 = Some (NEXT, v1, t2)" "parse_step n0 t1 t2" "building n0 (sv_nodes v1) t2"
     "no_oom (w_script t2)" "contents (sv_nodes v1) t2 = contents (sv_nodes v1) t1"
      using replicas_run [OF b1 _ reps _ ok(1) t1'(2), of 3] t1(3) t1'(1) by auto
    have "elem_result n0 1 v s NEXT v1 t2" using res t2(2,3) parse_step_trans unfolding elem_result_def by blast
    with t2 True t1'(3) show ?thesis unfolding run by simp
  next
    case False
    with t1' res show ?thesis unfolding run by auto
  qed
qed

section \<open>All ranges\<close>

definition add_regions :: "(u32 \<times> u32 \<times> string \<times> int) list \<Rightarrow> (string \<rightharpoonup> string option \<times> u16 \<times> (u32 \<times> u32) list) \<Rightarrow>
    (string \<rightharpoonup> string option \<times> u16 \<times> (u32 \<times> u32) list)" where
  "add_regions = fold (\<lambda>(a, b, h, p). add_range (address_of h p) (cstr h) p (a, b))"

text \<open>hiredis leaves no null pointer in the elements of a complete reply; two levels of it are read here.\<close>

definition elements_ok :: "redisReply \<Rightarrow> bool" where
  "elements_ok r \<longleftrightarrow> r \<noteq> NULL_ELEMENT \<and>
     (\<forall>es. r = REDIS_REPLY_ARRAY es \<longrightarrow> NULL_ELEMENT \<notin> set es \<and> (\<forall>xs. REDIS_REPLY_ARRAY xs \<in> set es \<longrightarrow> NULL_ELEMENT \<notin> set xs))"

lemma slots_loop_ex:
  assumes "building n0 (sv_nodes v) s" and "NULL_ELEMENT \<notin> set es" and "\<forall>xs. REDIS_REPLY_ARRAY xs \<in> set es \<longrightarrow> NULL_ELEMENT \<notin> set xs"
    and "d_used (sv_nodes v) + length es < 2 ^ 30"
  shows "\<exists>fl v' t. slots_loop L th es v s = Some (fl, v', t) \<and> parse_step n0 s t \<and> building n0 (sv_nodes v') t \<and> fl \<noteq> BREAK"
  using assms
proof (induction es arbitrary: v s)
  case Nil
  then show ?case by simp
next
  case (Cons e es)
  show ?case
  proof (cases "\<exists>xs. e = REDIS_REPLY_ARRAY xs \<and> 3 \<le> length xs")
    case False
    with Cons.prems have "slots_loop L th (e # es) v s = Some (GOTO_ERROR, v, slots_error ''first sub_reply is not an array.'' s)"
      by (cases e) auto
    then show ?thesis using Cons.prems(1) by auto
  next
    case True
    then obtain xs where xs: "e = REDIS_REPLY_ARRAY xs" "3 \<le> length xs" by blast
    obtain b al where al: "cc_alloc s = (b, s\<lparr>w_script := al\<rparr>)" using cc_alloc_ex by blast
    let ?s1 = "s\<lparr>w_script := al\<rparr>" and ?sl = "\<lparr>cs_start = 0, cs_end = 0, cs_node = None\<rparr>"
    let ?v = "v\<lparr>sv_slot := Some ?sl\<rparr>"
    show ?thesis
    proof (cases b)
      case False
      then have "slots_loop L th (e # es) v s = Some (GOTO_OOM, v\<lparr>sv_slot := None\<rparr>, ?s1)"
        using xs al by (simp add: cluster_slot_create_def)
      then show ?thesis using Cons.prems(1) by auto
    next
      case True
      obtain fl v1 t where r: "slots_region L th 0 xs ?v ?s1 = Some (fl, v1, t)" "elem_result n0 1 ?v ?s1 fl v1 t" "fl \<noteq> BREAK"
        using slots_region_ex [of n0 ?v ?s1 xs 0 L th] Cons.prems xs by auto
      have run: "slots_loop L th (e # es) v s = (case fl of NEXT \<Rightarrow> slots_loop L th es v1 t | _ \<Rightarrow> Some (fl, v1, t))"
        using xs al True r(1) by (simp add: cluster_slot_create_def)
      have st: "parse_step n0 s t" "building n0 (sv_nodes v1) t"
        using r(2) parse_step_trans [OF parse_step_script [of n0 s al]] by (auto simp: elem_result_def)
      show ?thesis
      proof (cases "fl = NEXT")
        case True
        have "d_used (sv_nodes v1) + length es < 2 ^ 30" using r(2) Cons.prems(4) by (simp add: elem_result_def)
        then obtain fl2 v2 t2 where "slots_loop L th es v1 t = Some (fl2, v2, t2)" "parse_step n0 t t2" "building n0 (sv_nodes v2) t2" "fl2 \<noteq> BREAK"
          using Cons.IH [of v1 t] Cons.prems st(2) by auto
        with True run parse_step_trans [OF st(1)] show ?thesis by auto
      next
        case False
        with run st r(3) show ?thesis by (cases fl) auto
      qed
    qed
  qed
qed

lemma slots_loop_run:
  assumes "building n0 (sv_nodes v) s" and "map (region_reads th) es = map Some rs"
    and "d_used (sv_nodes v) + length es < 2 ^ 30" and "sds_ok L" "no_oom (w_script s)"
  shows "\<exists>v' t. slots_loop L th es v s = Some (NEXT, v', t) \<and> parse_step n0 s t \<and> building n0 (sv_nodes v') t \<and>
     no_oom (w_script t) \<and> contents (sv_nodes v') t = add_regions rs (contents (sv_nodes v) s)"
  using assms
proof (induction es arbitrary: rs v s)
  case Nil
  then show ?case by (simp add: add_regions_def)
next
  case (Cons e es)
  then obtain a b h p rs' where rs: "rs = (a, b, h, p) # rs'" "region_reads th e = Some (a, b, h, p)" "map (region_reads th) es = map Some rs'"
    by (cases rs) auto
  then obtain xs where xs: "e = REDIS_REPLY_ARRAY xs" "3 \<le> length xs"
    by (auto simp: region_reads_def split: redisReply.splits list.splits)
  obtain al where al: "cc_alloc s = (True, s\<lparr>w_script := al\<rparr>)" "no_oom al" using cc_alloc_ex [of s] Cons.prems(5) by auto
  let ?s1 = "s\<lparr>w_script := al\<rparr>" and ?sl = "\<lparr>cs_start = 0, cs_end = 0, cs_node = None\<rparr>"
  let ?v = "v\<lparr>sv_slot := Some ?sl\<rparr>"
  obtain v1 t where r: "slots_region L th 0 xs ?v ?s1 = Some (NEXT, v1, t)" "elem_result n0 1 ?v ?s1 NEXT v1 t" "no_oom (w_script t)"
     "contents (sv_nodes v1) t = add_range (address_of h p) (cstr h) p (a, b) (contents (sv_nodes v) s)"
    using region_run [of n0 ?v ?s1 th xs a b h p ?sl L] Cons.prems rs(2) xs al by auto
  have st: "parse_step n0 s t" "building n0 (sv_nodes v1) t" "d_used (sv_nodes v1) + length es < 2 ^ 30"
    using r(2) parse_step_trans [OF parse_step_script [of n0 s al]] Cons.prems(3) by (auto simp: elem_result_def)
  obtain v2 t2 where t2: "slots_loop L th es v1 t = Some (NEXT, v2, t2)" "parse_step n0 t t2" "building n0 (sv_nodes v2) t2"
     "no_oom (w_script t2)" "contents (sv_nodes v2) t2 = add_regions rs' (contents (sv_nodes v1) t)"
    using Cons.IH [OF st(2) rs(3) st(3) Cons.prems(4) r(3)] by blast
  have "slots_loop L th (e # es) v s = Some (NEXT, v2, t2)"
    using xs al(1) r(1) t2(1) by (simp add: cluster_slot_create_def)
  moreover have "contents (sv_nodes v2) t2 = add_regions rs (contents (sv_nodes v) s)"
    using t2(5) r(4) rs(1) by (simp add: add_regions_def)
  ultimately show ?case using t2(3,4) parse_step_trans [OF st(1) t2(2)] by blast
qed

section \<open>The whole reply\<close>

lemma building_empty: "building (length (w_nodes s)) (dictInit clusterNodesDictType) s" "contents (dictInit clusterNodesDictType) s = Map.empty"
proof -
  have e: "dict_wf (dictInit clusterNodesDictType :: (string, addr) dict)" "dict_map (dictInit clusterNodesDictType :: (string, addr) dict) = Map.empty"
    using dictInit_wf [of clusterNodesDictType] by auto
  then show "building (length (w_nodes s)) (dictInit clusterNodesDictType) s"
    by (simp add: building_def nodes_own_def nodes_fresh_def owns_def dictInit_def)
  show "contents (dictInit clusterNodesDictType) s = Map.empty" using e(2) by (simp add: contents_def fun_eq_iff)
qed

lemma cc_dictCreate_ex:
  "\<exists>b al. cc_dictCreate t s = (if b then Some (dictInit t) else None, s\<lparr>w_script := al\<rparr>) \<and> (no_oom (w_script s) \<longrightarrow> b \<and> no_oom al)"
proof -
  obtain b al where "hi_alloc (w_script s) = (b, al)" by (cases "hi_alloc (w_script s)")
  then show ?thesis
    using hi_alloc_no_oom [of "w_script s"]
    by (intro exI [of _ b] exI [of _ al]) (cases b; auto simp: cc_dictCreate_def dictCreate_def)
qed

lemma slots_exit_ex:
  assumes b: "building n0 (sv_nodes v) t" and st: "parse_step n0 s t"
  shows "\<exists>res u. slots_exit fl v t = Some (res, u) \<and> parse_step n0 s u \<and> (\<forall>d. res = Some d \<longrightarrow> fl = NEXT \<and> d = sv_nodes v \<and> u = t) \<and>
     (fl = NEXT \<longrightarrow> res \<noteq> None)"
proof (cases "fl = NEXT")
  case True
  with st show ?thesis by (simp add: slots_exit_def)
next
  case False
  let ?t = "if fl = GOTO_OOM then set_oom t else t"
  have "building n0 (sv_nodes v) ?t" "parse_step n0 t ?t" using b by simp_all
  then obtain u where u: "release_nodes_dict (sv_nodes v) ?t = Some u" "parse_step n0 ?t u"
    using building_release unfolding parse_step_def by blast
  have "slots_exit fl v t = Some (None, u)" using False u(1) by (cases fl) (simp_all add: slots_exit_def)
  with False parse_step_trans [OF parse_step_trans [OF st \<open>parse_step n0 t ?t\<close>] u(2)] show ?thesis by simp
qed

lemma parse_cluster_slots_ex:
  assumes "elements_ok r" and "\<forall>es. r = REDIS_REPLY_ARRAY es \<longrightarrow> length es < 2 ^ 30"
  shows "\<exists>res t. parse_cluster_slots L th (Some r) s = Some (res, t) \<and> parse_step (length (w_nodes s)) s t \<and>
     (\<forall>d. res = Some d \<longrightarrow> building (length (w_nodes s)) d t)"
proof -
  let ?n0 = "length (w_nodes s)" and ?d = "dictInit clusterNodesDictType :: (string, addr) dict"
  let ?v = "\<lparr>sv_slot = None, sv_master = None, sv_nodes = ?d\<rparr>"
  obtain b al where c: "cc_dictCreate clusterNodesDictType s = (if b then Some ?d else None, s\<lparr>w_script := al\<rparr>)"
    using cc_dictCreate_ex by blast
  let ?s1 = "s\<lparr>w_script := al\<rparr>"
  have bd: "building ?n0 (sv_nodes ?v) ?s1" using building_empty(1) [of s] by simp
  show ?thesis
  proof (cases b)
    case False
    have "parse_step ?n0 s (set_oom ?s1)" using parse_step_trans [OF parse_step_script parse_step_error] .
    with c False show ?thesis by (simp add: parse_cluster_slots_def)
  next
    case True
    show ?thesis
    proof (cases "\<exists>e es. r = REDIS_REPLY_ARRAY (e # es)")
      case False
      let ?t = "slots_error ''reply is not an array.'' ?s1"
      have "parse_cluster_slots L th (Some r) s = slots_exit GOTO_ERROR ?v ?t"
        using c True False by (auto simp: parse_cluster_slots_def Let_def split: redisReply.splits list.splits)
      moreover have "parse_step ?n0 s ?t" using parse_step_trans [OF parse_step_script parse_step_error] .
      ultimately show ?thesis using slots_exit_ex [OF building_error [OF bd], where fl = GOTO_ERROR] by fastforce
    next
      case True
      then obtain e es where r: "r = REDIS_REPLY_ARRAY (e # es)" by blast
      obtain fl v1 t where l: "slots_loop L th (e # es) ?v ?s1 = Some (fl, v1, t)" "parse_step ?n0 ?s1 t" "building ?n0 (sv_nodes v1) t"
        using slots_loop_ex [OF bd, of "e # es" L th] assms r by (auto simp: elements_ok_def dictInit_def)
      have "parse_cluster_slots L th (Some r) s = slots_exit fl v1 t"
        using c \<open>b\<close> l(1) r by (simp add: parse_cluster_slots_def Let_def)
      moreover have "parse_step ?n0 s t" using parse_step_trans [OF parse_step_script l(2)] .
      ultimately show ?thesis using slots_exit_ex [OF l(3), where fl = fl] l(3) by fastforce
    qed
  qed
qed

lemma parse_cluster_slots_run:
  assumes es: "map (region_reads th) es = map Some rs" "es \<noteq> []" "length es < 2 ^ 30" and ok: "sds_ok L" "no_oom (w_script s)"
  shows "\<exists>d t. parse_cluster_slots L th (Some (REDIS_REPLY_ARRAY es)) s = Some (Some d, t) \<and> parse_step (length (w_nodes s)) s t \<and>
     building (length (w_nodes s)) d t \<and> no_oom (w_script t) \<and> contents d t = add_regions rs Map.empty"
proof -
  let ?n0 = "length (w_nodes s)" and ?d = "dictInit clusterNodesDictType :: (string, addr) dict"
  let ?v = "\<lparr>sv_slot = None, sv_master = None, sv_nodes = ?d\<rparr>"
  obtain al where c: "cc_dictCreate clusterNodesDictType s = (Some ?d, s\<lparr>w_script := al\<rparr>)" "no_oom al"
    using cc_dictCreate_ex [of clusterNodesDictType s] ok(2) by auto
  let ?s1 = "s\<lparr>w_script := al\<rparr>"
  have bd: "building ?n0 (sv_nodes ?v) ?s1" using building_empty(1) [of s] by simp
  obtain v t where l: "slots_loop L th es ?v ?s1 = Some (NEXT, v, t)" "parse_step ?n0 ?s1 t" "building ?n0 (sv_nodes v) t"
     "no_oom (w_script t)" "contents (sv_nodes v) t = add_regions rs (contents (sv_nodes ?v) ?s1)"
    using slots_loop_run [OF bd es(1) _ ok(1)] es(3) c(2) by (auto simp: dictInit_def)
  have "parse_cluster_slots L th (Some (REDIS_REPLY_ARRAY es)) s = Some (Some (sv_nodes v), t)"
    using c(1) l(1) es(2) by (cases es) (simp_all add: parse_cluster_slots_def Let_def slots_exit_def)
  moreover have "contents (sv_nodes v) t = add_regions rs Map.empty" using l(5) building_empty(2) [of ?s1] by simp
  ultimately show ?thesis using l(3,4) parse_step_trans [OF parse_step_script l(2)] by blast
qed

end
