(* ===== verification/Slotmap_Inv.thy ===== *)
theory Slotmap_Inv
  imports Slotmap Slots_Reply
begin

text \<open>
  The invariant of a cluster context and its preservation by the replacement of the slot map. The known
  nodes own each other's memory once, every connection belongs to one node, and the slot table points to
  known nodes only.
\<close>

section \<open>Filling the table\<close>

definition covers :: "cluster_slot \<Rightarrow> nat \<Rightarrow> bool" where
  "covers sl i \<longleftrightarrow> unat (cs_start sl) \<le> i \<and> i \<le> unat (cs_end sl)"

definition slots_of :: "('c, 'w, 'z) cluster_scheme \<Rightarrow> addr \<Rightarrow> cluster_slot list" where
  "slots_of s n = (case node_at s n of None \<Rightarrow> [] | Some nd \<Rightarrow> (case n_slots nd of None \<Rightarrow> [] | Some xs \<Rightarrow> xs))"

lemma fill_slots_spec:
  assumes "i + n \<le> length table"
  shows "fill_slots m i n table =
     (if \<forall>j. i \<le> j \<and> j < i + n \<longrightarrow> table ! j = None
      then Some (map (\<lambda>j. if i \<le> j \<and> j < i + n then Some m else table ! j) [0..<length table]) else None)"
  using assms
proof (induction n arbitrary: i table)
  case 0
  have "map (\<lambda>j. if i \<le> j \<and> j < i + 0 then Some m else table ! j) [0..<length table] = table"
    by (rule nth_equalityI) auto
  then show ?case by (simp add: not_less)
next
  case (Suc n)
  show ?case
  proof (cases "table ! i = None")
    case False
    then show ?thesis by auto
  next
    case True
    let ?t = "table[i := Some m]"
    have i: "i < length table" using Suc.prems by simp
    have "(\<forall>j. i + 1 \<le> j \<and> j < i + 1 + n \<longrightarrow> ?t ! j = None) \<longleftrightarrow> (\<forall>j. i \<le> j \<and> j < i + Suc n \<longrightarrow> table ! j = None)"
      using True by (metis Suc_eq_plus1 Suc_leI add_Suc_right add_Suc_shift le_antisym nat_le_linear not_less_eq_eq nth_list_update_neq)
    moreover have "map (\<lambda>j. if i + 1 \<le> j \<and> j < i + 1 + n then Some m else ?t ! j) [0..<length ?t] =
        map (\<lambda>j. if i \<le> j \<and> j < i + Suc n then Some m else table ! j) [0..<length table]"
      using i by (intro nth_equalityI) (auto simp: nth_list_update)
    ultimately show ?thesis using True Suc.IH [of "i + 1" ?t] Suc.prems by simp
  qed
qed

definition slot_valid :: "cluster_slot \<Rightarrow> bool" where
  "slot_valid sl \<longleftrightarrow> cs_start sl \<le> cs_end sl \<and> unat (cs_end sl) < REDIS_CLUSTER_SLOTS"

text \<open>
  What the table holds after some nodes: an entry \<open>(n, sl)\<close> for each range \<open>sl\<close> of a node \<open>n\<close> puts \<open>n\<close> in the
  slots it covers; the ranges must not overlap.
\<close>

definition table_of :: "(addr \<times> cluster_slot) list \<Rightarrow> addr option list" where
  "table_of rs = map (\<lambda>i. map_option fst (find (\<lambda>x. covers (snd x) i) rs)) [0..<REDIS_CLUSTER_SLOTS]"

definition apart :: "addr \<times> cluster_slot \<Rightarrow> addr \<times> cluster_slot \<Rightarrow> bool" where
  "apart x y \<longleftrightarrow> (\<forall>i. \<not> (covers (snd x) i \<and> covers (snd y) i))"

definition ranges_ok :: "(addr \<times> cluster_slot) list \<Rightarrow> bool" where
  "ranges_ok rs \<longleftrightarrow> (\<forall>x \<in> set rs. slot_valid (snd x)) \<and> sorted_wrt apart rs"

lemma length_table_of [simp]: "length (table_of rs) = REDIS_CLUSTER_SLOTS"
  by (simp add: table_of_def)

lemma table_of_nth: "i < REDIS_CLUSTER_SLOTS \<Longrightarrow> table_of rs ! i = map_option fst (find (\<lambda>x. covers (snd x) i) rs)"
  by (simp add: table_of_def)

lemma find_append: "find P (xs @ ys) = (case find P xs of None \<Rightarrow> find P ys | Some x \<Rightarrow> Some x)"
  by (induction xs) auto

lemma sorted_wrt_snoc: "sorted_wrt R (xs @ [y]) \<longleftrightarrow> sorted_wrt R xs \<and> (\<forall>x \<in> set xs. R x y)"
  by (auto simp: sorted_wrt_append)

lemma fill_slots_table_of:
  assumes "slot_valid sl"
  shows "fill_slots m (unat (cs_start sl)) (Suc (unat (cs_end sl)) - unat (cs_start sl)) (table_of rs) =
     (if \<forall>x \<in> set rs. apart x (m, sl) then Some (table_of (rs @ [(m, sl)])) else None)"
proof -
  let ?a = "unat (cs_start sl)" and ?b = "unat (cs_end sl)"
  have ab: "?a \<le> ?b" "?b < REDIS_CLUSTER_SLOTS" using assms by (auto simp: slot_valid_def word_le_nat_alt)
  then have bnd: "?a + (Suc ?b - ?a) = Suc ?b" by simp
  have cov: "covers sl j \<longleftrightarrow> ?a \<le> j \<and> j < Suc ?b" for j by (auto simp: covers_def)
  have "(\<forall>j. ?a \<le> j \<and> j < Suc ?b \<longrightarrow> table_of rs ! j = None) \<longleftrightarrow> (\<forall>x \<in> set rs. apart x (m, sl))"
    using ab(2) by (auto simp: table_of_nth find_None_iff apart_def cov)
  moreover have "map (\<lambda>j. if ?a \<le> j \<and> j < Suc ?b then Some m else table_of rs ! j) [0..<REDIS_CLUSTER_SLOTS] = table_of (rs @ [(m, sl)])"
    if "\<forall>x \<in> set rs. apart x (m, sl)"
  proof (rule nth_equalityI)
    fix i assume i: "i < length (map (\<lambda>j. if ?a \<le> j \<and> j < Suc ?b then Some m else table_of rs ! j) [0..<REDIS_CLUSTER_SLOTS])"
    have "find (\<lambda>x. covers (snd x) i) rs = None" if "covers sl i"
      using that \<open>\<forall>x \<in> set rs. apart x (m, sl)\<close> by (auto simp: find_None_iff apart_def)
    with i show "map (\<lambda>j. if ?a \<le> j \<and> j < Suc ?b then Some m else table_of rs ! j) [0..<REDIS_CLUSTER_SLOTS] ! i = table_of (rs @ [(m, sl)]) ! i"
      by (auto simp: table_of_nth find_append cov split: option.splits)
  qed simp
  ultimately show ?thesis
    using fill_slots_spec [of ?a "Suc ?b - ?a" "table_of rs" m] ab bnd by simp
qed

lemma fill_ranges_spec:
  assumes "ranges_ok rs"
  shows "if ranges_ok (rs @ map (Pair m) slots) then fill_ranges m slots (table_of rs) = Inr (table_of (rs @ map (Pair m) slots))
     else \<exists>msg. fill_ranges m slots (table_of rs) = Inl msg"
  using assms
proof (induction slots arbitrary: rs)
  case Nil
  then show ?case by simp
next
  case (Cons sl slots)
  show ?case
  proof (cases "slot_valid sl \<and> (\<forall>x \<in> set rs. apart x (m, sl))")
    case True
    then have v: "slot_valid sl" and ok: "ranges_ok (rs @ [(m, sl)])"
      using Cons.prems by (auto simp: ranges_ok_def sorted_wrt_snoc)
    have "fill_ranges m (sl # slots) (table_of rs) = fill_ranges m slots (table_of (rs @ [(m, sl)]))"
      using True fill_slots_table_of [OF v, of m rs] v unfolding slot_valid_def by (auto simp: leD)
    with Cons.IH [OF ok] show ?thesis by simp
  next
    case False
    then have no: "\<not> ranges_ok (rs @ map (Pair m) (sl # slots))" by (auto simp: ranges_ok_def sorted_wrt_append)
    have "\<exists>msg. fill_ranges m (sl # slots) (table_of rs) = Inl msg"
    proof (cases "slot_valid sl")
      case True
      with False have "fill_slots m (unat (cs_start sl)) (Suc (unat (cs_end sl)) - unat (cs_start sl)) (table_of rs) = None"
        using fill_slots_table_of [OF True, of m rs] by (simp only: if_False simp_thms)
      then show ?thesis by simp
    next
      case False
      then show ?thesis by (auto simp: slot_valid_def not_less not_le)
    qed
    with no show ?thesis by (simp only: if_False)
  qed
qed

text \<open>All ranges of a list of nodes, in the order of the table.\<close>

definition node_ranges :: "('c, 'w, 'z) cluster_scheme \<Rightarrow> addr list \<Rightarrow> (addr \<times> cluster_slot) list" where
  "node_ranges s ns = concat (map (\<lambda>n. map (Pair n) (slots_of s n)) ns)"

lemma ranges_ok_append: "ranges_ok (xs @ ys) \<Longrightarrow> ranges_ok xs"
  by (auto simp: ranges_ok_def sorted_wrt_append)

lemma fill_table_spec:
  assumes "\<forall>e \<in> set es. \<exists>nd. node_at s (snd e) = Some nd \<and> n_role nd = REDIS_ROLE_MASTER" and "ranges_ok rs"
  shows "if ranges_ok (rs @ node_ranges s (map snd es)) then fill_table s es (table_of rs) = Some (Inr (table_of (rs @ node_ranges s (map snd es))))
     else \<exists>msg. fill_table s es (table_of rs) = Some (Inl msg)"
  using assms
proof (induction es arbitrary: rs)
  case Nil
  then show ?case by (simp add: node_ranges_def)
next
  case (Cons e es)
  obtain nd where nd: "node_at s (snd e) = Some nd" "n_role nd = REDIS_ROLE_MASTER" using Cons.prems(1) by auto
  let ?x = "map (Pair (snd e)) (slots_of s (snd e))"
  have all: "rs @ node_ranges s (map snd (e # es)) = (rs @ ?x) @ node_ranges s (map snd es)" by (simp add: node_ranges_def)
  have run: "fill_table s (e # es) (table_of rs) =
      (case fill_ranges (snd e) (slots_of s (snd e)) (table_of rs) of Inl msg \<Rightarrow> Some (Inl msg) | Inr t \<Rightarrow> fill_table s es t)"
    using nd by (cases "n_slots nd") (simp_all add: slots_of_def)
  show ?case
  proof (cases "ranges_ok (rs @ ?x)")
    case True
    then have "fill_table s (e # es) (table_of rs) = fill_table s es (table_of (rs @ ?x))"
      using fill_ranges_spec [OF Cons.prems(2), of "snd e" "slots_of s (snd e)"] run by simp
    with Cons.IH [OF _ True] Cons.prems(1) show ?thesis unfolding all by simp
  next
    case False
    then obtain msg where "fill_ranges (snd e) (slots_of s (snd e)) (table_of rs) = Inl msg"
      using fill_ranges_spec [OF Cons.prems(2), of "snd e" "slots_of s (snd e)"] by auto
    with run ranges_ok_append [of "rs @ ?x"] False show ?thesis unfolding all by auto
  qed
qed

lemma table_empty: "replicate REDIS_CLUSTER_SLOTS None = table_of []"
  by (rule nth_equalityI) (simp_all add: table_of_nth)

lemma dict_iter_entries: "dict_wf d \<Longrightarrow> dict_iter d = dict_entries d"
proof -
  assume "dict_wf d"
  then have "iter_upto (Suc (d_used d)) d dictInitIterator = take (Suc (d_used d)) (dict_entries d)" "d_used d = length (dict_entries d)"
    by (rule iter_upto_entries) (use \<open>dict_wf d\<close> in \<open>simp add: dict_wf_def\<close>)
  then show ?thesis by (simp add: dict_iter_def del: iter_upto.simps)
qed

section \<open>Moving the connections\<close>

definition con_of :: "(string, addr) dict \<Rightarrow> ('c, 'w, 'z) cluster_scheme \<Rightarrow> string \<Rightarrow> addr option" where
  "con_of d s k = (case dict_map d k of None \<Rightarrow> None | Some n \<Rightarrow> (case node_at s n of None \<Rightarrow> None | Some nd \<Rightarrow> n_con nd))"

definition acon_of :: "(string, addr) dict \<Rightarrow> ('c, 'w, 'z) cluster_scheme \<Rightarrow> string \<Rightarrow> addr option" where
  "acon_of d s k = (case dict_map d k of None \<Rightarrow> None | Some n \<Rightarrow> (case node_at s n of None \<Rightarrow> None | Some nd \<Rightarrow> n_acon nd))"

text \<open>Every connection is open and belongs to one node; an asynchronous one points back to it.\<close>

definition conns_ok :: "(string, addr) dict \<Rightarrow> ('c, 'w, 'z) cluster_scheme \<Rightarrow> bool" where
  "conns_ok d s \<longleftrightarrow>
     (\<forall>x nd. owns d s x \<longrightarrow> node_at s x = Some nd \<longrightarrow>
        (\<forall>c. n_con nd = Some c \<longrightarrow> con_at s c \<noteq> None) \<and>
        (\<forall>a. n_acon nd = Some a \<longrightarrow> (\<exists>ac. acon_at s a = Some ac \<and> ac_data ac = Some x))) \<and>
     (\<forall>x y nd nd'. owns d s x \<longrightarrow> owns d s y \<longrightarrow> node_at s x = Some nd \<longrightarrow> node_at s y = Some nd' \<longrightarrow> x \<noteq> y \<longrightarrow>
        (n_con nd = None \<or> n_con nd \<noteq> n_con nd') \<and> (n_acon nd = None \<or> n_acon nd \<noteq> n_acon nd'))"

lemma node_eqI: "n_con nd = None \<Longrightarrow> n_acon nd = None \<Longrightarrow> nd\<lparr>n_con := None, n_acon := None\<rparr> = nd"
  "n_con nd = None \<Longrightarrow> nd\<lparr>n_con := None\<rparr> = nd" "n_acon nd = None \<Longrightarrow> nd\<lparr>n_acon := None\<rparr> = nd"
  by (cases nd; simp)+

lemma swap_node_run:
  assumes t: "node_at s t = Some nt" "n_addr nt = Some k" "n_con nt = None" "n_acon nt = None"
    and f: "dict_wf f" "dict_map f k = Some g" "node_at s g = Some nf" "t \<noteq> g"
    and live: "\<forall>a. n_acon nf = Some a \<longrightarrow> acon_at s a \<noteq> None"
  shows "swap_node f t s = Some (s\<lparr>
      w_nodes := (w_nodes s)[g := Some (nf\<lparr>n_con := None, n_acon := None\<rparr>), t := Some (nt\<lparr>n_con := n_con nf, n_acon := n_acon nf\<rparr>)],
      w_acons := (case n_acon nf of None \<Rightarrow> w_acons s
                  | Some a \<Rightarrow> (w_acons s)[a := map_option (\<lambda>ac. ac\<lparr>ac_data := Some t\<rparr>) (acon_at s a)])\<rparr>)"
proof -
  have find: "dictFind f k = Some (k, g)" using f(1,2) by (simp add: dictFind_map)
  show ?thesis
  proof (cases "n_acon nf")
    case None
    have eq: "nt\<lparr>n_con := n_con nf, n_acon := None\<rparr> = nt\<lparr>n_con := n_con nf\<rparr>" "nf\<lparr>n_con := None, n_acon := None\<rparr> = nf\<lparr>n_con := None\<rparr>"
      using t(4) None by (intro node_eqI(3); simp)+
    have "swap_node f t s = Some (node_put t (nt\<lparr>n_con := n_con nf\<rparr>) (node_put g (nf\<lparr>n_con := None\<rparr>) s))"
      using t(1,2,3) find f(3) None by (cases "n_con nf") (simp_all add: swap_node_def node_eqI(2))
    then show ?thesis unfolding None option.case eq by (simp add: node_put_def)
  next
    case (Some a)
    then obtain ac where "acon_at s a = Some ac" using live by blast
    with Some t(1-4) find f(3) show ?thesis
      by (cases "n_con nf") (simp_all add: swap_node_def node_put_def set_acon_data_def node_eqI(2))
  qed
qed

definition swapped :: "(string, addr) dict \<Rightarrow> (string, addr) dict \<Rightarrow> string set \<Rightarrow> ('c, 'w, 'z) cluster_scheme \<Rightarrow>
    ('c, 'w, 'z) cluster_scheme \<Rightarrow> bool" where
  "swapped f d D s s' \<longleftrightarrow>
     (\<exists>ns as. s' = s\<lparr>w_nodes := ns, w_acons := as\<rparr> \<and> length ns = length (w_nodes s)) \<and>
     (\<forall>k n nd. dict_map d k = Some n \<longrightarrow> node_at s n = Some nd \<longrightarrow>
        node_at s' n = Some (if k \<in> D then nd\<lparr>n_con := con_of f s k, n_acon := acon_of f s k\<rparr> else nd)) \<and>
     (\<forall>k n nd. dict_map f k = Some n \<longrightarrow> node_at s n = Some nd \<longrightarrow>
        node_at s' n = Some (if k \<in> D then nd\<lparr>n_con := None, n_acon := None\<rparr> else nd)) \<and>
     (\<forall>x. (\<forall>k. dict_map d k \<noteq> Some x) \<longrightarrow> (\<forall>k. dict_map f k \<noteq> Some x) \<longrightarrow> node_at s' x = node_at s x) \<and>
     (\<forall>a. (\<forall>k \<in> D. acon_of f s k \<noteq> Some a) \<longrightarrow> acon_at s' a = acon_at s a) \<and>
     (\<forall>k \<in> D. \<forall>a n. acon_of f s k = Some a \<longrightarrow> dict_map d k = Some n \<longrightarrow> (\<exists>ac. acon_at s' a = Some ac \<and> ac_data ac = Some n))"

lemma swappedD:
  assumes "swapped f d D s s'"
  shows "\<exists>ns as. s' = s\<lparr>w_nodes := ns, w_acons := as\<rparr> \<and> length ns = length (w_nodes s)"
    "dict_map d k = Some n \<Longrightarrow> node_at s n = Some nd \<Longrightarrow>
        node_at s' n = Some (if k \<in> D then nd\<lparr>n_con := con_of f s k, n_acon := acon_of f s k\<rparr> else nd)"
    "dict_map f k = Some n \<Longrightarrow> node_at s n = Some nd \<Longrightarrow>
        node_at s' n = Some (if k \<in> D then nd\<lparr>n_con := None, n_acon := None\<rparr> else nd)"
    "(\<And>k. dict_map d k \<noteq> Some x) \<Longrightarrow> (\<And>k. dict_map f k \<noteq> Some x) \<Longrightarrow> node_at s' x = node_at s x"
    "(\<And>k. k \<in> D \<Longrightarrow> acon_of f s k \<noteq> Some a) \<Longrightarrow> acon_at s' a = acon_at s a"
    "k \<in> D \<Longrightarrow> acon_of f s k = Some a \<Longrightarrow> dict_map d k = Some n \<Longrightarrow> \<exists>ac. acon_at s' a = Some ac \<and> ac_data ac = Some n"
  using assms unfolding swapped_def by (blast, blast, blast, blast, blast, blast)

lemma swapped_refl: "swapped f d {} s s"
  unfolding swapped_def by (auto intro!: exI [of _ "w_nodes s"] exI [of _ "w_acons s"])

text \<open>The situation before the nodes \<open>f\<close> are replaced by the nodes \<open>d\<close> of a reply.\<close>

definition replacing :: "(string, addr) dict \<Rightarrow> (string, addr) dict \<Rightarrow> ('c, 'w, 'z) cluster_scheme \<Rightarrow> bool" where
  "replacing f d s \<longleftrightarrow> nodes_own f s \<and> conns_ok f s \<and> nodes_own d s \<and>
     (\<forall>x nd. owns d s x \<longrightarrow> node_at s x = Some nd \<longrightarrow> n_con nd = None \<and> n_acon nd = None) \<and> (\<forall>x. owns d s x \<longrightarrow> \<not> owns f s x)"

lemma replacing_nodes:
  assumes "replacing f d s"
  shows "dict_map f k = Some n \<Longrightarrow> \<exists>nd. node_at s n = Some nd \<and> n_addr nd = Some k \<and> con_of f s k = n_con nd \<and> acon_of f s k = n_acon nd"
    "dict_map d k = Some n \<Longrightarrow> \<exists>nd. node_at s n = Some nd \<and> n_addr nd = Some k \<and> n_con nd = None \<and> n_acon nd = None"
    "dict_map d k = Some n \<Longrightarrow> dict_map f j \<noteq> Some n"
proof -
  have own: "nodes_own f s" "nodes_own d s" using assms by (simp_all add: replacing_def)
  show "\<exists>nd. node_at s n = Some nd \<and> n_addr nd = Some k \<and> con_of f s k = n_con nd \<and> acon_of f s k = n_acon nd" if "dict_map f k = Some n"
    using nodes_ownD(3) [OF own(1) that] that by (auto simp: member_ok_def con_of_def acon_of_def)
  have "owns d s n" if "dict_map d k = Some n" for k n using that by (auto simp: owns_def)
  then show "\<exists>nd. node_at s n = Some nd \<and> n_addr nd = Some k \<and> n_con nd = None \<and> n_acon nd = None" if "dict_map d k = Some n"
    using nodes_ownD(3) [OF own(2) that] that assms unfolding member_ok_def replacing_def by blast
  show "dict_map d k = Some n \<Longrightarrow> dict_map f j \<noteq> Some n"
    using assms unfolding replacing_def owns_def by blast
qed

lemma acon_of_inj:
  assumes "replacing f d s" "acon_of f s j = Some a" "acon_of f s k = Some a"
  shows "j = k"
proof (rule ccontr)
  assume "j \<noteq> k"
  obtain m n where mn: "dict_map f j = Some m" "dict_map f k = Some n"
    using assms(2,3) by (auto simp: acon_of_def split: option.splits)
  obtain nd nd' where nd: "node_at s m = Some nd" "n_addr nd = Some j" "n_acon nd = Some a"
      "node_at s n = Some nd'" "n_addr nd' = Some k" "n_acon nd' = Some a"
    using replacing_nodes(1) [OF assms(1) mn(1)] replacing_nodes(1) [OF assms(1) mn(2)] assms(2,3) by auto
  then have "m \<noteq> n" using \<open>j \<noteq> k\<close> by auto
  moreover have "owns f s m" "owns f s n" using mn by (auto simp: owns_def)
  ultimately show False using assms(1) nd unfolding replacing_def conns_ok_def by (metis option.distinct(1))
qed

lemma swap_step:
  assumes R: "replacing f d s" and S: "swapped f d D s s1" and k: "dict_map d k = Some t" "k \<notin> D"
  shows "\<exists>s2. swap_node f t s1 = Some s2 \<and> swapped f d (insert k D) s s2"
proof -
  have own: "nodes_own f s" "nodes_own d s" and wf: "dict_wf f" using R by (simp_all add: replacing_def nodes_own_def)
  obtain nt where nt: "node_at s t = Some nt" "n_addr nt = Some k" "n_con nt = None" "n_acon nt = None"
    using replacing_nodes(2) [OF R k(1)] by blast
  have nt1: "node_at s1 t = Some nt" using swappedD(2) [OF S k(1) nt(1)] k(2) by simp
  show ?thesis
  proof (cases "dict_map f k")
    case None
    have none: "con_of f s k = None" "acon_of f s k = None" using None by (simp_all add: con_of_def acon_of_def)
    have "swap_node f t s1 = Some s1" using nt1 nt(2) None by (simp add: swap_node_def dictFind_map [OF wf])
    moreover have "swapped f d (insert k D) s s1"
      unfolding swapped_def
    proof (intro conjI allI impI ballI)
      show "\<exists>ns as. s1 = s\<lparr>w_nodes := ns, w_acons := as\<rparr> \<and> length ns = length (w_nodes s)" using swappedD(1) [OF S] .
      show "node_at s1 n = Some (if j \<in> insert k D then nd\<lparr>n_con := con_of f s j, n_acon := acon_of f s j\<rparr> else nd)"
        if "dict_map d j = Some n" "node_at s n = Some nd" for j n nd
        using swappedD(2) [OF S that] that k nt nt1 none node_eqI(1) [of nt] by (cases "j = k") auto
      show "node_at s1 n = Some (if j \<in> insert k D then nd\<lparr>n_con := None, n_acon := None\<rparr> else nd)"
        if "dict_map f j = Some n" "node_at s n = Some nd" for j n nd
        using swappedD(3) [OF S that] that None by auto
      show "acon_at s1 a = acon_at s a" if "\<forall>j \<in> insert k D. acon_of f s j \<noteq> Some a" for a
        using swappedD(5) [OF S] that by blast
      show "\<exists>ac. acon_at s1 a = Some ac \<and> ac_data ac = Some n"
        if "j \<in> insert k D" "acon_of f s j = Some a" "dict_map d j = Some n" for j a n
        using swappedD(6) [OF S _ that(2,3)] that none by auto
    qed (use swappedD(4) [OF S] in blast)
    ultimately show ?thesis by blast
  next
    case (Some g)
    obtain nf where nf: "node_at s g = Some nf" "n_addr nf = Some k" "con_of f s k = n_con nf" "acon_of f s k = n_acon nf"
      using replacing_nodes(1) [OF R Some] by blast
    have nf1: "node_at s1 g = Some nf" using swappedD(3) [OF S Some nf(1)] k(2) by simp
    have tg: "t \<noteq> g" using replacing_nodes(3) [OF R k(1)] Some by blast
    have keep: "acon_at s1 a = acon_at s a" if "n_acon nf = Some a" for a
      using swappedD(5) [OF S, of a] acon_of_inj [OF R, of k a] nf(4) that k(2) by metis
    have live: "acon_at s a \<noteq> None" if "n_acon nf = Some a" for a
    proof -
      have "owns f s g" using Some by (auto simp: owns_def)
      then have "\<exists>ac. acon_at s a = Some ac" using R nf(1) that unfolding replacing_def conns_ok_def by blast
      then show ?thesis by auto
    qed
    define as where "as = (case n_acon nf of None \<Rightarrow> w_acons s1
      | Some a \<Rightarrow> (w_acons s1)[a := map_option (\<lambda>ac. ac\<lparr>ac_data := Some t\<rparr>) (acon_at s1 a)])"
    define ns where "ns = (w_nodes s1)[g := Some (nf\<lparr>n_con := None, n_acon := None\<rparr>), t := Some (nt\<lparr>n_con := n_con nf, n_acon := n_acon nf\<rparr>)]"
    let ?s2 = "s1\<lparr>w_nodes := ns, w_acons := as\<rparr>"
    have "swap_node f t s1 = Some ?s2"
      unfolding as_def ns_def
      using keep live by (intro swap_node_run [OF nt1 nt(2-4) wf Some nf1 tg]) auto
    moreover have len: "t < length (w_nodes s1)" "g < length (w_nodes s1)" using nt1 nf1 by (auto dest: store_at_less)
    have at: "node_at ?s2 x = (if x = t then Some (nt\<lparr>n_con := n_con nf, n_acon := n_acon nf\<rparr>)
        else if x = g then Some (nf\<lparr>n_con := None, n_acon := None\<rparr>) else node_at s1 x)" for x
      using len tg by (simp add: ns_def)
    have aat: "acon_at ?s2 a = (if n_acon nf = Some a then map_option (\<lambda>ac. ac\<lparr>ac_data := Some t\<rparr>) (acon_at s1 a) else acon_at s1 a)" for a
      by (auto simp: as_def split: option.splits)
    have "swapped f d (insert k D) s ?s2"
      unfolding swapped_def
    proof (intro conjI allI impI ballI)
      obtain ns0 as0 where s1: "s1 = s\<lparr>w_nodes := ns0, w_acons := as0\<rparr>" "length ns0 = length (w_nodes s)" using swappedD(1) [OF S] by blast
      then show "\<exists>ns as. ?s2 = s\<lparr>w_nodes := ns, w_acons := as\<rparr> \<and> length ns = length (w_nodes s)"
        by (intro exI [of _ ns] exI [of _ as]) (simp add: ns_def)
      show "node_at ?s2 n = Some (if j \<in> insert k D then nd\<lparr>n_con := con_of f s j, n_acon := acon_of f s j\<rparr> else nd)"
        if "dict_map d j = Some n" "node_at s n = Some nd" for j n nd
      proof (cases "j = k")
        case True
        with that k(1) nt(1) nf(3,4) show ?thesis unfolding at by simp
      next
        case False
        then have "n \<noteq> t" "n \<noteq> g" using nodes_own_inj [OF own(2) that(1), of k] k(1) replacing_nodes(3) [OF R that(1), of k] Some by auto
        with False swappedD(2) [OF S that] show ?thesis unfolding at by simp
      qed
      show "node_at ?s2 n = Some (if j \<in> insert k D then nd\<lparr>n_con := None, n_acon := None\<rparr> else nd)"
        if "dict_map f j = Some n" "node_at s n = Some nd" for j n nd
      proof (cases "j = k")
        case True
        with that Some nf(1) tg show ?thesis unfolding at by simp
      next
        case False
        then have "n \<noteq> t" "n \<noteq> g" using nodes_own_inj [OF own(1) that(1), of k] k(1) replacing_nodes(3) [OF R k(1), of j] that(1) Some by auto
        with False swappedD(3) [OF S that] show ?thesis unfolding at by simp
      qed
      show "node_at ?s2 x = node_at s x" if "\<forall>j. dict_map d j \<noteq> Some x" "\<forall>j. dict_map f j \<noteq> Some x" for x
      proof -
        have "x \<noteq> t" "x \<noteq> g" using that k(1) Some by auto
        then show ?thesis unfolding at using swappedD(4) [OF S] that by simp
      qed
      show "acon_at ?s2 a = acon_at s a" if "\<forall>j \<in> insert k D. acon_of f s j \<noteq> Some a" for a
        unfolding aat using swappedD(5) [OF S, of a] that nf(4) by auto
      show "\<exists>ac. acon_at ?s2 a = Some ac \<and> ac_data ac = Some n"
        if "j \<in> insert k D" "acon_of f s j = Some a" "dict_map d j = Some n" for j a n
      proof (cases "j = k")
        case True
        then have "n_acon nf = Some a" "n = t" using that nf(4) k(1) by auto
        with keep live show ?thesis unfolding aat by fastforce
      next
        case False
        then have "n_acon nf \<noteq> Some a" using acon_of_inj [OF R that(2), of k] nf(4) by auto
        with swappedD(6) [OF S _ that(2,3)] that(1) False show ?thesis unfolding aat by simp
      qed
    qed
    ultimately show ?thesis by blast
  qed
qed

lemma swap_loop_run:
  assumes R: "replacing f d s" and "swapped f d D s s1"
    and "\<forall>e \<in> set es. dict_map d (fst e) = Some (snd e)" "distinct (map fst es)" "fst ` set es \<inter> D = {}"
  shows "\<exists>s2. swap_loop f es s1 = Some s2 \<and> swapped f d (D \<union> fst ` set es) s s2"
  using assms(2-)
proof (induction es arbitrary: D s1)
  case Nil
  then show ?case by simp
next
  case (Cons e es)
  obtain s2 where s2: "swap_node f (snd e) s1 = Some s2" "swapped f d (insert (fst e) D) s s2"
    using swap_step [OF R Cons.prems(1), of "fst e" "snd e"] Cons.prems by auto
  have "\<exists>s3. swap_loop f es s2 = Some s3 \<and> swapped f d (insert (fst e) D \<union> fst ` set es) s s3"
    using Cons.prems by (intro Cons.IH [OF s2(2)]) auto
  with s2(1) show ?case by auto
qed

lemma swap_ctx_run:
  assumes "replacing f d s"
  shows "\<exists>s2. cluster_nodes_swap_ctx (Some f) d s = Some s2 \<and> swapped f d (dom (dict_map d)) s s2"
proof -
  have wf: "dict_wf d" using assms by (simp add: replacing_def nodes_own_def)
  have keys: "fst ` set (dict_entries d) = dom (dict_map d)"
    unfolding dict_map_def by (simp add: dom_map_of_conv_image_fst)
  have "\<exists>s2. swap_loop f (dict_entries d) s = Some s2 \<and> swapped f d ({} \<union> fst ` set (dict_entries d)) s s2"
    using wf dict_map_entries [OF wf] by (intro swap_loop_run [OF assms swapped_refl]) (auto simp: dict_wf_def)
  then show ?thesis unfolding keys by (simp add: cluster_nodes_swap_ctx_def dict_iter_entries [OF wf])
qed

section \<open>The invariant and the replacement of the nodes\<close>

definition cluster_inv :: "('c, 'w, 'z) cluster_scheme \<Rightarrow> bool" where
  "cluster_inv s \<longleftrightarrow> (\<forall>d. cc_nodes s = Some d \<longrightarrow> nodes_own d s \<and> conns_ok d s) \<and>
     (\<forall>tab. cc_table s = Some tab \<longrightarrow> length tab = REDIS_CLUSTER_SLOTS \<and>
        (\<forall>n. Some n \<in> set tab \<longrightarrow> (\<exists>d k. cc_nodes s = Some d \<and> dict_map d k = Some n)))"

lemma con_of_inj:
  assumes "replacing f d s" "dict_map f k = Some g" "con_of f s k = Some c" "owns f s y" "node_at s y = Some ny" "n_con ny = Some c"
  shows "y = g"
proof (rule ccontr)
  assume "y \<noteq> g"
  obtain nd where nd: "node_at s g = Some nd" "n_con nd = Some c" using replacing_nodes(1) [OF assms(1,2)] assms(3) by auto
  have "owns f s g" using assms(2) by (auto simp: owns_def)
  with nd assms(1,4,5,6) \<open>y \<noteq> g\<close> show False unfolding replacing_def conns_ok_def by (metis option.distinct(1))
qed

lemma acon_of_owner:
  assumes "replacing f d s" "dict_map f k = Some g" "acon_of f s k = Some c" "owns f s y" "node_at s y = Some ny" "n_acon ny = Some c"
  shows "y = g"
proof (rule ccontr)
  assume "y \<noteq> g"
  obtain nd where nd: "node_at s g = Some nd" "n_acon nd = Some c" using replacing_nodes(1) [OF assms(1,2)] assms(3) by auto
  have "owns f s g" using assms(2) by (auto simp: owns_def)
  with nd assms(1,4,5,6) \<open>y \<noteq> g\<close> show False unfolding replacing_def conns_ok_def by (metis option.distinct(1))
qed

lemma swapped_struct:
  assumes R: "replacing f d s" and S: "swapped f d D s s'"
  shows "struct_at s' x = struct_at s x"
proof -
  consider (d) k where "dict_map d k = Some x" | (f) k where "dict_map f k = Some x"
    | (no) "\<And>k. dict_map d k \<noteq> Some x" "\<And>k. dict_map f k \<noteq> Some x" by blast
  then show ?thesis
  proof cases
    case d
    then obtain nd where nd: "node_at s x = Some nd" using replacing_nodes(2) [OF R] by blast
    with swappedD(2) [OF S d nd] show ?thesis by (simp add: struct_at_def)
  next
    case f
    then obtain nd where nd: "node_at s x = Some nd" using replacing_nodes(1) [OF R] by blast
    with swappedD(3) [OF S f nd] show ?thesis by (simp add: struct_at_def)
  next
    case no
    with swappedD(4) [OF S no] show ?thesis by (simp add: struct_at_def)
  qed
qed

text \<open>The state after the connections have moved and the old nodes have been released.\<close>

lemma replaced_nodes:
  assumes R: "replacing f d s" and S: "swapped f d (dom (dict_map d)) s s3"
  defines "t \<equiv> release_all (owned_by f s3) s3"
  shows "nodes_own f s3" "nodes_own d t" "conns_ok d t"
    "dict_map d k = Some n \<Longrightarrow> node_at s n = Some nd \<Longrightarrow> node_at t n = Some (nd\<lparr>n_con := con_of f s k, n_acon := acon_of f s k\<rparr>)"
    "owns d t x = owns d s x"
    "owns d t x \<Longrightarrow> node_at t x = Some nd' \<Longrightarrow> n_con nd' \<noteq> None \<Longrightarrow> \<exists>k. n_con nd' = con_of f s k"
proof -
  have own: "nodes_own f s" "nodes_own d s" and wf: "dict_wf f" using R by (simp_all add: replacing_def nodes_own_def)
  have struct: "struct_at s3 x = struct_at s x" for x using swapped_struct [OF R S] .
  have of3: "owns f s3 x = owns f s x" for x using struct by (intro owns_struct)
  show nf: "nodes_own f s3" using nodes_own_struct [OF own(1) struct] .
  have mem: "x \<in> set (owned_by f s3) \<longleftrightarrow> owns f s x" for x using set_owned_by [OF wf] of3 by blast
  have dis: "distinct (owned_by f s3)" using nodes_own_free_ok [OF nf] by (simp add: free_ok_def)
  have livef: "\<forall>x \<in> set (owned_by f s3). node_at s3 x \<noteq> None" using mem of3 owns_live [OF nf] by blast
  have at: "node_at t x = node_at s3 x" if "owns d s x" for x
    using that R mem unfolding t_def replacing_def by simp
  have structd: "struct_at t x = struct_at s x" if "owns d s x" for x using at [OF that] struct [of x] by (simp add: struct_at_def)
  show "nodes_own d t" using nodes_own_struct [OF own(2) structd] .
  show ow: "owns d t x = owns d s x" for x using structd by (intro owns_struct)
  show val: "node_at t n = Some (nd\<lparr>n_con := con_of f s k, n_acon := acon_of f s k\<rparr>)"
    if "dict_map d k = Some n" "node_at s n = Some nd" for k n nd
  proof -
    have "owns d s n" using that by (auto simp: owns_def)
    then show ?thesis using at swappedD(2) [OF S that] that(1) by auto
  qed
  \<comment> \<open>the nodes of the new table that carry a connection are its members, with that of the old member\<close>
  have carry: "\<exists>k g. dict_map d k = Some x \<and> dict_map f k = Some g \<and> n_con nd = con_of f s k \<and> n_acon nd = acon_of f s k"
    if "owns d t x" "node_at t x = Some nd" "n_con nd \<noteq> None \<or> n_acon nd \<noteq> None" for x nd
  proof (cases "\<exists>k. dict_map d k = Some x")
    case True
    then obtain k where k: "dict_map d k = Some x" by blast
    obtain nd0 where "node_at s x = Some nd0" using replacing_nodes(2) [OF R k] by blast
    with val [OF k this] that have "n_con nd = con_of f s k" "n_acon nd = acon_of f s k" by auto
    moreover have "\<exists>g. dict_map f k = Some g" using calculation that(3) by (auto simp: con_of_def acon_of_def split: option.splits)
    ultimately show ?thesis using k by blast
  next
    case False
    have o: "owns d s x" using that(1) ow by blast
    then have "\<not> owns f s x" using R by (simp add: replacing_def)
    then have "dict_map f k \<noteq> Some x" for k by (auto simp: owns_def)
    then have "node_at s x = Some nd" using swappedD(4) [OF S] False at [OF o] that(2) by simp
    with R o have "n_con nd = None \<and> n_acon nd = None" unfolding replacing_def by simp
    with that(3) show ?thesis by simp
  qed
  \<comment> \<open>the released nodes carry none of those connections\<close>
  have old: "\<exists>n0. node_at s y = Some n0 \<and> (n_con ny = None \<and> n_acon ny = None \<or> ny = n0 \<and> (\<forall>k. dict_map d k \<noteq> None \<longrightarrow> dict_map f k \<noteq> Some y))"
    if "y \<in> set (owned_by f s3)" "node_at s3 y = Some ny" for y ny
  proof (cases "\<exists>j. dict_map f j = Some y")
    case True
    then obtain j where j: "dict_map f j = Some y" by blast
    obtain n0 where n0: "node_at s y = Some n0" using replacing_nodes(1) [OF R j] by blast
    have only: "k = j" if "dict_map f k = Some y" for k using nodes_own_inj [OF own(1) that j] .
    show ?thesis
    proof (cases "j \<in> dom (dict_map d)")
      case True
      with n0 swappedD(3) [OF S j n0] that(2) show ?thesis by auto
    next
      case False
      then have "ny = n0" using swappedD(3) [OF S j n0] that(2) by simp
      with n0 False only show ?thesis by auto
    qed
  next
    case False
    have "owns f s y" using that(1) mem by blast
    then have "dict_map d k \<noteq> Some y" for k using R unfolding replacing_def owns_def by blast
    then have "node_at s y = Some ny" using swappedD(4) [OF S] False that(2) by simp
    with False show ?thesis by blast
  qed
  have con_t: "con_at t c = con_at s c" if k: "dict_map d k = Some x" "dict_map f k = Some g" "con_of f s k = Some c" for k x g c
  proof -
    have "con_at s3 c = con_at s c" using swappedD(1) [OF S] by auto
    moreover have "\<not> (\<exists>y \<in> set (owned_by f s3). \<exists>ny. node_at s3 y = Some ny \<and> n_con ny = Some c)"
    proof
      assume "\<exists>y \<in> set (owned_by f s3). \<exists>ny. node_at s3 y = Some ny \<and> n_con ny = Some c"
      then obtain y ny where y: "y \<in> set (owned_by f s3)" "node_at s3 y = Some ny" "n_con ny = Some c" by blast
      then have "node_at s y = Some ny" and no: "\<forall>k. dict_map d k \<noteq> None \<longrightarrow> dict_map f k \<noteq> Some y" using old [OF y(1,2)] by auto
      then have "y = g" using con_of_inj [OF R k(2,3), of y ny] y mem by blast
      with no k(1,2) show False by simp
    qed
    ultimately show ?thesis unfolding t_def using release_all_con [OF dis livef, of c] by auto
  qed
  show "\<exists>k. n_con nd' = con_of f s k" if "owns d t x" "node_at t x = Some nd'" "n_con nd' \<noteq> None"
    using carry [OF that(1,2) disjI1 [OF that(3)]] by blast
  have acon_t: "acon_at t a = acon_at s3 a" if k: "dict_map d k = Some x" "dict_map f k = Some g" "acon_of f s k = Some a" for k x g a
  proof -
    have "\<not> (\<exists>y \<in> set (owned_by f s3). \<exists>ny. node_at s3 y = Some ny \<and> n_acon ny = Some a)"
    proof
      assume "\<exists>y \<in> set (owned_by f s3). \<exists>ny. node_at s3 y = Some ny \<and> n_acon ny = Some a"
      then obtain y ny where y: "y \<in> set (owned_by f s3)" "node_at s3 y = Some ny" "n_acon ny = Some a" by blast
      then have "node_at s y = Some ny" and no: "\<forall>k. dict_map d k \<noteq> None \<longrightarrow> dict_map f k \<noteq> Some y" using old [OF y(1,2)] by auto
      then have "y = g" using acon_of_owner [OF R k(2,3), of y ny] y mem by blast
      with no k(1,2) show False by simp
    qed
    then show ?thesis unfolding t_def using release_all_con [OF dis livef, of a] by auto
  qed
  show "conns_ok d t"
    unfolding conns_ok_def
  proof (intro conjI allI impI)
    fix x nd c assume x: "owns d t x" "node_at t x = Some nd" "n_con nd = Some c"
    then obtain k g where k: "dict_map d k = Some x" "dict_map f k = Some g" "con_of f s k = Some c" using carry [OF x(1,2)] by auto
    obtain nf where nf: "node_at s g = Some nf" "n_con nf = Some c" using replacing_nodes(1) [OF R k(2)] k(3) by auto
    have "owns f s g" using k(2) by (auto simp: owns_def)
    with R nf have "con_at s c \<noteq> None" unfolding replacing_def conns_ok_def by simp
    with con_t [OF k] show "con_at t c \<noteq> None" by simp
  next
    fix x nd a assume x: "owns d t x" "node_at t x = Some nd" "n_acon nd = Some a"
    then obtain k g where k: "dict_map d k = Some x" "dict_map f k = Some g" "acon_of f s k = Some a" using carry [OF x(1,2)] by auto
    with swappedD(6) [OF S _ k(3,1)] acon_t [OF k] show "\<exists>ac. acon_at t a = Some ac \<and> ac_data ac = Some x" by (simp add: domI)
  next
    fix x y nd nd' assume xy: "owns d t x" "owns d t y" "node_at t x = Some nd" "node_at t y = Some nd'" "x \<noteq> y"
    show "n_con nd = None \<or> n_con nd \<noteq> n_con nd'"
    proof (rule ccontr)
      assume c: "\<not> (n_con nd = None \<or> n_con nd \<noteq> n_con nd')"
      then have n: "n_con nd \<noteq> None" "n_con nd' \<noteq> None" by metis+
      obtain k g where k: "dict_map d k = Some x" "dict_map f k = Some g" "n_con nd = con_of f s k" using carry [OF xy(1,3) disjI1 [OF n(1)]] by blast
      obtain j h where j: "dict_map d j = Some y" "dict_map f j = Some h" "n_con nd' = con_of f s j" using carry [OF xy(2,4) disjI1 [OF n(2)]] by blast
      obtain nh where nh: "node_at s h = Some nh" "con_of f s j = n_con nh" using replacing_nodes(1) [OF R j(2)] by blast
      have "owns f s h" using j(2) by (auto simp: owns_def)
      obtain v where v: "n_con nd = Some v" "n_con nd' = Some v" using c by (metis option.exhaust)
      then have "h = g" using con_of_inj [OF R k(2) _ \<open>owns f s h\<close> nh(1)] k(3) j(3) nh(2) by metis
      then have "j = k" using nodes_own_inj [OF own(1) j(2)] k(2) by simp
      with k(1) j(1) xy(5) show False by simp
    qed
    show "n_acon nd = None \<or> n_acon nd \<noteq> n_acon nd'"
    proof (rule ccontr)
      assume c: "\<not> (n_acon nd = None \<or> n_acon nd \<noteq> n_acon nd')"
      then have n: "n_acon nd \<noteq> None" "n_acon nd' \<noteq> None" by metis+
      obtain k g where k: "dict_map d k = Some x" "n_acon nd = acon_of f s k" using carry [OF xy(1,3) disjI2 [OF n(1)]] by blast
      obtain j h where j: "dict_map d j = Some y" "n_acon nd' = acon_of f s j" using carry [OF xy(2,4) disjI2 [OF n(2)]] by blast
      obtain v where v: "n_acon nd = Some v" "n_acon nd' = Some v" using c by (metis option.exhaust)
      then have "j = k" using acon_of_inj [OF R, of j v k] k(2) j(2) by metis
      with k(1) j(1) xy(5) show False by simp
    qed
  qed
qed

text \<open>Predicates that depend on the stores only.\<close>

lemma own_cong:
  assumes "w_nodes t = w_nodes s"
  shows "nodes_own d t = nodes_own d s" "owns d t x = owns d s x" "owned t ns = owned s ns" "slots_of t n = slots_of s n"
    "con_of d t k = con_of d s k" "acon_of d t k = acon_of d s k" "contents d t = contents d s" "building n0 d t = building n0 d s"
proof -
  have sl: "slaves_at t = slaves_at s" using assms by (simp add: slaves_at_def fun_eq_iff)
  show ow: "owns d t x = owns d s x" for x by (simp add: owns_def sl)
  show "owned t ns = owned s ns" by (simp add: owned_def sl)
  show nown: "nodes_own d t = nodes_own d s"
  proof -
    have slo: "slave_ok t = slave_ok s" using assms by (simp add: slave_ok_def fun_eq_iff)
    have "member_ok t = member_ok s" unfolding member_ok_def [abs_def] slo assms ..
    then show ?thesis by (simp add: nodes_own_def sl)
  qed
  show "slots_of t n = slots_of s n" "con_of d t k = con_of d s k" "acon_of d t k = acon_of d s k" "contents d t = contents d s"
    unfolding slots_of_def con_of_def acon_of_def contents_def [abs_def] assms by (rule refl)+
  show "building n0 d t = building n0 d s" using assms ow by (simp add: building_def nown nodes_fresh_def)
qed

lemma conns_cong:
  assumes "w_nodes t = w_nodes s" "w_cons t = w_cons s" "w_acons t = w_acons s"
  shows "conns_ok d t = conns_ok d s"
  using assms by (simp add: conns_ok_def own_cong(2) [OF assms(1)])

lemma cluster_inv_cong:
  assumes "w_nodes t = w_nodes s" "w_cons t = w_cons s" "w_acons t = w_acons s" "cc_nodes t = cc_nodes s" "cc_table t = cc_table s"
  shows "cluster_inv t = cluster_inv s"
  using assms by (simp add: cluster_inv_def own_cong(1) [OF assms(1)] conns_cong [OF assms(1-3)])

text \<open>A step of a parser or the release of what it built leaves the known nodes alone.\<close>

lemma parse_step_inv:
  assumes inv: "cluster_inv s" and st: "parse_step n0 s t" and old: "\<And>f x. cc_nodes s = Some f \<Longrightarrow> owns f s x \<Longrightarrow> x < n0"
  shows "cluster_inv t" "cc_nodes t = cc_nodes s" "cc_table t = cc_table s" "cc_nodes s = Some f \<Longrightarrow> owns f t x = owns f s x"
proof -
  have f: "cc_nodes t = cc_nodes s" "cc_table t = cc_table s" "w_cons t = w_cons s" "w_acons t = w_acons s"
    and at: "\<And>a. a < n0 \<Longrightarrow> node_at t a = node_at s a"
    using st by (auto simp: parse_step_def agree_below_def node_stepD)
  then show "cc_nodes t = cc_nodes s" "cc_table t = cc_table s" by blast+
  have view: "struct_at t x = struct_at s x" if "cc_nodes s = Some f" "owns f s x" for f x
    using at [OF old [OF that]] by (simp add: struct_at_def)
  show ow: "owns f t x = owns f s x" if "cc_nodes s = Some f" for f x using view [OF that] by (rule owns_struct)
  have "nodes_own f t \<and> conns_ok f t" if "cc_nodes s = Some f" for f
  proof -
    have "nodes_own f s" "conns_ok f s" using inv that by (simp_all add: cluster_inv_def)
    moreover have "conns_ok f t"
      using calculation(2) at old [OF that] unfolding conns_ok_def f(3,4) ow [OF that] by (simp cong: conj_cong imp_cong)
    ultimately show ?thesis using nodes_own_struct [OF _ view [OF that]] by blast
  qed
  then show "cluster_inv t" using inv unfolding cluster_inv_def f by blast
qed

definition old_con :: "('c, 'w, 'z) cluster_scheme \<Rightarrow> string \<Rightarrow> addr option" where
  "old_con s k = (case cc_nodes s of None \<Rightarrow> None | Some f \<Rightarrow> con_of f s k)"

definition old_acon :: "('c, 'w, 'z) cluster_scheme \<Rightarrow> string \<Rightarrow> addr option" where
  "old_acon s k = (case cc_nodes s of None \<Rightarrow> None | Some f \<Rightarrow> acon_of f s k)"

lemma update_events_simps [simp]:
  "w_nodes (update_events s) = w_nodes s" "w_cons (update_events s) = w_cons s" "w_acons (update_events s) = w_acons s"
  "cc_nodes (update_events s) = cc_nodes s" "cc_table (update_events s) = cc_table s" "cc_route_version (update_events s) = cc_route_version s"
  "w_script (update_events s) = w_script s" "w_world (update_events s) = w_world s" "cc_flags (update_events s) = cc_flags s"
  "cx_err (update_events s) = cx_err s" "cc_max_retry_count (update_events s) = cc_max_retry_count s" "cc_retry_count (update_events s) = cc_retry_count s"
  by (simp_all add: update_events_def cc_log_def Let_def)

lemma release_all_stores:
  assumes "w_nodes s = w_nodes t" "w_cons s = w_cons t" "w_acons s = w_acons t"
  shows "w_nodes (release_all xs s) = w_nodes (release_all xs t) \<and> w_cons (release_all xs s) = w_cons (release_all xs t) \<and>
     w_acons (release_all xs s) = w_acons (release_all xs t)"
  using assms
proof (induction xs arbitrary: s t)
  case (Cons x xs)
  have step: "w_nodes (release_node x nd s) = w_nodes (release_node x nd t) \<and> w_cons (release_node x nd s) = w_cons (release_node x nd t) \<and>
     w_acons (release_node x nd s) = w_acons (release_node x nd t)" for nd
    using Cons.prems by (auto simp: release_node_def redisFree_def free_acon_def cc_log_def split: option.splits)
  then show ?case unfolding release_all_simps Cons.prems(1) by (intro Cons.IH) simp_all
qed simp

abbreviation new_ranges :: "('c, 'w, 'z) cluster_scheme \<Rightarrow> (string, addr) dict \<Rightarrow> (addr \<times> cluster_slot) list" where
  "new_ranges s d \<equiv> node_ranges s (map snd (dict_entries d))"

lemma in_table_of: "Some n \<in> set (table_of rs) \<Longrightarrow> \<exists>sl. (n, sl) \<in> set rs"
proof -
  assume "Some n \<in> set (table_of rs)"
  then obtain i where "map_option fst (find (\<lambda>x. covers (snd x) i) rs) = Some n" unfolding table_of_def by (metis (no_types, lifting) imageE set_map)
  then obtain x where x: "find (\<lambda>x. covers (snd x) i) rs = Some x" "fst x = n" by blast
  then have "x \<in> set rs" by (auto simp: find_Some_iff)
  with x(2) show ?thesis by (cases x) auto
qed

lemma in_new_ranges: "(n, sl) \<in> set (new_ranges s d) \<longleftrightarrow> n \<in> snd ` set (dict_entries d) \<and> sl \<in> set (slots_of s n)"
  by (auto simp: node_ranges_def)

lemma building_fill:
  assumes "building n0 d s"
  shows "fill_table s (dict_iter d) (replicate REDIS_CLUSTER_SLOTS None) =
     (if ranges_ok (new_ranges s d) then Some (Inr (table_of (new_ranges s d))) else fill_table s (dict_iter d) (table_of []))"
    "\<not> ranges_ok (new_ranges s d) \<Longrightarrow> \<exists>msg. fill_table s (dict_iter d) (table_of []) = Some (Inl msg)"
proof -
  have own: "nodes_own d s" and fr: "nodes_fresh n0 d s" using assms by (simp_all add: building_def)
  note wf = nodes_ownD(1) [OF own]
  have m: "\<forall>e \<in> set (dict_entries d). \<exists>nd. node_at s (snd e) = Some nd \<and> n_role nd = REDIS_ROLE_MASTER"
  proof
    fix e assume e: "e \<in> set (dict_entries d)"
    then have k: "dict_map d (fst e) = Some (snd e)" using dict_map_entries [OF wf, of "fst e" "snd e"] by simp
    obtain nd where "node_at s (snd e) = Some nd" using member_okD(1) [OF nodes_ownD(3) [OF own k]] by blast
    with fr k show "\<exists>nd. node_at s (snd e) = Some nd \<and> n_role nd = REDIS_ROLE_MASTER" unfolding nodes_fresh_def by blast
  qed
  have "ranges_ok []" by (simp add: ranges_ok_def)
  from fill_table_spec [OF m this]
  show "fill_table s (dict_iter d) (replicate REDIS_CLUSTER_SLOTS None) =
     (if ranges_ok (new_ranges s d) then Some (Inr (table_of (new_ranges s d))) else fill_table s (dict_iter d) (table_of []))"
    "\<not> ranges_ok (new_ranges s d) \<Longrightarrow> \<exists>msg. fill_table s (dict_iter d) (table_of []) = Some (Inl msg)"
    unfolding table_empty dict_iter_entries [OF wf] by simp_all
qed

lemma updateNodesAndSlotmap_fail:
  assumes b: "building n0 d s" and al: "cc_alloc s = (ok, s\<lparr>w_script := al\<rparr>)" and no: "\<not> (ok \<and> ranges_ok (new_ranges s d))"
  shows "\<exists>t. updateNodesAndSlotmap (Some d) s = Some (REDIS_ERR, t) \<and> parse_step n0 s t"
proof -
  let ?s1 = "s\<lparr>w_script := al\<rparr>"
  have rel: "\<exists>t. release_nodes_dict d (redisClusterSetError e m ?s1) = Some t \<and> parse_step n0 s t" for e m
  proof -
    have "building n0 d (redisClusterSetError e m ?s1)" using b by simp
    then obtain t where t: "release_nodes_dict d (redisClusterSetError e m ?s1) = Some t" "parse_step n0 (redisClusterSetError e m ?s1) t"
      using building_release unfolding parse_step_def by blast
    with parse_step_trans [OF parse_step_trans [OF parse_step_script parse_step_error] t(2)] show ?thesis by blast
  qed
  show ?thesis
  proof (cases ok)
    case False
    obtain t where "release_nodes_dict d (set_oom ?s1) = Some t" "parse_step n0 s t"
      using rel [of REDIS_ERR_OOM "''Out of memory''"] by blast
    with False al show ?thesis by (simp add: updateNodesAndSlotmap_def)
  next
    case True
    then have r: "\<not> ranges_ok (new_ranges ?s1 d)" using no by (simp add: node_ranges_def slots_of_def)
    have b1: "building n0 d ?s1" using b by simp
    obtain msg where "fill_table ?s1 (dict_iter d) (replicate REDIS_CLUSTER_SLOTS None) = Some (Inl msg)"
      using building_fill [OF b1] r by auto
    with al True rel [of REDIS_ERR_OTHER msg] show ?thesis by (auto simp: updateNodesAndSlotmap_def)
  qed
qed

text \<open>What the replacement of the slot map leaves as it is.\<close>

definition same_conf :: "('c, 'w, 'z) cluster_scheme \<Rightarrow> ('c, 'w, 'z) cluster_scheme \<Rightarrow> bool" where
  "same_conf s t \<longleftrightarrow> cc_flags t = cc_flags s \<and> cc_connect_timeout t = cc_connect_timeout s \<and>
     cc_command_timeout t = cc_command_timeout s \<and> cc_max_retry_count t = cc_max_retry_count s \<and>
     cc_username t = cc_username s \<and> cc_password t = cc_password s \<and> cc_requests t = cc_requests s \<and>
     cc_retry_count t = cc_retry_count s \<and> cc_ssl t = cc_ssl s \<and> cc_on_connect t = cc_on_connect s \<and>
     cc_event_callback t = cc_event_callback s"

lemma same_conf_refl [simp]: "same_conf s s"
  by (simp add: same_conf_def)

lemma same_conf_trans [trans]: "same_conf s t \<Longrightarrow> same_conf t u \<Longrightarrow> same_conf s u"
  by (simp add: same_conf_def)

lemma parse_step_same_conf: "parse_step n0 s t \<Longrightarrow> same_conf s t"
  unfolding parse_step_def same_conf_def by (elim conjE node_stepE) simp

lemma release_all_same_conf: "same_conf s (release_all xs s) \<and> w_script (release_all xs s) = w_script s"
proof (induction xs arbitrary: s)
  case (Cons x xs)
  have "same_conf s (release_node x nd s) \<and> w_script (release_node x nd s) = w_script s" for nd
    by (auto simp: same_conf_def release_node_def redisFree_def free_acon_def cc_log_def split: option.splits)
  with Cons.IH same_conf_trans show ?case unfolding release_all_simps by metis
qed simp

lemma update_events_same_conf: "same_conf s (update_events s)"
  by (simp add: same_conf_def update_events_def cc_log_def Let_def)

lemma updateNodesAndSlotmap_ok:
  assumes b: "building n0 d s" and al: "cc_alloc s = (True, s\<lparr>w_script := al\<rparr>)" and rok: "ranges_ok (new_ranges s d)"
    and inv: "cluster_inv s" and old: "\<And>f x. cc_nodes s = Some f \<Longrightarrow> owns f s x \<Longrightarrow> x < n0"
  shows "\<exists>t. updateNodesAndSlotmap (Some d) s = Some (REDIS_OK, t) \<and> cluster_inv t \<and> cc_nodes t = Some d \<and>
     cc_table t = Some (table_of (new_ranges s d)) \<and> cc_route_version t = cc_route_version s + 1 \<and> cc_need_update_route t = 0 \<and>
     (\<forall>k n nd. dict_map d k = Some n \<longrightarrow> node_at s n = Some nd \<longrightarrow> node_at t n = Some (nd\<lparr>n_con := old_con s k, n_acon := old_acon s k\<rparr>)) \<and>
     (\<forall>x nd. owns d t x \<longrightarrow> node_at t x = Some nd \<longrightarrow> n_con nd \<noteq> None \<longrightarrow> (\<exists>k. n_con nd = old_con s k)) \<and>
     (\<forall>f x. cc_nodes s = Some f \<longrightarrow> owns f s x \<longrightarrow> node_at t x = None) \<and> same_conf s t \<and> w_script t = al"
proof -
  let ?s1 = "s\<lparr>w_script := al\<rparr>" and ?tab = "table_of (new_ranges s d)"
  let ?s2 = "?s1\<lparr>cc_table := Some ?tab, cc_route_version := cc_route_version s + 1\<rparr>"
  have own: "nodes_own d s" and fr: "nodes_fresh n0 d s" using b by (simp_all add: building_def)
  note wf = nodes_ownD(1) [OF own]
  have fill: "fill_table ?s1 (dict_iter d) (replicate REDIS_CLUSTER_SLOTS None) = Some (Inr ?tab)"
    using building_fill(1) [of n0 d ?s1] b rok by (simp add: node_ranges_def slots_of_def)
  have tab: "length ?tab = REDIS_CLUSTER_SLOTS" "Some n \<in> set ?tab \<Longrightarrow> \<exists>k. dict_map d k = Some n" for n
  proof -
    show "Some n \<in> set ?tab \<Longrightarrow> \<exists>k. dict_map d k = Some n"
      using in_table_of [of n "new_ranges s d"] in_new_ranges [of n _ s d] dict_map_entries [OF wf] by fastforce
  qed simp
  show ?thesis
  proof (cases "cc_nodes s")
    case None
    let ?t = "(update_events (?s2\<lparr>cc_nodes := Some d\<rparr>))\<lparr>cc_need_update_route := 0\<rparr>"
    have "updateNodesAndSlotmap (Some d) s = Some (REDIS_OK, ?t)"
      using al fill None by (simp add: updateNodesAndSlotmap_def cluster_nodes_swap_ctx_def)
    moreover have w: "w_nodes ?t = w_nodes s" by simp
    have "conns_ok d ?t"
      unfolding conns_ok_def own_cong(2) [OF w]
      using fr unfolding nodes_fresh_def by (simp) (metis option.distinct(1) option.inject)
    then have "cluster_inv ?t" using own tab unfolding cluster_inv_def by (simp add: own_cong(1) [OF w])
    moreover have "nd\<lparr>n_con := None, n_acon := None\<rparr> = nd" if "dict_map d k = Some n" "node_at s n = Some nd" for k n nd
    proof -
      have "owns d s n" using that(1) by (auto simp: owns_def)
      then show ?thesis using that(2) fr unfolding nodes_fresh_def by (intro node_eqI(1)) auto
    qed
    moreover have "n_con nd = None" if "owns d ?t x" "node_at ?t x = Some nd" for x nd
      using that fr unfolding nodes_fresh_def own_cong(2) [OF w] by fastforce
    moreover have "same_conf s ?t" using update_events_same_conf [of "?s2\<lparr>cc_nodes := Some d\<rparr>"] by (simp add: same_conf_def)
    ultimately show ?thesis using None by (intro exI [of _ ?t]) (simp add: old_con_def old_acon_def)
  next
    case (Some f)
    have R: "replacing f d ?s2"
    proof -
      have w: "w_nodes ?s2 = w_nodes s" by simp
      have "conns_ok f ?s2" using inv Some conns_cong [of ?s2 s f] by (simp add: cluster_inv_def)
      moreover have "\<not> owns f s x" if "owns d s x" for x using fr old [OF Some] that unfolding nodes_fresh_def by (meson leD)
      moreover have "n_con nd = None \<and> n_acon nd = None" if "owns d s x" "node_at s x = Some nd" for x nd
        using fr that unfolding nodes_fresh_def by fastforce
      ultimately show ?thesis using inv Some own unfolding replacing_def own_cong [OF w] by (simp add: cluster_inv_def)
    qed
    obtain s3 where s3: "cluster_nodes_swap_ctx (Some f) d ?s2 = Some s3" "swapped f d (dom (dict_map d)) ?s2 s3"
      using swap_ctx_run [OF R] by blast
    obtain ns as where s3': "s3 = ?s2\<lparr>w_nodes := ns, w_acons := as\<rparr>" using swappedD(1) [OF s3(2)] by blast
    let ?s4 = "s3\<lparr>cc_nodes := Some d\<rparr>"
    note rep = replaced_nodes [OF R s3(2)]
    let ?u = "release_all (owned_by f s3) s3"
    let ?s5 = "release_all (owned_by f s3) ?s4"
    have st: "w_nodes ?s5 = w_nodes ?u" "w_cons ?s5 = w_cons ?u" "w_acons ?s5 = w_acons ?u"
      using release_all_stores [of ?s4 s3] by simp_all
    have rel: "release_nodes_dict f ?s4 = Some ?s5"
      using release_dict_own [of f ?s4] rep(1) own_cong(1,3) [of ?s4 s3] by simp
    let ?t = "(update_events ?s5)\<lparr>cc_need_update_route := 0\<rparr>"
    have "updateNodesAndSlotmap (Some d) s = Some (REDIS_OK, ?t)"
      using al fill Some s3(1) rel by (simp add: updateNodesAndSlotmap_def s3')
    moreover have "cluster_inv ?t"
    proof -
      have "nodes_own d ?t" using rep(2) own_cong(1) [of ?t ?u] st(1) by simp
      moreover have "conns_ok d ?t" using rep(3) conns_cong [of ?t ?u] st by simp
      ultimately show ?thesis using tab unfolding cluster_inv_def by (simp add: s3')
    qed
    moreover have "node_at ?t n = Some (nd\<lparr>n_con := old_con s k, n_acon := old_acon s k\<rparr>)"
      if "dict_map d k = Some n" "node_at s n = Some nd" for k n nd
      using rep(4) [OF that(1), of nd] that(2) st(1) Some own_cong(5,6) [of ?s2 s] by (simp add: old_con_def old_acon_def)
    moreover have "\<exists>k. n_con nd = old_con s k" if "owns d ?t x" "node_at ?t x = Some nd" "n_con nd \<noteq> None" for x nd
      using rep(6) [of x nd] that own_cong(2) [of ?t ?u d x] st(1) Some own_cong(5) [of ?s2 s f] by (simp add: old_con_def)
    moreover have "same_conf s ?t" "w_script ?s5 = al"
      using release_all_same_conf [where xs = "owned_by f s3" and s = ?s4] update_events_same_conf [of ?s5] by (simp_all add: same_conf_def s3')
    moreover have "node_at ?t x = None" if "owns f s x" for x
    proof -
      have "owns f s3 x" using that own_cong(2) [of ?s2 s f x] owns_struct [of f ?s2 s3 x] swapped_struct [OF R s3(2)] by simp
      then show ?thesis using st(1) set_owned_by [OF nodes_ownD(1) [OF rep(1)], of x s3] by simp
    qed
    ultimately show ?thesis using Some by (intro exI [of _ ?t]) (simp add: s3')
  qed
qed

end
