(* ===== verification/Slotmap_Update.thy ===== *)
theory Slotmap_Update
  imports Slotmap_Inv
begin

text \<open>
  Learning the slot map from a server, from the reply to the new table. Whatever hiredis returns, the
  operations keep the invariant of the context, and an update that fails leaves the nodes and the table as
  they were; a well-formed reply gives the table it describes.
\<close>

section \<open>The known nodes\<close>

definition known :: "('c, 'w, 'z) cluster_scheme \<Rightarrow> addr \<Rightarrow> bool" where
  "known s x \<longleftrightarrow> (\<exists>d. cc_nodes s = Some d \<and> owns d s x)"

text \<open>A connection that no known node has.\<close>

definition con_free :: "addr \<Rightarrow> ('c, 'w, 'z) cluster_scheme \<Rightarrow> bool" where
  "con_free c s \<longleftrightarrow> (\<forall>x nd. known s x \<longrightarrow> node_at s x = Some nd \<longrightarrow> n_con nd \<noteq> Some c)"

text \<open>What a failed update keeps: the tables, and every known node.\<close>

definition kept :: "('c, 'w, 'z) cluster_scheme \<Rightarrow> ('c, 'w, 'z) cluster_scheme \<Rightarrow> bool" where
  "kept s t \<longleftrightarrow> cc_nodes t = cc_nodes s \<and> cc_table t = cc_table s \<and> cc_route_version t = cc_route_version s \<and>
     (\<forall>x. known s x \<longrightarrow> node_at t x = node_at s x)"

lemma kept_refl [simp]: "kept s s"
  by (simp add: kept_def)

lemma known_less: "cluster_inv s \<Longrightarrow> known s x \<Longrightarrow> x < length (w_nodes s)"
  using owns_less by (auto simp: known_def cluster_inv_def)

lemma known_member: "cc_nodes s = Some d \<Longrightarrow> dict_map d k = Some n \<Longrightarrow> known s n"
  by (auto simp: known_def owns_def)

lemma known_kept:
  assumes "kept s t"
  shows "known t x = known s x"
proof (cases "cc_nodes s")
  case None
  with assms show ?thesis by (simp add: kept_def known_def)
next
  case (Some d)
  have "owns d t x = owns d s x"
    using assms Some by (intro owns_struct) (auto simp: kept_def known_def struct_at_def)
  with assms Some show ?thesis by (simp add: kept_def known_def)
qed

lemma kept_trans [trans]: "kept s t \<Longrightarrow> kept t u \<Longrightarrow> kept s u"
  using known_kept [of s t] unfolding kept_def by simp

lemma parse_step_kept:
  assumes "cluster_inv s" and st: "parse_step n0 s t" and "length (w_nodes s) \<le> n0"
  shows "kept s t" "cluster_inv t"
proof -
  have less: "x < n0" if "known s x" for x using known_less [OF assms(1) that] assms(3) by simp
  then have old: "x < n0" if "cc_nodes s = Some f" "owns f s x" for f x using that by (auto simp: known_def)
  show "cluster_inv t" using parse_step_inv(1) [OF assms(1) st old] .
  have "node_at t x = node_at s x" if "known s x" for x using st less [OF that] by (simp add: parse_step_def agree_below_def)
  with st show "kept s t" by (auto simp: kept_def parse_step_def node_stepD)
qed

lemma kept_con_free: "kept s t \<Longrightarrow> con_free c t = con_free c s"
  by (auto simp: con_free_def known_kept) (auto simp: kept_def)

text \<open>The update of a table that a parser has built.\<close>

lemma updateNodesAndSlotmap_built:
  assumes "building n0 d s" and "cc_alloc s = (True, s\<lparr>w_script := al\<rparr>)" and "ranges_ok (new_ranges s d)"
    and "cluster_inv s" and n0: "\<forall>x. known s x \<longrightarrow> x < n0"
  shows "\<exists>t. updateNodesAndSlotmap (Some d) s = Some (REDIS_OK, t) \<and> cluster_inv t \<and> cc_nodes t = Some d \<and>
     cc_table t = Some (table_of (new_ranges s d)) \<and> cc_route_version t = cc_route_version s + 1 \<and> cc_need_update_route t = 0 \<and>
     (\<forall>k n nd. dict_map d k = Some n \<longrightarrow> node_at s n = Some nd \<longrightarrow> node_at t n = Some (nd\<lparr>n_con := old_con s k, n_acon := old_acon s k\<rparr>)) \<and>
     (\<forall>x nd. owns d t x \<longrightarrow> node_at t x = Some nd \<longrightarrow> n_con nd \<noteq> None \<longrightarrow> (\<exists>k. n_con nd = old_con s k)) \<and>
     (\<forall>x. known s x \<longrightarrow> node_at t x = None) \<and> same_conf s t \<and> w_script t = al"
proof -
  have old: "x < n0" if "cc_nodes s = Some f" "owns f s x" for f x using n0 that by (auto simp: known_def)
  have gone: "(\<forall>f x. cc_nodes s = Some f \<longrightarrow> owns f s x \<longrightarrow> node_at t x = None) \<longleftrightarrow> (\<forall>x. known s x \<longrightarrow> node_at t x = None)" for t
    unfolding known_def by blast
  show ?thesis using updateNodesAndSlotmap_ok [OF assms(1-4) old] unfolding gone .
qed

text \<open>
  The outcome of an update: the invariant, on success no node left of those that were known, and on failure all
  of them as before.
\<close>

definition gone :: "('c, 'w, 'z) cluster_scheme \<Rightarrow> ('c, 'w, 'z) cluster_scheme \<Rightarrow> bool" where
  "gone s t \<longleftrightarrow> (\<forall>x. known s x \<longrightarrow> node_at t x = None)"

lemma kept_gone: "kept s t \<Longrightarrow> gone t u \<Longrightarrow> gone s u"
  by (simp add: gone_def known_kept)

lemma gone_nodes: "gone s t \<Longrightarrow> w_nodes u = w_nodes t \<Longrightarrow> gone s u"
  by (simp add: gone_def)

definition updated :: "addr \<Rightarrow> ('c, 'w, 'z) cluster_scheme \<Rightarrow> int \<Rightarrow> ('c, 'w, 'z) cluster_scheme \<Rightarrow> bool" where
  "updated c s r t \<longleftrightarrow> cluster_inv t \<and> same_conf s t \<and> (r = REDIS_OK \<and> cc_table t \<noteq> None \<and> gone s t \<or> r = REDIS_ERR \<and> kept s t) \<and>
     (con_free c s \<longrightarrow> con_free c t)"

lemma updateNodesAndSlotmap_ex:
  assumes b: "\<forall>d. nodes = Some d \<longrightarrow> building n0 d s" and inv: "cluster_inv s" and n0: "\<forall>x. known s x \<longrightarrow> x < n0"
  shows "\<exists>r t. updateNodesAndSlotmap nodes s = Some (r, t) \<and> (\<forall>c. updated c s r t)"
proof (cases nodes)
  case None
  with inv show ?thesis by (simp add: updateNodesAndSlotmap_def updated_def)
next
  case (Some d)
  with b have bd: "building n0 d s" by blast
  have old: "x < n0" if "cc_nodes s = Some f" "owns f s x" for f x using n0 that by (auto simp: known_def)
  obtain ok al where al: "cc_alloc s = (ok, s\<lparr>w_script := al\<rparr>)" using cc_alloc_ex by blast
  show ?thesis
  proof (cases "ok \<and> ranges_ok (new_ranges s d)")
    case False
    obtain t where t: "updateNodesAndSlotmap (Some d) s = Some (REDIS_ERR, t)" "parse_step n0 s t"
      using updateNodesAndSlotmap_fail [OF bd al False] by blast
    have "node_at t x = node_at s x" if "known s x" for x using t(2) n0 that by (simp add: parse_step_def agree_below_def)
    then have k: "kept s t" using t(2) by (auto simp: kept_def parse_step_def node_stepD)
    have "cluster_inv t" using parse_step_inv(1) [OF inv t(2)] old by blast
    with k t Some kept_con_free [OF k] parse_step_same_conf [OF t(2)] show ?thesis unfolding updated_def by blast
  next
    case True
    then have al': "cc_alloc s = (True, s\<lparr>w_script := al\<rparr>)" using al by simp
    obtain t where t: "updateNodesAndSlotmap (Some d) s = Some (REDIS_OK, t)" "cluster_inv t" "cc_nodes t = Some d"
        "cc_table t \<noteq> None" "\<forall>x nd. owns d t x \<longrightarrow> node_at t x = Some nd \<longrightarrow> n_con nd \<noteq> None \<longrightarrow> (\<exists>k. n_con nd = old_con s k)" "same_conf s t" "gone s t"
    proof -
      have rok: "ranges_ok (new_ranges s d)" using True by blast
      obtain t where "updateNodesAndSlotmap (Some d) s = Some (REDIS_OK, t)" "cluster_inv t" "cc_nodes t = Some d"
        "cc_table t = Some (table_of (new_ranges s d))"
        "\<forall>x nd. owns d t x \<longrightarrow> node_at t x = Some nd \<longrightarrow> n_con nd \<noteq> None \<longrightarrow> (\<exists>k. n_con nd = old_con s k)" "same_conf s t"
        "\<forall>x. known s x \<longrightarrow> node_at t x = None"
        using updateNodesAndSlotmap_built [OF bd al' rok inv n0] by (elim exE conjE) (rule that)
      then show thesis using that unfolding gone_def by blast
    qed
    have "con_free c t" if c: "con_free c s" for c
      unfolding con_free_def
    proof (intro allI impI notI)
      fix x nd assume x: "known t x" "node_at t x = Some nd" "n_con nd = Some c"
      then have "owns d t x" using t(3) by (simp add: known_def)
      then obtain k where k: "old_con s k = Some c" using t(5) x(2,3) by (metis option.distinct(1))
      then obtain f n nd where f: "cc_nodes s = Some f" "dict_map f k = Some n" "node_at s n = Some nd" "n_con nd = Some c"
        by (auto simp: old_con_def con_of_def split: option.splits)
      with c known_member [OF f(1,2)] show False by (auto simp: con_free_def)
    qed
    with t Some show ?thesis unfolding updated_def by blast
  qed
qed

section \<open>Talking to a server\<close>

text \<open>
  A step on a connection: the nodes and tables stay, and so do all open connections.
\<close>

definition talk :: "addr \<Rightarrow> ('c, 'w, 'z) cluster_scheme \<Rightarrow> ('c, 'w, 'z) cluster_scheme \<Rightarrow> bool" where
  "talk c s t \<longleftrightarrow> w_nodes t = w_nodes s \<and> w_acons t = w_acons s \<and> cc_nodes t = cc_nodes s \<and> cc_table t = cc_table s \<and>
     cc_route_version t = cc_route_version s \<and> same_conf s t \<and> w_script t = w_script s \<and>
     (\<forall>a. con_at s a \<noteq> None \<longrightarrow> con_at t a \<noteq> None) \<and> con_at t c \<noteq> None"

lemma talk_refl [simp]: "talk c s s = (con_at s c \<noteq> None)"
  by (simp add: talk_def)

lemma talk_trans [trans]: "talk c s t \<Longrightarrow> talk c t u \<Longrightarrow> talk c s u"
  unfolding talk_def using same_conf_trans by metis

lemma talk_con: "talk c s t \<Longrightarrow> con_at t c \<noteq> None"
  by (simp add: talk_def)

lemma talk_kept:
  assumes "talk c s t"
  shows "kept s t" "cluster_inv s \<Longrightarrow> cluster_inv t" "known t x = known s x" "same_conf s t"
proof -
  have w: "w_nodes t = w_nodes s" using assms by (simp add: talk_def)
  show "kept s t" "same_conf s t" using assms by (simp_all add: kept_def talk_def)
  then show "known t x = known s x" by (intro known_kept)
  have "conns_ok d t" if "conns_ok d s" for d
    using that assms unfolding conns_ok_def own_cong(2) [OF w] by (simp add: talk_def)
  then show "cluster_inv t" if "cluster_inv s"
    using that assms unfolding cluster_inv_def own_cong(1) [OF w] by (simp add: talk_def)
qed

lemma talk_error: "con_at s c \<noteq> None \<Longrightarrow> talk c s (redisClusterSetError e m s)"
  by (simp add: talk_def same_conf_def redisClusterSetError_def Let_def)

lemma on_con_ex:
  assumes "con_at s c \<noteq> None"
  shows "\<exists>r t ctx. on_con f c s = Some (r, t) \<and> talk c s t \<and> con_at s c = Some ctx \<and> r = fst (f ctx (w_world s)) \<and>
     w_world t = snd (snd (f ctx (w_world s))) \<and> con_at t c = Some (fst (snd (f ctx (w_world s))))"
proof -
  obtain ctx where c: "con_at s c = Some ctx" using assms by blast
  obtain r c' w' where f: "f ctx (w_world s) = (r, c', w')" by (cases "f ctx (w_world s)")
  let ?t = "(con_put c c' s)\<lparr>w_world := w'\<rparr>"
  have "c < length (w_cons s)" using c by (rule store_at_less)
  then have "talk c s ?t" "con_at ?t c = Some c'" by (auto simp: talk_def con_put_def same_conf_def)
  with c f show ?thesis by (auto simp: on_con_def)
qed

lemma con_error_ex:
  assumes "con_at s c \<noteq> None"
  shows "\<exists>t. con_error c s = Some t \<and> talk c s t"
  using assms talk_error [OF assms] by (auto simp: con_error_def)

lemma ssl_init_ex:
  assumes c: "con_at s c \<noteq> None"
  shows "\<exists>r t. ssl_init H c s = Some (r, t) \<and> talk c s t"
proof (cases "cc_ssl s")
  case True
  obtain r t where t: "on_con (ssl_init_fn H) c s = Some (r, t)" "talk c s t" using on_con_ex [OF c, of "ssl_init_fn H"] by blast
  obtain u where "con_error c t = Some u" "talk c t u" using con_error_ex [OF talk_con [OF t(2)]] by blast
  with t True talk_trans show ?thesis by (cases "r = REDIS_OK") (auto simp: ssl_init_def)
qed (use c in \<open>simp add: ssl_init_def\<close>)

lemma authenticate_ex:
  assumes c: "con_at s c \<noteq> None"
  shows "\<exists>r t. authenticate H c s = Some (r, t) \<and> talk c s t"
proof (cases "cc_password s")
  case (Some p)
  let ?f = "redisCommand H (auth_args p (cc_username s))"
  obtain reply t where t: "on_con ?f c s = Some (reply, t)" "talk c s t" using on_con_ex [OF c, of ?f] by blast
  then have "talk c s (redisClusterSetError e m t)" for e m using talk_trans [OF _ talk_error] talk_con by blast
  with t Some show ?thesis by (auto simp: authenticate_def split: option.splits redisReply.splits)
qed (use c in \<open>simp add: authenticate_def\<close>)

lemma clusterUpdateRouteSendCommand_ex:
  assumes c: "con_at s c \<noteq> None"
  shows "\<exists>r t. clusterUpdateRouteSendCommand H c s = Some (r, t) \<and> talk c s t"
proof -
  let ?f = "redisAppendCommand H (if has_flag HIRCLUSTER_FLAG_ROUTE_USE_SLOTS s then [''CLUSTER'', ''SLOTS''] else [''CLUSTER'', ''NODES''])"
  obtain r t where t: "on_con ?f c s = Some (r, t)" "talk c s t" using on_con_ex [OF c, of ?f] by blast
  obtain ctx where ctx: "con_at t c = Some ctx" using talk_con [OF t(2)] by blast
  obtain r' u where u: "on_con (redisBufferWrite H) c t = Some (r', u)" "talk c t u" using on_con_ex [OF talk_con [OF t(2)], of "redisBufferWrite H"] by blast
  have "talk c s (redisClusterSetError e m t)" for e m using talk_trans [OF t(2) talk_error] ctx by simp
  with t u ctx talk_trans [OF t(2) u(2)] show ?thesis
    by (cases "r = REDIS_OK") (auto simp: clusterUpdateRouteSendCommand_def Let_def)
qed

text \<open>
  What the client needs of hiredis: a complete reply when \<open>redisGetReply\<close> succeeds, with no null element,
  and no array of more than \<open>2\<^sup>3\<^sup>0\<close> elements.
\<close>

definition reply_ok :: "redisReply \<Rightarrow> bool" where
  "reply_ok r \<longleftrightarrow> elements_ok r \<and> (case r of REDIS_REPLY_ARRAY es \<Rightarrow> length es < 2 ^ 30 | _ \<Rightarrow> True)"

definition reply_answers :: "(int \<times> redisReply option) \<times> redisContext \<times> 'w \<Rightarrow> bool" where
  "reply_answers a \<longleftrightarrow> fst (fst a) = REDIS_OK \<longrightarrow> (case snd (fst a) of None \<Rightarrow> False | Some r \<Rightarrow> reply_ok r)"

definition replies_ok :: "'w hiredis \<Rightarrow> bool" where
  "replies_ok H \<longleftrightarrow> (\<forall>c w. reply_answers (redisGetReply H c w))"

lemma updated_err:
  assumes "talk c s t" "cluster_inv s"
  shows "updated c s REDIS_ERR t"
  using talk_kept [OF assms(1)] assms(2) kept_con_free [of s t c] by (auto simp: updated_def)

lemma talk_updated:
  assumes t: "talk c s t" and u: "updated c t r u"
  shows "updated c s r u"
  using u talk_kept(1,4) [OF t] kept_trans kept_gone same_conf_trans kept_con_free [OF talk_kept(1) [OF t], of c]
  unfolding updated_def by metis

lemma handleClusterSlotsReply_ex:
  assumes c: "con_at s c \<noteq> None" and inv: "cluster_inv s" and H: "replies_ok H"
  shows "\<exists>r t. handleClusterSlotsReply L H c s = Some (r, t) \<and> updated c s r t"
proof -
  obtain res t ctx where t: "on_con (redisGetReply H) c s = Some (res, t)" "talk c s t" "con_at s c = Some ctx"
     "res = fst (redisGetReply H ctx (w_world s))"
    using on_con_ex [OF c, of "redisGetReply H"] by blast
  obtain result reply where res: "res = (result, reply)" by (cases res)
  note it = talk_kept(2) [OF t(2) inv]
  obtain ctx' where c': "con_at t c = Some ctx'" using talk_con [OF t(2)] by blast
  have err: "updated c s REDIS_ERR (redisClusterSetError e m t)" for e m
    using updated_err [OF talk_trans [OF t(2) talk_error] inv] c' by simp
  show ?thesis
  proof (cases "result = REDIS_OK")
    case False
    then have "handleClusterSlotsReply L H c s = reply_failed ''cluster slots'' c t" using t(1) res by (simp add: handleClusterSlotsReply_def)
    then show ?thesis using c' err by (auto simp: reply_failed_def)
  next
    case True
    then obtain r where r: "reply = Some r" "reply_ok r"
    proof -
      have "reply_answers (redisGetReply H ctx (w_world s))" using H by (simp add: replies_ok_def)
      moreover have "fst (redisGetReply H ctx (w_world s)) = (result, reply)" using t(4) res by simp
      ultimately show thesis using True that by (cases reply) (auto simp: reply_answers_def)
    qed
    show ?thesis
    proof (cases "\<exists>es. r = REDIS_REPLY_ARRAY es")
      case False
      then have "handleClusterSlotsReply L H c s = Some (reply_mistyped ''Command (cluster slots) reply error: type is not array.'' r t)"
        using t(1) res True r(1) by (cases r) (simp_all add: handleClusterSlotsReply_def)
      then show ?thesis using err by (cases r) (auto simp: reply_mistyped_def)
    next
      case True
      then obtain es where es: "r = REDIS_REPLY_ARRAY es" by blast
      let ?n0 = "length (w_nodes t)"
      obtain nodes u where p: "parse_cluster_slots L (rc_host ctx') (Some r) t = Some (nodes, u)" "parse_step ?n0 t u"
          "\<forall>d. nodes = Some d \<longrightarrow> building ?n0 d u"
        using parse_cluster_slots_ex [of r L "rc_host ctx'" t] r(2) es by (auto simp: reply_ok_def)
      note ku = parse_step_kept [OF it p(2) order_refl]
      have "\<forall>x. known u x \<longrightarrow> x < ?n0" using known_kept [OF ku(1)] known_less [OF it] by blast
      then obtain r' v where v: "updateNodesAndSlotmap nodes u = Some (r', v)" "updated c u r' v"
        using updateNodesAndSlotmap_ex [OF p(3) ku(2)] by blast
      have "handleClusterSlotsReply L H c s = Some (r', v)"
        using t(1) res \<open>result = REDIS_OK\<close> r(1) es c' p(1) v(1) by (simp add: handleClusterSlotsReply_def)
      moreover have "updated c t r' v"
        using v(2) ku(1) kept_trans kept_gone [OF ku(1)] same_conf_trans [OF parse_step_same_conf [OF p(2)]] kept_con_free [OF ku(1), of c]
        unfolding updated_def by metis
      ultimately show ?thesis using talk_updated [OF t(2)] by blast
    qed
  qed
qed

section \<open>A whole update\<close>

text \<open>The flags under which the parser in use is safe.\<close>

definition route_safe :: "('c, 'z) redisClusterContext_scheme \<Rightarrow> bool" where
  "route_safe s \<longleftrightarrow> has_flag HIRCLUSTER_FLAG_ROUTE_USE_SLOTS s"

lemma same_conf_flags: "same_conf s t \<Longrightarrow> has_flag f t = has_flag f s"
  by (simp add: same_conf_def has_flag_def)

lemma route_safe_conf: "same_conf s t \<Longrightarrow> route_safe t = route_safe s"
  by (simp add: route_safe_def same_conf_flags)

lemma clusterUpdateRouteHandleReply_ex:
  assumes "con_at s c \<noteq> None" "cluster_inv s" "replies_ok H" "route_safe s"
  shows "\<exists>r t. clusterUpdateRouteHandleReply L H c s = Some (r, t) \<and> updated c s r t"
  using handleClusterSlotsReply_ex [OF assms(1-3), of L] assms(4)
  by (simp add: clusterUpdateRouteHandleReply_def route_safe_def)

lemma update_route_on_ex:
  assumes c: "con_at s c \<noteq> None" and inv: "cluster_inv s" and H: "replies_ok H" and rs: "route_safe s"
  shows "\<exists>r t. update_route_on L H c s = Some (r, t) \<and> updated c s r t"
proof -
  obtain ctx where ctx: "con_at s c = Some ctx" using c by blast
  obtain e where e: "con_error c s = Some e" "talk c s e" using con_error_ex [OF c] by blast
  obtain r1 s1 where 1: "ssl_init H c s = Some (r1, s1)" "talk c s s1" using ssl_init_ex [OF c, of H] by blast
  obtain r2 s2 where 2: "authenticate H c s1 = Some (r2, s2)" "talk c s1 s2" using authenticate_ex [OF talk_con [OF 1(2)], of H] by blast
  obtain r3 s3 where 3: "clusterUpdateRouteSendCommand H c s2 = Some (r3, s3)" "talk c s2 s3"
    using clusterUpdateRouteSendCommand_ex [OF talk_con [OF 2(2)], of H] by blast
  note t2 = talk_trans [OF 1(2) 2(2)] and t3 = talk_trans [OF talk_trans [OF 1(2) 2(2)] 3(2)]
  obtain r t where t: "clusterUpdateRouteHandleReply L H c s3 = Some (r, t)" "updated c s3 r t"
    using clusterUpdateRouteHandleReply_ex [OF talk_con [OF 3(2)] talk_kept(2) [OF t3 inv] H, of L] rs route_safe_conf [OF talk_kept(4) [OF t3]]
    by blast
  note out = updated_err [OF e(2) inv] updated_err [OF 1(2) inv] updated_err [OF t2 inv] updated_err [OF t3 inv] talk_updated [OF t3 t(2)]
  consider "rc_err ctx \<noteq> 0" | "rc_err ctx = 0" "r1 \<noteq> REDIS_OK" | "rc_err ctx = 0" "r1 = REDIS_OK" "r2 \<noteq> REDIS_OK"
    | "rc_err ctx = 0" "r1 = REDIS_OK" "r2 = REDIS_OK" "r3 \<noteq> REDIS_OK" | "rc_err ctx = 0" "r1 = REDIS_OK" "r2 = REDIS_OK" "r3 = REDIS_OK"
    by blast
  then show ?thesis
    by cases (use out ctx e(1) 1(1) 2(1) 3(1) t(1) in \<open>simp_all add: update_route_on_def\<close>)
qed

text \<open>The connection of an update is its own, so closing it takes none from a node.\<close>

lemma redisFree_inv:
  assumes "cluster_inv s" and "con_free c s"
  shows "cluster_inv (redisFree (Some c) s)"
proof -
  let ?t = "redisFree (Some c) s"
  have w: "w_nodes ?t = w_nodes s" by (simp add: redisFree_def)
  have "conns_ok d ?t" if d: "cc_nodes s = Some d" for d
  proof -
    have "conns_ok d s" using assms(1) d by (simp add: cluster_inv_def)
    moreover have "n_con nd \<noteq> Some c" if "owns d s x" "node_at s x = Some nd" for x nd
      using assms(2) that d by (auto simp: con_free_def known_def)
    ultimately show ?thesis unfolding conns_ok_def own_cong(2) [OF w] by (auto simp: redisFree_def)
  qed
  then show ?thesis using assms(1) unfolding cluster_inv_def own_cong(1) [OF w] by (simp add: redisFree_def)
qed

lemma connect_host_ex:
  assumes "cluster_inv s"
  shows "\<exists>c t. connect_host H host port s = (c, t) \<and> cluster_inv t \<and> kept s t \<and> same_conf s t \<and>
     (\<forall>a. c = Some a \<longrightarrow> con_at t a \<noteq> None \<and> con_free a t \<and> a = length (w_cons s))"
proof -
  obtain r w where r: "redisConnectWithOptions H host port (cc_connect_timeout s) (cc_command_timeout s) (w_world s) = (r, w)"
    by (cases "redisConnectWithOptions H host port (cc_connect_timeout s) (cc_command_timeout s) (w_world s)")
  show ?thesis
  proof (cases r)
    case None
    let ?t = "set_oom (s\<lparr>w_world := w\<rparr>)"
    have "cluster_inv ?t" using assms cluster_inv_cong [of ?t s] by (simp add: redisClusterSetError_def Let_def)
    moreover have "kept s ?t" "same_conf s ?t" by (simp_all add: kept_def same_conf_def redisClusterSetError_def Let_def)
    ultimately show ?thesis using r None by (simp add: connect_host_def)
  next
    case (Some ctx)
    let ?a = "length (w_cons s)"
    obtain l where l: "connect_host H host port s = (Some ?a, s\<lparr>w_world := w, w_cons := w_cons s @ [Some ctx], w_log := l\<rparr>)"
      using r Some that [of "if cc_on_connect s then w_log s @ [ON_CONNECT ?a (if rc_err ctx \<noteq> 0 then REDIS_ERR else REDIS_OK)] else w_log s"]
      by (simp add: connect_host_def cc_log_def Let_def)
    let ?t = "s\<lparr>w_world := w, w_cons := w_cons s @ [Some ctx], w_log := l\<rparr>"
    have n: "w_nodes ?t = w_nodes s" by simp
    have live: "con_at s c = None" if "\<not> c < ?a" for c using that by simp
    have cons: "conns_ok d ?t" if "conns_ok d s" for d
      using that unfolding conns_ok_def own_cong(2) [OF n] by simp
    have "cluster_inv ?t" using assms cons unfolding cluster_inv_def own_cong(1) [OF n] by simp
    moreover have "kept s ?t" "same_conf s ?t" by (simp_all add: kept_def same_conf_def)
    moreover have "con_free ?a ?t"
      unfolding con_free_def known_def own_cong(2) [OF n]
    proof (intro allI impI notI)
      fix x nd assume "\<exists>d. cc_nodes ?t = Some d \<and> owns d s x" "node_at ?t x = Some nd" "n_con nd = Some ?a"
      then obtain d where "conns_ok d s" "owns d s x" "node_at s x = Some nd" using assms by (auto simp: cluster_inv_def)
      then have "con_at s ?a \<noteq> None" using \<open>n_con nd = Some ?a\<close> unfolding conns_ok_def by blast
      with live show False by simp
    qed
    ultimately show ?thesis unfolding l by simp
  qed
qed

text \<open>One server, then all known servers in turn.\<close>

definition route_result :: "('c, 'w, 'z) cluster_scheme \<Rightarrow> int \<Rightarrow> ('c, 'w, 'z) cluster_scheme \<Rightarrow> bool" where
  "route_result s r t \<longleftrightarrow> cluster_inv t \<and> same_conf s t \<and> (r = REDIS_OK \<and> cc_table t \<noteq> None \<and> gone s t \<or> r = REDIS_ERR \<and> kept s t)"

lemma route_result_err: "cluster_inv s \<Longrightarrow> route_result s REDIS_ERR (redisClusterSetError e m s)"
  using cluster_inv_cong [of "redisClusterSetError e m s" s]
  by (simp add: route_result_def kept_def same_conf_def redisClusterSetError_def Let_def)

lemma route_result_trans:
  assumes "kept s t" "same_conf s t" "route_result t r u"
  shows "route_result s r u"
  using assms kept_trans kept_gone same_conf_trans unfolding route_result_def by blast

lemma cluster_update_route_by_addr_ex:
  assumes inv: "cluster_inv s" and H: "replies_ok H" and rs: "route_safe s"
  shows "\<exists>r t. cluster_update_route_by_addr L H ip port s = Some (r, t) \<and> route_result s r t"
proof (cases "port \<le> 0")
  case True
  then show ?thesis using route_result_err [OF inv] by (simp add: cluster_update_route_by_addr_def)
next
  case False
  obtain c s1 where 1: "connect_host H ip port s = (c, s1)" "cluster_inv s1" "kept s s1" "same_conf s s1"
     "\<forall>a. c = Some a \<longrightarrow> con_at s1 a \<noteq> None \<and> con_free a s1 \<and> a = length (w_cons s)"
    using connect_host_ex [OF inv, of H ip port] by (elim exE conjE) (rule that)
  show ?thesis
  proof (cases c)
    case None
    with False 1 show ?thesis by (simp add: cluster_update_route_by_addr_def route_result_def)
  next
    case (Some a)
    with 1(5) have a: "con_at s1 a \<noteq> None" "con_free a s1" by auto
    obtain r t where t: "update_route_on L H a s1 = Some (r, t)" "updated a s1 r t"
      using update_route_on_ex [OF a(1) 1(2) H, of L] rs route_safe_conf [OF 1(4)] by blast
    let ?t = "redisFree (Some a) t"
    have "cluster_inv ?t" using t(2) a(2) redisFree_inv [of t a] unfolding updated_def by blast
    moreover have "kept t ?t" "same_conf t ?t" "cc_table ?t = cc_table t" "w_nodes ?t = w_nodes t"
      by (simp_all add: kept_def same_conf_def redisFree_def)
    ultimately have "route_result s1 r ?t" using t(2) kept_trans same_conf_trans gone_nodes unfolding updated_def route_result_def by metis
    with route_result_trans [OF 1(3,4)] have "route_result s r ?t" .
    moreover have "(if r \<noteq> REDIS_OK then REDIS_ERR else REDIS_OK) = r" using t(2) by (auto simp: updated_def)
    ultimately show ?thesis using False 1(1) Some t(1) by (simp add: cluster_update_route_by_addr_def)
  qed
qed

lemma update_loop_ex:
  assumes "\<forall>e \<in> set es. known s (snd e)" and "cluster_inv s" and "replies_ok H" and "route_safe s"
  shows "\<exists>r t. update_loop L H es b s = Some (r, t) \<and> route_result s r t"
  using assms
proof (induction es arbitrary: b s)
  case Nil
  then show ?case using route_result_err [OF Nil.prems(2)] by (auto simp: route_result_def)
next
  case (Cons e es)
  obtain d where d: "cc_nodes s = Some d" "owns d s (snd e)" using Cons.prems(1) by (auto simp: known_def)
  then obtain nd where nd: "node_at s (snd e) = Some nd" using Cons.prems(2) owns_live by (fastforce simp: cluster_inv_def)
  show ?case
  proof (cases "n_host nd")
    case None
    with nd Cons.IH [OF _ Cons.prems(2-4), of b] Cons.prems(1) show ?thesis by simp
  next
    case (Some host)
    obtain r t where t: "cluster_update_route_by_addr L H host (uint (n_port nd)) s = Some (r, t)" "route_result s r t"
      using cluster_update_route_by_addr_ex [OF Cons.prems(2-4)] by blast
    show ?thesis
    proof (cases "r = REDIS_OK")
      case True
      let ?t = "if cx_err t \<noteq> 0 then clear_error t else t"
      have "cluster_inv ?t" using t(2) cluster_inv_cong [of "clear_error t" t] by (simp add: route_result_def clear_error_def)
      moreover have "same_conf t ?t" "cc_table ?t = cc_table t" "w_nodes ?t = w_nodes t" by (simp_all add: same_conf_def clear_error_def)
      ultimately have "route_result s REDIS_OK ?t" using t(2) True same_conf_trans gone_nodes [of s t ?t] unfolding route_result_def by auto
      then show ?thesis using nd Some t(1) True by simp
    next
      case False
      then have k: "kept s t" "same_conf s t" "cluster_inv t" using t(2) by (auto simp: route_result_def)
      have "\<forall>e \<in> set es. known t (snd e)" using Cons.prems(1) known_kept [OF k(1)] by simp
      then obtain r' u where u: "update_loop L H es False t = Some (r', u)" "route_result t r' u"
        using Cons.IH [of t False] Cons.prems(3,4) k(3) route_safe_conf [OF k(2)] by blast
      then show ?thesis using nd Some t(1) False route_result_trans [OF k(1,2) u(2)] by simp
    qed
  qed
qed

lemma redisClusterUpdateSlotmap_ex:
  assumes inv: "cluster_inv s" and H: "replies_ok H" and rs: "route_safe s"
  shows "\<exists>r t. redisClusterUpdateSlotmap L H s = Some (r, t) \<and> route_result s r t"
proof (cases "cc_nodes s")
  case None
  then show ?thesis using route_result_err [OF inv] by (simp add: redisClusterUpdateSlotmap_def)
next
  case (Some d)
  have wf: "dict_wf d" using inv Some by (simp add: cluster_inv_def nodes_own_def)
  have "\<forall>e \<in> set (dict_iter d). known s (snd e)"
    unfolding dict_iter_entries [OF wf]
  proof
    fix e assume "e \<in> set (dict_entries d)"
    then have "dict_map d (fst e) = Some (snd e)" using dict_map_entries [OF wf, of "fst e" "snd e"] by simp
    with Some show "known s (snd e)" by (rule known_member)
  qed
  then show ?thesis using update_loop_ex [OF _ inv H rs, of _ L True] Some by (simp add: redisClusterUpdateSlotmap_def)
qed

end
