(* ===== verification/Slotmap_Table.thy ===== *)
theory Slotmap_Table
  imports Slotmap_Update
begin

text \<open>
  The slot table that a CLUSTER SLOTS reply gives, stated on the list of its ranges: which server a slot
  belongs to, and when the ranges are acceptable.
\<close>

section \<open>Ranges and their servers\<close>

type_synonym region = "u32 \<times> u32 \<times> string \<times> int"

definition holds :: "nat \<Rightarrow> region \<Rightarrow> bool" where
  "holds i r = (case r of (a, b, _, _) \<Rightarrow> unat a \<le> i \<and> i \<le> unat b)"

abbreviation server :: "region \<Rightarrow> string \<times> int" where
  "server r \<equiv> snd (snd r)"

abbreviation key_of :: "region \<Rightarrow> string" where
  "key_of r \<equiv> address_of (fst (server r)) (snd (server r))"

abbreviation range_of :: "region \<Rightarrow> u32 \<times> u32" where
  "range_of r \<equiv> (fst r, fst (snd r))"

text \<open>The specification of the table: the server of a slot.\<close>

definition slot_owner :: "region list \<Rightarrow> nat \<Rightarrow> (string \<times> int) option" where
  "slot_owner rs i = map_option server (find (holds i) rs)"

definition regions_ok :: "region list \<Rightarrow> bool" where
  "regions_ok rs \<longleftrightarrow> (\<forall>(a, b, _, _) \<in> set rs. a \<le> b \<and> unat b < REDIS_CLUSTER_SLOTS) \<and>
     (\<forall>i < REDIS_CLUSTER_SLOTS. length (filter (holds i) rs) \<le> 1)"

text \<open>An address determines the host and the port it was made of.\<close>

lemma address_of_inj:
  assumes "address_of h p = address_of h' p'" "0 \<le> p" "0 \<le> p'"
  shows "cstr h = cstr h' \<and> p = p'"
proof -
  have col: "CHR '':'' \<notin> set (decimal n)" for n
  proof
    assume "CHR '':'' \<in> set (decimal n)"
    with decimal_digits have "c_isdigit CHR '':''" by blast
    then show False by (simp add: c_isdigit_def ord_of_def)
  qed
  have last: "takeWhile (\<lambda>c. c \<noteq> CHR '':'') (rev (xs @ CHR '':'' # decimal n)) = rev (decimal n)" for xs n
    using col [of n] by (simp add: takeWhile_append2 takeWhile_tail) (metis col set_rev takeWhile_eq_all_conv)
  have "rev (decimal (nat p)) = rev (decimal (nat p'))" using assms(1) last unfolding address_of_def by metis
  then have d: "decimal (nat p) = decimal (nat p')" by simp
  then have "nat p = nat p'" by (metis dval_decimal)
  with d assms show ?thesis by (simp add: address_of_def)
qed

text \<open>The entry of a server after all ranges.\<close>

definition regions_at :: "string \<Rightarrow> region list \<Rightarrow> region list" where
  "regions_at k rs = filter (\<lambda>r. key_of r = k) rs"

lemma add_regions_entry:
  assumes "\<forall>r \<in> set rs. 0 \<le> snd (server r)"
  shows "(add_regions rs Map.empty k = None \<longleftrightarrow> regions_at k rs = []) \<and>
     (\<forall>r \<in> set (regions_at k rs). add_regions rs Map.empty k =
        Some (Some (cstr (fst (server r))), word_of_int (snd (server r)), map range_of (regions_at k rs)))"
  using assms
proof (induction rs rule: rev_induct)
  case Nil
  then show ?case by (simp add: add_regions_def regions_at_def)
next
  case (snoc r rs)
  let ?c = "add_regions rs Map.empty"
  have step: "add_regions (rs @ [r]) Map.empty = add_range (key_of r) (cstr (fst (server r))) (snd (server r)) (range_of r) ?c"
    by (cases r) (simp add: add_regions_def)
  have IH: "?c k = None \<longleftrightarrow> regions_at k rs = []"
    "\<And>q. q \<in> set (regions_at k rs) \<Longrightarrow> ?c k = Some (Some (cstr (fst (server q))), word_of_int (snd (server q)), map range_of (regions_at k rs))"
    using snoc by auto
  show ?case
  proof (cases "key_of r = k")
    case False
    then have "regions_at k (rs @ [r]) = regions_at k rs" "add_regions (rs @ [r]) Map.empty k = ?c k"
      unfolding step by (simp_all add: regions_at_def add_range_def split: option.splits prod.splits)
    then show ?thesis using IH by simp
  next
    case True
    then have at: "regions_at k (rs @ [r]) = regions_at k rs @ [r]" by (simp add: regions_at_def)
    have same: "cstr (fst (server q)) = cstr (fst (server r)) \<and> snd (server q) = snd (server r)" if "q \<in> set (regions_at k rs)" for q
      using that True snoc.prems address_of_inj [of "fst (server q)" "snd (server q)" "fst (server r)" "snd (server r)"]
      by (auto simp: regions_at_def)
    have "add_regions (rs @ [r]) Map.empty k =
        Some (Some (cstr (fst (server r))), word_of_int (snd (server r)), map range_of (regions_at k rs @ [r]))"
    proof (cases "regions_at k rs")
      case Nil
      then show ?thesis using IH(1) True unfolding step add_range_def by simp
    next
      case (Cons q qs)
      then show ?thesis using IH(2) [of q] same [of q] True unfolding step add_range_def by simp
    qed
    then show ?thesis unfolding at using same by fastforce
  qed
qed

section \<open>Counting the ranges of a slot\<close>

lemma at_most_one:
  "sorted_wrt (\<lambda>x y. \<forall>i. \<not> (P i x \<and> P i y)) xs \<longleftrightarrow> (\<forall>i. length (filter (P i) xs) \<le> 1)"
proof (induction xs)
  case (Cons x xs)
  have "(\<forall>y \<in> set xs. \<forall>i. \<not> (P i x \<and> P i y)) \<longleftrightarrow> (\<forall>i. P i x \<longrightarrow> filter (P i) xs = [])"
    by (auto simp: filter_empty_conv)
  with Cons.IH show ?case by (auto split: if_splits)
qed simp

lemma filter_partition:
  assumes "distinct ks" and "\<forall>r \<in> set rs. f r \<in> set ks"
  shows "sum_list (map (\<lambda>k. length (filter P (filter (\<lambda>r. f r = k) rs))) ks) = length (filter P rs)"
  using assms(2)
proof (induction rs)
  case (Cons r rs)
  have "(\<Sum>k\<leftarrow>ks. length (filter P (filter (\<lambda>r. f r = k) (r # rs)))) =
      (\<Sum>k\<leftarrow>ks. (if k = f r then (if P r then 1 else 0) else 0) + length (filter P (filter (\<lambda>r. f r = k) rs)))"
    by (intro arg_cong [where f = sum_list] map_cong refl) auto
  also have "\<dots> = (if P r then 1 else 0) + (\<Sum>k\<leftarrow>ks. length (filter P (filter (\<lambda>r. f r = k) rs)))"
    using assms(1) Cons.prems by (simp add: sum_list_addf sum_list_distinct_conv_sum_set)
  finally show ?case using Cons by simp
qed (simp add: sum_list_0)

lemma length_filter_concat: "length (filter P (concat xss)) = sum_list (map (\<lambda>xs. length (filter P xs)) xss)"
  by (induction xss) auto

section \<open>The table of a parsed reply\<close>

text \<open>A parsed reply: the table of nodes and the ranges it was built of.\<close>

definition parsed :: "(string, addr) dict \<Rightarrow> ('c, 'w, 'z) cluster_scheme \<Rightarrow> region list \<Rightarrow> bool" where
  "parsed d s rs \<longleftrightarrow> dict_wf d \<and> (\<forall>k n. dict_map d k = Some n \<longrightarrow> node_at s n \<noteq> None) \<and>
     contents d s = add_regions rs Map.empty \<and> (\<forall>r \<in> set rs. 0 \<le> snd (server r))"

abbreviation cs_range :: "cluster_slot \<Rightarrow> u32 \<times> u32" where
  "cs_range sl \<equiv> (cs_start sl, cs_end sl)"

lemma parsed_entry:
  assumes p: "parsed d s rs"
  shows "dict_map d k = None \<longleftrightarrow> regions_at k rs = []"
    and "dict_map d k = Some n \<Longrightarrow> map cs_range (slots_of s n) = map range_of (regions_at k rs)"
    and "dict_map d k = Some n \<Longrightarrow> r \<in> set (regions_at k rs) \<Longrightarrow> node_at s n = Some nd \<Longrightarrow>
       n_host nd = Some (cstr (fst (server r))) \<and> n_port nd = word_of_int (snd (server r))"
proof -
  have live: "node_at s n \<noteq> None" if "dict_map d k = Some n" for k n using p that by (simp add: parsed_def)
  have c: "contents d s k = add_regions rs Map.empty k" using p by (simp add: parsed_def)
  have e: "add_regions rs Map.empty k = None \<longleftrightarrow> regions_at k rs = []"
    "\<And>r. r \<in> set (regions_at k rs) \<Longrightarrow> add_regions rs Map.empty k =
        Some (Some (cstr (fst (server r))), word_of_int (snd (server r)), map range_of (regions_at k rs))"
    using add_regions_entry [of rs k] p by (simp_all add: parsed_def)
  have none: "contents d s k = None \<longleftrightarrow> dict_map d k = None" using live [of k] by (auto simp: contents_def split: option.splits)
  then show n: "dict_map d k = None \<longleftrightarrow> regions_at k rs = []" using c e(1) by simp
  have en: "contents d s k = Some (entry nd)" if "dict_map d k = Some n" "node_at s n = Some nd" for nd
    using that by (simp add: contents_def)
  show "map cs_range (slots_of s n) = map range_of (regions_at k rs)" if k: "dict_map d k = Some n"
  proof -
    obtain nd where nd: "node_at s n = Some nd" using live [OF k] by blast
    obtain r where "r \<in> set (regions_at k rs)" using n k by (cases "regions_at k rs") auto
    from e(2) [OF this] en [OF k nd] c have "(Some (cstr (fst (server r))), word_of_int (snd (server r)), map range_of (regions_at k rs)) = entry nd" by simp
    from arg_cong [OF this, of "\<lambda>v. snd (snd v)"] have "snd (snd (entry nd)) = map range_of (regions_at k rs)" by simp
    with nd show ?thesis by (simp add: entry_def slots_of_def)
  qed
  show "n_host nd = Some (cstr (fst (server r))) \<and> n_port nd = word_of_int (snd (server r))"
    if "dict_map d k = Some n" "r \<in> set (regions_at k rs)" "node_at s n = Some nd"
  proof -
    have v: "(Some (cstr (fst (server r))), word_of_int (snd (server r)), map range_of (regions_at k rs)) = entry nd"
      using e(2) [OF that(2)] en [OF that(1,3)] c by simp
    show ?thesis using arg_cong [OF v, of fst] arg_cong [OF v, of "\<lambda>v. fst (snd v)"] by (simp add: entry_def)
  qed
qed

lemma covers_range: "covers sl i \<longleftrightarrow> holds i (fst (cs_range sl), snd (cs_range sl), srv)"
  by (simp add: covers_def holds_def split: prod.splits)

lemma parsed_ranges:
  assumes p: "parsed d s rs"
  shows "length (filter (\<lambda>x. covers (snd x) i) (new_ranges s d)) = length (filter (holds i) rs)" (is ?len)
    and "(n, sl) \<in> set (new_ranges s d) \<Longrightarrow> \<exists>r \<in> set rs. cs_range sl = range_of r \<and> dict_map d (key_of r) = Some n"
    and "r \<in> set rs \<Longrightarrow> \<exists>n sl. (n, sl) \<in> set (new_ranges s d) \<and> cs_range sl = range_of r \<and> dict_map d (key_of r) = Some n"
proof -
  have wf: "dict_wf d" using p by (simp add: parsed_def)
  have at: "map cs_range (slots_of s (snd e)) = map range_of (regions_at (fst e) rs)" if "e \<in> set (dict_entries d)" for e
    using parsed_entry(2) [OF p] that dict_map_entries [OF wf, of "fst e" "snd e"] by simp
  have hr: "holds i = (\<lambda>r. unat (fst r) \<le> i \<and> i \<le> unat (fst (snd r)))"
    by (auto simp: holds_def fun_eq_iff)
  have cnt: "length (filter (\<lambda>sl. covers sl i) (slots_of s (snd e))) = length (filter (holds i) (regions_at (fst e) rs))"
    if "e \<in> set (dict_entries d)" for e
  proof -
    let ?P = "\<lambda>q :: u32 \<times> u32. unat (fst q) \<le> i \<and> i \<le> unat (snd q)"
    have "length (filter (\<lambda>sl. covers sl i) (slots_of s (snd e))) = length (filter ?P (map cs_range (slots_of s (snd e))))"
      by (simp add: filter_map o_def covers_def)
    also have "\<dots> = length (filter (holds i) (regions_at (fst e) rs))"
      unfolding at [OF that] by (simp add: filter_map o_def hr)
    finally show ?thesis .
  qed
  have keys: "distinct (map fst (dict_entries d))" using wf by (simp add: dict_wf_def)
  have mem: "key_of r \<in> set (map fst (dict_entries d))" if "r \<in> set rs" for r
  proof -
    have "regions_at (key_of r) rs \<noteq> []" using that by (auto simp: regions_at_def filter_empty_conv)
    then obtain n where "dict_map d (key_of r) = Some n" using parsed_entry(1) [OF p, of "key_of r"] by auto
    then have "(key_of r, n) \<in> set (dict_entries d)" using dict_map_entries [OF wf] by blast
    then show ?thesis by force
  qed
  have "length (filter (\<lambda>x. covers (snd x) i) (new_ranges s d)) = (\<Sum>e\<leftarrow>dict_entries d. length (filter (holds i) (regions_at (fst e) rs)))"
    unfolding node_ranges_def length_filter_concat using cnt by (simp add: o_def filter_map cong: map_cong)
  also have "\<dots> = (\<Sum>k\<leftarrow>map fst (dict_entries d). length (filter (holds i) (filter (\<lambda>r. key_of r = k) rs)))"
    by (simp add: o_def regions_at_def)
  also have "\<dots> = length (filter (holds i) rs)" using filter_partition [OF keys, of rs key_of] mem by blast
  finally show ?len .
  show "\<exists>r \<in> set rs. cs_range sl = range_of r \<and> dict_map d (key_of r) = Some n" if x: "(n, sl) \<in> set (new_ranges s d)"
  proof -
    obtain e where e: "e \<in> set (dict_entries d)" "n = snd e" "sl \<in> set (slots_of s n)" using x in_new_ranges [of n sl s d] by auto
    then have "cs_range sl \<in> set (map range_of (regions_at (fst e) rs))"
      unfolding at [OF e(1), symmetric] by simp
    then obtain r where "r \<in> set (regions_at (fst e) rs)" "cs_range sl = range_of r" by auto
    moreover have "dict_map d (fst e) = Some n" using e(1,2) dict_map_entries [OF wf, of "fst e" "snd e"] by simp
    ultimately show ?thesis by (auto simp: regions_at_def)
  qed
  show "\<exists>n sl. (n, sl) \<in> set (new_ranges s d) \<and> cs_range sl = range_of r \<and> dict_map d (key_of r) = Some n" if r: "r \<in> set rs"
  proof -
    obtain e where e: "e \<in> set (dict_entries d)" "fst e = key_of r" using mem [OF r] by auto
    then have "range_of r \<in> set (map cs_range (slots_of s (snd e)))" unfolding at [OF e(1)] using r by (auto simp: regions_at_def)
    then obtain sl where "sl \<in> set (slots_of s (snd e))" "cs_range sl = range_of r" by auto
    moreover have "dict_map d (fst e) = Some (snd e)" using e(1) dict_map_entries [OF wf, of "fst e" "snd e"] by simp
    then have "dict_map d (key_of r) = Some (snd e)" using e(2) by simp
    ultimately show ?thesis using e(1) in_new_ranges by blast
  qed
qed

lemma parsed_ranges_ok:
  assumes p: "parsed d s rs"
  shows "ranges_ok (new_ranges s d) \<longleftrightarrow> regions_ok rs"
proof -
  have "(\<forall>x \<in> set (new_ranges s d). slot_valid (snd x)) \<longleftrightarrow> (\<forall>(a, b, _, _) \<in> set rs. a \<le> b \<and> unat b < REDIS_CLUSTER_SLOTS)"
  proof (intro iffI ballI)
    fix r assume v: "\<forall>x \<in> set (new_ranges s d). slot_valid (snd x)" and r: "r \<in> set rs"
    obtain n sl where "(n, sl) \<in> set (new_ranges s d)" "cs_range sl = range_of r" using parsed_ranges(3) [OF p r] by blast
    with v show "case r of (a, b, _, _) \<Rightarrow> a \<le> b \<and> unat b < REDIS_CLUSTER_SLOTS" by (cases r) (fastforce simp: slot_valid_def)
  next
    fix x assume v: "\<forall>(a, b, _, _) \<in> set rs. a \<le> b \<and> unat b < REDIS_CLUSTER_SLOTS" and x: "x \<in> set (new_ranges s d)"
    obtain r where "r \<in> set rs" "cs_range (snd x) = range_of r" using parsed_ranges(2) [OF p, of "fst x" "snd x"] x by auto
    with v show "slot_valid (snd x)" by (cases r) (fastforce simp: slot_valid_def)
  qed
  moreover have "sorted_wrt apart (new_ranges s d) \<longleftrightarrow> (\<forall>i. length (filter (holds i) rs) \<le> 1)"
    using at_most_one [of "\<lambda>i x. covers (snd x) i" "new_ranges s d"] parsed_ranges(1) [OF p] by (simp add: apart_def [abs_def])
  moreover have "filter (holds i) rs = []" if "\<forall>(a, b, _, _) \<in> set rs. a \<le> b \<and> unat b < REDIS_CLUSTER_SLOTS" "\<not> i < REDIS_CLUSTER_SLOTS" for i
    using that by (fastforce simp: filter_empty_conv holds_def)
  ultimately show ?thesis unfolding ranges_ok_def regions_ok_def by (smt (verit) list.size(3) zero_le)
qed

text \<open>The table agrees with the specification.\<close>

lemma parsed_table:
  assumes p: "parsed d s rs" and ok: "regions_ok rs" and i: "i < REDIS_CLUSTER_SLOTS"
  shows "table_of (new_ranges s d) ! i = (case slot_owner rs i of None \<Rightarrow> None | Some (h, port) \<Rightarrow> dict_map d (address_of h port))"
proof (cases "find (holds i) rs")
  case None
  then have "filter (holds i) rs = []" unfolding find_None_iff filter_empty_conv by blast
  then have "filter (\<lambda>x. covers (snd x) i) (new_ranges s d) = []" using parsed_ranges(1) [OF p, of i] by simp
  then have "find (\<lambda>x. covers (snd x) i) (new_ranges s d) = None" unfolding find_None_iff filter_empty_conv by blast
  with None i show ?thesis by (simp add: table_of_nth slot_owner_def)
next
  case (Some r)
  then have r: "r \<in> set rs" "holds i r" by (auto simp: find_Some_iff)
  obtain n sl where n: "(n, sl) \<in> set (new_ranges s d)" "cs_range sl = range_of r" "dict_map d (key_of r) = Some n"
    using parsed_ranges(3) [OF p r(1)] by blast
  have cov: "covers sl i" using r(2) n(2) by (cases r) (simp add: covers_def holds_def)
  obtain x where x: "find (\<lambda>x. covers (snd x) i) (new_ranges s d) = Some x"
    using n(1) cov by (cases "find (\<lambda>x. covers (snd x) i) (new_ranges s d)") (force simp: find_None_iff)+
  let ?f = "filter (\<lambda>x. covers (snd x) i) (new_ranges s d)"
  have "x \<in> set ?f" using x by (auto simp: find_Some_iff)
  moreover have "(n, sl) \<in> set ?f" using n(1) cov by simp
  moreover have "length ?f \<le> 1" using parsed_ranges(1) [OF p, of i] ok i by (simp add: regions_ok_def)
  ultimately have "x = (n, sl)" by (cases ?f) auto
  then show ?thesis using Some x i n(3) by (cases r) (simp add: table_of_nth slot_owner_def)
qed

section \<open>From the reply to the table\<close>

lemma region_reads_port: "region_reads th e = Some r \<Longrightarrow> 1 \<le> snd (server r) \<and> snd (server r) \<le> 65535"
  by (auto simp: region_reads_def dest: node_reads_port split: redisReply.splits list.splits if_splits)

text \<open>What the server answered, read through \<open>redisGetReply\<close>.\<close>

definition answers :: "'w hiredis \<Rightarrow> addr \<Rightarrow> ('c, 'w, 'z) cluster_scheme \<Rightarrow> redisReply \<Rightarrow> string option \<Rightarrow> bool" where
  "answers H c s r th \<longleftrightarrow> (case con_at s c of None \<Rightarrow> False
     | Some ctx \<Rightarrow> (case redisGetReply H ctx (w_world s) of (res, ctx', w) \<Rightarrow> res = (REDIS_OK, Some r) \<and> rc_host ctx' = th))"

lemma slots_parsed:
  assumes es: "map (region_reads th) es = map Some rs" "es \<noteq> []" "length es < 2 ^ 30" and ok: "sds_ok L" "no_oom (w_script t)"
  shows "\<exists>d u. parse_cluster_slots L th (Some (REDIS_REPLY_ARRAY es)) t = Some (Some d, u) \<and> parse_step (length (w_nodes t)) t u \<and>
     building (length (w_nodes t)) d u \<and> no_oom (w_script u) \<and> parsed d u rs"
proof -
  obtain d u where p: "parse_cluster_slots L th (Some (REDIS_REPLY_ARRAY es)) t = Some (Some d, u)" "parse_step (length (w_nodes t)) t u"
     "building (length (w_nodes t)) d u" "no_oom (w_script u)" "contents d u = add_regions rs Map.empty"
    using parse_cluster_slots_run [OF es ok] by blast
  have "0 \<le> snd (server r)" if "r \<in> set rs" for r
  proof -
    have "Some r \<in> set (map (region_reads th) es)" unfolding es(1) using that by simp
    then obtain e where "region_reads th e = Some r" by auto
    then show ?thesis using region_reads_port by fastforce
  qed
  then have "parsed d u rs"
    using p(3,5) member_okD(1) unfolding parsed_def building_def nodes_own_def by blast
  with p show ?thesis by blast
qed

lemma handle_answer:
  assumes an: "answers H c s (REDIS_REPLY_ARRAY es) th" and inv: "cluster_inv s"
    and es: "map (region_reads th) es = map Some rs" "es \<noteq> []" "length es < 2 ^ 30" and ok: "sds_ok L" "no_oom (w_script s)"
  shows "\<exists>t u d. talk c s t \<and> cluster_inv t \<and> parse_step (length (w_nodes t)) t u \<and> building (length (w_nodes t)) d u \<and> parsed d u rs \<and>
     no_oom (w_script u) \<and> handleClusterSlotsReply L H c s = updateNodesAndSlotmap (Some d) u"
proof -
  obtain ctx ctx' w where a: "con_at s c = Some ctx" "redisGetReply H ctx (w_world s) = ((REDIS_OK, Some (REDIS_REPLY_ARRAY es)), ctx', w)" "rc_host ctx' = th"
    using an by (auto simp: answers_def split: option.splits prod.splits)
  obtain res t where t: "on_con (redisGetReply H) c s = Some (res, t)" "talk c s t" "res = (REDIS_OK, Some (REDIS_REPLY_ARRAY es))" "con_at t c = Some ctx'"
    using on_con_ex [of s c "redisGetReply H"] a by auto
  have oom: "no_oom (w_script t)" using t(2) ok(2) by (simp add: talk_def)
  obtain d u where p: "parse_cluster_slots L th (Some (REDIS_REPLY_ARRAY es)) t = Some (Some d, u)" "parse_step (length (w_nodes t)) t u"
     "building (length (w_nodes t)) d u" "no_oom (w_script u)" "parsed d u rs"
    using slots_parsed [OF es ok(1) oom] by blast
  have "handleClusterSlotsReply L H c s = updateNodesAndSlotmap (Some d) u"
    using t(1,3,4) a(3) p(1) by (simp add: handleClusterSlotsReply_def)
  then show ?thesis using t(2) p talk_kept(2) [OF t(2) inv] by blast
qed

lemma old_con_kept:
  assumes "kept s t"
  shows "old_con t k = old_con s k \<and> old_acon t k = old_acon s k"
proof (cases "cc_nodes s")
  case None
  with assms show ?thesis by (simp add: kept_def old_con_def old_acon_def)
next
  case (Some f)
  have "node_at t n = node_at s n" if "dict_map f k = Some n" for n
    using assms known_member [OF Some that] by (simp add: kept_def)
  with assms Some show ?thesis by (auto simp: kept_def old_con_def old_acon_def con_of_def acon_of_def split: option.splits)
qed

text \<open>The node of a slot, as the table gives it.\<close>

definition routes_to :: "('c, 'w, 'z) cluster_scheme \<Rightarrow> nat \<Rightarrow> (string \<times> int) option \<Rightarrow> bool" where
  "routes_to t i srv \<longleftrightarrow> (case cc_table t of None \<Rightarrow> False | Some table \<Rightarrow>
     (case srv of
        None \<Rightarrow> table ! i = None
      | Some (h, p) \<Rightarrow> (\<exists>n nd. table ! i = Some n \<and> node_at t n = Some nd \<and> n_addr nd = Some (address_of h p) \<and>
          n_host nd = Some (cstr h) \<and> n_port nd = word_of_int p)))"

lemma parsed_update_table:
  assumes t: "cluster_inv t" "parse_step (length (w_nodes t)) t u" "building (length (w_nodes t)) d u" "parsed d u rs" "no_oom (w_script u)"
    and rok: "regions_ok rs"
  shows "\<exists>v. updateNodesAndSlotmap (Some d) u = Some (REDIS_OK, v) \<and> cluster_inv v \<and> cc_need_update_route v = 0 \<and>
     cc_route_version v = cc_route_version t + 1 \<and> same_conf t v \<and> no_oom (w_script v) \<and>
     (\<forall>i < REDIS_CLUSTER_SLOTS. routes_to v i (slot_owner rs i)) \<and>
     (\<forall>d k n nd. cc_nodes v = Some d \<longrightarrow> dict_map d k = Some n \<longrightarrow> node_at v n = Some nd \<longrightarrow>
        n_con nd = old_con t k \<and> n_acon nd = old_acon t k)"
proof -
  note ku = parse_step_kept [OF t(1,2) order_refl]
  have n0: "\<forall>x. known u x \<longrightarrow> x < length (w_nodes t)" using known_kept [OF ku(1)] known_less [OF t(1)] by blast
  obtain al where al: "cc_alloc u = (True, u\<lparr>w_script := al\<rparr>)" "no_oom al" using cc_alloc_ex [of u] t(5) by auto
  obtain v where v: "updateNodesAndSlotmap (Some d) u = Some (REDIS_OK, v)" "cluster_inv v" "cc_nodes v = Some d"
     "cc_table v = Some (table_of (new_ranges u d))" "cc_route_version v = cc_route_version u + 1" "cc_need_update_route v = 0"
     "\<forall>k n nd. dict_map d k = Some n \<longrightarrow> node_at u n = Some nd \<longrightarrow> node_at v n = Some (nd\<lparr>n_con := old_con u k, n_acon := old_acon u k\<rparr>)"
     "same_conf u v" "w_script v = al"
    using updateNodesAndSlotmap_built [OF t(3) al(1) parsed_ranges_ok [OF t(4), THEN iffD2, OF rok] ku(2) n0] by (elim exE conjE) (rule that)
  have own: "nodes_own d u" using t(3) by (simp add: building_def)
  have old: "old_con u k = old_con t k \<and> old_acon u k = old_acon t k" for k using old_con_kept [OF ku(1)] .
  have mem: "\<exists>nd. node_at u n = Some nd \<and> n_addr nd = Some k \<and> node_at v n = Some (nd\<lparr>n_con := old_con t k, n_acon := old_acon t k\<rparr>)"
    if k: "dict_map d k = Some n" for k n
    using nodes_ownD(3) [OF own k] v(7) k old by (auto simp: member_ok_def)
  have "routes_to v i (slot_owner rs i)" if i: "i < REDIS_CLUSTER_SLOTS" for i
  proof (cases "find (holds i) rs")
    case None
    then show ?thesis using parsed_table [OF t(4) rok i] v(4) by (simp add: routes_to_def slot_owner_def)
  next
    case (Some r)
    then have r: "r \<in> set (regions_at (key_of r) rs)" by (auto simp: regions_at_def find_Some_iff)
    then obtain n where n: "dict_map d (key_of r) = Some n" using parsed_entry(1) [OF t(4), of "key_of r"] by (cases "dict_map d (key_of r)") auto
    obtain nd where nd: "node_at u n = Some nd" "n_addr nd = Some (key_of r)" "node_at v n = Some (nd\<lparr>n_con := old_con t (key_of r), n_acon := old_acon t (key_of r)\<rparr>)"
      using mem [OF n] by blast
    have "n_host nd = Some (cstr (fst (server r))) \<and> n_port nd = word_of_int (snd (server r))" using parsed_entry(3) [OF t(4) n r nd(1)] .
    moreover have "table_of (new_ranges u d) ! i = Some n" using parsed_table [OF t(4) rok i] Some n by (cases r) (simp add: slot_owner_def)
    ultimately show ?thesis using v(4) nd Some by (cases r) (simp add: routes_to_def slot_owner_def)
  qed
  moreover have "n_con nd = old_con t k \<and> n_acon nd = old_acon t k" if "dict_map d k = Some n" "node_at v n = Some nd" for k n nd
    using mem [OF that(1)] that(2) by auto
  moreover have "cc_route_version v = cc_route_version t + 1" using v(5) ku(1) by (simp add: kept_def)
  moreover have "same_conf t v" using same_conf_trans [OF parse_step_same_conf [OF t(2)] v(8)] .
  ultimately show ?thesis using v(1-3,6,9) al(2) by (intro exI [of _ v]) simp
qed

lemma slots_reply_table:
  assumes an: "answers H c s (REDIS_REPLY_ARRAY es) th" and inv: "cluster_inv s"
    and es: "map (region_reads th) es = map Some rs" "es \<noteq> []" "length es < 2 ^ 30" and ok: "sds_ok L" "no_oom (w_script s)"
    and rok: "regions_ok rs"
  shows "\<exists>t. handleClusterSlotsReply L H c s = Some (REDIS_OK, t) \<and> cluster_inv t \<and> cc_need_update_route t = 0 \<and>
     cc_route_version t = cc_route_version s + 1 \<and> same_conf s t \<and> no_oom (w_script t) \<and>
     (\<forall>i < REDIS_CLUSTER_SLOTS. routes_to t i (slot_owner rs i)) \<and>
     (\<forall>d k n nd. cc_nodes t = Some d \<longrightarrow> dict_map d k = Some n \<longrightarrow> node_at t n = Some nd \<longrightarrow>
        n_con nd = old_con s k \<and> n_acon nd = old_acon s k)"
proof -
  obtain t u d where t: "talk c s t" "cluster_inv t" "parse_step (length (w_nodes t)) t u" "building (length (w_nodes t)) d u" "parsed d u rs"
     "no_oom (w_script u)" "handleClusterSlotsReply L H c s = updateNodesAndSlotmap (Some d) u"
    using handle_answer [OF an inv es ok] by blast
  have k: "kept s t" "same_conf s t" using talk_kept [OF t(1)] by blast+
  show ?thesis
    using parsed_update_table [OF t(2-6) rok] same_conf_trans [OF k(2)] k(1) unfolding t(7) old_con_kept [OF k(1), THEN conjunct1]
      old_con_kept [OF k(1), THEN conjunct2] by (auto simp: kept_def)
qed

lemma slots_reply_overlap:
  assumes an: "answers H c s (REDIS_REPLY_ARRAY es) th" and inv: "cluster_inv s"
    and es: "map (region_reads th) es = map Some rs" "es \<noteq> []" "length es < 2 ^ 30" and ok: "sds_ok L" "no_oom (w_script s)"
    and rok: "\<not> regions_ok rs"
  shows "\<exists>t. handleClusterSlotsReply L H c s = Some (REDIS_ERR, t) \<and> cluster_inv t \<and> kept s t"
proof -
  obtain t u d where t: "talk c s t" "cluster_inv t" "parse_step (length (w_nodes t)) t u" "building (length (w_nodes t)) d u" "parsed d u rs"
     "no_oom (w_script u)" "handleClusterSlotsReply L H c s = updateNodesAndSlotmap (Some d) u"
    using handle_answer [OF an inv es ok] by blast
  obtain b al where al: "cc_alloc u = (b, u\<lparr>w_script := al\<rparr>)" using cc_alloc_ex by blast
  have "\<not> (b \<and> ranges_ok (new_ranges u d))" using parsed_ranges_ok [OF t(5)] rok by blast
  from updateNodesAndSlotmap_fail [OF t(4) al this] obtain v
    where v: "updateNodesAndSlotmap (Some d) u = Some (REDIS_ERR, v)" "parse_step (length (w_nodes t)) u v" by blast
  note k = parse_step_kept [OF t(2) parse_step_trans [OF t(3) v(2)] order_refl]
  show ?thesis using t(7) v(1) k kept_trans [OF talk_kept(1) [OF t(1)] k(1)] by simp
qed

end
