(* ===== verification/Options_Inv.thy ===== *)
theory Options_Inv
  imports Options Slotmap_Table
begin

text \<open>
  The options keep the invariant of the context: entering a node by its address, setting options, and freeing
  the context, which releases every node and connection once.
\<close>

section \<open>Steps outside the known nodes\<close>

lemma kept_inv:
  assumes inv: "cluster_inv s" and k: "kept s t" and c: "\<And>a. con_at s a \<noteq> None \<Longrightarrow> con_at t a \<noteq> None" and a: "w_acons t = w_acons s"
  shows "cluster_inv t"
proof -
  have f: "cc_nodes t = cc_nodes s" "cc_table t = cc_table s" using k by (simp_all add: kept_def)
  have at: "node_at t x = node_at s x" if "cc_nodes s = Some d" "owns d s x" for d x
    using k that by (auto simp: kept_def known_def)
  have "nodes_own d t \<and> conns_ok d t" if d: "cc_nodes s = Some d" for d
  proof -
    have own: "nodes_own d s" "conns_ok d s" using inv d by (simp_all add: cluster_inv_def)
    have st: "struct_at t x = struct_at s x" if "owns d s x" for x using at [OF d that] by (simp add: struct_at_def)
    have ow: "owns d t x = owns d s x" for x using st by (rule owns_struct)
    have "conns_ok d t" using own(2) at [OF d] c unfolding conns_ok_def a ow by (simp cong: conj_cong imp_cong)
    with nodes_own_struct [OF own(1) st] show ?thesis by blast
  qed
  then show ?thesis using inv unfolding cluster_inv_def f by blast
qed

text \<open>Everything the stores hold outside the known nodes may change.\<close>

definition off_map :: "('c, 'w, 'z) cluster_scheme \<Rightarrow> ('c, 'w, 'z) cluster_scheme \<Rightarrow> bool" where
  "off_map s t \<longleftrightarrow> kept s t \<and> w_cons t = w_cons s \<and> w_acons t = w_acons s \<and> same_conf s t \<and> w_world t = w_world s"

lemma off_map_inv: "off_map s t \<Longrightarrow> cluster_inv s \<Longrightarrow> cluster_inv t"
  unfolding off_map_def using kept_inv [of s t] by simp

lemma off_map_refl [simp]: "off_map s s"
  by (simp add: off_map_def)

lemma off_map_trans [trans]: "off_map s t \<Longrightarrow> off_map t u \<Longrightarrow> off_map s u"
  unfolding off_map_def using kept_trans same_conf_trans by metis

lemma off_map_known: "off_map s t \<Longrightarrow> known t x = known s x"
  unfolding off_map_def using known_kept by blast

lemma off_map_script [simp]: "off_map s (s\<lparr>w_script := al\<rparr>)"
  by (simp add: off_map_def kept_def same_conf_def)

lemma off_map_error [simp]: "off_map s (redisClusterSetError e m s)"
  by (simp add: off_map_def kept_def same_conf_def redisClusterSetError_def Let_def)

lemma off_map_put:
  assumes "\<not> known s n"
  shows "off_map s (s\<lparr>w_nodes := (w_nodes s)[n := x]\<rparr>)"
  using assms by (auto simp: off_map_def kept_def same_conf_def)

lemma off_map_oom_free:
  assumes "\<not> known s n"
  shows "off_map s (snd (oom_free_node n s))"
  using assms by (auto simp: oom_free_node_def off_map_def kept_def same_conf_def redisClusterSetError_def Let_def)

lemma off_map_new:
  assumes "cluster_inv s"
  shows "off_map s (s\<lparr>w_nodes := w_nodes s @ [x]\<rparr>)"
  using known_less [OF assms] by (auto simp: off_map_def kept_def same_conf_def)

lemma createRedisClusterNode_ex:
  assumes "cluster_inv s"
  shows "\<exists>r al ns. createRedisClusterNode s = (r, s\<lparr>w_script := al, w_nodes := ns\<rparr>) \<and> off_map s (s\<lparr>w_script := al, w_nodes := ns\<rparr>) \<and>
     (\<forall>n. r = Some n \<longrightarrow> n = length (w_nodes s) \<and> ns = w_nodes s @ [Some zero_node] \<and> \<not> known s n) \<and>
     (no_oom (w_script s) \<longrightarrow> r \<noteq> None \<and> no_oom al)"
proof -
  obtain b al where al: "cc_alloc s = (b, s\<lparr>w_script := al\<rparr>)" "no_oom (w_script s) \<longrightarrow> b \<and> no_oom al" using cc_alloc_ex by blast
  let ?t = "s\<lparr>w_script := al\<rparr>"
  have o: "off_map s (?t\<lparr>w_nodes := w_nodes ?t @ [Some zero_node]\<rparr>)"
    using off_map_trans [OF off_map_script off_map_new [OF off_map_inv [OF off_map_script assms]]] .
  have k: "\<not> known s (length (w_nodes s))" using known_less [OF assms] by blast
  show ?thesis
  proof (cases b)
    case True
    with al o k show ?thesis
      by (intro exI [of _ "Some (length (w_nodes s))"] exI [of _ al] exI [of _ "w_nodes s @ [Some zero_node]"]) (simp add: createRedisClusterNode_def)
  next
    case False
    with al show ?thesis
      by (intro exI [of _ None] exI [of _ al] exI [of _ "w_nodes s"]) (simp add: createRedisClusterNode_def)
  qed
qed

section \<open>Entering a node\<close>

text \<open>A node that is ready to be entered under the address \<open>k\<close>.\<close>

definition loose :: "addr \<Rightarrow> string \<Rightarrow> ('c, 'w, 'z) cluster_scheme \<Rightarrow> bool" where
  "loose n k s \<longleftrightarrow> \<not> known s n \<and> (\<exists>nd. node_at s n = Some nd \<and> n_addr nd = Some k \<and> n_role nd \<noteq> REDIS_ROLE_SLAVE \<and>
     n_slaves nd = None \<and> n_con nd = None \<and> n_acon nd = None)"

lemma enter_node:
  assumes inv: "cluster_inv s" and d: "cc_nodes s = Some d" "d_used d < 2 ^ 30" and l: "loose n k s"
  shows "\<exists>st d' al. cc_dictAdd d k n s = Some (st, d', s\<lparr>w_script := al\<rparr>) \<and> cluster_inv (s\<lparr>w_script := al, cc_nodes := Some d'\<rparr>) \<and>
     dict_map d' = (if st = DICT_OK then (dict_map d)(k \<mapsto> n) else dict_map d) \<and> dict_wf d' \<and>
     (st = DICT_OK \<longrightarrow> dict_map d k = None) \<and> d_used d' \<le> d_used d + 1 \<and>
     (\<forall>x. known (s\<lparr>w_script := al, cc_nodes := Some d'\<rparr>) x \<longleftrightarrow> known s x \<or> st = DICT_OK \<and> x = n) \<and>
     (no_oom (w_script s) \<longrightarrow> no_oom al \<and> (st = DICT_OK \<longleftrightarrow> dict_map d k = None))"
proof -
  have own: "nodes_own d s" and cons: "conns_ok d s" using inv d(1) by (simp_all add: cluster_inv_def)
  obtain nd where nd: "node_at s n = Some nd" "n_addr nd = Some k" "n_role nd \<noteq> REDIS_ROLE_SLAVE" "n_slaves nd = None" "n_con nd = None" "n_acon nd = None"
    and nk: "\<not> owns d s n" using l d(1) by (auto simp: loose_def known_def)
  obtain st d' al where a: "cc_dictAdd d k n s = Some (st, d', s\<lparr>w_script := al\<rparr>)" "dict_wf d'" "d_type d' = d_type d"
     "dict_map d' = (if st = DICT_OK then (dict_map d)(k \<mapsto> n) else dict_map d)"
     "d_used d' = (if st = DICT_OK then d_used d + 1 else d_used d)" "st = DICT_OK \<longrightarrow> dict_map d k = None"
     "no_oom (w_script s) \<longrightarrow> no_oom al \<and> (st = DICT_OK \<longleftrightarrow> dict_map d k = None)"
    using cc_dictAdd_ex [OF own d(2), of k n s] by (elim exE conjE) (rule that)
  let ?t = "s\<lparr>w_script := al, cc_nodes := Some d'\<rparr>"
  have w: "w_nodes ?t = w_nodes s" "w_cons ?t = w_cons s" "w_acons ?t = w_acons s" by simp_all
  have sl: "slaves_at s n = []" using nd by (simp add: slaves_at_def owned_slaves_def)
  have sub: "dict_map d' j = Some m" if "dict_map d j = Some m" for j m using that a(4,6) by (auto split: if_splits)
  have ow: "owns d' s x \<longleftrightarrow> owns d s x \<or> st = DICT_OK \<and> x = n" for x
  proof
    show "owns d' s x \<Longrightarrow> owns d s x \<or> st = DICT_OK \<and> x = n" using a(4) sl by (auto simp: owns_def split: if_splits)
    have "dict_map d' k = Some n" if "st = DICT_OK" using a(4) that by simp
    then show "owns d s x \<or> st = DICT_OK \<and> x = n \<Longrightarrow> owns d' s x" using sub unfolding owns_def by blast
  qed
  have "member_ok s k n" using nd by (auto simp: member_ok_def)
  then have "nodes_own d' s" using own a(2,3,4) sl unfolding nodes_own_def by (auto split: if_splits)
  moreover have "conns_ok d' s"
    unfolding conns_ok_def
  proof (intro conjI [of "\<forall>x nd. _ x nd"] allI impI)
    have v: "owns d s x \<or> n_con nd' = None \<and> n_acon nd' = None" if "owns d' s x" "node_at s x = Some nd'" for x nd'
      using ow that nd by auto
    show "(\<forall>c. n_con nd' = Some c \<longrightarrow> con_at s c \<noteq> None) \<and> (\<forall>a. n_acon nd' = Some a \<longrightarrow> (\<exists>ac. acon_at s a = Some ac \<and> ac_data ac = Some x))"
      if "owns d' s x" "node_at s x = Some nd'" for x nd'
      using v [OF that] cons that(2) unfolding conns_ok_def by fastforce
    show "(n_con n1 = None \<or> n_con n1 \<noteq> n_con n2) \<and> (n_acon n1 = None \<or> n_acon n1 \<noteq> n_acon n2)"
      if "owns d' s x" "owns d' s y" "node_at s x = Some n1" "node_at s y = Some n2" "x \<noteq> y" for x y n1 n2
      using v [OF that(1,3)] v [OF that(2,4)]
    proof (elim disjE)
      assume "owns d s x" "owns d s y"
      with cons that(3-5) show ?thesis unfolding conns_ok_def by blast
    qed auto
  qed
  moreover have "\<exists>j. dict_map d' j = Some m" if "cc_table s = Some tab" "Some m \<in> set tab" for tab m
  proof -
    have "\<exists>e j. cc_nodes s = Some e \<and> dict_map e j = Some m" using inv that unfolding cluster_inv_def by blast
    with sub d(1) show ?thesis by auto
  qed
  ultimately have "cluster_inv ?t"
    using inv unfolding cluster_inv_def by (simp add: own_cong(1) [OF w(1)] conns_cong [OF w])
  moreover have "known ?t x \<longleftrightarrow> known s x \<or> st = DICT_OK \<and> x = n" for x
    using ow [of x] d(1) own_cong(2) [OF w(1)] by (simp add: known_def)
  ultimately show ?thesis using a by (intro exI [of _ st] exI [of _ d'] exI [of _ al]) auto
qed

text \<open>The known nodes after entering some: those there were, unchanged, and maybe more.\<close>

definition grown :: "('c, 'w, 'z) cluster_scheme \<Rightarrow> ('c, 'w, 'z) cluster_scheme \<Rightarrow> bool" where
  "grown s t \<longleftrightarrow> cluster_inv t \<and> same_conf s t \<and> cc_table t = cc_table s \<and> w_cons t = w_cons s \<and> w_acons t = w_acons s \<and>
     w_world t = w_world s \<and> (\<forall>x. known s x \<longrightarrow> known t x \<and> node_at t x = node_at s x) \<and>
     (\<forall>d k n. cc_nodes s = Some d \<longrightarrow> dict_map d k = Some n \<longrightarrow> (\<exists>d'. cc_nodes t = Some d' \<and> dict_map d' k = Some n))"

definition room :: "nat \<Rightarrow> ('c, 'w, 'z) cluster_scheme \<Rightarrow> bool" where
  "room j s \<longleftrightarrow> (case cc_nodes s of None \<Rightarrow> j \<le> 2 ^ 30 | Some d \<Rightarrow> d_used d + j \<le> 2 ^ 30)"

text \<open>No address but \<open>a\<close> was entered.\<close>

definition grown_by :: "string \<Rightarrow> ('c, 'w, 'z) cluster_scheme \<Rightarrow> ('c, 'w, 'z) cluster_scheme \<Rightarrow> bool" where
  "grown_by a s t \<longleftrightarrow> grown s t \<and> (\<forall>d' k m. cc_nodes t = Some d' \<longrightarrow> dict_map d' k = Some m \<longrightarrow>
     k = a \<or> (\<exists>d. cc_nodes s = Some d \<and> dict_map d k = Some m))"

lemma off_map_grown: "off_map s t \<Longrightarrow> cluster_inv s \<Longrightarrow> grown s t"
  using off_map_inv [of s t] off_map_known [of s t] by (auto simp: grown_def off_map_def kept_def)

lemma grown_trans [trans]:
  assumes "grown s t" "grown t u"
  shows "grown s u"
proof -
  have "\<exists>d'. cc_nodes u = Some d' \<and> dict_map d' k = Some n" if m: "cc_nodes s = Some d" "dict_map d k = Some n" for d k n
  proof -
    obtain d' where "cc_nodes t = Some d'" "dict_map d' k = Some n" using assms(1) m unfolding grown_def by blast
    then show ?thesis using assms(2) unfolding grown_def by blast
  qed
  then show ?thesis using assms same_conf_trans [of s t u] unfolding grown_def by simp
qed

lemma off_map_grown_by: "off_map s t \<Longrightarrow> cluster_inv s \<Longrightarrow> grown_by a s t"
  using off_map_grown by (auto simp: grown_by_def off_map_def kept_def)

lemma grown_by_trans [trans]: "grown_by a s t \<Longrightarrow> grown_by a t u \<Longrightarrow> grown_by a s u"
  unfolding grown_by_def using grown_trans by metis

lemma off_map_room: "off_map s t \<Longrightarrow> room j t = room j s"
  by (simp add: off_map_def kept_def room_def)

text \<open>Reading the address.\<close>

definition option_address :: "string \<Rightarrow> (string \<times> int) option" where
  "option_address a =
     (case strrchr a CHR '':'' of
        None \<Rightarrow> None
      | Some p \<Rightarrow> if p = 0 \<or> drop (Suc p) a = [] \<or> hi_atoi (drop (Suc p) a) \<le> 0 then None
                  else Some (take p a, hi_atoi (drop (Suc p) a)))"

definition entered :: "string \<Rightarrow> string \<times> int \<Rightarrow> ('c, 'w, 'z) cluster_scheme \<Rightarrow> bool" where
  "entered a hp t \<longleftrightarrow> (\<exists>d n nd. cc_nodes t = Some d \<and> dict_map d a = Some n \<and> node_at t n = Some nd \<and>
     n_host nd = Some (fst hp) \<and> n_port nd = word_of_int (snd hp))"

text \<open>Entering a node that was made ready outside the known nodes.\<close>

lemma enter_loose:
  assumes inv: "cluster_inv s" and d: "cc_nodes s = Some d" and room: "room (Suc j) s" and o: "off_map s t" and l: "loose n k t"
  shows "\<exists>st d' al. cc_dictAdd d k n t = Some (st, d', t\<lparr>w_script := al\<rparr>) \<and>
     (st = DICT_OK \<longrightarrow> grown_by k s (t\<lparr>w_script := al, cc_nodes := Some d'\<rparr>) \<and> room j (t\<lparr>w_script := al, cc_nodes := Some d'\<rparr>) \<and>
        dict_map d' k = Some n \<and> known (t\<lparr>w_script := al, cc_nodes := Some d'\<rparr>) n) \<and>
     (st \<noteq> DICT_OK \<longrightarrow> grown_by k s (snd (oom_free_node n (t\<lparr>w_script := al, cc_nodes := Some d'\<rparr>))) \<and>
        room j (snd (oom_free_node n (t\<lparr>w_script := al, cc_nodes := Some d'\<rparr>)))) \<and>
     (no_oom (w_script t) \<longrightarrow> no_oom al \<and> (st = DICT_OK \<longleftrightarrow> dict_map d k = None))"
proof -
  have dt: "cc_nodes t = Some d" "d_used d < 2 ^ 30" using d room o by (simp_all add: off_map_def kept_def room_def)
  from enter_node [OF off_map_inv [OF o inv] dt l] obtain st d' al
    where e: "cc_dictAdd d k n t = Some (st, d', t\<lparr>w_script := al\<rparr>)" "cluster_inv (t\<lparr>w_script := al, cc_nodes := Some d'\<rparr>)"
      "dict_map d' = (if st = DICT_OK then (dict_map d)(k \<mapsto> n) else dict_map d)" "st = DICT_OK \<longrightarrow> dict_map d k = None"
      "d_used d' \<le> d_used d + 1" "\<forall>x. known (t\<lparr>w_script := al, cc_nodes := Some d'\<rparr>) x \<longleftrightarrow> known t x \<or> st = DICT_OK \<and> x = n"
      "no_oom (w_script t) \<longrightarrow> no_oom al \<and> (st = DICT_OK \<longleftrightarrow> dict_map d k = None)"
    by (elim exE conjE) (rule that)
  let ?u = "t\<lparr>w_script := al, cc_nodes := Some d'\<rparr>"
  have ku: "known ?u x \<longleftrightarrow> known s x \<or> st = DICT_OK \<and> x = n" for x using e(6) off_map_known [OF o] by simp
  have "\<forall>x. known s x \<longrightarrow> known ?u x \<and> node_at ?u x = node_at s x" using ku o by (auto simp: off_map_def kept_def)
  moreover have "dict_map d' k' = Some m" if "dict_map d k' = Some m" for k' m using that e(3,4) by (auto split: if_splits)
  ultimately have "grown s ?u"
    using e(2) o d unfolding grown_def off_map_def kept_def same_conf_def by simp
  then have g: "grown_by k s ?u" using e(3) d by (simp add: grown_by_def)
  have rm: "room j ?u" using e(5) d room by (simp add: room_def)
  have "grown_by k s (snd (oom_free_node n ?u)) \<and> room j (snd (oom_free_node n ?u))" if "st \<noteq> DICT_OK"
  proof -
    have "\<not> known ?u n" using ku that l off_map_known [OF o] by (simp add: loose_def)
    from off_map_oom_free [OF this] grown_by_trans [OF g off_map_grown_by [OF _ e(2)]] off_map_room rm show ?thesis by blast
  qed
  with e(1,3,7) g rm ku show ?thesis by (intro exI [of _ st] exI [of _ d'] exI [of _ al]) simp
qed

lemma add_option_node_ex:
  assumes inv: "cluster_inv s" and d: "cc_nodes s = Some d" and room: "room (Suc j) s"
  shows "\<exists>r t. add_option_node d address ip port s = Some (r, t) \<and> grown_by address s t \<and> room j t \<and>
     (r = REDIS_OK \<and> entered address (ip, port) t \<or> r = REDIS_ERR) \<and>
     (no_oom (w_script s) \<longrightarrow> no_oom (w_script t) \<and> (dict_map d address = None \<longrightarrow> r = REDIS_OK))"
proof -
  obtain r al ns where c: "createRedisClusterNode s = (r, s\<lparr>w_script := al, w_nodes := ns\<rparr>)" "off_map s (s\<lparr>w_script := al, w_nodes := ns\<rparr>)"
     "\<forall>n. r = Some n \<longrightarrow> n = length (w_nodes s) \<and> ns = w_nodes s @ [Some zero_node] \<and> \<not> known s n"
     "no_oom (w_script s) \<longrightarrow> r \<noteq> None \<and> no_oom al"
    using createRedisClusterNode_ex [OF inv] by (elim exE conjE) (rule that)
  let ?s1 = "s\<lparr>w_script := al, w_nodes := ns\<rparr>"
  have rm: "room j s" using room by (auto simp: room_def split: option.splits)
  have err: "grown_by address s t \<and> room j t" if "off_map s t" for t using off_map_grown_by [OF that inv] off_map_room [OF that] rm by simp
  show ?thesis
  proof (cases r)
    case None
    have "off_map s (set_oom ?s1)" using off_map_trans [OF c(2) off_map_error] .
    with None c(1,4) err show ?thesis by (simp add: add_option_node_def)
  next
    case (Some n)
    then have n: "n = length (w_nodes s)" "ns = w_nodes s @ [Some zero_node]" "\<not> known s n" using c(3) by auto
    obtain r2 al2 where 2: "sds_copy address ?s1 = (r2, ?s1\<lparr>w_script := al2\<rparr>)" "r2 = None \<or> r2 = Some address"
       "no_oom al \<longrightarrow> r2 = Some address \<and> no_oom al2" using sds_copy_ex [of address ?s1] by auto
    let ?nd = "zero_node\<lparr>n_addr := Some address, n_host := Some ip, n_port := word_of_int port\<rparr>"
    let ?s2 = "?s1\<lparr>w_script := al2\<rparr>"
    let ?s3 = "node_put n ?nd ?s2"
    have o2: "off_map s ?s2" using off_map_trans [OF c(2) off_map_script [of ?s1 al2]] .
    have nk2: "\<not> known ?s2 n" using off_map_known [OF o2] n(3) by simp
    have free: "off_map s (snd (oom_free_node n t))" if "off_map s t" for t
      using off_map_trans [OF that off_map_oom_free] off_map_known [OF that] n(3) by simp
    show ?thesis
    proof (cases r2)
      case None
      with Some c 2 err [OF free [OF o2]] show ?thesis by (auto simp: add_option_node_def Let_def)
    next
      case (Some a)
      then have a: "r2 = Some address" using 2(2) by auto
      have o3: "off_map s ?s3" using off_map_trans [OF o2 off_map_put [OF nk2]] by (simp add: node_put_def)
      obtain r4 al4 where 4: "sds_copy address ?s3 = (r4, ?s3\<lparr>w_script := al4\<rparr>)" "r4 = None \<or> r4 = Some address"
         "no_oom al2 \<longrightarrow> r4 = Some address \<and> no_oom al4" using sds_copy_ex [of address ?s3] by (auto simp: node_put_def)
      let ?s4 = "?s3\<lparr>w_script := al4\<rparr>"
      have o4: "off_map s ?s4" using off_map_trans [OF o3 off_map_script [of ?s3 al4]] .
      show ?thesis
      proof (cases "r4 = None")
        case True
        with \<open>r = Some n\<close> a c 2 4 err [OF free [OF o4]] show ?thesis by (auto simp: add_option_node_def Let_def)
      next
        case False
        then have r4: "r4 = Some address" using 4(2) by blast
        have nd4: "node_at ?s4 n = Some ?nd" using n by (simp add: node_put_def)
        have "loose n address ?s4" using nd4 off_map_known [OF o4] n(3) by (simp add: loose_def zero_node_def)
        from enter_loose [OF inv d room o4 this] obtain st d' al5
          where e: "cc_dictAdd d address n ?s4 = Some (st, d', ?s4\<lparr>w_script := al5\<rparr>)"
            "st = DICT_OK \<longrightarrow> grown_by address s (?s4\<lparr>w_script := al5, cc_nodes := Some d'\<rparr>) \<and> room j (?s4\<lparr>w_script := al5, cc_nodes := Some d'\<rparr>) \<and>
               dict_map d' address = Some n \<and> known (?s4\<lparr>w_script := al5, cc_nodes := Some d'\<rparr>) n"
            "st \<noteq> DICT_OK \<longrightarrow> grown_by address s (snd (oom_free_node n (?s4\<lparr>w_script := al5, cc_nodes := Some d'\<rparr>))) \<and>
               room j (snd (oom_free_node n (?s4\<lparr>w_script := al5, cc_nodes := Some d'\<rparr>)))"
            "no_oom (w_script ?s4) \<longrightarrow> no_oom al5 \<and> (st = DICT_OK \<longleftrightarrow> dict_map d address = None)"
          by (elim exE conjE) (rule that)
        let ?s6 = "?s4\<lparr>w_script := al5, cc_nodes := Some d'\<rparr>"
        have run: "add_option_node d address ip port s = (if st \<noteq> DICT_OK then Some (REDIS_ERR, snd (oom_free_node n ?s6)) else Some (REDIS_OK, ?s6))"
          using \<open>r = Some n\<close> a c(1) 2(1) 4(1) r4 e(1) by (simp add: add_option_node_def Let_def)
        have "entered address (ip, port) ?s6" if "st = DICT_OK" using nd4 e(2) that by (auto simp: entered_def zero_node_def)
        moreover have "w_script (snd (oom_free_node n ?s6)) = al5" by (simp add: oom_free_node_def redisClusterSetError_def Let_def)
        ultimately show ?thesis using run c(4) 2(3) 4(3) e(2-4) by (cases "st = DICT_OK") (auto simp: node_put_def)
      qed
    qed
  qed
qed

lemma parse_option_addr_ex:
  assumes inv: "cluster_inv s" and d: "cc_nodes s = Some d" and room: "room (Suc j) s"
  shows "\<exists>r t. parse_option_addr d a s = Some (r, t) \<and> grown_by a s t \<and> room j t \<and>
     (r = REDIS_ERR \<or> r = REDIS_OK \<and> (\<exists>hp. option_address a = Some hp \<and> entered a hp t)) \<and>
     (no_oom (w_script s) \<longrightarrow> no_oom (w_script t) \<and> (dict_map d a = None \<longrightarrow> option_address a \<noteq> None \<longrightarrow> r = REDIS_OK))"
proof -
  have rm: "room j s" using room by (auto simp: room_def split: option.splits)
  have err: "grown_by a s (redisClusterSetError e m t) \<and> room j (redisClusterSetError e m t)" if "off_map s t" for e m t
    using off_map_trans [OF that off_map_error [of t e m]] off_map_grown_by [OF _ inv] off_map_room rm by blast
  have scr: "w_script (redisClusterSetError e m t) = w_script t" for e m and t :: "('a, 'b, 'c) cluster_scheme"
    by (simp add: redisClusterSetError_def Let_def)
  show ?thesis
  proof (cases "strrchr a CHR '':''")
    case None
    then show ?thesis using err [OF off_map_refl] by (simp add: parse_option_addr_def addr_error_def option_address_def scr)
  next
    case (Some p)
    show ?thesis
    proof (cases "p = 0")
      case True
      then show ?thesis using Some err [OF off_map_refl] by (simp add: parse_option_addr_def addr_error_def option_address_def scr)
    next
      case False
      obtain r1 al where 1: "sds_copy (take p a) s = (r1, s\<lparr>w_script := al\<rparr>)" "r1 = None \<or> r1 = Some (take p a)"
         "no_oom (w_script s) \<longrightarrow> r1 = Some (take p a) \<and> no_oom al" using sds_copy_ex by blast
      let ?s1 = "s\<lparr>w_script := al\<rparr>" and ?str = "drop (Suc p) a"
      consider "r1 = None" | "r1 = Some (take p a)" "?str = [] \<or> hi_atoi ?str \<le> 0" | "r1 = Some (take p a)" "?str \<noteq> []" "\<not> hi_atoi ?str \<le> 0"
        using 1(2) by blast
      then show ?thesis
      proof cases
        case 1
        then show ?thesis using Some False \<open>sds_copy (take p a) s = _\<close> \<open>no_oom (w_script s) \<longrightarrow> _\<close> err [OF off_map_script]
          by (simp add: parse_option_addr_def)
      next
        case 2
        then show ?thesis using Some False \<open>sds_copy (take p a) s = _\<close> \<open>no_oom (w_script s) \<longrightarrow> _\<close> err [OF off_map_script]
          by (auto simp: parse_option_addr_def addr_error_def option_address_def Let_def scr)
      next
        case 3
        have hp: "option_address a = Some (take p a, hi_atoi ?str)" using Some False 3 by (simp add: option_address_def)
        have run: "parse_option_addr d a s = add_option_node d a (take p a) (hi_atoi ?str) ?s1"
          using Some False 3 1(1) by (simp add: parse_option_addr_def Let_def)
        have "cluster_inv ?s1" using off_map_inv [OF off_map_script inv] .
        moreover have "cc_nodes ?s1 = Some d" "room (Suc j) ?s1" using d room by (simp_all add: room_def)
        ultimately obtain r t where t: "add_option_node d a (take p a) (hi_atoi ?str) ?s1 = Some (r, t)" "grown_by a ?s1 t" "room j t"
           "r = REDIS_OK \<and> entered a (take p a, hi_atoi ?str) t \<or> r = REDIS_ERR"
           "no_oom al \<longrightarrow> no_oom (w_script t) \<and> (dict_map d a = None \<longrightarrow> r = REDIS_OK)"
          using add_option_node_ex [of ?s1 d j a "take p a" "hi_atoi ?str"] by (elim meta_impE exE conjE) (assumption | rule that | simp)+
        show ?thesis using run t grown_by_trans [OF off_map_grown_by [OF off_map_script inv] t(2)] hp 1(3) by auto
      qed
    qed
  qed
qed

section \<open>Addresses as options\<close>

lemma create_nodes_dict:
  assumes inv: "cluster_inv s" and none: "cc_nodes s = None"
  shows "\<exists>b al. cc_dictCreate clusterNodesDictType s = (if b then Some (dictInit clusterNodesDictType) else None, s\<lparr>w_script := al\<rparr>) \<and>
     grown_by a s (s\<lparr>w_script := al, cc_nodes := if b then Some (dictInit clusterNodesDictType) else None\<rparr>) \<and>
     (no_oom (w_script s) \<longrightarrow> b \<and> no_oom al)"
proof -
  obtain b al where c: "cc_dictCreate clusterNodesDictType s = (if b then Some (dictInit clusterNodesDictType) else None, s\<lparr>w_script := al\<rparr>)"
     "no_oom (w_script s) \<longrightarrow> b \<and> no_oom al" using cc_dictCreate_ex [of clusterNodesDictType s] by blast
  let ?d = "dictInit clusterNodesDictType :: (string, addr) dict"
  let ?t = "s\<lparr>w_script := al, cc_nodes := if b then Some ?d else None\<rparr>"
  have e: "building (length (w_nodes s)) ?d s" "dict_map ?d = Map.empty"
    using building_empty(1) [of s] dictInit_wf [of clusterNodesDictType] by auto
  have own: "nodes_own ?d s" using e(1) by (simp add: building_def)
  have cons: "conns_ok ?d s" using e(2) by (simp add: conns_ok_def owns_def)
  have w: "w_nodes ?t = w_nodes s" "w_cons ?t = w_cons s" "w_acons ?t = w_acons s" by simp_all
  have tab: "length tab = REDIS_CLUSTER_SLOTS" "Some n \<notin> set tab" if "cc_table s = Some tab" for tab n
    using inv none that unfolding cluster_inv_def by (blast, metis option.distinct(1))
  have "cluster_inv ?t"
    unfolding cluster_inv_def own_cong(1) [OF w(1)] conns_cong [OF w] using own cons tab by (cases b) simp_all
  then have "grown_by a s ?t" using none e(2) by (auto simp: grown_by_def grown_def same_conf_def known_def split: if_splits)
  with c show ?thesis by blast
qed

lemma redisClusterSetOptionAddNode_ex:
  assumes inv: "cluster_inv s" and rm: "room (Suc j) s"
  shows "\<exists>r t. redisClusterSetOptionAddNode a s = Some (r, t) \<and> grown_by (cstr a) s t \<and> room j t \<and>
     (r = REDIS_ERR \<or> r = REDIS_OK \<and> (\<exists>d n. cc_nodes t = Some d \<and> dict_map d (cstr a) = Some n)) \<and>
     (no_oom (w_script s) \<longrightarrow> no_oom (w_script t) \<and>
        (\<forall>hp. option_address (cstr a) = Some hp \<longrightarrow> r = REDIS_OK \<and>
           ((\<forall>d. cc_nodes s = Some d \<longrightarrow> dict_map d (cstr a) = None) \<longrightarrow> entered (cstr a) hp t)))"
proof -
  let ?start = "case cc_nodes s of
              None \<Rightarrow> (case cc_dictCreate clusterNodesDictType s of (d, s1) \<Rightarrow> (d, s1\<lparr>cc_nodes := d\<rparr>))
            | Some d \<Rightarrow> (Some d, s)"
  obtain D s1 where st: "?start = (D, s1)" "grown_by (cstr a) s s1" "cc_nodes s1 = D" "room (Suc j) s1" "no_oom (w_script s) \<longrightarrow> D \<noteq> None \<and> no_oom (w_script s1)"
     "\<forall>d. D = Some d \<longrightarrow> (\<forall>e. cc_nodes s = Some e \<longrightarrow> dict_map e (cstr a) = None) \<longrightarrow> dict_map d (cstr a) = None"
  proof (cases "cc_nodes s")
    case None
    obtain b al where c: "cc_dictCreate clusterNodesDictType s = (if b then Some (dictInit clusterNodesDictType) else None, s\<lparr>w_script := al\<rparr>)"
       "grown_by (cstr a) s (s\<lparr>w_script := al, cc_nodes := if b then Some (dictInit clusterNodesDictType) else None\<rparr>)" "no_oom (w_script s) \<longrightarrow> b \<and> no_oom al"
      using create_nodes_dict [OF inv None, of "cstr a"] by blast
    have "dict_map (dictInit clusterNodesDictType :: (string, addr) dict) = Map.empty" using dictInit_wf [of clusterNodesDictType] by auto
    with None c rm that [of "if b then Some (dictInit clusterNodesDictType) else None"
          "s\<lparr>w_script := al, cc_nodes := if b then Some (dictInit clusterNodesDictType) else None\<rparr>"]
    show thesis by (simp add: room_def dictInit_def)
  next
    case (Some d)
    with that [of "Some d" s] rm off_map_grown_by [OF off_map_refl inv] show thesis by simp
  qed
  have inv1: "cluster_inv s1" using st(2) by (simp add: grown_by_def grown_def)
  have rm1: "room j s1" using st(4) by (auto simp: room_def split: option.splits)
  have scr: "w_script (set_oom t) = w_script t" for t :: "('a, 'b, 'c) cluster_scheme" by (simp add: redisClusterSetError_def Let_def)
  have off: "grown_by (cstr a) s t \<and> room j t" if "off_map s1 t" for t
    using grown_by_trans [OF st(2) off_map_grown_by [OF that inv1]] off_map_room [OF that] rm1 by simp
  show ?thesis
  proof (cases D)
    case None
    then have "redisClusterSetOptionAddNode a s = Some (REDIS_ERR, set_oom s1)"
      using st(1) unfolding redisClusterSetOptionAddNode_def by simp
    with off [OF off_map_error] st(5) None show ?thesis by simp
  next
    case (Some d)
    obtain r2 al where 2: "sds_copy (cstr a) s1 = (r2, s1\<lparr>w_script := al\<rparr>)" "r2 = None \<or> r2 = Some (cstr a)"
       "no_oom (w_script s1) \<longrightarrow> r2 = Some (cstr a) \<and> no_oom al" using sds_copy_ex by blast
    let ?s2 = "s1\<lparr>w_script := al\<rparr>"
    have run: "redisClusterSetOptionAddNode a s = (case r2 of None \<Rightarrow> Some (REDIS_ERR, set_oom ?s2)
        | Some k \<Rightarrow> (case dictFind d k of None \<Rightarrow> parse_option_addr d (cstr a) ?s2 | Some _ \<Rightarrow> Some (REDIS_OK, ?s2)))"
      using st(1) Some 2(1) unfolding redisClusterSetOptionAddNode_def by (cases r2) simp_all
    have wf: "dict_wf d" using inv1 st(3) Some by (simp add: cluster_inv_def nodes_own_def)
    show ?thesis
    proof (cases "r2 = None")
      case True
      with run off [OF off_map_trans [OF off_map_script [of s1 al] off_map_error]] 2(3) st(5) show ?thesis by auto
    next
      case False
      then have r2: "r2 = Some (cstr a)" using 2(2) by blast
      show ?thesis
      proof (cases "dict_map d (cstr a)")
        case None
        have inv2: "cluster_inv ?s2" using off_map_inv [OF off_map_script inv1] .
        have d2: "cc_nodes ?s2 = Some d" "room (Suc j) ?s2" using st(3,4) Some by (simp_all add: room_def)
        obtain r t where t: "parse_option_addr d (cstr a) ?s2 = Some (r, t)" "grown_by (cstr a) ?s2 t" "room j t"
           "r = REDIS_ERR \<or> r = REDIS_OK \<and> (\<exists>hp. option_address (cstr a) = Some hp \<and> entered (cstr a) hp t)"
           "no_oom (w_script ?s2) \<longrightarrow> no_oom (w_script t) \<and> (dict_map d (cstr a) = None \<longrightarrow> option_address (cstr a) \<noteq> None \<longrightarrow> r = REDIS_OK)"
          using parse_option_addr_ex [OF inv2 d2, of "cstr a"] by (elim exE conjE) (rule that)
        have "redisClusterSetOptionAddNode a s = Some (r, t)" using run r2 t(1) None by (simp add: dictFind_map [OF wf])
        moreover have "grown_by (cstr a) s t" using grown_by_trans [OF st(2) grown_by_trans [OF off_map_grown_by [OF off_map_script inv1] t(2)]] .
        moreover have "r = REDIS_ERR \<or> r = REDIS_OK \<and> (\<exists>d n. cc_nodes t = Some d \<and> dict_map d (cstr a) = Some n)"
          using t(4) unfolding entered_def by blast
        moreover have "no_oom (w_script t) \<and> (\<forall>hp. option_address (cstr a) = Some hp \<longrightarrow> r = REDIS_OK \<and> entered (cstr a) hp t)" if "no_oom (w_script s)"
          using that st(5) 2(3) t(4,5) None by auto
        ultimately show ?thesis using t(3) by blast
      next
        case (Some n)
        then have "redisClusterSetOptionAddNode a s = Some (REDIS_OK, ?s2)" using run r2 by (simp add: dictFind_map [OF wf])
        moreover have "\<exists>d n. cc_nodes ?s2 = Some d \<and> dict_map d (cstr a) = Some n" using st(3) \<open>D = Some d\<close> Some by auto
        moreover have "\<not> (\<forall>e. cc_nodes s = Some e \<longrightarrow> dict_map e (cstr a) = None)" using st(6) \<open>D = Some d\<close> Some by auto
        ultimately show ?thesis
          using off [OF off_map_script [of s1 al]] st(5) 2(3) by (intro exI [of _ REDIS_OK] exI [of _ ?s2]) auto
      qed
    qed
  qed
qed

lemma entered_grown:
  assumes "entered a hp s" "grown s t"
  shows "entered a hp t"
proof -
  obtain d n nd where e: "cc_nodes s = Some d" "dict_map d a = Some n" "node_at s n = Some nd" "n_host nd = Some (fst hp)" "n_port nd = word_of_int (snd hp)"
    using assms(1) by (auto simp: entered_def)
  obtain d' where "cc_nodes t = Some d'" "dict_map d' a = Some n" using assms(2) e(1,2) unfolding grown_def by blast
  moreover have "node_at t n = Some nd" using assms(2) known_member [OF e(1,2)] e(3) by (simp add: grown_def)
  ultimately show ?thesis using e(4,5) by (auto simp: entered_def)
qed

lemma add_nodes_loop_ex:
  assumes "cluster_inv s" and "room (length as) s"
  shows "\<exists>r t. add_nodes_loop as s = Some (r, t) \<and> grown s t \<and> (r = REDIS_OK \<or> r = REDIS_ERR)"
  using assms
proof (induction as arbitrary: s)
  case Nil
  then show ?case using off_map_grown [OF off_map_refl] by simp
next
  case (Cons a as)
  obtain r t where t: "redisClusterSetOptionAddNode a s = Some (r, t)" "grown s t" "room (length as) t"
    using redisClusterSetOptionAddNode_ex [OF Cons.prems(1), of "length as" a] Cons.prems(2) by (auto simp: grown_by_def)
  obtain r' u where u: "add_nodes_loop as t = Some (r', u)" "grown t u" "r' = REDIS_OK \<or> r' = REDIS_ERR"
    using Cons.IH [of t] t(2,3) by (auto simp: grown_def)
  show ?case using t(1,2) u grown_trans [OF t(2) u(2)] by (cases "r = REDIS_OK") auto
qed

text \<open>An address that is already known keeps its node; a new one gets a node with its host and port.\<close>

lemma add_nodes_loop_run:
  assumes "cluster_inv s" and "room (length as) s" and "no_oom (w_script s)"
    and "\<forall>a \<in> set as. option_address (cstr a) \<noteq> None"
  shows "\<exists>t. add_nodes_loop as s = Some (REDIS_OK, t) \<and> grown s t \<and> no_oom (w_script t) \<and>
     (\<forall>a \<in> set as. (\<forall>d. cc_nodes s = Some d \<longrightarrow> dict_map d (cstr a) = None) \<longrightarrow> entered (cstr a) (the (option_address (cstr a))) t)"
  using assms
proof (induction as arbitrary: s)
  case Nil
  then show ?case using off_map_grown [OF off_map_refl] by simp
next
  case (Cons a as)
  let ?hp = "\<lambda>a. the (option_address (cstr a))"
  obtain hp where hp: "option_address (cstr a) = Some hp" using Cons.prems(4) by auto
  obtain r t where t: "redisClusterSetOptionAddNode a s = Some (r, t)" "grown_by (cstr a) s t" "room (length as) t" "no_oom (w_script t)" "r = REDIS_OK"
     "(\<forall>d. cc_nodes s = Some d \<longrightarrow> dict_map d (cstr a) = None) \<longrightarrow> entered (cstr a) hp t"
    using redisClusterSetOptionAddNode_ex [OF Cons.prems(1), of "length as" a] Cons.prems(2,3) hp by fastforce
  note g = t(2) [unfolded grown_by_def, THEN conjunct1]
  obtain u where u: "add_nodes_loop as t = Some (REDIS_OK, u)" "grown t u" "no_oom (w_script u)"
     "\<forall>a \<in> set as. (\<forall>d. cc_nodes t = Some d \<longrightarrow> dict_map d (cstr a) = None) \<longrightarrow> entered (cstr a) (?hp a) u"
    using Cons.IH [of t] g t(3,4) Cons.prems(4) by (auto simp: grown_def)
  have a: "entered (cstr a) (?hp a) u" if "\<forall>d. cc_nodes s = Some d \<longrightarrow> dict_map d (cstr a) = None"
    using t(6) that hp entered_grown [OF _ u(2)] by simp
  have "entered (cstr b) (?hp b) u" if b: "b \<in> set as" "\<forall>d. cc_nodes s = Some d \<longrightarrow> dict_map d (cstr b) = None" for b
  proof (cases "cstr b = cstr a")
    case True
    with a b(2) show ?thesis by simp
  next
    case False
    have "dict_map d (cstr b) = None" if "cc_nodes t = Some d" for d
      using t(2) that False b(2) unfolding grown_by_def by (metis option.distinct(1) option.exhaust)
    with u(4) b(1) show ?thesis by blast
  qed
  with a show ?case using t(1,5) u(1,3) grown_trans [OF g u(2)] by auto
qed

end
