(* ===== verification/Slotmap_Props.thy ===== *)
theory Slotmap_Props
  imports Options_Inv
begin

text \<open>
  The properties of the slot map and of the options, each with an application to a client of one server.
\<close>

section \<open>A client of one server\<close>

definition demo_cc :: "(unit, unit) cluster" where
  "demo_cc = the (redisClusterContextInit [] ())"

definition demo_reply :: redisReply where
  "demo_reply = REDIS_REPLY_ARRAY
     [REDIS_REPLY_ARRAY [REDIS_REPLY_INTEGER 0, REDIS_REPLY_INTEGER 8191,
        REDIS_REPLY_ARRAY [REDIS_REPLY_STRING ''10.0.0.1'', REDIS_REPLY_INTEGER 7000]],
      REDIS_REPLY_ARRAY [REDIS_REPLY_INTEGER 8192, REDIS_REPLY_INTEGER 16383,
        REDIS_REPLY_ARRAY [REDIS_REPLY_STRING ''10.0.0.2'', REDIS_REPLY_INTEGER 7001]]]"

text \<open>A hiredis that connects at once and gives the same reply to every command.\<close>

definition demo_ctx :: redisContext where
  "demo_ctx = \<lparr>rc_err = 0, rc_errstr = '''', rc_host = Some ''10.0.0.1'', rc_fd = 3\<rparr>"

definition demo_hiredis :: "redisReply \<Rightarrow> unit hiredis" where
  "demo_hiredis r =
     \<lparr>redisConnectWithOptions = (\<lambda>h p t1 t2 w. (Some demo_ctx, w)),
      redisReconnect = (\<lambda>c w. (REDIS_OK, c, w)),
      ssl_init_fn = (\<lambda>c w. (REDIS_OK, c, w)),
      redisCommand = (\<lambda>args c w. (Some r, c, w)),
      redisAppendCommand = (\<lambda>args c w. (REDIS_OK, c, w)),
      redisAppendFormattedCommand = (\<lambda>cmd c w. (REDIS_OK, c, w)),
      redisBufferWrite = (\<lambda>c w. (REDIS_OK, c, w)),
      redisGetReply = (\<lambda>c w. ((REDIS_OK, Some r), c, w))\<rparr>"

lemma demo_replies: "reply_ok r \<Longrightarrow> replies_ok (demo_hiredis r)"
  by (simp add: replies_ok_def reply_answers_def demo_hiredis_def)

lemma demo_cc_simps [simp]:
  "cc_nodes demo_cc = None" "cc_table demo_cc = None" "w_script demo_cc = []" "w_nodes demo_cc = []" "w_cons demo_cc = []"
  "cc_flags demo_cc = 0" "w_world demo_cc = ()" "cc_event_callback demo_cc = False" "cc_command_timeout demo_cc = None"
  by (simp_all add: demo_cc_def redisClusterContextInit_def)

lemma demo_inv: "cluster_inv demo_cc"
  by (simp add: cluster_inv_def)

lemma demo_reply_ok: "reply_ok demo_reply"
  by (simp add: reply_ok_def elements_ok_def demo_reply_def)

text \<open>The same context with an open connection at the address 0.\<close>

abbreviation demo_con :: "(unit, unit) cluster" where
  "demo_con \<equiv> demo_cc\<lparr>w_cons := [Some demo_ctx]\<rparr>"

lemma demo_con_inv: "cluster_inv demo_con"
  by (simp add: cluster_inv_def)

definition demo_regions :: "region list" where
  "demo_regions = [(0, 8191, ''10.0.0.1'', 7000), (8192, 16383, ''10.0.0.2'', 7001)]"

abbreviation demo_range :: "int \<Rightarrow> int \<Rightarrow> string \<Rightarrow> int \<Rightarrow> redisReply" where
  "demo_range a b h p \<equiv> REDIS_REPLY_ARRAY [REDIS_REPLY_INTEGER a, REDIS_REPLY_INTEGER b,
     REDIS_REPLY_ARRAY [REDIS_REPLY_STRING h, REDIS_REPLY_INTEGER p]]"

lemma demo_range_reads:
  assumes "0 \<le> a" "a \<le> b" "b < 2 ^ 32" "h \<noteq> []" "1 \<le> p" "p \<le> 65535"
  shows "region_reads th (demo_range a b h p) = Some (word_of_int a, word_of_int b, h, p)"
proof -
  have "sint (word_of_int p :: 32 word) = p" using assms by (intro signed_take_bit_int_eq_self [THEN trans [OF sint_sbintrunc']]) auto
  moreover have "(word_of_int a :: u32) \<le> word_of_int b" using assms by (simp add: word_le_def uint_word_of_int)
  ultimately show ?thesis using assms by (simp add: region_reads_def node_reads_def elem_type_ok_def hi_valid_port_def)
qed

lemma demo_regions_ok: "regions_ok demo_regions" "\<not> regions_ok (demo_regions @ [(5, 6, ''h'', 1)])"
  by (auto simp: regions_ok_def demo_regions_def holds_def intro!: exI [of _ 5])

lemma demo_reads:
  "map (region_reads th) [demo_range 0 8191 ''10.0.0.1'' 7000, demo_range 8192 16383 ''10.0.0.2'' 7001] = map Some demo_regions"
  "map (region_reads th) [demo_range 0 8191 ''10.0.0.1'' 7000, demo_range 8192 16383 ''10.0.0.2'' 7001, demo_range 5 6 ''h'' 1] =
     map Some (demo_regions @ [(5, 6, ''h'', 1)])"
  by (simp_all add: demo_range_reads demo_regions_def)

lemma demo_answers: "answers (demo_hiredis r) 0 (demo_con\<lparr>w_cons := [Some (demo_ctx\<lparr>rc_host := None\<rparr>)]\<rparr>) r None"
  by (simp add: answers_def demo_hiredis_def store_at_def demo_ctx_def)

section \<open>The CLUSTER SLOTS reply\<close>

text \<open>
  C9. Parsing a CLUSTER SLOTS reply is safe: for every reply whose elements are present, of any types and
  values, and whichever allocations fail, \<open>parse_cluster_slots\<close> returns without using or freeing freed memory and
  changes no node that was known before; a table that it returns owns each of its nodes exactly once, and all of
  these are new.
\<close>

theorem parse_cluster_slots_safe:
  assumes "reply_ok r" and "cluster_inv s"
  shows "\<exists>res t. parse_cluster_slots L tcp_host (Some r) s = Some (res, t) \<and> cluster_inv t \<and> kept s t \<and>
     (\<forall>d. res = Some d \<longrightarrow> nodes_own d t \<and> (\<forall>x. owns d t x \<longrightarrow> length (w_nodes s) \<le> x))"
proof -
  obtain res t where t: "parse_cluster_slots L tcp_host (Some r) s = Some (res, t)" "parse_step (length (w_nodes s)) s t"
     "\<forall>d. res = Some d \<longrightarrow> building (length (w_nodes s)) d t"
    using parse_cluster_slots_ex [of r L tcp_host s] assms(1) by (cases r) (auto simp: reply_ok_def)
  then show ?thesis
    using parse_step_kept [OF assms(2) t(2) order_refl] by (auto simp: building_def nodes_fresh_def)
qed

theorem parse_cluster_slots_safe_witness:
  "\<exists>res t. parse_cluster_slots ref_sds None (Some demo_reply) demo_cc = Some (res, t) \<and> cluster_inv t"
  using parse_cluster_slots_safe [OF demo_reply_ok demo_inv, of ref_sds None] by blast

text \<open>
  C3. A well-formed CLUSTER SLOTS reply gives the table it describes: when the reply lists the ranges \<open>rs\<close>, which
  are valid and do not overlap, and memory suffices, then \<open>handleClusterSlotsReply\<close> succeeds, and every slot is
  served by a node with the host and port of the range that holds it, or by no node where no range does. A node
  whose address was known keeps its connections, the invariant holds, and the route version grows by one.
\<close>

theorem cluster_slots_reply_gives_table:
  assumes "answers H c s (REDIS_REPLY_ARRAY es) th" and "map (region_reads th) es = map Some rs" and "es \<noteq> []" "length es < 2 ^ 30"
    and "regions_ok rs" and "cluster_inv s" and "sds_ok L" and "no_oom (w_script s)"
  shows "\<exists>t. handleClusterSlotsReply L H c s = Some (REDIS_OK, t) \<and> cluster_inv t \<and>
     cc_need_update_route t = 0 \<and> cc_route_version t = cc_route_version s + 1 \<and>
     (\<forall>i < REDIS_CLUSTER_SLOTS. routes_to t i (slot_owner rs i)) \<and>
     (\<forall>d k n nd. cc_nodes t = Some d \<longrightarrow> dict_map d k = Some n \<longrightarrow> node_at t n = Some nd \<longrightarrow>
        n_con nd = old_con s k \<and> n_acon nd = old_acon s k)"
  using slots_reply_table [OF assms(1,6,2,3,4,7,8,5)] by blast

theorem cluster_slots_reply_gives_table_witness:
  "\<exists>t. handleClusterSlotsReply ref_sds
       (demo_hiredis (REDIS_REPLY_ARRAY [demo_range 0 8191 ''10.0.0.1'' 7000, demo_range 8192 16383 ''10.0.0.2'' 7001])) 0
       (demo_cc\<lparr>w_cons := [Some (demo_ctx\<lparr>rc_host := None\<rparr>)]\<rparr>) = Some (REDIS_OK, t) \<and>
     routes_to t 8191 (Some (''10.0.0.1'', 7000)) \<and> routes_to t 8192 (Some (''10.0.0.2'', 7001))"
proof -
  have inv: "cluster_inv (demo_cc\<lparr>w_cons := [Some (demo_ctx\<lparr>rc_host := None\<rparr>)]\<rparr>)" by (simp add: cluster_inv_def)
  have "slot_owner demo_regions 8191 = Some (''10.0.0.1'', 7000)" "slot_owner demo_regions 8192 = Some (''10.0.0.2'', 7001)"
    by (simp_all add: slot_owner_def demo_regions_def holds_def)
  note own = this
  let ?H = "demo_hiredis (REDIS_REPLY_ARRAY [demo_range 0 8191 ''10.0.0.1'' 7000, demo_range 8192 16383 ''10.0.0.2'' 7001])"
  obtain t where t: "handleClusterSlotsReply ref_sds ?H 0 (demo_cc\<lparr>w_cons := [Some (demo_ctx\<lparr>rc_host := None\<rparr>)]\<rparr>) = Some (REDIS_OK, t)"
     "\<forall>i < REDIS_CLUSTER_SLOTS. routes_to t i (slot_owner demo_regions i)"
    using cluster_slots_reply_gives_table [OF demo_answers demo_reads(1) _ _ demo_regions_ok(1) _ ref_sds_ok] inv by auto
  have "routes_to t 8191 (slot_owner demo_regions 8191)" "routes_to t 8192 (slot_owner demo_regions 8192)" using t(2) by simp_all
  with t(1) show ?thesis unfolding own by blast
qed

text \<open>
  C36. A reply whose ranges overlap or leave the slot numbers is refused: \<open>handleClusterSlotsReply\<close> returns an error,
  and the nodes, the table and the invariant stay as they were.
\<close>

theorem bad_ranges_keep_old_map:
  assumes "answers H c s (REDIS_REPLY_ARRAY es) th" and "map (region_reads th) es = map Some rs" and "es \<noteq> []" "length es < 2 ^ 30"
    and "\<not> regions_ok rs" and "cluster_inv s" and "sds_ok L" and "no_oom (w_script s)"
  shows "\<exists>t. handleClusterSlotsReply L H c s = Some (REDIS_ERR, t) \<and> cluster_inv t \<and> kept s t"
  using slots_reply_overlap [OF assms(1,6,2,3,4,7,8,5)] .

theorem bad_ranges_keep_old_map_witness:
  "\<exists>t. handleClusterSlotsReply ref_sds
       (demo_hiredis (REDIS_REPLY_ARRAY [demo_range 0 8191 ''10.0.0.1'' 7000, demo_range 8192 16383 ''10.0.0.2'' 7001, demo_range 5 6 ''h'' 1])) 0
       (demo_cc\<lparr>w_cons := [Some (demo_ctx\<lparr>rc_host := None\<rparr>)]\<rparr>) = Some (REDIS_ERR, t) \<and> cc_table t = None"
proof -
  have inv: "cluster_inv (demo_cc\<lparr>w_cons := [Some (demo_ctx\<lparr>rc_host := None\<rparr>)]\<rparr>)" by (simp add: cluster_inv_def)
  then show ?thesis
    using bad_ranges_keep_old_map [OF demo_answers demo_reads(2) _ _ demo_regions_ok(2) _ ref_sds_ok] by (fastforce simp: kept_def)
qed



section \<open>Options and the life of a context\<close>




lemma release_nodes_dict_ex:
  assumes own: "nodes_own d s"
  shows "\<exists>t. release_nodes_dict d s = Some t \<and> cc_nodes t = cc_nodes s \<and> cc_table t = cc_table s \<and>
     (\<forall>x. node_at t x = (if owns d s x then None else node_at s x)) \<and>
     (\<forall>x nd. owns d s x \<longrightarrow> node_at s x = Some nd \<longrightarrow>
        (\<forall>c. n_con nd = Some c \<longrightarrow> con_at t c = None) \<and> (\<forall>a. n_acon nd = Some a \<longrightarrow> acon_at t a = None))"
proof -
  have mem: "x \<in> set (owned_by d s) \<longleftrightarrow> owns d s x" for x using set_owned_by [OF nodes_ownD(1) [OF own]] .
  have dis: "distinct (owned_by d s)" using nodes_own_free_ok [OF own] by (simp add: free_ok_def)
  have live: "\<forall>x \<in> set (owned_by d s). node_at s x \<noteq> None" using owns_live [OF own] mem by blast
  have "con_at (release_all (owned_by d s) s) c = None" if "owns d s x" "node_at s x = Some nd" "n_con nd = Some c" for x nd c
    using release_all_con [OF dis live, of c] that mem by auto
  moreover have "acon_at (release_all (owned_by d s) s) a = None" if "owns d s x" "node_at s x = Some nd" "n_acon nd = Some a" for x nd a
    using release_all_con [OF dis live, of a] that mem by auto
  ultimately show ?thesis using release_dict_own [OF own] mem by (intro exI [of _ "release_all (owned_by d s) s"]) simp
qed



section \<open>The CLUSTER NODES reply\<close>

text \<open>For evaluation, the limit of \<open>dictNextPower\<close> is compared as an integer.\<close>

lemma dictNextPower_code [code]:
  "dictNextPower sz = (if int sz \<ge> 9223372036854775807 then nat 9223372036854775807 else next_power_loop DICT_HT_INITIAL_SIZE sz)"
proof -
  have "(2 ^ 63 - 1 :: nat) = 9223372036854775807" by simp
  then show ?thesis unfolding dictNextPower_def by simp
qed

definition twice_named :: string where
  "twice_named = ''a 1:1 master - 0 0 0 c 0'' @ [LF] @ ''a 1:2 master - 0 0 0 c 1'' @ [LF]"


end
