(* ===== verification/Sync_Inv.thy ===== *)
theory Sync_Inv
  imports Slotmap_Props Pipeline
begin

text \<open>
  The synchronous interface keeps the invariant of the context. A step on the connections of known nodes is
  described by \<open>linked\<close>: the tables and the known nodes stay, and no open connection is closed.
\<close>

section \<open>Connections of known nodes\<close>

definition linked :: "('c, 'w, 'z) cluster_scheme \<Rightarrow> ('c, 'w, 'z) cluster_scheme \<Rightarrow> bool" where
  "linked s t \<longleftrightarrow> cluster_inv t \<and> same_conf s t \<and> cc_nodes t = cc_nodes s \<and> cc_table t = cc_table s \<and>
     cc_route_version t = cc_route_version s \<and> (\<forall>a. con_at s a \<noteq> None \<longrightarrow> con_at t a \<noteq> None) \<and> (\<forall>x. known t x = known s x)"

lemma linked_refl [simp]: "linked s s = cluster_inv s"
  by (simp add: linked_def)

lemma linked_trans [trans]: "linked s t \<Longrightarrow> linked t u \<Longrightarrow> linked s u"
  unfolding linked_def using same_conf_trans by metis

lemma talk_linked: "talk c s t \<Longrightarrow> cluster_inv s \<Longrightarrow> linked s t"
  using talk_kept [of c s t] by (simp add: linked_def talk_def)

lemma linked_error: "cluster_inv s \<Longrightarrow> linked s (redisClusterSetError e m s)"
  using cluster_inv_cong [of "redisClusterSetError e m s" s] known_kept [of s "redisClusterSetError e m s"]
  by (simp add: linked_def same_conf_def redisClusterSetError_def Let_def kept_def)

lemma linked_clear: "cluster_inv s \<Longrightarrow> linked s (clear_error s)"
  using cluster_inv_cong [of "clear_error s" s] known_kept [of s "clear_error s"]
  by (simp add: linked_def same_conf_def clear_error_def kept_def)

lemma talk_log: "con_at s c \<noteq> None \<Longrightarrow> talk c s (cc_log e s)"
  by (simp add: talk_def same_conf_def cc_log_def)

text \<open>A connection of its own can be given to a known node.\<close>

lemma attach_con:
  assumes inv: "cluster_inv s" and n: "known s n" "node_at s n = Some nd" and c: "con_free c s" "con_at s c \<noteq> None"
  shows "linked s (node_put n (nd\<lparr>n_con := Some c\<rparr>) s)"
proof -
  let ?t = "node_put n (nd\<lparr>n_con := Some c\<rparr>) s"
  have at: "node_at ?t x = (if x = n then Some (nd\<lparr>n_con := Some c\<rparr>) else node_at s x)" for x
    using store_at_less [OF n(2)] by (simp add: node_put_def)
  have st: "struct_at ?t x = struct_at s x" for x using n(2) at by (simp add: struct_at_def)
  have ow: "owns d ?t x = owns d s x" for d x by (rule owns_struct) (rule st)
  have f: "cc_nodes ?t = cc_nodes s" "cc_table ?t = cc_table s" "w_cons ?t = w_cons s" "w_acons ?t = w_acons s" by (simp_all add: node_put_def)
  have cons: "conns_ok d ?t" if d: "cc_nodes s = Some d" "conns_ok d s" for d
  proof -
    have fr: "n_con nd' \<noteq> Some c" if "owns d s x" "node_at s x = Some nd'" for x nd'
      using c(1) that d(1) by (auto simp: con_free_def known_def)
    have on: "owns d s n" using n(1) d(1) by (auto simp: known_def)
    show ?thesis
      unfolding conns_ok_def ow f
    proof (intro conjI [of "\<forall>x nd. _ x nd"] allI impI)
      show "(\<forall>a. n_con nd' = Some a \<longrightarrow> con_at s a \<noteq> None) \<and> (\<forall>a. n_acon nd' = Some a \<longrightarrow> (\<exists>ac. acon_at s a = Some ac \<and> ac_data ac = Some x))"
        if x: "owns d s x" "node_at ?t x = Some nd'" for x nd'
      proof -
        have old: "(\<forall>a. n_con m = Some a \<longrightarrow> con_at s a \<noteq> None) \<and> (\<forall>a. n_acon m = Some a \<longrightarrow> (\<exists>ac. acon_at s a = Some ac \<and> ac_data ac = Some x))"
          if "node_at s x = Some m" for m
          using d(2) x(1) that unfolding conns_ok_def by blast
        show ?thesis
        proof (cases "x = n")
          case True
          then show ?thesis using old [of nd] n(2) x(2) at [of x] c(2) by auto
        next
          case False
          then show ?thesis using old [of nd'] x(2) at [of x] by simp
        qed
      qed
      show "(n_con n1 = None \<or> n_con n1 \<noteq> n_con n2) \<and> (n_acon n1 = None \<or> n_acon n1 \<noteq> n_acon n2)"
        if xy: "owns d s x" "owns d s y" "node_at ?t x = Some n1" "node_at ?t y = Some n2" "x \<noteq> y" for x y n1 n2
      proof -
        have old: "(n_con m1 = None \<or> n_con m1 \<noteq> n_con m2) \<and> (n_acon m1 = None \<or> n_acon m1 \<noteq> n_acon m2)"
          if "node_at s x = Some m1" "node_at s y = Some m2" for m1 m2
          using d(2) xy(1,2,5) that unfolding conns_ok_def by blast
        consider "x = n" "y \<noteq> n" | "x \<noteq> n" "y = n" | "x \<noteq> n" "y \<noteq> n" using xy(5) by blast
        then show ?thesis
        proof cases
          case 1
          then show ?thesis using old [OF n(2) [folded 1(1)]] xy at [of x] at [of y] fr [OF xy(2)] by auto
        next
          case 2
          then show ?thesis using old [OF _ n(2) [folded 2(2)]] xy at [of x] at [of y] fr [OF xy(1)] by auto
        next
          case 3
          then show ?thesis using old xy at [of x] at [of y] by simp
        qed
      qed
    qed
  qed
  have "cluster_inv ?t"
    using inv cons nodes_own_struct [OF _ st] unfolding cluster_inv_def f by blast
  moreover have "known ?t x = known s x" for x unfolding known_def f ow ..
  ultimately show ?thesis by (simp add: linked_def f same_conf_def node_put_def)
qed

lemma connect_host_cons:
  assumes "connect_host H host port s = (c, t)"
  shows "con_at s a \<noteq> None \<Longrightarrow> con_at t a = con_at s a" "w_nodes t = w_nodes s"
proof -
  obtain r w where r: "redisConnectWithOptions H host port (cc_connect_timeout s) (cc_command_timeout s) (w_world s) = (r, w)"
    by (cases "redisConnectWithOptions H host port (cc_connect_timeout s) (cc_command_timeout s) (w_world s)")
  have "w_nodes t = w_nodes s \<and> (w_cons t = w_cons s \<or> (\<exists>x. w_cons t = w_cons s @ [x]))"
    using assms r by (cases r) (auto simp: connect_host_def Let_def cc_log_def redisClusterSetError_def)
  then show "con_at s a \<noteq> None \<Longrightarrow> con_at t a = con_at s a" "w_nodes t = w_nodes s" by (auto dest: store_at_less)
qed

text \<open>A connection that fails before it is given to a node is closed again.\<close>

lemma drop_con:
  assumes inv: "cluster_inv s" and h: "connect_host H host port s = (Some c, s1)" and t: "talk c s1 t"
  shows "linked s (redisFree (Some c) t)"
proof -
  have 1: "cluster_inv s1" "kept s s1" "same_conf s s1" "con_at s1 c \<noteq> None" "con_free c s1" "c = length (w_cons s)"
    using connect_host_ex [OF inv, of H host port] h by auto
  have k: "kept s t" using kept_trans [OF 1(2) talk_kept(1) [OF t]] .
  have "con_free c t" using kept_con_free [OF talk_kept(1) [OF t]] 1(5) by simp
  with redisFree_inv [OF talk_kept(2) [OF t 1(1)]] have i: "cluster_inv (redisFree (Some c) t)" .
  have "con_at (redisFree (Some c) t) a \<noteq> None" if a: "con_at s a \<noteq> None" for a
  proof -
    have "a \<noteq> c" using store_at_less a 1(6) by fastforce
    moreover have "con_at t a \<noteq> None" using t connect_host_cons(1) [OF h a] a by (simp add: talk_def)
    ultimately show ?thesis by (simp add: redisFree_def)
  qed
  moreover have "kept s (redisFree (Some c) t)" "same_conf s (redisFree (Some c) t)"
    using k same_conf_trans [OF 1(3) talk_kept(4) [OF t]] by (simp_all add: kept_def same_conf_def redisFree_def)
  ultimately show ?thesis using i known_kept [of s "redisFree (Some c) t"] by (simp add: linked_def kept_def)
qed

text \<open>Asking a known node for its connection: it is one of the open ones, an old or a new one.\<close>

lemma reconnect_ex:
  assumes c: "con_at s c \<noteq> None"
  shows "\<exists>t. (do { (_, s1) \<leftarrow> on_con (redisReconnect H) c s;
              ctx1 \<leftarrow> con_at s1 c;
              let s2 = (if cc_on_connect s1
                        then cc_log (ON_CONNECT c (if rc_err ctx1 \<noteq> 0 then REDIS_ERR else REDIS_OK)) s1 else s1);
              (_, s3) \<leftarrow> ssl_init H c s2;
              (_, s4) \<leftarrow> authenticate H c s3;
              Some (Some c, s4) }) = Some (Some c, t) \<and> talk c s t"
proof -
  obtain r s1 where 1: "on_con (redisReconnect H) c s = Some (r, s1)" "talk c s s1" using on_con_ex [OF c, of "redisReconnect H"] by blast
  obtain ctx where ctx: "con_at s1 c = Some ctx" using talk_con [OF 1(2)] by blast
  let ?s2 = "if cc_on_connect s1 then cc_log (ON_CONNECT c (if rc_err ctx \<noteq> 0 then REDIS_ERR else REDIS_OK)) s1 else s1"
  have 2: "talk c s ?s2" using talk_trans [OF 1(2) talk_log] 1(2) ctx by simp
  obtain r3 s3 where 3: "ssl_init H c ?s2 = Some (r3, s3)" "talk c ?s2 s3" using ssl_init_ex [OF talk_con [OF 2], of H] by blast
  obtain r4 s4 where 4: "authenticate H c s3 = Some (r4, s4)" "talk c s3 s4" using authenticate_ex [OF talk_con [OF 3(2)], of H] by blast
  have "talk c s s4" using talk_trans [OF talk_trans [OF 2 3(2)] 4(2)] .
  with 1(1) ctx 3(1) 4(1) show ?thesis by (simp add: Let_def)
qed

lemma open_con_ex:
  assumes inv: "cluster_inv s" and n: "known s n" and h: "connect_host H host port s = (Some c, s1)"
  shows "\<exists>r t. (do { ctx \<leftarrow> con_at s1 c;
               if rc_err ctx \<noteq> 0 then do { s2 \<leftarrow> con_error c s1; Some (None, redisFree (Some c) s2) }
               else
                 do { (r, s2) \<leftarrow> ssl_init H c s1;
                      if r \<noteq> REDIS_OK then Some (None, redisFree (Some c) s2)
                      else
                        do { (r2, s3) \<leftarrow> authenticate H c s2;
                             if r2 \<noteq> REDIS_OK then Some (None, redisFree (Some c) s3)
                             else
                               do { nd3 \<leftarrow> node_at s3 n;
                                    Some (Some c, node_put n (nd3\<lparr>n_con := Some c\<rparr>) s3) } } } }) = Some (r, t) \<and>
     linked s t \<and> (\<forall>a. r = Some a \<longrightarrow> con_at t a \<noteq> None)"
proof -
  have 1: "cluster_inv s1" "kept s s1" "same_conf s s1" "con_at s1 c \<noteq> None" "con_free c s1" "c = length (w_cons s)"
    using connect_host_ex [OF inv, of H host port] h by auto
  obtain ctx where ctx: "con_at s1 c = Some ctx" using 1(4) by blast
  obtain e where e: "con_error c s1 = Some e" "talk c s1 e" using con_error_ex [OF 1(4)] by blast
  obtain r2 s2 where 2: "ssl_init H c s1 = Some (r2, s2)" "talk c s1 s2" using ssl_init_ex [OF 1(4), of H] by blast
  obtain r3 s3 where 3: "authenticate H c s2 = Some (r3, s3)" "talk c s2 s3" using authenticate_ex [OF talk_con [OF 2(2)], of H] by blast
  have t3: "talk c s1 s3" using talk_trans [OF 2(2) 3(2)] .
  note d = drop_con [OF inv h e(2)] drop_con [OF inv h 2(2)] drop_con [OF inv h t3]
  have "kept s s3" using kept_trans [OF 1(2) talk_kept(1) [OF t3]] .
  then have n3: "known s3 n" and at3: "node_at s3 n = node_at s n" using known_kept n by (auto simp: kept_def)
  obtain nd where nd: "node_at s n = Some nd" using inv n owns_live unfolding known_def cluster_inv_def by blast
  have "con_at s3 c \<noteq> None" "con_free c s3" using talk_con [OF 3(2)] kept_con_free [OF talk_kept(1) [OF t3]] 1(5) by simp_all
  then have "linked s3 (node_put n (nd\<lparr>n_con := Some c\<rparr>) s3)" "con_at (node_put n (nd\<lparr>n_con := Some c\<rparr>) s3) c \<noteq> None"
    using attach_con [OF talk_kept(2) [OF t3 1(1)] n3] at3 nd by (simp_all add: node_put_def)
  moreover have "linked s s3"
  proof -
    have "con_at s3 a \<noteq> None" if "con_at s a \<noteq> None" for a
      using that t3 connect_host_cons(1) [OF h that] by (simp add: talk_def)
    with \<open>kept s s3\<close> talk_kept(2) [OF t3 1(1)] same_conf_trans [OF 1(3) talk_kept(4) [OF t3]] known_kept [OF \<open>kept s s3\<close>]
    show ?thesis by (simp add: linked_def kept_def)
  qed
  ultimately have ok: "linked s (node_put n (nd\<lparr>n_con := Some c\<rparr>) s3)" "con_at (node_put n (nd\<lparr>n_con := Some c\<rparr>) s3) c \<noteq> None"
    using linked_trans by blast+
  consider "rc_err ctx \<noteq> 0" | "rc_err ctx = 0" "r2 \<noteq> REDIS_OK" | "rc_err ctx = 0" "r2 = REDIS_OK" "r3 \<noteq> REDIS_OK"
    | "rc_err ctx = 0" "r2 = REDIS_OK" "r3 = REDIS_OK"
    by blast
  then show ?thesis
    by cases (use d ok ctx e(1) 2(1) 3(1) at3 nd in simp_all)
qed

lemma ctx_get_by_node_ex:
  assumes inv: "cluster_inv s" and n: "known s n"
  shows "\<exists>c t. ctx_get_by_node H n s = Some (c, t) \<and> linked s t \<and> (\<forall>a. c = Some a \<longrightarrow> con_at t a \<noteq> None)"
proof -
  obtain d where d: "cc_nodes s = Some d" "owns d s n" using n by (auto simp: known_def)
  then obtain nd where nd: "node_at s n = Some nd" using inv owns_live unfolding cluster_inv_def by blast
  show ?thesis
  proof (cases "n_con nd")
    case (Some c)
    then have c: "con_at s c \<noteq> None" using inv d nd unfolding cluster_inv_def conns_ok_def by blast
    then obtain ctx where ctx: "con_at s c = Some ctx" by blast
    show ?thesis
    proof (cases "rc_err ctx = 0")
      case True
      with nd Some ctx inv show ?thesis by (simp add: ctx_get_by_node_def)
    next
      case False
      from reconnect_ex [OF c, of H] obtain t where "ctx_get_by_node H n s = Some (Some c, t)" "talk c s t"
        using nd Some ctx False by (auto simp: ctx_get_by_node_def)
      then show ?thesis using talk_linked [OF _ inv] talk_con by blast
    qed
  next
    case None
    show ?thesis
    proof (cases "\<exists>host. n_host nd = Some host \<and> n_port nd > 0")
      case False
      then have "ctx_get_by_node H n s = Some (None, s)"
        using nd None by (auto simp: ctx_get_by_node_def word_le_0_iff word_gt_0 split: option.splits)
      with inv show ?thesis by simp
    next
      case True
      then obtain host where h: "n_host nd = Some host" "\<not> n_port nd \<le> 0" by auto
      obtain c s1 where 1: "connect_host H host (uint (n_port nd)) s = (c, s1)" by (cases "connect_host H host (uint (n_port nd)) s")
      show ?thesis
      proof (cases c)
        case None
        have "cluster_inv s1" "kept s s1" "same_conf s s1" using connect_host_ex [OF inv, of H host "uint (n_port nd)"] 1 by auto
        moreover have "con_at s1 a \<noteq> None" if "con_at s a \<noteq> None" for a using connect_host_cons(1) [OF 1 that] that by simp
        ultimately have "linked s s1" using known_kept [of s s1] by (simp add: linked_def kept_def)
        with nd \<open>n_con nd = None\<close> h 1 None show ?thesis by (simp add: ctx_get_by_node_def)
      next
        case (Some a)
        with open_con_ex [OF inv n, of H host "uint (n_port nd)" a s1] nd \<open>n_con nd = None\<close> h 1 show ?thesis
          by (simp add: ctx_get_by_node_def)
      qed
    qed
  qed
qed

section \<open>Nodes of slots\<close>

lemma table_known:
  assumes "cluster_inv s" "cc_table s = Some tab" "i < length tab" "tab ! i = Some n"
  shows "known s n"
proof -
  have "Some n \<in> set tab" using assms(3,4) nth_mem by metis
  then obtain d k where "cc_nodes s = Some d" "dict_map d k = Some n" using assms(1,2) unfolding cluster_inv_def by blast
  then show ?thesis by (rule known_member)
qed

lemma node_get_by_table_ex:
  assumes inv: "cluster_inv s"
  shows "\<exists>r t. node_get_by_table i s = (r, t) \<and> linked s t \<and> (\<forall>n. r = Some n \<longrightarrow> known t n)"
proof (cases "unat i < REDIS_CLUSTER_SLOTS \<and> cc_table s \<noteq> None")
  case False
  then show ?thesis using linked_error [OF inv] by (auto simp: node_get_by_table_def)
next
  case True
  then obtain tab where tab: "cc_table s = Some tab" "unat i < length tab" using inv by (auto simp: cluster_inv_def)
  show ?thesis
  proof (cases "tab ! unat i")
    case None
    with True tab show ?thesis using linked_error [OF inv] by (simp add: node_get_by_table_def)
  next
    case (Some n)
    with True tab table_known [OF inv tab Some] inv show ?thesis by (simp add: node_get_by_table_def)
  qed
qed

lemma usable_ex:
  assumes "con_at s c \<noteq> None"
  shows "\<exists>b t. usable c s = Some (b, t) \<and> talk c s t"
proof -
  obtain ctx e where "con_at s c = Some ctx" "con_error c s = Some e" "talk c s e" using assms con_error_ex [OF assms] by blast
  then show ?thesis by (cases "rc_err ctx = 0") (auto simp: usable_def)
qed

lemma append_on_ex:
  assumes "con_at s c \<noteq> None"
  shows "\<exists>b t. append_on H bytes c s = Some (b, t) \<and> talk c s t"
proof -
  let ?f = "redisAppendFormattedCommand H bytes"
  obtain r t where t: "on_con ?f c s = Some (r, t)" "talk c s t" using on_con_ex [OF assms, of ?f] by blast
  obtain e where e: "con_error c t = Some e" "talk c t e" using con_error_ex [OF talk_con [OF t(2)]] by blast
  show ?thesis using t e talk_trans [OF t(2) e(2)] by (cases "r = REDIS_OK") (auto simp: append_on_def)
qed

lemma connect_node_ex:
  assumes inv: "cluster_inv s" and n: "known s n"
  shows "\<exists>c t. connect_node H n s = Some (c, t) \<and> linked s t \<and> (\<forall>a. c = Some a \<longrightarrow> con_at t a \<noteq> None)"
proof -
  obtain c t where t: "ctx_get_by_node H n s = Some (c, t)" "linked s t" "\<forall>a. c = Some a \<longrightarrow> con_at t a \<noteq> None"
    using ctx_get_by_node_ex [OF assms, of H] by blast
  show ?thesis
  proof (cases c)
    case None
    with t show ?thesis by (simp add: connect_node_def)
  next
    case (Some a)
    then obtain b u where u: "usable a t = Some (b, u)" "talk a t u" using usable_ex t(3) by blast
    have "linked s u" using linked_trans [OF t(2) talk_linked [OF u(2)]] t(2) by (simp add: linked_def)
    with t(1) Some u talk_con [OF u(2)] show ?thesis by (simp add: connect_node_def)
  qed
qed

section \<open>Safety of a command\<close>

text \<open>What a step that may update the slot map keeps.\<close>

definition stays :: "('c, 'w, 'z) cluster_scheme \<Rightarrow> ('c, 'w, 'z) cluster_scheme \<Rightarrow> bool" where
  "stays s t \<longleftrightarrow> cluster_inv t \<and> same_conf s t"

lemma stays_trans [trans]: "stays s t \<Longrightarrow> stays t u \<Longrightarrow> stays s u"
  unfolding stays_def using same_conf_trans by blast

lemma linked_stays: "linked s t \<Longrightarrow> stays s t"
  by (simp add: linked_def stays_def)

lemma node_after_update_ex:
  assumes "cluster_inv s" "replies_ok H" "route_safe s"
  shows "\<exists>n t. node_after_update L H command s = Some (n, t) \<and> stays s t \<and> (\<forall>x. n = Some x \<longrightarrow> known t x)"
proof -
  obtain r t where t: "redisClusterUpdateSlotmap L H s = Some (r, t)" "stays s t"
    using redisClusterUpdateSlotmap_ex [OF assms, of L] by (auto simp: route_result_def stays_def)
  obtain n u where u: "node_get_by_table (word_of_int (r_slot_num command)) t = (n, u)" "linked t u" "\<forall>x. n = Some x \<longrightarrow> known u x"
    using node_get_by_table_ex t(2) unfolding stays_def by blast
  show ?thesis using t u stays_trans [OF t(2) linked_stays [OF u(2)]] by (cases "r = REDIS_OK") (simp_all add: node_after_update_def)
qed

lemma exec_connect_ex:
  assumes inv: "cluster_inv s" and H: "replies_ok H" and rs: "route_safe s"
  shows "\<exists>c t. exec_connect L H command s = Some (c, t) \<and> stays s t \<and> (\<forall>a. c = Some a \<longrightarrow> con_at t a \<noteq> None)"
proof -
  have next_update: "\<exists>n u. node_after_update L H command t = Some (n, u) \<and> stays s u \<and> (\<forall>x. n = Some x \<longrightarrow> known u x)" if "stays s t" for t
    using node_after_update_ex [of t H L command] that H rs route_safe_conf [of s t] stays_trans [OF that] unfolding stays_def by blast
  obtain n s1 where 1: "node_get_by_table (word_of_int (r_slot_num command)) s = (n, s1)" "linked s s1" "\<forall>x. n = Some x \<longrightarrow> known s1 x"
    using node_get_by_table_ex [OF inv] by blast
  obtain m s2 where 2: "(case node_get_by_table (word_of_int (r_slot_num command)) s of
        (None, s1) \<Rightarrow> node_after_update L H command s1 | (Some n, s1) \<Rightarrow> Some (Some n, s1)) = Some (m, s2)" "stays s s2" "\<forall>x. m = Some x \<longrightarrow> known s2 x"
    using next_update [OF linked_stays [OF 1(2)]] 1 linked_stays [OF 1(2)] by (cases n) auto
  show ?thesis
  proof (cases m)
    case None
    with 2 show ?thesis by (simp add: exec_connect_def)
  next
    case (Some x)
    obtain c s3 where 3: "ctx_get_by_node H x s2 = Some (c, s3)" "linked s2 s3" "\<forall>a. c = Some a \<longrightarrow> con_at s3 a \<noteq> None"
      using ctx_get_by_node_ex [of s2 x H] 2 Some unfolding stays_def by blast
    have st3: "stays s s3" using stays_trans [OF 2(2) linked_stays [OF 3(2)]] .
    obtain f where f: "con_failed c s3 = Some f" using 3(3) by (cases c) (auto simp: con_failed_def)
    obtain m2 s4 where 4: "node_after_update L H command s3 = Some (m2, s4)" "stays s s4" "\<forall>x. m2 = Some x \<longrightarrow> known s4 x"
      using next_update [OF st3] by blast
    show ?thesis
    proof (cases "f \<and> m2 \<noteq> None")
      case False
      with 2 3 4 Some f st3 show ?thesis by (cases f) (simp_all add: exec_connect_def)
    next
      case True
      then obtain y where y: "m2 = Some y" by blast
      obtain c' s5 where 5: "connect_node H y s4 = Some (c', s5)" "linked s4 s5" "\<forall>a. c' = Some a \<longrightarrow> con_at s5 a \<noteq> None"
        using connect_node_ex [of s4 y H] 4 y unfolding stays_def by blast
      from stays_trans [OF 4(2) linked_stays [OF 5(2)]] 5 2 3 4 Some f True y show ?thesis by (simp add: exec_connect_def)
    qed
  qed
qed

text \<open>A server that answers every command itself.\<close>

definition no_redirects :: "'w hiredis \<Rightarrow> bool" where
  "no_redirects H \<longleftrightarrow> (\<forall>c w. fst (fst (redisGetReply H c w)) = REDIS_OK \<longrightarrow>
     \<not> redirects (cluster_reply_error_type (snd (fst (redisGetReply H c w)))))"

lemma on_con_reply:
  assumes c: "con_at s c \<noteq> None" and H: "replies_ok H"
  shows "\<exists>res reply t. on_con (redisGetReply H) c s = Some ((res, reply), t) \<and> talk c s t \<and> (res = REDIS_OK \<longrightarrow> reply \<noteq> None) \<and>
     (no_redirects H \<longrightarrow> res = REDIS_OK \<longrightarrow> \<not> redirects (cluster_reply_error_type reply))"
proof -
  obtain r t ctx where t: "on_con (redisGetReply H) c s = Some (r, t)" "talk c s t" "r = fst (redisGetReply H ctx (w_world s))"
    using on_con_ex [OF c, of "redisGetReply H"] by blast
  have "reply_answers (redisGetReply H ctx (w_world s))" using H by (simp add: replies_ok_def)
  then have "fst r = REDIS_OK \<longrightarrow> snd r \<noteq> None" using t(3) by (auto simp: reply_answers_def split: option.split_asm)
  moreover have "no_redirects H \<longrightarrow> fst r = REDIS_OK \<longrightarrow> \<not> redirects (cluster_reply_error_type (snd r))"
    using t(3) by (simp add: no_redirects_def)
  ultimately show ?thesis using t(1,2) by (cases r) auto
qed

lemma talk_route: "talk c s t \<Longrightarrow> talk c s (t\<lparr>cc_need_update_route := b\<rparr>)"
  by (simp add: talk_def same_conf_def)

lemma exec_request_ex:
  assumes c: "con_at s c \<noteq> None" and H: "replies_ok H"
  shows "\<exists>r upd' t. exec_request H command c upd s = Some (r, upd', t) \<and> talk c s t \<and> (upd' = upd \<or> upd' = Some c) \<and>
     (\<forall>reply. r = Inr reply \<longrightarrow> reply \<noteq> None \<and> (no_redirects H \<longrightarrow> \<not> redirects (cluster_reply_error_type reply)))"
proof -
  obtain b s1 where 1: "append_on H (cmd_bytes command) c s = Some (b, s1)" "talk c s s1" using append_on_ex [OF c] by blast
  obtain r t where t: "clusterUpdateRouteSendCommand H c s1 = Some (r, t)" "talk c s1 t"
    using clusterUpdateRouteSendCommand_ex [OF talk_con [OF 1(2)], of H] by blast
  obtain upd1 s2 where 2: "(if cc_need_update_route s1 \<noteq> 0 \<and> upd = None then
        do { (r, t) \<leftarrow> clusterUpdateRouteSendCommand H c s1; Some (if r = REDIS_OK then Some c else None, t) }
      else Some (upd, s1)) = Some (upd1, s2)" "talk c s1 s2" "upd1 = upd \<or> upd1 = Some c"
  proof (cases "cc_need_update_route s1 \<noteq> 0 \<and> upd = None")
    case True
    then show ?thesis using that [of "if r = REDIS_OK then Some c else None" t] t by simp
  next
    case False
    then show ?thesis using that [of upd s1] talk_con [OF 1(2)] by auto
  qed
  obtain res reply s3 where 3: "on_con (redisGetReply H) c s2 = Some ((res, reply), s3)" "talk c s2 s3" "res = REDIS_OK \<longrightarrow> reply \<noteq> None"
      "no_redirects H \<longrightarrow> res = REDIS_OK \<longrightarrow> \<not> redirects (cluster_reply_error_type reply)"
    using on_con_reply [OF talk_con [OF 2(2)] H] by blast
  obtain e where e: "con_error c s3 = Some e" "talk c s3 e" using con_error_ex [OF talk_con [OF 3(2)]] by blast
  obtain ctx where ctx: "con_at e c = Some ctx" using talk_con [OF e(2)] by blast
  have t3: "talk c s s3" using talk_trans [OF talk_trans [OF 1(2) 2(2)] 3(2)] .
  have te: "talk c s (if rc_err ctx \<noteq> REDIS_ERR_OOM then e\<lparr>cc_need_update_route := 1\<rparr> else e)"
    using talk_trans [OF t3 e(2)] talk_route by auto
  show ?thesis
  proof (cases b)
    case False
    with 1 show ?thesis by (simp add: exec_request_def)
  next
    case True
    show ?thesis
    proof (cases "res = REDIS_OK")
      case ok: True
      then have "exec_request H command c upd s = Some (Inr reply, upd1, s3)"
        using 1(1) 2(1) 3(1) True unfolding exec_request_def by simp
      with t3 2(3) 3(3,4) ok show ?thesis by auto
    next
      case False
      then have "exec_request H command c upd s =
          Some (Inl (), upd1, if rc_err ctx \<noteq> REDIS_ERR_OOM then e\<lparr>cc_need_update_route := 1\<rparr> else e)"
        using 1(1) 2(1) 3(1) e(1) ctx True unfolding exec_request_def by simp
      with te 2(3) show ?thesis by auto
    qed
  qed
qed

lemma exec_done_ex:
  assumes inv: "cluster_inv s" and H: "replies_ok H" and rs: "route_safe s" and u: "\<forall>c. upd = Some c \<longrightarrow> con_at s c \<noteq> None"
  shows "\<exists>r t. exec_done L H reply upd s = Some (r, t) \<and> stays s t \<and> (r = reply \<or> r = None)"
proof (cases upd)
  case None
  with inv show ?thesis by (simp add: exec_done_def stays_def)
next
  case (Some c)
  obtain r1 s1 where 1: "clusterUpdateRouteHandleReply L H c s = Some (r1, s1)" "updated c s r1 s1"
    using clusterUpdateRouteHandleReply_ex [OF _ inv H rs, of c L] u Some by blast
  have st: "stays s (clear_error s1)" "stays s s1"
    using 1(2) linked_clear [of s1] same_conf_trans [of s s1 "clear_error s1"] by (auto simp: updated_def stays_def linked_def)
  obtain r2 s2 where 2: "redisClusterUpdateSlotmap L H (clear_error s1) = Some (r2, s2)" "route_result (clear_error s1) r2 s2"
    using redisClusterUpdateSlotmap_ex [OF _ H, of "clear_error s1" L] st(1) rs route_safe_conf [of s "clear_error s1"] unfolding stays_def by blast
  have "stays s s2" using 2(2) stays_trans [OF st(1)] by (simp add: stays_def route_result_def)
  with 1(1) 2(1) st(2) Some show ?thesis by (cases "r1 = REDIS_OK") (auto simp: exec_done_def)
qed

lemma redis_cluster_command_execute_ex:
  assumes inv: "cluster_inv s" and H: "replies_ok H" "no_redirects H" and rs: "route_safe s"
  shows "\<exists>reply t. redis_cluster_command_execute L H command s = Some (reply, t) \<and> stays s t \<and>
     (reply = None \<or> \<not> redirects (cluster_reply_error_type reply))"
proof -
  obtain c s1 where 1: "exec_connect L H command s = Some (c, s1)" "stays s s1" "\<forall>a. c = Some a \<longrightarrow> con_at s1 a \<noteq> None"
    using exec_connect_ex [OF inv H(1) rs, of L command] by blast
  show ?thesis
  proof (cases c)
    case None
    with 1 show ?thesis by (simp add: redis_cluster_command_execute_def)
  next
    case (Some a)
    obtain r upd s2 where 2: "exec_request H command a None s1 = Some (r, upd, s2)" "talk a s1 s2" "upd = None \<or> upd = Some a"
        "\<forall>reply. r = Inr reply \<longrightarrow> reply \<noteq> None \<and> (no_redirects H \<longrightarrow> \<not> redirects (cluster_reply_error_type reply))"
      using exec_request_ex [OF _ H(1), of s1 a command None] 1(3) Some by blast
    let ?reply = "case r of Inl _ \<Rightarrow> None | Inr reply \<Rightarrow> reply"
    have l: "exec_loop (retry_fuel s1) L H command a None s1 = RET (?reply, upd, s2)"
      using 2(1,4) H(2) by (cases r) (auto simp: retry_fuel_def redirects_def split: option.split)
    have st: "stays s s2" using stays_trans [OF 1(2) linked_stays [OF talk_linked [OF 2(2)]]] 1(2) by (simp add: stays_def)
    obtain r' t where t: "exec_done L H ?reply upd s2 = Some (r', t)" "stays s2 t" "r' = ?reply \<or> r' = None"
      using exec_done_ex [of s2 H upd L ?reply] H(1) st rs route_safe_conf [of s s2] 2(2,3) talk_con [OF 2(2)] unfolding stays_def by blast
    have "?reply = None \<or> \<not> redirects (cluster_reply_error_type ?reply)" using 2(4) H(2) by (cases r) auto
    with 1(1) Some l t stays_trans [OF st t(2)] show ?thesis
      by (auto simp: redis_cluster_command_execute_def)
  qed
qed

section \<open>Redirections\<close>

text \<open>The node known under an address, with the host and port that the address names.\<close>

definition filed :: "string \<Rightarrow> addr \<Rightarrow> ('c, 'w, 'z) cluster_scheme \<Rightarrow> bool" where
  "filed a n t \<longleftrightarrow> (\<exists>d. cc_nodes t = Some d \<and> dict_map d a = Some n)"

lemma filed_known: "filed a n t \<Longrightarrow> known t n"
  by (auto simp: filed_def intro: known_member)

lemma add_redirect_node_ex:
  assumes inv: "cluster_inv s" and d: "cc_nodes s = Some d" and room: "room (Suc j) s"
  shows "\<exists>r t. add_redirect_node d endpoint p s = Some (r, t) \<and> grown_by endpoint s t \<and> room j t \<and>
     (\<forall>n. r = Some n \<longrightarrow> filed endpoint n t \<and> entered endpoint (take p endpoint, hi_atoi (cstr (drop (Suc p) endpoint))) t) \<and>
     (no_oom (w_script s) \<longrightarrow> dict_map d endpoint = None \<longrightarrow> r \<noteq> None)"
proof -
  let ?host = "take p endpoint" and ?port = "hi_atoi (cstr (drop (Suc p) endpoint))"
  obtain r al ns where c: "createRedisClusterNode s = (r, s\<lparr>w_script := al, w_nodes := ns\<rparr>)" "off_map s (s\<lparr>w_script := al, w_nodes := ns\<rparr>)"
     "\<forall>n. r = Some n \<longrightarrow> n = length (w_nodes s) \<and> ns = w_nodes s @ [Some zero_node] \<and> \<not> known s n"
     "no_oom (w_script s) \<longrightarrow> r \<noteq> None \<and> no_oom al"
    using createRedisClusterNode_ex [OF inv] by (elim exE conjE) (rule that)
  let ?s1 = "s\<lparr>w_script := al, w_nodes := ns\<rparr>"
  have rm: "room j s" using room by (auto simp: room_def split: option.splits)
  have err: "grown_by endpoint s t \<and> room j t" if "off_map s t" for t using off_map_grown_by [OF that inv] off_map_room [OF that] rm by simp
  show ?thesis
  proof (cases r)
    case None
    have "off_map s (set_oom ?s1)" using off_map_trans [OF c(2) off_map_error] .
    with None c(1,4) err show ?thesis by (simp add: add_redirect_node_def)
  next
    case (Some n)
    then have n: "n = length (w_nodes s)" "ns = w_nodes s @ [Some zero_node]" "\<not> known s n" using c(3) by auto
    obtain r2 al2 where 2: "sds_copy ?host ?s1 = (r2, ?s1\<lparr>w_script := al2\<rparr>)" "r2 = None \<or> r2 = Some ?host"
       "no_oom al \<longrightarrow> r2 = Some ?host \<and> no_oom al2" using sds_copy_ex [of ?host ?s1] by auto
    let ?nd = "zero_node\<lparr>n_role := REDIS_ROLE_MASTER, n_addr := Some endpoint, n_host := Some ?host, n_port := word_of_int ?port\<rparr>"
    let ?s2 = "?s1\<lparr>w_script := al2\<rparr>"
    let ?s3 = "node_put n ?nd ?s2"
    have o2: "off_map s ?s2" using off_map_trans [OF c(2) off_map_script [of ?s1 al2]] .
    have o3: "off_map s ?s3"
      using off_map_trans [OF o2 off_map_put] off_map_known [OF o2] n(3) by (simp add: node_put_def)
    obtain r4 al4 where 4: "sds_copy endpoint ?s3 = (r4, ?s3\<lparr>w_script := al4\<rparr>)" "r4 = None \<or> r4 = Some endpoint"
       "no_oom al2 \<longrightarrow> r4 = Some endpoint \<and> no_oom al4" using sds_copy_ex [of endpoint ?s3] by (auto simp: node_put_def)
    let ?s4 = "?s3\<lparr>w_script := al4\<rparr>"
    have o4: "off_map s ?s4" using off_map_trans [OF o3 off_map_script [of ?s3 al4]] .
    have free: "off_map s (snd (oom_free_node n t))" if "off_map s t" for t
      using off_map_trans [OF that off_map_oom_free] off_map_known [OF that] n(3) by simp
    have fst_oom: "fst (oom_free_node n t) = None" for t by (simp add: oom_free_node_def)
    have oom: "\<exists>r' t. Some (oom_free_node n u) = Some (r', t) \<and> grown_by endpoint s t \<and> room j t \<and> r' = None" if "off_map s u" for u
      using err [OF free [OF that]] fst_oom [of u] by (cases "oom_free_node n u") simp
    show ?thesis
    proof (cases "r2 = None \<or> r4 = None")
      case True
      then have "\<exists>u. add_redirect_node d endpoint p s = Some (oom_free_node n u) \<and> off_map s u"
        using Some c(1) 2(1,2) 4(1) o2 o4 by (auto simp: add_redirect_node_def Let_def)
      with oom True c(4) 2(3) 4(3) show ?thesis by fastforce
    next
      case False
      then have r: "r2 = Some ?host" "r4 = Some endpoint" using 2(2) 4(2) by auto
      have nd4: "node_at ?s4 n = Some ?nd" using n by (simp add: node_put_def)
      have "loose n endpoint ?s4" using nd4 off_map_known [OF o4] n(3) by (simp add: loose_def zero_node_def)
      from enter_loose [OF inv d room o4 this] obtain st d' al5
        where e: "cc_dictAdd d endpoint n ?s4 = Some (st, d', ?s4\<lparr>w_script := al5\<rparr>)"
          "st = DICT_OK \<longrightarrow> grown_by endpoint s (?s4\<lparr>w_script := al5, cc_nodes := Some d'\<rparr>) \<and> room j (?s4\<lparr>w_script := al5, cc_nodes := Some d'\<rparr>) \<and>
             dict_map d' endpoint = Some n \<and> known (?s4\<lparr>w_script := al5, cc_nodes := Some d'\<rparr>) n"
          "st \<noteq> DICT_OK \<longrightarrow> grown_by endpoint s (snd (oom_free_node n (?s4\<lparr>w_script := al5, cc_nodes := Some d'\<rparr>))) \<and>
             room j (snd (oom_free_node n (?s4\<lparr>w_script := al5, cc_nodes := Some d'\<rparr>)))"
          "no_oom (w_script ?s4) \<longrightarrow> no_oom al5 \<and> (st = DICT_OK \<longleftrightarrow> dict_map d endpoint = None)"
        by (elim exE conjE) (rule that)
      let ?s6 = "?s4\<lparr>w_script := al5, cc_nodes := Some d'\<rparr>"
      have run: "add_redirect_node d endpoint p s = Some (if st \<noteq> DICT_OK then oom_free_node n ?s6 else (Some n, ?s6))"
        using Some c(1) 2(1) 4(1) r e(1) by (simp add: add_redirect_node_def Let_def)
      have "entered endpoint (?host, ?port) ?s6 \<and> filed endpoint n ?s6" if "st = DICT_OK"
        using nd4 e(2) that by (auto simp: entered_def zero_node_def filed_def)
      moreover obtain u where u: "oom_free_node n ?s6 = (None, u)" using fst_oom [of ?s6] by (cases "oom_free_node n ?s6") simp
      moreover have "no_oom (w_script s) \<longrightarrow> no_oom (w_script ?s4)" using c(4) 2(3) 4(3) by simp
      ultimately show ?thesis using run e(2-4) unfolding u by (cases "st = DICT_OK") auto
    qed
  qed
qed

text \<open>The address a redirection names: its third word, if it has a colon that is not at its start.\<close>

definition redirect_address :: "string \<Rightarrow> string option" where
  "redirect_address str =
     (case split_at_sep CHR '' '' str of
        [_, _, endpoint] \<Rightarrow> (case strrchr endpoint CHR '':'' of Some (Suc p) \<Rightarrow> Some endpoint | _ \<Rightarrow> None)
      | _ \<Rightarrow> None)"

lemma getNodeFromRedirectReply_ex:
  assumes inv: "cluster_inv s" and d: "cc_nodes s = Some d" and room: "room (Suc j) s" and L: "sds_ok L" and str: "str \<noteq> []"
  shows "\<exists>r i t. getNodeFromRedirectReply L str b s = Some (r, i, t) \<and> grown s t \<and> room j t \<and>
     (\<forall>n. r = Some n \<longrightarrow> (\<exists>a. redirect_address str = Some a \<and> filed a n t) \<and> (b \<longrightarrow> i = hi_atoi (split_at_sep CHR '' '' str ! 1))) \<and>
     (no_oom (w_script s) \<longrightarrow> redirect_address str \<noteq> None \<longrightarrow> r \<noteq> None)"
proof -
  obtain ps al where sp: "sds_split L str CHR '' '' s = (ps, s\<lparr>w_script := al\<rparr>)" "ps = None \<or> ps = Some (split_at_sep CHR '' '' str)"
      "no_oom (w_script s) \<longrightarrow> ps \<noteq> None \<and> no_oom al"
    using sds_split_ex [of L str "CHR '' ''" s] L str by auto
  let ?s1 = "s\<lparr>w_script := al\<rparr>"
  have o1: "off_map s ?s1" by simp
  have inv1: "cluster_inv ?s1" and d1: "cc_nodes ?s1 = Some d" and room1: "room (Suc j) ?s1"
    using off_map_inv [OF o1 inv] d room by (simp_all add: room_def)
  have rm: "room j s" using room by (auto simp: room_def split: option.splits)
  have err: "grown s (redisClusterSetError e m ?s1) \<and> room j (redisClusterSetError e m ?s1)" for e m
    using off_map_grown [OF off_map_trans [OF o1 off_map_error] inv] off_map_room [OF off_map_trans [OF o1 off_map_error]] rm by blast
  have same: "grown s ?s1 \<and> room j ?s1" using off_map_grown [OF o1 inv] rm by (simp add: room_def)
  have wf: "dict_wf d" using inv d by (simp add: cluster_inv_def nodes_own_def)
  show ?thesis
  proof (cases "\<exists>x y e. ps = Some [x, y, e]")
    case False
    then have "redirect_address str = None \<or> ps = None"
      using sp(2) by (auto simp: redirect_address_def split: list.split)
    moreover have "\<exists>e m. getNodeFromRedirectReply L str b s = Some (None, -1, redisClusterSetError e m ?s1)"
    proof (cases ps)
      case None
      with sp(1) show ?thesis by (auto simp: getNodeFromRedirectReply_def)
    next
      case (Some part)
      with False have "length part \<noteq> 3" by (auto simp: length_Suc_conv eval_nat_numeral)
      with Some sp(1) show ?thesis by (auto simp: getNodeFromRedirectReply_def)
    qed
    ultimately show ?thesis using err sp(3) by fastforce
  next
    case True
    then obtain x y e where ps: "ps = Some [x, y, e]" by blast
    with sp(2) have parts: "split_at_sep CHR '' '' str = [x, y, e]" by auto
    let ?i = "if b then hi_atoi y else -1"
    consider "strrchr e CHR '':'' = None" | "strrchr e CHR '':'' = Some 0" | p where "strrchr e CHR '':'' = Some (Suc p)"
      by (metis not_None_eq old.nat.exhaust)
    then show ?thesis
    proof cases
      case 1
      then show ?thesis using ps parts sp(1) err by (simp add: getNodeFromRedirectReply_def redirect_address_def)
    next
      case 2
      then show ?thesis using ps parts sp(1) err by (simp add: getNodeFromRedirectReply_def redirect_address_def)
    next
      case 3
      then have ra: "redirect_address str = Some e" using parts by (simp add: redirect_address_def)
      show ?thesis
      proof (cases "dictFind d e")
        case None
        obtain r t where t: "add_redirect_node d e (Suc p) ?s1 = Some (r, t)" "grown_by e ?s1 t" "room j t"
            "\<forall>n. r = Some n \<longrightarrow> filed e n t" "no_oom al \<longrightarrow> dict_map d e = None \<longrightarrow> r \<noteq> None"
          using add_redirect_node_ex [OF inv1 d1 room1, of e "Suc p"] by auto
        have "dict_map d e = None" using None dictFind_map [OF wf, of e] by simp
        moreover have "grown s t" using grown_trans [of s ?s1 t] same t(2) unfolding grown_by_def by blast
        moreover have "getNodeFromRedirectReply L str b s = Some (r, ?i, t)"
          using ps sp(1) 3 None d t(1) by (simp add: getNodeFromRedirectReply_def)
        ultimately show ?thesis using t(3-5) ra parts sp(3) by auto
      next
        case (Some kn)
        obtain k n where kn: "kn = (k, n)" by (cases kn)
        have "getNodeFromRedirectReply L str b s = Some (Some n, ?i, ?s1)"
          using ps sp(1) 3 Some kn d by (simp add: getNodeFromRedirectReply_def)
        moreover have "filed e n ?s1" using Some kn d dictFind_map [OF wf, of e] by (auto simp: filed_def)
        ultimately show ?thesis using same ra parts by auto
      qed
    qed
  qed
qed

end
