(* ===== verification/Async_Inv.thy ===== *)
theory Async_Inv
  imports Async_Frame Sync_Inv
begin

text \<open>
  The asynchronous interface keeps the invariant of the cluster context: every connection of a known node is open,
  belongs to this node alone and points back to it. A step that leaves the known nodes and their connections alone
  is described by \<open>wired\<close>; it may open connections and change the contents of open ones.
\<close>

section \<open>Steps on connections\<close>

definition wired :: "('c, 'w, 'z) cluster_scheme \<Rightarrow> ('c, 'w, 'z) cluster_scheme \<Rightarrow> bool" where
  "wired s t \<longleftrightarrow> cc_nodes t = cc_nodes s \<and> cc_table t = cc_table s \<and> cc_route_version t = cc_route_version s \<and> w_cons t = w_cons s \<and>
     same_conf s t \<and> (\<forall>x. view_at t x = view_at s x) \<and>
     (\<forall>a ac. acon_at s a = Some ac \<longrightarrow> (\<exists>ac'. acon_at t a = Some ac' \<and> ac_data ac' = ac_data ac))"

lemma wired_refl [simp]: "wired s s"
  by (simp add: wired_def)

lemma wired_trans [trans]: "wired s t \<Longrightarrow> wired t u \<Longrightarrow> wired s u"
  unfolding wired_def by (metis same_conf_trans)

lemma view_nodes: "w_nodes t = w_nodes s \<Longrightarrow> view_at t x = view_at s x"
  by (simp add: view_at_def)

lemma wired_same:
  assumes "w_nodes t = w_nodes s" "w_acons t = w_acons s" "w_cons t = w_cons s" "cc_nodes t = cc_nodes s" "cc_table t = cc_table s"
    "cc_route_version t = cc_route_version s" "same_conf s t"
  shows "wired s t"
  using assms view_nodes [of t s] by (simp add: wired_def)

lemma wired_simps [simp]:
  "wired s (s\<lparr>w_world := w\<rparr>)" "wired s (s\<lparr>w_script := al\<rparr>)" "wired s (clear_error s)" "wired s (redisClusterSetError e m s)"
  by (rule wired_same; simp add: same_conf_def clear_error_def redisClusterSetError_def Let_def)+

lemma wired_linked:
  assumes inv: "cluster_inv s" and w: "wired s t"
  shows "linked s t"
proof -
  have view: "view_at t x = view_at s x" for x using w by (simp add: wired_def)
  note st = view_struct [OF view]
  have ow: "owns d t x = owns d s x" for d x by (rule owns_struct) (rule st)
  have f: "cc_nodes t = cc_nodes s" "cc_table t = cc_table s" "w_cons t = w_cons s" using w by (simp_all add: wired_def)
  have nd: "\<exists>m. node_at s x = Some m \<and> n_con m = n_con nd \<and> n_acon m = n_acon nd" if "node_at t x = Some nd" for x nd
    using view [of x] that by (cases "node_at s x") (auto simp: view_at_def own_view_def)
  have "conns_ok d t" if d: "conns_ok d s" for d
    unfolding conns_ok_def ow f
  proof (intro conjI [of "\<forall>x nd. _ x nd"] allI impI)
    show "(\<forall>c. n_con nd = Some c \<longrightarrow> con_at s c \<noteq> None) \<and> (\<forall>a. n_acon nd = Some a \<longrightarrow> (\<exists>ac. acon_at t a = Some ac \<and> ac_data ac = Some x))"
      if x: "owns d s x" "node_at t x = Some nd" for x nd
    proof -
      obtain m where m: "node_at s x = Some m" "n_con m = n_con nd" "n_acon m = n_acon nd" using nd [OF x(2)] by blast
      then have "(\<forall>c. n_con nd = Some c \<longrightarrow> con_at s c \<noteq> None) \<and> (\<forall>a. n_acon nd = Some a \<longrightarrow> (\<exists>ac. acon_at s a = Some ac \<and> ac_data ac = Some x))"
        using d x(1) unfolding conns_ok_def by metis
      then show ?thesis using w unfolding wired_def by metis
    qed
    show "(n_con n1 = None \<or> n_con n1 \<noteq> n_con n2) \<and> (n_acon n1 = None \<or> n_acon n1 \<noteq> n_acon n2)"
      if xy: "owns d s x" "owns d s y" "node_at t x = Some n1" "node_at t y = Some n2" "x \<noteq> y" for x y n1 n2
      using d nd [OF xy(3)] nd [OF xy(4)] xy(1,2,5) unfolding conns_ok_def by metis
  qed
  then have "cluster_inv t" using inv nodes_own_struct [OF _ st] unfolding cluster_inv_def f by blast
  moreover have "known t x = known s x" for x unfolding known_def f ow ..
  ultimately show ?thesis using w by (simp add: linked_def wired_def)
qed

text \<open>A step of the asynchronous context that adds no callback but empty ones.\<close>

definition quiet :: "('c, 'w) redisClusterAsyncContext \<Rightarrow> ('c, 'w) redisClusterAsyncContext \<Rightarrow> bool" where
  "quiet acc acc' \<longleftrightarrow> wired (acc_cc acc) (acc_cc acc') \<and>
     (\<exists>ps. acc_pending acc' = acc_pending acc @ ps \<and> (\<forall>p \<in> set ps. snd p = NO_CB)) \<and> acc_calls acc' = acc_calls acc"

lemma quiet_refl [simp]: "quiet acc acc"
  by (simp add: quiet_def)

lemma quiet_trans [trans]:
  assumes "quiet acc acc'" "quiet acc' acc''"
  shows "quiet acc acc''"
  using assms wired_trans unfolding quiet_def by fastforce

lemma quiet_error [simp]: "quiet acc (redisClusterAsyncSetError e m acc)" "quiet acc (copy_cc_error acc)"
  by (simp_all add: quiet_def redisClusterAsyncSetError_def copy_cc_error_def Let_def)

lemma quiet_cc: "wired (acc_cc acc) s \<Longrightarrow> quiet acc (acc\<lparr>acc_cc := s\<rparr>)"
  by (simp add: quiet_def)

lemma quiet_live: "quiet acc acc' \<Longrightarrow> acon_at (acc_cc acc) a \<noteq> None \<Longrightarrow> acon_at (acc_cc acc') a \<noteq> None"
  unfolding quiet_def wired_def by fastforce

lemma quiet_linked: "cluster_inv (acc_cc acc) \<Longrightarrow> quiet acc acc' \<Longrightarrow> linked (acc_cc acc) (acc_cc acc')"
  by (simp add: quiet_def wired_linked)

lemma usec_now_quiet: "quiet acc (snd (usec_now HA acc))"
  by (auto simp: usec_now_def quiet_def split: prod.split)

lemma async_clear_errors_quiet: "quiet acc (async_clear_errors acc)"
  by (simp add: async_clear_errors_def quiet_def Let_def)

lemma on_acon_quiet:
  assumes "acon_at (acc_cc acc) a \<noteq> None"
  shows "\<exists>r acc'. on_acon f a acc = Some (r, acc') \<and> quiet acc acc' \<and> acc_pending acc' = acc_pending acc"
proof -
  let ?s = "acc_cc acc"
  obtain ac where ac: "acon_at ?s a = Some ac" using assms by blast
  obtain r ac' w where f: "f ac (w_world ?s) = (r, ac', w)" by (cases "f ac (w_world ?s)")
  let ?t = "?s\<lparr>w_acons := (w_acons ?s)[a := Some (ac'\<lparr>ac_data := ac_data ac\<rparr>)], w_world := w\<rparr>"
  have "wired ?s ?t" using ac view_nodes [of ?t ?s] by (auto simp: wired_def same_conf_def)
  then show ?thesis using ac f quiet_cc [of acc ?t] by (simp add: on_acon_def Let_def)
qed

lemma acon_send_ex:
  assumes "acon_at (acc_cc acc) a \<noteq> None"
  shows "\<exists>r acc'. acon_send f cb a acc = Some (r, acc') \<and> wired (acc_cc acc) (acc_cc acc') \<and> acc_calls acc' = acc_calls acc \<and>
     acc_pending acc' = acc_pending acc @ (if r = REDIS_OK then [(a, cb)] else [])"
proof -
  obtain r acc' where "on_acon f a acc = Some (r, acc')" "quiet acc acc'" "acc_pending acc' = acc_pending acc"
    using on_acon_quiet [OF assms, of f] by blast
  then show ?thesis by (simp add: acon_send_def quiet_def)
qed

lemma acon_send_quiet:
  assumes "acon_at (acc_cc acc) a \<noteq> None"
  shows "\<exists>r acc'. acon_send f NO_CB a acc = Some (r, acc') \<and> quiet acc acc'"
  using acon_send_ex [OF assms, of f NO_CB] unfolding quiet_def by fastforce

lemma acon_error_quiet:
  assumes "acon_at (acc_cc acc) a \<noteq> None"
  shows "\<exists>acc'. acon_error a acc = Some acc' \<and> quiet acc acc'" "\<exists>acc'. acon_c_error a acc = Some acc' \<and> quiet acc acc'"
  using assms by (auto simp: acon_error_def acon_c_error_def)

section \<open>Connecting a node\<close>

lemma async_ssl_init_quiet:
  assumes a: "acon_at (acc_cc acc) a \<noteq> None"
  shows "\<exists>b acc'. async_ssl_init HA a acc = Some (b, acc') \<and> quiet acc acc'"
proof -
  let ?f = "\<lambda>ac w. case async_ssl_init_fn HA (ac_c ac) w of (r, c, w') \<Rightarrow> (r, ac\<lparr>ac_c := c\<rparr>, w')"
  obtain r acc1 where 1: "on_acon ?f a acc = Some (r, acc1)" "quiet acc acc1" using on_acon_quiet [OF a, of ?f] by blast
  obtain acc2 where 2: "acon_c_error a acc1 = Some acc2" "quiet acc1 acc2" using acon_error_quiet(2) [OF quiet_live [OF 1(2) a]] by blast
  show ?thesis using 1 2 quiet_trans [OF 1(2) 2(2)] by (simp add: async_ssl_init_def ex_bool_eq)
qed

lemma async_authenticate_quiet:
  assumes a: "acon_at (acc_cc acc) a \<noteq> None"
  shows "\<exists>b acc'. async_authenticate HA a acc = Some (b, acc') \<and> quiet acc acc'"
proof (cases "cc_password (acc_cc acc)")
  case None
  then show ?thesis by (simp add: async_authenticate_def ex_bool_eq)
next
  case (Some pw)
  let ?f = "redisAsyncCommand HA (auth_args pw (cc_username (acc_cc acc)))"
  obtain r acc1 where 1: "acon_send ?f NO_CB a acc = Some (r, acc1)" "quiet acc acc1" using acon_send_quiet [OF a, of ?f] by blast
  obtain acc2 where 2: "acon_c_error a acc1 = Some acc2" "quiet acc1 acc2" using acon_error_quiet(2) [OF quiet_live [OF 1(2) a]] by blast
  show ?thesis using Some 1 2 quiet_trans [OF 1(2) 2(2)] by (simp add: async_authenticate_def ex_bool_eq)
qed

lemma async_attach_quiet:
  assumes a: "acon_at (acc_cc acc) a \<noteq> None"
  shows "\<exists>b acc'. async_attach HA a acc = Some (b, acc') \<and> quiet acc acc'"
proof -
  obtain r acc1 where 1: "on_acon (attach_fn HA) a acc = Some (r, acc1)" "quiet acc acc1" using on_acon_quiet [OF a, of "attach_fn HA"] by blast
  have "quiet acc (redisClusterAsyncSetError e m acc1)" for e m using quiet_trans [OF 1(2) quiet_error(1)] .
  then show ?thesis using 1 by (simp add: async_attach_def ex_bool_eq)
qed

lemma acon_setup_quiet:
  assumes a: "acon_at (acc_cc acc) a \<noteq> None"
  shows "\<exists>b acc'. acon_setup HA a acc = Some (b, acc') \<and> quiet acc acc'"
proof -
  obtain ac where ac: "acon_at (acc_cc acc) a = Some ac" using a by blast
  obtain b1 acc1 where 1: "async_ssl_init HA a acc = Some (b1, acc1)" "quiet acc acc1" using async_ssl_init_quiet [OF a] by blast
  note a1 = quiet_live [OF 1(2) a]
  obtain b2 acc2 where 2: "async_authenticate HA a acc1 = Some (b2, acc2)" "quiet acc1 acc2" using async_authenticate_quiet [OF a1] by blast
  obtain b3 acc3 where 3: "async_attach HA a acc2 = Some (b3, acc3)" "quiet acc2 acc3" using async_attach_quiet [OF quiet_live [OF 2(2) a1]] by blast
  note q2 = quiet_trans [OF 1(2) 2(2)]
  show ?thesis using ac 1 2 3 q2 quiet_trans [OF q2 3(2)] by (cases "ac_err ac = 0"; cases b1; cases b2) (simp_all add: acon_setup_def ex_bool_eq)
qed

text \<open>A fresh connection can be freed again, or given to a known node that has none.\<close>

lemma wired_free:
  assumes w: "wired s t" and a: "acon_at s a = None"
  shows "wired s (free_acon (Some a) t)"
proof -
  have "w_nodes (free_acon (Some a) t) = w_nodes t" by (simp add: free_acon_def cc_log_def)
  note v = view_nodes [OF this]
  show ?thesis unfolding wired_def v using w a by (auto simp: free_acon_def cc_log_def wired_def same_conf_def)
qed

lemma acon_link_ex:
  assumes inv: "cluster_inv s" and n: "known s n" "node_at s n = Some nd" "n_acon nd = None" and w: "wired s t"
    and a: "acon_at s a = None" "acon_at t a = Some ac"
  shows "\<exists>u m. acon_link a n t = Some u \<and> linked s u \<and> node_at u n = Some m \<and> n_acon m = Some a \<and> acon_at u a \<noteq> None"
proof -
  have lt: "linked s t" using wired_linked [OF inv w] .
  have "view_at t n = view_at s n" using w by (simp add: wired_def)
  then obtain m where m: "node_at t n = Some m" "n_acon m = None"
    using n(2,3) by (cases "node_at t n") (auto simp: view_at_def own_view_def)
  let ?nd = "m\<lparr>n_acon := Some a\<rparr>" and ?ac = "ac\<lparr>ac_data := Some n\<rparr>"
  let ?u = "node_put n ?nd (t\<lparr>w_acons := (w_acons t)[a := Some ?ac]\<rparr>)"
  have at: "node_at ?u x = (if x = n then Some ?nd else node_at t x)" for x using store_at_less [OF m(1)] by (simp add: node_put_def)
  have aat: "acon_at ?u b = (if b = a then Some ?ac else acon_at t b)" for b using store_at_less [OF a(2)] by (simp add: node_put_def)
  have st: "struct_at ?u x = struct_at t x" for x using m(1) at by (simp add: struct_at_def)
  have ow: "owns d ?u x = owns d t x" for d x by (rule owns_struct) (rule st)
  have f: "cc_nodes ?u = cc_nodes t" "cc_table ?u = cc_table t" "w_cons ?u = w_cons t" by (simp_all add: node_put_def)
  have it: "cluster_inv t" and kt: "\<And>x. known t x = known s x" using lt by (simp_all add: linked_def)
  have fr: "n_acon nd' \<noteq> Some a" if d: "cc_nodes t = Some d" and x: "owns d t x" "node_at t x = Some nd'" for d x nd'
  proof
    assume ac': "n_acon nd' = Some a"
    have "view_at t x = view_at s x" using w by (simp add: wired_def)
    then obtain m' where m': "node_at s x = Some m'" "n_acon m' = Some a"
      using x(2) ac' by (cases "node_at s x") (auto simp: view_at_def own_view_def)
    have "known s x" using kt [of x] d x(1) by (auto simp: known_def)
    then show False using inv m' a(1) unfolding known_def cluster_inv_def conns_ok_def by (metis option.distinct(1))
  qed
  have on: "owns d t n" if "cc_nodes t = Some d" for d using kt [of n] n(1) that by (auto simp: known_def)
  have cons: "conns_ok d ?u" if d: "cc_nodes t = Some d" for d
  proof -
    have ok: "conns_ok d t" using it d by (simp add: cluster_inv_def)
    show ?thesis
      unfolding conns_ok_def ow f
    proof (intro conjI [of "\<forall>x nd. _ x nd"] allI impI)
      show "(\<forall>c. n_con nd' = Some c \<longrightarrow> con_at t c \<noteq> None) \<and> (\<forall>b. n_acon nd' = Some b \<longrightarrow> (\<exists>ac. acon_at ?u b = Some ac \<and> ac_data ac = Some x))"
        if x: "owns d t x" "node_at ?u x = Some nd'" for x nd'
      proof (cases "x = n")
        case True
        then show ?thesis using ok x m(1) at [of x] aat store_at_less [OF a(2)] unfolding conns_ok_def by auto
      next
        case False
        then have "node_at t x = Some nd'" using x(2) at by simp
        then show ?thesis using ok x(1) fr [OF d x(1)] aat unfolding conns_ok_def by metis
      qed
      show "(n_con n1 = None \<or> n_con n1 \<noteq> n_con n2) \<and> (n_acon n1 = None \<or> n_acon n1 \<noteq> n_acon n2)"
        if xy: "owns d t x" "owns d t y" "node_at ?u x = Some n1" "node_at ?u y = Some n2" "x \<noteq> y" for x y n1 n2
      proof -
        have old: "(n_con m1 = None \<or> n_con m1 \<noteq> n_con m2) \<and> (n_acon m1 = None \<or> n_acon m1 \<noteq> n_acon m2)"
          if "node_at t x = Some m1" "node_at t y = Some m2" for m1 m2
          using ok xy(1,2,5) that unfolding conns_ok_def by blast
        consider "x = n" "y \<noteq> n" | "x \<noteq> n" "y = n" | "x \<noteq> n" "y \<noteq> n" using xy(5) by blast
        then show ?thesis
        proof cases
          case 1
          then show ?thesis using old [OF m(1) [folded 1(1)]] xy at [of x] at [of y] fr [OF d xy(2)] by auto
        next
          case 2
          then show ?thesis using old [OF _ m(1) [folded 2(2)]] xy at [of x] at [of y] fr [OF d xy(1)] by auto
        next
          case 3
          then show ?thesis using old xy at [of x] at [of y] by simp
        qed
      qed
    qed
  qed
  have "cluster_inv ?u" using it cons nodes_own_struct [OF _ st] unfolding cluster_inv_def f by blast
  moreover have "known ?u x = known t x" for x unfolding known_def f ow ..
  ultimately have "linked t ?u" by (simp add: linked_def f same_conf_def node_put_def)
  then have "linked s ?u" using lt linked_trans by blast
  moreover have "acon_link a n t = Some ?u" using a(2) m(1) by (simp add: acon_link_def)
  moreover have "acon_at ?u a \<noteq> None" using aat [of a] by (metis option.distinct(1))
  ultimately show ?thesis using at [of n] by auto
qed

text \<open>A step that keeps the invariant and the known nodes, and adds no callback but empty ones.\<close>

definition smooth :: "('c, 'w) redisClusterAsyncContext \<Rightarrow> ('c, 'w) redisClusterAsyncContext \<Rightarrow> bool" where
  "smooth acc acc' \<longleftrightarrow> linked (acc_cc acc) (acc_cc acc') \<and>
     (\<exists>ps. acc_pending acc' = acc_pending acc @ ps \<and> (\<forall>p \<in> set ps. snd p = NO_CB)) \<and> acc_calls acc' = acc_calls acc"

lemma smooth_trans [trans]:
  assumes "smooth acc acc'" "smooth acc' acc''"
  shows "smooth acc acc''"
  using assms linked_trans unfolding smooth_def by fastforce

lemma quiet_smooth: "cluster_inv (acc_cc acc) \<Longrightarrow> quiet acc acc' \<Longrightarrow> smooth acc acc'"
  by (simp add: smooth_def quiet_linked) (simp add: quiet_def)

lemma smooth_inv: "smooth acc acc' \<Longrightarrow> cluster_inv (acc_cc acc')"
  by (simp add: smooth_def linked_def)

lemma smooth_known: "smooth acc acc' \<Longrightarrow> known (acc_cc acc') n = known (acc_cc acc) n"
  by (simp add: smooth_def linked_def)

text \<open>The connection of a node.\<close>

definition acon_of_node :: "addr \<Rightarrow> addr \<Rightarrow> ('c, 'w, 'z) cluster_scheme \<Rightarrow> bool" where
  "acon_of_node n a s \<longleftrightarrow> (\<exists>nd. node_at s n = Some nd \<and> n_acon nd = Some a) \<and> acon_at s a \<noteq> None"

lemma wired_acon_of_node:
  assumes "wired s t" "acon_of_node n a s"
  shows "acon_of_node n a t"
proof -
  obtain nd where nd: "node_at s n = Some nd" "n_acon nd = Some a" "acon_at s a \<noteq> None" using assms(2) by (auto simp: acon_of_node_def)
  have "view_at t n = view_at s n" using assms(1) by (simp add: wired_def)
  then have "\<exists>m. node_at t n = Some m \<and> n_acon m = Some a" using nd(1,2) by (cases "node_at t n") (auto simp: view_at_def own_view_def)
  moreover have "acon_at t a \<noteq> None" using assms(1) nd(3) unfolding wired_def by fastforce
  ultimately show ?thesis by (simp add: acon_of_node_def)
qed

lemma node_stamp_wired:
  assumes "node_at s n = Some nd"
  shows "wired s (node_put n (nd\<lparr>n_lastConnectionAttempt := t\<rparr>) s)"
proof -
  have "view_at (node_put n (nd\<lparr>n_lastConnectionAttempt := t\<rparr>) s) x = view_at s x" for x
    using assms by (auto simp: view_at_def node_put_def own_view_def)
  then show ?thesis by (simp add: wired_def) (simp add: node_put_def same_conf_def)
qed

lemma actx_connect_ex:
  assumes inv: "cluster_inv (acc_cc acc)" and n: "known (acc_cc acc) n" "node_at (acc_cc acc) n = Some nd" "n_acon nd = None"
  shows "\<exists>r acc'. actx_connect HA n host acc = Some (r, acc') \<and> smooth acc acc' \<and> (\<forall>a. r = Some a \<longrightarrow> acon_of_node n a (acc_cc acc'))"
proof -
  obtain now acc1 where 1: "usec_now HA acc = (now, acc1)" by (cases "usec_now HA acc")
  have q1: "quiet acc acc1" "w_nodes (acc_cc acc1) = w_nodes (acc_cc acc)" "w_acons (acc_cc acc1) = w_acons (acc_cc acc)"
    using usec_now_quiet [of acc HA] 1 by (auto simp: usec_now_def split: prod.splits)
  have nd1: "node_at (acc_cc acc1) n = Some nd" using n(2) q1(2) by simp
  define s where "s = node_put n (nd\<lparr>n_lastConnectionAttempt := now\<rparr>) (acc_cc acc1)"
  have ws: "wired (acc_cc acc1) s" using node_stamp_wired [OF nd1] by (simp add: s_def)
  have ac: "w_acons s = w_acons (acc_cc acc)" using q1(3) by (simp add: s_def node_put_def)
  obtain c w where c: "redisAsyncConnectWithOptions HA host (uint (n_port nd)) (cc_connect_timeout s) (cc_command_timeout s) (w_world s) = (c, w)"
    by (cases "redisAsyncConnectWithOptions HA host (uint (n_port nd)) (cc_connect_timeout s) (cc_command_timeout s) (w_world s)")
  show ?thesis
  proof (cases c)
    case None
    have "quiet acc1 (acc1\<lparr>acc_cc := s\<lparr>w_world := w\<rparr>\<rparr>)" using quiet_cc [OF wired_trans [OF ws wired_simps(1)]] .
    then have "quiet acc (async_oom (acc1\<lparr>acc_cc := s\<lparr>w_world := w\<rparr>\<rparr>))" using quiet_trans q1(1) quiet_error(1) by blast
    moreover have "actx_connect HA n host acc = Some (None, async_oom (acc1\<lparr>acc_cc := s\<lparr>w_world := w\<rparr>\<rparr>))"
      using 1 nd1 c None by (simp add: actx_connect_def s_def [symmetric])
    ultimately show ?thesis using quiet_smooth [OF inv] by simp
  next
    case (Some ctx)
    define a t where "a = length (w_acons s)" and "t = s\<lparr>w_world := w, w_acons := w_acons s @ [Some (ctx\<lparr>ac_data := None\<rparr>)]\<rparr>"
    have "wired s t" using view_nodes [of t s] by (auto simp: t_def wired_def same_conf_def dest: store_at_less)
    with ws have wt: "wired (acc_cc acc1) t" by (rule wired_trans)
    have q2: "quiet acc (acc1\<lparr>acc_cc := t\<rparr>)" using quiet_trans [OF q1(1) quiet_cc [OF wt]] .
    have at: "acon_at (acc_cc (acc1\<lparr>acc_cc := t\<rparr>)) a \<noteq> None" by (simp add: t_def a_def)
    have fresh: "acon_at (acc_cc acc) a = None" using ac by (simp add: a_def store_at_def)
    obtain b acc2 where 2: "acon_setup HA a (acc1\<lparr>acc_cc := t\<rparr>) = Some (b, acc2)" "quiet (acc1\<lparr>acc_cc := t\<rparr>) acc2"
      using acon_setup_quiet [OF at] by blast
    note q = quiet_trans [OF q2 2(2)]
    have d: "actx_connect HA n host acc = (if \<not> b then Some (None, redisAsyncFree a acc2)
        else do { s2 \<leftarrow> acon_link a n (acc_cc acc2); Some (Some a, acc2\<lparr>acc_cc := s2\<rparr>) })"
      using 1 nd1 c Some 2(1) by (simp add: actx_connect_def s_def [symmetric] a_def t_def Let_def)
    show ?thesis
    proof (cases b)
      case False
      have "quiet acc (redisAsyncFree a acc2)" using q wired_free [OF _ fresh] by (simp add: quiet_def redisAsyncFree_def)
      with d False show ?thesis using quiet_smooth [OF inv] by simp
    next
      case True
      obtain ctx2 where ctx2: "acon_at (acc_cc acc2) a = Some ctx2" using quiet_live [OF 2(2) at] by blast
      obtain u m where u: "acon_link a n (acc_cc acc2) = Some u" "linked (acc_cc acc) u" "node_at u n = Some m" "n_acon m = Some a" "acon_at u a \<noteq> None"
        using acon_link_ex [OF inv n _ fresh ctx2] q unfolding quiet_def by blast
      have "smooth acc (acc2\<lparr>acc_cc := u\<rparr>)" using q u(2) by (simp add: smooth_def quiet_def)
      moreover have "acon_of_node n a u" using u(3-5) by (simp add: acon_of_node_def)
      ultimately show ?thesis using d True u(1) by simp
    qed
  qed
qed

lemma known_node:
  assumes "cluster_inv s" "known s n"
  obtains nd where "node_at s n = Some nd" "\<forall>a. n_acon nd = Some a \<longrightarrow> (\<exists>ac. acon_at s a = Some ac \<and> ac_data ac = Some n)"
proof -
  obtain d where d: "cc_nodes s = Some d" "owns d s n" using assms(2) by (auto simp: known_def)
  then obtain nd where "node_at s n = Some nd" using assms(1) owns_live unfolding cluster_inv_def by blast
  with d assms(1) show thesis using that unfolding cluster_inv_def conns_ok_def by blast
qed

lemma actx_get_by_node_ex:
  assumes inv: "cluster_inv (acc_cc acc)" and n: "known (acc_cc acc) n"
  shows "\<exists>r acc'. actx_get_by_node HA (Some n) acc = Some (r, acc') \<and> smooth acc acc' \<and> (\<forall>a. r = Some a \<longrightarrow> acon_of_node n a (acc_cc acc'))"
proof -
  obtain nd where nd: "node_at (acc_cc acc) n = Some nd"
    "\<forall>a. n_acon nd = Some a \<longrightarrow> (\<exists>ac. acon_at (acc_cc acc) a = Some ac \<and> ac_data ac = Some n)"
    using known_node [OF assms] .
  have sm: "smooth acc acc" "smooth acc (redisClusterAsyncSetError e m acc)" for e m
    using quiet_smooth [OF inv quiet_refl] quiet_smooth [OF inv quiet_error(1)] by simp_all
  show ?thesis
  proof (cases "n_acon nd")
    case (Some a)
    then obtain ac where "acon_at (acc_cc acc) a = Some ac" using nd(2) by blast
    with Some nd(1) sm show ?thesis by (simp add: actx_get_by_node_def acon_of_node_def)
  next
    case None
    show ?thesis
    proof (cases "n_host nd = None \<or> n_port nd \<le> 0")
      case True
      then have "actx_get_by_node HA (Some n) acc = Some (None, redisClusterAsyncSetError REDIS_ERR_OTHER ''node host or port is error'' acc)"
        using nd(1) None by (auto simp: actx_get_by_node_def split: option.splits)
      with sm show ?thesis by simp
    next
      case False
      then obtain host where "actx_get_by_node HA (Some n) acc = actx_connect HA n host acc"
        using nd(1) None by (auto simp: actx_get_by_node_def)
      with actx_connect_ex [OF inv n nd(1) None] show ?thesis by simp
    qed
  qed
qed

section \<open>Selecting a node\<close>

text \<open>
  The loop over the nodes, told by what it asks of each: a connected node is chosen if there is one, otherwise one
  that has not been tried within the last second.
\<close>

definition chooses :: "(addr \<Rightarrow> bool) \<Rightarrow> (addr \<Rightarrow> bool) \<Rightarrow> addr set \<Rightarrow> addr option \<Rightarrow> bool" where
  "chooses connected untried ns r \<longleftrightarrow>
     (case r of
        None \<Rightarrow> (\<forall>n \<in> ns. \<not> connected n \<and> \<not> untried n)
      | Some n \<Rightarrow> n \<in> ns \<and> (connected n \<or> untried n \<and> (\<forall>m \<in> ns. \<not> connected m)))"

lemma select_loop_chooses:
  assumes "\<forall>n \<in> ns \<union> snd ` set es. \<exists>nd. node_at s n = Some nd \<and> nodeIsConnected n s = Some (C n) \<and> A n = (n_lastConnectionAttempt nd < lim)"
    and "chooses C A ns selected"
  shows "\<exists>r. select_loop lim chk i selected es s = Some r \<and> chooses C A (ns \<union> snd ` set es) r"
  using assms
proof (induction es arbitrary: i selected ns)
  case Nil
  then show ?case by simp
next
  case (Cons de es)
  let ?n = "snd de"
  obtain nd where nd: "node_at s ?n = Some nd" "nodeIsConnected ?n s = Some (C ?n)" "A ?n = (n_lastConnectionAttempt nd < lim)"
    using Cons.prems(1) by auto
  have sel: "selectedConnected r s = Some (case r of None \<Rightarrow> False | Some n \<Rightarrow> C n)" if "chooses C A (insert ?n ns) r \<or> chooses C A ns r" for r
    using Cons.prems(1) that by (auto simp: selectedConnected_def chooses_def split: option.splits)
  define r where "r = (if C ?n then Some ?n
    else if n_lastConnectionAttempt nd < lim \<and> (selected = None \<or> (i < chk \<and> \<not> (case selected of None \<Rightarrow> False | Some n \<Rightarrow> C n))) then Some ?n
    else selected)"
  have r: "chooses C A (insert ?n ns) r"
    using Cons.prems(2) nd(3) by (auto simp: chooses_def r_def split: option.splits if_splits)
  have step: "select_loop lim chk i selected (de # es) s =
      (if i \<ge> chk \<and> r \<noteq> None \<and> (case r of None \<Rightarrow> False | Some n \<Rightarrow> C n) then Some r else select_loop lim chk (i + 1) r es s)"
    using nd(1,2) sel [of selected] sel [of r] Cons.prems(2) r by (simp add: r_def [symmetric])
  show ?case
  proof (cases "i \<ge> chk \<and> r \<noteq> None \<and> (case r of None \<Rightarrow> False | Some n \<Rightarrow> C n)")
    case True
    then have "chooses C A (ns \<union> snd ` set (de # es)) r" using r by (auto simp: chooses_def)
    then show ?thesis using step True by auto
  next
    case False
    have ns: "ns \<union> snd ` set (de # es) = insert ?n ns \<union> snd ` set es" by auto
    show ?thesis using Cons.IH [OF _ r, of "i + 1"] Cons.prems(1) unfolding ns step if_not_P [OF False] by blast
  qed
qed

definition connected :: "('c, 'w, 'z) cluster_scheme \<Rightarrow> addr \<Rightarrow> bool" where
  "connected s n \<longleftrightarrow> nodeIsConnected n s = Some True"

definition untried :: "int \<Rightarrow> ('c, 'w, 'z) cluster_scheme \<Rightarrow> addr \<Rightarrow> bool" where
  "untried now s n \<longleftrightarrow> (\<exists>nd. node_at s n = Some nd \<and> n_lastConnectionAttempt nd < now - SLOTMAP_UPDATE_THROTTLE_USEC)"

lemma nodeIsConnected_ex:
  assumes "cluster_inv s" "known s n"
  shows "nodeIsConnected n s = Some (connected s n)"
proof -
  obtain nd where nd: "node_at s n = Some nd" "\<forall>a. n_acon nd = Some a \<longrightarrow> (\<exists>ac. acon_at s a = Some ac \<and> ac_data ac = Some n)"
    using known_node [OF assms] .
  then show ?thesis by (cases "n_acon nd") (auto simp: nodeIsConnected_def connected_def)
qed

lemma selectNode_ex:
  assumes inv: "cluster_inv (acc_cc acc)" and d: "cc_nodes (acc_cc acc) = Some d" "d_used d \<noteq> 0"
  shows "\<exists>r acc'. selectNode HA d acc = Some (r, acc') \<and> quiet acc acc' \<and>
     chooses (connected (acc_cc acc)) (untried (fst (usec_now HA acc)) (acc_cc acc)) (ran (dict_map d)) r"
proof -
  let ?s = "acc_cc acc" and ?now = "fst (usec_now HA acc)"
  obtain tod w where "gettimeofday HA (w_world ?s) = (tod, w)" by (cases "gettimeofday HA (w_world ?s)")
  then have w: "snd (usec_now HA acc) = acc\<lparr>acc_cc := ?s\<lparr>w_world := w\<rparr>\<rparr>" by (simp add: usec_now_def)
  obtain rnd w' where r: "c_random HA w = (rnd, w')" by (cases "c_random HA w")
  let ?t = "?s\<lparr>w_world := w'\<rparr>"
  have wf: "dict_wf d" using inv d(1) by (simp add: cluster_inv_def nodes_own_def)
  have ns: "snd ` set (dict_iter d) = ran (dict_map d)"
    using dict_map_entries [OF wf] by (force simp: dict_iter_entries [OF wf] ran_def)
  have it: "cluster_inv ?t" using inv cluster_inv_cong [of ?t ?s] by simp
  have same: "connected ?t = connected ?s" "untried ?now ?t = untried ?now ?s"
    by (simp_all add: fun_eq_iff connected_def untried_def nodeIsConnected_def cong: option.case_cong)
  have "\<exists>nd. node_at ?t n = Some nd \<and> nodeIsConnected n ?t = Some (connected ?t n) \<and>
      untried ?now ?t n = (n_lastConnectionAttempt nd < ?now - SLOTMAP_UPDATE_THROTTLE_USEC)" if n: "n \<in> {} \<union> snd ` set (dict_iter d)" for n
  proof -
    have k: "known ?t n" using n d(1) ns known_member [of ?t d] by (auto simp: ran_def)
    obtain nd where "node_at ?t n = Some nd" using known_node [OF it k] by blast
    then show ?thesis using nodeIsConnected_ex [OF it k] by (simp add: untried_def)
  qed
  then have "\<exists>r. select_loop (?now - SLOTMAP_UPDATE_THROTTLE_USEC) (rnd mod d_used d) 0 None (dict_iter d) ?t = Some r \<and>
      chooses (connected ?t) (untried ?now ?t) ({} \<union> snd ` set (dict_iter d)) r"
    by (intro select_loop_chooses) (auto simp: chooses_def)
  then obtain res where res: "select_loop (?now - SLOTMAP_UPDATE_THROTTLE_USEC) (rnd mod d_used d) 0 None (dict_iter d) ?t = Some res"
      "chooses (connected ?s) (untried ?now ?s) (ran (dict_map d)) res"
    unfolding same ns by auto
  have "selectNode HA d acc = Some (res, acc\<lparr>acc_cc := ?t\<rparr>)"
    using w r d(2) res(1) by (simp add: selectNode_def case_prod_unfold Let_def)
  with res(2) show ?thesis using quiet_cc [of acc ?t] by simp
qed

section \<open>Slot map updates\<close>

text \<open>A table of nodes that is there is not empty.\<close>

definition some_nodes :: "('c, 'w, 'z) cluster_scheme \<Rightarrow> bool" where
  "some_nodes s \<longleftrightarrow> (\<forall>d. cc_nodes s = Some d \<longrightarrow> d_used d \<noteq> 0)"

text \<open>A step that keeps the invariant and the known nodes, and adds no callback of a user.\<close>

definition flows :: "('c, 'w) redisClusterAsyncContext \<Rightarrow> ('c, 'w) redisClusterAsyncContext \<Rightarrow> bool" where
  "flows acc acc' \<longleftrightarrow> linked (acc_cc acc) (acc_cc acc') \<and>
     (\<exists>ps. acc_pending acc' = acc_pending acc @ ps \<and> waiting ps = {#}) \<and> acc_calls acc' = acc_calls acc"

lemma flows_trans [trans]:
  assumes "flows acc acc'" "flows acc' acc''"
  shows "flows acc acc''"
  using assms linked_trans unfolding flows_def by fastforce

lemma smooth_flows:
  assumes "smooth acc acc'"
  shows "flows acc acc'"
proof -
  have "waiting ps = {#}" if "\<forall>p \<in> set ps. snd p = NO_CB" for ps using that by (induction ps) auto
  with assms show ?thesis by (auto simp: smooth_def flows_def)
qed

lemma flows_refl: "cluster_inv (acc_cc acc) \<Longrightarrow> flows acc acc"
  using smooth_flows [OF quiet_smooth [OF _ quiet_refl]] .

lemma flows_inv: "flows acc acc' \<Longrightarrow> cluster_inv (acc_cc acc')"
  by (simp add: flows_def linked_def)

lemma stamp_flows: "cluster_inv (acc_cc acc) \<Longrightarrow> flows acc (stamp_attempt HA acc)"
  using quiet_smooth [of acc "snd (usec_now HA acc)"] usec_now_quiet [of acc HA]
  by (intro smooth_flows) (auto simp: stamp_attempt_def smooth_def split: prod.splits)

lemma update_acon_ex:
  assumes inv: "cluster_inv (acc_cc acc)" and ns: "some_nodes (acc_cc acc)" and ac: "\<forall>a. ac = Some a \<longrightarrow> acon_at (acc_cc acc) a \<noteq> None"
  shows "\<exists>r acc'. update_acon HA ac acc = Some (r, acc') \<and> smooth acc acc' \<and> (\<forall>a. r = Some a \<longrightarrow> acon_at (acc_cc acc') a \<noteq> None)"
proof (cases ac)
  case (Some a)
  then show ?thesis using ac quiet_smooth [OF inv quiet_refl] by (simp add: update_acon_def)
next
  case None
  show ?thesis
  proof (cases "cc_nodes (acc_cc acc)")
    case None
    then show ?thesis using \<open>ac = None\<close> quiet_smooth [OF inv quiet_error(1)] by (simp add: update_acon_def)
  next
    case (Some d)
    then have u: "d_used d \<noteq> 0" using ns by (simp add: some_nodes_def)
    let ?c = "connected (acc_cc acc)" and ?u = "untried (fst (usec_now HA acc)) (acc_cc acc)"
    obtain n acc1 where 1: "selectNode HA d acc = Some (n, acc1)" "quiet acc acc1" "chooses ?c ?u (ran (dict_map d)) n"
      using selectNode_ex [OF inv Some u, of HA] by blast
    note s1 = quiet_smooth [OF inv 1(2)]
    show ?thesis
    proof (cases n)
      case None
      then show ?thesis using \<open>ac = None\<close> Some 1(1) s1 by (simp add: update_acon_def)
    next
      case (Some m)
      then have "known (acc_cc acc) m" using 1(3) \<open>cc_nodes (acc_cc acc) = Some d\<close> known_member by (auto simp: chooses_def ran_def)
      then have k: "known (acc_cc acc1) m" using smooth_known [OF s1] by simp
      obtain r acc2 where 2: "actx_get_by_node HA (Some m) acc1 = Some (r, acc2)" "smooth acc1 acc2" "\<forall>a. r = Some a \<longrightarrow> acon_of_node m a (acc_cc acc2)"
        using actx_get_by_node_ex [OF smooth_inv [OF s1] k, of HA] by blast
      then show ?thesis
        using \<open>ac = None\<close> \<open>cc_nodes (acc_cc acc) = Some d\<close> Some 1(1) smooth_trans [OF s1 2(2)] by (simp add: update_acon_def acon_of_node_def)
    qed
  qed
qed

lemma ask_flows:
  assumes inv: "cluster_inv (acc_cc acc)" and a: "acon_at (acc_cc acc) a \<noteq> None" and cb: "cb_users cb = {#}"
  shows "\<exists>r acc'. acon_send f cb a acc = Some (r, acc') \<and> flows acc acc'"
proof -
  obtain r acc' where s: "acon_send f cb a acc = Some (r, acc')" "wired (acc_cc acc) (acc_cc acc')" "acc_calls acc' = acc_calls acc"
     "acc_pending acc' = acc_pending acc @ (if r = REDIS_OK then [(a, cb)] else [])"
    using acon_send_ex [OF a, of f cb] by blast
  then show ?thesis using wired_linked [OF inv s(2)] cb by (simp add: flows_def)
qed

lemma flows_attempt: "flows acc acc' \<Longrightarrow> flows acc (acc'\<lparr>acc_lastSlotmapUpdateAttempt := t\<rparr>)"
  by (simp add: flows_def)

lemma updateSlotMapAsync_ex:
  assumes inv: "cluster_inv (acc_cc acc)" and ns: "some_nodes (acc_cc acc)" and ac: "\<forall>a. ac = Some a \<longrightarrow> acon_at (acc_cc acc) a \<noteq> None"
  shows "\<exists>r acc'. updateSlotMapAsync HA ac acc = Some (r, acc') \<and> flows acc acc'"
proof (cases "acc_lastSlotmapUpdateAttempt acc = SLOTMAP_UPDATE_ONGOING \<or> closing acc")
  case True
  then show ?thesis using flows_refl [OF inv] by (auto simp: updateSlotMapAsync_def)
next
  case False
  obtain c acc1 where 1: "update_acon HA ac acc = Some (c, acc1)" "smooth acc acc1" "\<forall>a. c = Some a \<longrightarrow> acon_at (acc_cc acc1) a \<noteq> None"
    using update_acon_ex [OF assms, of HA] by blast
  note f1 = smooth_flows [OF 1(2)]
  show ?thesis
  proof (cases c)
    case None
    then show ?thesis using False 1(1) flows_trans [OF f1 stamp_flows [OF flows_inv [OF f1]]] by (simp add: updateSlotMapAsync_def)
  next
    case (Some a)
    then have a: "acon_at (acc_cc acc1) a \<noteq> None" using 1(3) by blast
    define cb ws where "cb = (if has_flag HIRCLUSTER_FLAG_ROUTE_USE_SLOTS (acc_cc acc1) then SLOTS_CB else NODES_CB)"
      and "ws = (if has_flag HIRCLUSTER_FLAG_ROUTE_USE_SLOTS (acc_cc acc1) then [''CLUSTER'', ''SLOTS''] else [''CLUSTER'', ''NODES''])"
    have "cb_users cb = {#}" by (simp add: cb_def)
    then obtain r acc2 where 2: "acon_send (redisAsyncCommand HA ws) cb a acc1 = Some (r, acc2)" "flows acc1 acc2"
      using ask_flows [OF flows_inv [OF f1] a, of cb "redisAsyncCommand HA ws"] by blast
    note f2 = flows_trans [OF f1 2(2)]
    have "updateSlotMapAsync HA ac acc = Some (if r = REDIS_OK then (REDIS_OK, acc2\<lparr>acc_lastSlotmapUpdateAttempt := SLOTMAP_UPDATE_ONGOING\<rparr>)
        else (REDIS_ERR, stamp_attempt HA acc2))"
      using False 1(1) Some 2(1) by (simp add: updateSlotMapAsync_def cb_def ws_def split: if_splits)
    then show ?thesis using flows_attempt [OF f2] flows_trans [OF f2 stamp_flows [OF flows_inv [OF f2]]] by simp
  qed
qed

lemma throttled_ex:
  assumes inv: "cluster_inv (acc_cc acc)" and ns: "some_nodes (acc_cc acc)" and ac: "\<forall>a. ac = Some a \<longrightarrow> acon_at (acc_cc acc) a \<noteq> None"
  shows "\<exists>acc'. throttledUpdateSlotMapAsync HA ac acc = Some acc' \<and> flows acc acc'"
proof -
  obtain now acc1 where u: "usec_now HA acc = (now, acc1)" by (cases "usec_now HA acc")
  have q: "quiet acc acc1" using usec_now_quiet [of acc HA] u by simp
  note f = smooth_flows [OF quiet_smooth [OF inv q]]
  have ns1: "some_nodes (acc_cc acc1)" using ns f by (simp add: some_nodes_def flows_def linked_def)
  obtain r acc2 where 2: "updateSlotMapAsync HA ac acc1 = Some (r, acc2)" "flows acc1 acc2"
    using updateSlotMapAsync_ex [OF flows_inv [OF f] ns1, of ac HA] ac quiet_live [OF q] by blast
  show ?thesis using u 2 f flows_refl [OF inv] flows_trans [OF f 2(2)] by (auto simp: throttledUpdateSlotMapAsync_def)
qed

section \<open>The reply to CLUSTER SLOTS\<close>

lemma take_nodes_ex:
  assumes b: "\<forall>d. nodes = Some d \<longrightarrow> building n0 d cc" and inv: "cluster_inv cc" and n0: "\<forall>x. known cc x \<longrightarrow> x < n0" and ns: "some_nodes cc"
  shows "\<exists>acc'. take_nodes HA nodes cc acc = Some acc' \<and> cluster_inv (acc_cc acc') \<and> acc_calls acc' = acc_calls acc"
proof -
  obtain r cc1 where 1: "updateNodesAndSlotmap nodes cc = Some (r, cc1)" "updated 0 cc r cc1"
    using updateNodesAndSlotmap_ex [OF b inv n0] by blast
  have inv1: "cluster_inv cc1" using 1(2) by (simp add: updated_def)
  show ?thesis
  proof (cases "r = REDIS_OK")
    case True
    then show ?thesis using 1(1) inv1 by (simp add: take_nodes_def)
  next
    case False
    then have "some_nodes cc1" using 1(2) ns by (auto simp: updated_def kept_def some_nodes_def)
    then obtain q acc' where "updateSlotMapAsync HA None (acc\<lparr>acc_cc := cc1\<rparr>) = Some (q, acc')" "flows (acc\<lparr>acc_cc := cc1\<rparr>) acc'"
      using updateSlotMapAsync_ex [of "acc\<lparr>acc_cc := cc1\<rparr>" None HA] inv1 by auto
    then show ?thesis using 1(1) False flows_inv [of "acc\<lparr>acc_cc := cc1\<rparr>" acc'] by (auto simp: take_nodes_def flows_def)
  qed
qed

lemma flows_some_nodes: "flows acc acc' \<Longrightarrow> some_nodes (acc_cc acc') = some_nodes (acc_cc acc)"
  by (simp add: flows_def linked_def some_nodes_def)

lemma clusterSlotsReplyCallback_ex:
  assumes inv: "cluster_inv (acc_cc acc)" and ns: "some_nodes (acc_cc acc)" and ok: "\<forall>r. reply = Some r \<longrightarrow> reply_ok r"
  shows "\<exists>acc'. clusterSlotsReplyCallback L HA ac reply acc = Some acc' \<and> cluster_inv (acc_cc acc') \<and> acc_calls acc' = acc_calls acc"
proof -
  let ?acc = "stamp_attempt HA acc"
  note f = stamp_flows [OF inv, of HA]
  note inv1 = flows_inv [OF f]
  show ?thesis
  proof (cases reply)
    case None
    obtain q acc' where "updateSlotMapAsync HA None ?acc = Some (q, acc')" "flows ?acc acc'"
      using updateSlotMapAsync_ex [OF inv1, of None HA] ns flows_some_nodes [OF f] by auto
    then show ?thesis using None flows_trans [OF f, of acc'] flows_inv [of acc acc'] by (auto simp: clusterSlotsReplyCallback_def Let_def flows_def)
  next
    case (Some r)
    let ?n0 = "length (w_nodes (acc_cc ?acc))"
    obtain nodes cc where p: "parse_cluster_slots L (rc_host (ac_c ac)) (Some r) (acc_cc ?acc) = Some (nodes, cc)" "parse_step ?n0 (acc_cc ?acc) cc"
        "\<forall>d. nodes = Some d \<longrightarrow> building ?n0 d cc"
      using parse_cluster_slots_ex [of r L "rc_host (ac_c ac)" "acc_cc ?acc"] ok Some by (cases r) (auto simp: reply_ok_def)
    note k = parse_step_kept [OF inv1 p(2) order_refl]
    have "\<forall>x. known cc x \<longrightarrow> x < ?n0" using known_kept [OF k(1)] known_less [OF inv1] by blast
    moreover have "some_nodes cc" using ns flows_some_nodes [OF f] k(1) by (simp add: some_nodes_def kept_def)
    ultimately obtain acc' where "take_nodes HA nodes cc ?acc = Some acc'" "cluster_inv (acc_cc acc')" "acc_calls acc' = acc_calls ?acc"
      using take_nodes_ex [OF p(3) k(2), of HA ?acc] by blast
    then show ?thesis using Some p(1) f by (simp add: clusterSlotsReplyCallback_def Let_def flows_def)
  qed
qed

text \<open>A reply that describes the slots gives the table it describes.\<close>

lemma stamp_attempt_cc: "\<exists>w. acc_cc (stamp_attempt HA acc) = (acc_cc acc)\<lparr>w_world := w\<rparr>"
  by (cases "gettimeofday HA (w_world (acc_cc acc))") (simp add: stamp_attempt_def usec_now_def, rule exI, rule refl)

lemma clusterSlotsReplyCallback_table:
  assumes inv: "cluster_inv (acc_cc acc)" and es: "map (region_reads (rc_host (ac_c ac))) es = map Some rs" "es \<noteq> []" "length es < 2 ^ 30"
    and ok: "sds_ok L" "no_oom (w_script (acc_cc acc))" and rok: "regions_ok rs"
  shows "\<exists>acc'. clusterSlotsReplyCallback L HA ac (Some (REDIS_REPLY_ARRAY es)) acc = Some acc' \<and> cluster_inv (acc_cc acc') \<and>
     acc_pending acc' = acc_pending acc \<and> acc_lastSlotmapUpdateAttempt acc' = acc_lastSlotmapUpdateAttempt (stamp_attempt HA acc) \<and>
     (\<forall>i < REDIS_CLUSTER_SLOTS. routes_to (acc_cc acc') i (slot_owner rs i)) \<and>
     (\<forall>d k n nd. cc_nodes (acc_cc acc') = Some d \<longrightarrow> dict_map d k = Some n \<longrightarrow> node_at (acc_cc acc') n = Some nd \<longrightarrow>
        n_acon nd = old_acon (acc_cc acc) k)"
proof -
  let ?acc = "stamp_attempt HA acc"
  note inv1 = flows_inv [OF stamp_flows [OF inv, of HA]]
  obtain w where w: "acc_cc ?acc = (acc_cc acc)\<lparr>w_world := w\<rparr>" using stamp_attempt_cc [of HA acc] by (elim exE) (rule that)
  have oom: "no_oom (w_script (acc_cc ?acc))" using ok(2) w by simp
  have old: "old_acon (acc_cc ?acc) k = old_acon (acc_cc acc) k" for k
    unfolding w using own_cong(6) [of "(acc_cc acc)\<lparr>w_world := w\<rparr>" "acc_cc acc"] by (auto simp: old_acon_def split: option.splits)
  obtain d u where p: "parse_cluster_slots L (rc_host (ac_c ac)) (Some (REDIS_REPLY_ARRAY es)) (acc_cc ?acc) = Some (Some d, u)"
     "parse_step (length (w_nodes (acc_cc ?acc))) (acc_cc ?acc) u" "building (length (w_nodes (acc_cc ?acc))) d u" "no_oom (w_script u)" "parsed d u rs"
    using slots_parsed [OF es ok(1) oom] by blast
  obtain v where v: "updateNodesAndSlotmap (Some d) u = Some (REDIS_OK, v)" "cluster_inv v" "\<forall>i < REDIS_CLUSTER_SLOTS. routes_to v i (slot_owner rs i)"
     "\<forall>d k n nd. cc_nodes v = Some d \<longrightarrow> dict_map d k = Some n \<longrightarrow> node_at v n = Some nd \<longrightarrow> n_acon nd = old_acon (acc_cc ?acc) k"
    using parsed_update_table [OF inv1 p(2,3,5,4) rok] by blast
  have "clusterSlotsReplyCallback L HA ac (Some (REDIS_REPLY_ARRAY es)) acc = Some (?acc\<lparr>acc_cc := v\<rparr>)"
    using p(1) v(1) by (simp add: clusterSlotsReplyCallback_def take_nodes_def Let_def)
  then show ?thesis using v(2-4) old by simp
qed

section \<open>Freeing the context\<close>

lemma map_filter_same: "(\<And>x. x \<in> set xs \<Longrightarrow> f x = g x) \<Longrightarrow> List.map_filter f xs = List.map_filter g xs"
  by (induction xs) (simp_all add: map_filter_simps split: option.split)

lemma release_all_log:
  assumes "distinct xs" "\<forall>x \<in> set xs. node_at s x \<noteq> None"
  shows "w_log (release_all xs s) = w_log s @ map ASYNC_FREE (List.map_filter (\<lambda>x. n_acon (the (node_at s x))) xs)"
  using assms
proof (induction xs arbitrary: s)
  case Nil
  then show ?case by (simp add: map_filter_simps)
next
  case (Cons x xs)
  let ?s = "release_node x (the (node_at s x)) s"
  have "w_log (release_all xs ?s) = w_log ?s @ map ASYNC_FREE (List.map_filter (\<lambda>x. n_acon (the (node_at ?s x))) xs)"
    using Cons.prems by (intro Cons.IH) auto
  moreover have "List.map_filter (\<lambda>x. n_acon (the (node_at ?s x))) xs = List.map_filter (\<lambda>x. n_acon (the (node_at s x))) xs"
    using Cons.prems(1) by (intro map_filter_same) auto
  moreover have "w_log ?s = w_log s @ map ASYNC_FREE (case n_acon (the (node_at s x)) of None \<Rightarrow> [] | Some a \<Rightarrow> [a])"
    by (simp add: release_node_def free_acon_def redisFree_def cc_log_def split: option.splits)
  ultimately show ?case by (simp add: map_filter_simps split: option.splits)
qed

text \<open>The connections of the known nodes.\<close>

definition node_acons :: "('c, 'w, 'z) cluster_scheme \<Rightarrow> addr set" where
  "node_acons s = {a. \<exists>x nd. known s x \<and> node_at s x = Some nd \<and> n_acon nd = Some a}"

lemma set_map_filter: "set (List.map_filter f xs) = {y. \<exists>x \<in> set xs. f x = Some y}"
  by (induction xs) (auto simp: map_filter_simps split: option.splits)

lemma distinct_map_filter:
  assumes "distinct xs" "\<And>x y z. x \<in> set xs \<Longrightarrow> y \<in> set xs \<Longrightarrow> f x = Some z \<Longrightarrow> f y = Some z \<Longrightarrow> x = y"
  shows "distinct (List.map_filter f xs)"
  using assms
proof (induction xs)
  case Nil
  then show ?case by (simp add: map_filter_simps)
next
  case (Cons x xs)
  have "distinct (List.map_filter f xs)" using Cons.prems by (intro Cons.IH) auto
  moreover have "y \<notin> set (List.map_filter f xs)" if "f x = Some y" for y
  proof
    assume "y \<in> set (List.map_filter f xs)"
    then obtain x' where "x' \<in> set xs" "f x' = Some y" unfolding set_map_filter by blast
    then have "x = x'" using Cons.prems(2) [of x x' y] that by simp
    then show False using Cons.prems(1) \<open>x' \<in> set xs\<close> by simp
  qed
  ultimately show ?case by (simp add: map_filter_simps split: option.split)
qed

lemma freed_acons_log:
  assumes "w_log t = w_log s @ es @ map ASYNC_FREE l" "\<forall>e \<in> set es. \<forall>a. e \<noteq> ASYNC_FREE a"
  shows "freed_acons s t = l"
proof -
  let ?f = "\<lambda>e. case e of ASYNC_FREE a \<Rightarrow> [a] | _ \<Rightarrow> []"
  have "concat (map ?f es) = []" using assms(2) by (induction es) (auto split: observation.splits)
  moreover have "concat (map ?f (map ASYNC_FREE l)) = l" by (induction l) auto
  ultimately show ?thesis using assms(1) by (simp add: freed_acons_def)
qed

lemma redisClusterFree_acons:
  assumes inv: "cluster_inv s"
  shows "\<exists>t. redisClusterFree s = Some t \<and> distinct (freed_acons s t) \<and> set (freed_acons s t) = node_acons s \<and> cc_flags t = cc_flags s"
proof -
  define es where "es = (if cc_event_callback s then [EVENT HIRCLUSTER_EVENT_FREE_CONTEXT] else [])"
  let ?s2 = "s\<lparr>w_log := w_log s @ es, cc_connect_timeout := None, cc_command_timeout := None, cc_table := None\<rparr>"
  have es: "(if cc_event_callback s then cc_log (EVENT HIRCLUSTER_EVENT_FREE_CONTEXT) s else s) = s\<lparr>w_log := w_log s @ es\<rparr>"
    by (simp add: es_def cc_log_def)
  have ev: "\<forall>e \<in> set es. \<forall>a. e \<noteq> ASYNC_FREE a" by (simp add: es_def)
  show ?thesis
  proof (cases "cc_nodes s")
    case None
    then have "redisClusterFree s = Some (?s2\<lparr>cc_requests := None, cc_username := None, cc_password := None\<rparr>)"
      by (simp add: redisClusterFree_def es Let_def)
    moreover have "freed_acons s (?s2\<lparr>cc_requests := None, cc_username := None, cc_password := None\<rparr>) = []"
      using freed_acons_log [of _ s es "[]"] ev by simp
    ultimately show ?thesis using None by (simp add: node_acons_def known_def)
  next
    case (Some d)
    let ?s3 = "?s2\<lparr>cc_nodes := None\<rparr>"
    have n: "w_nodes ?s3 = w_nodes s" by simp
    have own: "nodes_own d s" "conns_ok d s" using inv Some by (simp_all add: cluster_inv_def)
    have own3: "nodes_own d ?s3" using own(1) own_cong(1) [OF n] by simp
    define xs where "xs = owned_by d ?s3"
    define t where "t = (release_all xs ?s3)\<lparr>cc_requests := None, cc_username := None, cc_password := None\<rparr>"
    define l where "l = List.map_filter (\<lambda>x. n_acon (the (node_at s x))) xs"
    have mem: "x \<in> set xs \<longleftrightarrow> owns d s x" for x unfolding xs_def set_owned_by [OF nodes_ownD(1) [OF own3]] own_cong(2) [OF n] ..
    have dis: "distinct xs" using nodes_own_free_ok [OF own3] by (simp add: free_ok_def xs_def)
    have live: "\<exists>nd. node_at s x = Some nd" if "x \<in> set xs" for x using owns_live [OF own(1)] mem that by blast
    have "w_log (release_all xs ?s3) = w_log ?s3 @ map ASYNC_FREE l"
      using release_all_log [OF dis, of ?s3] live by (auto simp: l_def)
    then have fr: "freed_acons s t = l" using ev by (intro freed_acons_log [of _ _ es]) (simp_all add: t_def)
    have "redisClusterFree s = Some t" using Some release_dict_own [OF own3] by (simp add: redisClusterFree_def es t_def xs_def Let_def)
    moreover have "distinct l" unfolding l_def
    proof (rule distinct_map_filter [OF dis])
      fix x y a
      assume xy: "x \<in> set xs" "y \<in> set xs" "n_acon (the (node_at s x)) = Some a" "n_acon (the (node_at s y)) = Some a"
      obtain n1 n2 where "node_at s x = Some n1" "node_at s y = Some n2" using live xy(1,2) by blast
      with xy own(2) mem show "x = y" unfolding conns_ok_def by (metis option.distinct(1) option.sel)
    qed
    moreover have "(\<exists>x \<in> set xs. n_acon (the (node_at s x)) = Some a) \<longleftrightarrow> (\<exists>x nd. owns d s x \<and> node_at s x = Some nd \<and> n_acon nd = Some a)" for a
      using mem live by (metis option.sel)
    then have "set l = node_acons s"
      using Some unfolding l_def set_map_filter node_acons_def known_def by simp
    ultimately show ?thesis using fr by (simp add: t_def)
  qed
qed

text \<open>Callbacks that run when the context is closing and the node is gone.\<close>

definition answer_none :: "(addr \<times> async_cb) list \<Rightarrow> (nat \<times> redisReply option) list" where
  "answer_none ps = concat (map (\<lambda>p. case snd p of CMD_CB cad \<Rightarrow> (case cad_callback cad of None \<Rightarrow> [] | Some f \<Rightarrow> [(f, None)]) | _ \<Rightarrow> []) ps)"

definition callbacks_set :: "(addr \<times> async_cb) list \<Rightarrow> bool" where
  "callbacks_set ps \<longleftrightarrow> (\<forall>p \<in> set ps. \<forall>cad. snd p = CMD_CB cad \<longrightarrow> cad_callback cad \<noteq> None)"

lemma run_dropped:
  assumes c: "closing acc" and d: "ac_data ac = None" and cb: "\<forall>cad. cb = CMD_CB cad \<longrightarrow> cad_callback cad \<noteq> None"
  shows "\<exists>acc'. run_callback L HA a ac None cb acc = Some acc' \<and> closing acc' \<and> acc_pending acc' = acc_pending acc \<and>
     acc_calls acc' = acc_calls acc @ answer_none [(a, cb)]"
proof (cases cb)
  case (CMD_CB cad)
  then obtain f where "cad_callback cad = Some f" using cb by blast
  then have "\<exists>acc'. run_callback L HA a ac None cb acc = Some acc' \<and> acc_calls acc' = acc_calls acc @ answer_none [(a, cb)]"
    using CMD_CB d by (simp add: run_callback_def redisClusterAsyncCallback_def async_finish_def answer_none_def redisClusterAsyncSetError_def Let_def)
  then show ?thesis using run_callback_closing [OF c] settings_flag [OF run_callback_books(3)] c by blast
next
  case SLOTS_CB
  then show ?thesis
    using updateSlotMapAsync_closing [of "stamp_attempt HA acc" HA None] c
    by (simp add: run_callback_def clusterSlotsReplyCallback_def answer_none_def Let_def) (simp add: stamp_attempt_def usec_now_def split: prod.split)
next
  case NODES_CB
  then show ?thesis
    using updateSlotMapAsync_closing [of "stamp_attempt HA acc" HA None] c
    by (simp add: run_callback_def clusterNodesReplyCallback_def answer_none_def Let_def) (simp add: stamp_attempt_def usec_now_def split: prod.split)
next
  case NO_CB
  then show ?thesis using c by (simp add: run_callback_def answer_none_def)
qed

lemma answer_none_Cons: "answer_none (p # ps) = answer_none [p] @ answer_none ps"
  by (simp add: answer_none_def)

lemma drop_pending_ex:
  assumes "closing acc" "callbacks_set ps"
  shows "\<exists>acc'. drop_pending L HA lost ps acc = Some acc' \<and> acc_pending acc' = acc_pending acc \<and> acc_calls acc' = acc_calls acc @ answer_none ps"
  using assms
proof (induction ps arbitrary: acc)
  case Nil
  then show ?case by (simp add: answer_none_def)
next
  case (Cons p ps)
  obtain a cb where p: "p = (a, cb)" by (cases p)
  obtain acc1 where 1: "run_callback L HA a ((lost a)\<lparr>ac_data := None\<rparr>) None cb acc = Some acc1" "closing acc1" "acc_pending acc1 = acc_pending acc"
     "acc_calls acc1 = acc_calls acc @ answer_none [(a, cb)]"
    using run_dropped [OF Cons.prems(1), of "(lost a)\<lparr>ac_data := None\<rparr>" cb L HA a] Cons.prems(2) p by (auto simp: callbacks_set_def)
  obtain acc2 where 2: "drop_pending L HA lost ps acc1 = Some acc2" "acc_pending acc2 = acc_pending acc1" "acc_calls acc2 = acc_calls acc1 @ answer_none ps"
    using Cons.IH [OF 1(2)] Cons.prems(2) by (auto simp: callbacks_set_def)
  show ?case using p 1 2 by (simp add: answer_none_Cons [of _ ps])
qed

lemma mset_group:
  assumes "distinct l"
  shows "mset (concat (map (\<lambda>a. filter (\<lambda>p. fst p = a) ps) l)) = mset (filter (\<lambda>p. fst p \<in> set l) ps)"
  using assms
proof (induction l)
  case Nil
  then show ?case by simp
next
  case (Cons a l)
  have "mset (filter (\<lambda>p. fst p \<in> set (a # l)) ps) = mset (filter (\<lambda>p. fst p = a) ps) + mset (filter (\<lambda>p. fst p \<in> set l) ps)"
    using Cons.prems by (induction ps) auto
  with Cons show ?case by simp
qed

lemma answer_none_mset: "mset ps = mset qs \<Longrightarrow> mset (answer_none ps) = mset (answer_none qs)"
proof -
  have "mset (answer_none ps) = (\<Sum>p \<in># mset ps. mset (answer_none [p]))" for ps
    by (induction ps) (simp_all add: answer_none_def)
  then show "mset ps = mset qs \<Longrightarrow> mset (answer_none ps) = mset (answer_none qs)" by metis
qed

section \<open>Commands\<close>

text \<open>Parsing a command leaves its bytes.\<close>

lemma parse_body_cmd: "parse_body buf r al = (e, env, r1, al1) \<Longrightarrow> r_cmd r1 = r_cmd r \<and> r_clen r1 = r_clen r"
  by (auto simp: parse_body_def parse_lookup_def Let_def split: prod.splits if_splits option.splits sum.splits)

lemma redis_parse_cmd_cmd: "redis_parse_cmd r al = Some (r1, al1) \<Longrightarrow> r_cmd r1 = r_cmd r \<and> r_clen r1 = r_clen r"
  by (auto simp: redis_parse_cmd_def Let_def split: prod.splits if_splits option.splits parse_exit.splits dest!: parse_body_cmd)

text \<open>The slot of a command with one key is that of the key.\<close>

definition key_slot :: "cmd \<Rightarrow> int" where
  "key_slot c = int (keyHashSlot (key_bytes (the (r_cmd c)) (hd (arr_list (r_keys c)))))"

lemma command_pre_fragment_cmd:
  "command_pre_fragment cc command subs num_str cid al = Some (i, cc', command', subs', cid', al') \<Longrightarrow>
     r_cmd command' = r_cmd command \<and> r_clen command' = r_clen command \<and> r_keys command' = r_keys command"
  unfolding command_pre_fragment_def Let_def by (auto split: keeps_splits frag_status.split_asm)

lemma command_format_by_slot_cmd:
  assumes "command_format_by_slot cc command [] num_str cid al = Some (i, cc', command', subs', cid', al')"
  shows "r_cmd command' = r_cmd command" "r_clen command' = r_clen command" "0 \<le> i \<Longrightarrow> sint (hiarray_n (r_keys command')) = 1 \<Longrightarrow> i = key_slot command'"
  using assms
  by (auto simp: command_format_by_slot_def key_slot_def Let_def split: keeps_splits dest!: redis_parse_cmd_cmd command_pre_fragment_cmd)

lemma async_slot_some:
  assumes "async_slot command num_str cid acc = Some (Some (command', i), cid', acc')"
  shows "quiet acc acc'" "0 \<le> i" "i < int REDIS_CLUSTER_SLOTS" "r_cmd command' = r_cmd command" "r_clen command' = r_clen command"
    "sint (hiarray_n (r_keys command')) = 1 \<Longrightarrow> i = key_slot command'"
proof -
  obtain cc cc1 al cid1 where 1: "cc_alloc (acc_cc acc) = (True, cc)"
    "command_format_by_slot cc command [] num_str cid (w_script cc) = Some (i, cc1, command', [], cid1, al)"
    "acc' = acc\<lparr>acc_cc := cc1\<lparr>w_script := al\<rparr>\<rparr>" "0 \<le> i" "i < int REDIS_CLUSTER_SLOTS"
    using assms by (auto simp: async_slot_def Let_def elim!: bind_SomeE split: keeps_splits)
  obtain al0 where "cc = (acc_cc acc)\<lparr>w_script := al0\<rparr>" using cc_alloc_ex [of "acc_cc acc"] 1(1) by auto
  then have "wired (acc_cc acc) cc" by simp
  moreover have "wired cc cc1" using command_format_by_slot_error [OF 1(2)] by auto
  ultimately have "wired (acc_cc acc) (cc1\<lparr>w_script := al\<rparr>)" using wired_trans wired_simps(2) by blast
  then show "quiet acc acc'" unfolding 1(3) by (rule quiet_cc)
  show "0 \<le> i" "i < int REDIS_CLUSTER_SLOTS" "r_cmd command' = r_cmd command" "r_clen command' = r_clen command"
    "sint (hiarray_n (r_keys command')) = 1 \<Longrightarrow> i = key_slot command'"
    using 1(4,5) command_format_by_slot_cmd [OF 1(2)] by blast+
qed

lemma async_copy_command_some:
  assumes "async_copy_command cmd len cid acc = (Some command, cid', acc')"
  shows "quiet acc acc'" "r_cmd command = Some (take (nat len) cmd)" "r_clen command = word_of_int len"
  using assms by (auto simp: async_copy_command_def quiet_cc split: prod.splits option.splits if_splits)

text \<open>A command that is accepted is pending on the connection of the node that serves its slot.\<close>

lemma command_accepted:
  assumes inv: "cluster_inv (acc_cc acc)" and c: "redisClusterAsyncFormattedCommand HA fn cmd len num_str cid acc = Some (REDIS_OK, cid', acc')"
  shows "\<exists>command i tab n a ps. acc_pending acc' = acc_pending acc @ ps @ [(a, CMD_CB \<lparr>cad_command = command, cad_callback = fn, cad_retry_count = 0\<rparr>)] \<and>
     (\<forall>p \<in> set ps. snd p = NO_CB) \<and> linked (acc_cc acc) (acc_cc acc') \<and> acon_of_node n a (acc_cc acc') \<and>
     cc_table (acc_cc acc) = Some tab \<and> 0 \<le> i \<and> i < int REDIS_CLUSTER_SLOTS \<and> tab ! nat i = Some n \<and>
     r_cmd command = Some (take (nat len) cmd) \<and> (sint (hiarray_n (r_keys command)) = 1 \<longrightarrow> i = key_slot command)"
proof -
  let ?acc = "async_clear_errors acc"
  obtain command0 cid1 acc1 command i cid2 acc2 n cc a acc3 acc4 acc5 where
    1: "async_copy_command cmd len cid ?acc = (Some command0, cid1, acc1)" and
    2: "async_slot command0 num_str cid1 acc1 = Some (Some (command, i), cid2, acc2)" and
    3: "node_get_by_table (word_of_int i) (acc_cc acc2) = (Some n, cc)" and
    4: "actx_get_by_node HA (Some n) (acc2\<lparr>acc_cc := cc\<rparr>) = Some (Some a, acc3)" and
    5: "cluster_async_data_create acc3 = (True, acc4)" and
    6: "async_submit HA (take (nat len) cmd) \<lparr>cad_command = command, cad_callback = fn, cad_retry_count = 0\<rparr> a acc4 = Some (REDIS_OK, acc5)" and
    7: "acc' = acc5"
    using c by (auto simp: redisClusterAsyncFormattedCommand_def elim!: bind_SomeE split: keeps_splits)
  note s2 = async_slot_some [OF 2]
  have q: "quiet acc acc2" using quiet_trans [OF quiet_trans [OF async_clear_errors_quiet async_copy_command_some(1) [OF 1]] s2(1)] .
  note sm2 = quiet_smooth [OF inv q]
  have i: "unat (word_of_int i :: u32) = nat i"
    using s2(2,3) by (simp add: unat_eq_nat_uint uint_word_of_int)
  obtain tab where tab: "cc = acc_cc acc2" "cc_table (acc_cc acc2) = Some tab" "tab ! nat i = Some n"
    using 3 by (auto simp: node_get_by_table_def i split: if_splits option.splits)
  have k: "known (acc_cc acc2) n" using node_get_by_table_ex [OF smooth_inv [OF sm2], of "word_of_int i"] 3 tab(1) by auto
  obtain sm3: "smooth acc2 acc3" "acon_of_node n a (acc_cc acc3)"
    using actx_get_by_node_ex [OF smooth_inv [OF sm2] k, of HA] 4 tab(1) by auto
  have "quiet acc3 acc4" using 5 cc_alloc_ex [of "acc_cc acc3"] by (auto simp: cluster_async_data_create_def quiet_cc split: prod.splits)
  note q4 = this
  obtain sm: "smooth acc acc4" using smooth_trans [OF smooth_trans [OF sm2 sm3(1)] quiet_smooth [OF smooth_inv [OF sm3(1)] q4]] by blast
  have a4: "acon_at (acc_cc acc4) a \<noteq> None" using quiet_live [OF q4] sm3(2) by (simp add: acon_of_node_def)
  let ?cb = "CMD_CB \<lparr>cad_command = command, cad_callback = fn, cad_retry_count = 0\<rparr>"
  obtain r acc6 where snd6: "acon_send (redisAsyncFormattedCommand HA (take (nat len) cmd)) ?cb a acc4 = Some (r, acc6)"
     "wired (acc_cc acc4) (acc_cc acc6)" "acc_pending acc6 = acc_pending acc4 @ (if r = REDIS_OK then [(a, ?cb)] else [])"
    using acon_send_ex [OF a4, of "redisAsyncFormattedCommand HA (take (nat len) cmd)" ?cb] by blast
  have e: "r = REDIS_OK" "acc6 = acc'" using 6 7 snd6(1) by (auto simp: async_submit_def elim!: bind_SomeE split: if_splits)
  have l: "linked (acc_cc acc) (acc_cc acc')"
    using linked_trans [OF _ wired_linked [OF smooth_inv [OF sm] snd6(2)]] sm e(2) by (simp add: smooth_def)
  have "wired (acc_cc acc3) (acc_cc acc')" using wired_trans [OF _ snd6(2)] q4 e(2) by (simp add: quiet_def)
  then have "acon_of_node n a (acc_cc acc')" using sm3(2) by (rule wired_acon_of_node)
  moreover obtain ps where "acc_pending acc4 = acc_pending acc @ ps" "\<forall>p \<in> set ps. snd p = NO_CB" using sm by (auto simp: smooth_def)
  moreover have "cc_table (acc_cc acc) = Some tab" using tab(2) sm2 by (simp add: smooth_def linked_def)
  moreover have "r_cmd command = Some (take (nat len) cmd)" using s2(4) async_copy_command_some(2) [OF 1] by simp
  ultimately show ?thesis using s2(2,3,6) l e snd6(3) tab(3) by auto
qed

end
