(* ===== verification/Pipeline_Inv.thy ===== *)
theory Pipeline_Inv
  imports Sync_Inv Frame
begin

text \<open>
  Receiving the replies of a pipeline and resetting it: whatever hiredis answers, the functions return and keep
  the invariant of the context. Connections may be closed here, so that less is kept than by a command.
\<close>

definition calm :: "('c, 'w, 'z) cluster_scheme \<Rightarrow> ('c, 'w, 'z) cluster_scheme \<Rightarrow> bool" where
  "calm s t \<longleftrightarrow> cluster_inv t \<and> cc_nodes t = cc_nodes s \<and> cc_flags t = cc_flags s \<and> (\<forall>x. known t x = known s x)"

lemma calm_trans [trans]: "calm s t \<Longrightarrow> calm t u \<Longrightarrow> calm s u"
  by (simp add: calm_def)

lemma linked_calm: "linked s t \<Longrightarrow> calm s t"
  by (simp add: linked_def calm_def same_conf_def)

lemma calm_fields:
  assumes "cluster_inv s"
    and "w_nodes t = w_nodes s" "w_cons t = w_cons s" "w_acons t = w_acons s" "cc_nodes t = cc_nodes s" "cc_table t = cc_table s" "cc_flags t = cc_flags s"
  shows "calm s t"
  using assms cluster_inv_cong [OF assms(2-6)] own_cong(2) [OF assms(2)] by (simp add: calm_def known_def)

lemma calm_error: "cluster_inv s \<Longrightarrow> calm s (redisClusterSetError e m s)"
  by (rule linked_calm) (rule linked_error)

lemma calm_inv: "calm s t \<Longrightarrow> cluster_inv t"
  by (simp add: calm_def)

section \<open>Receiving\<close>

lemma clusterGetReplyFromNode_ex:
  assumes inv: "cluster_inv s" and n: "known s n" and H: "replies_ok H"
  shows "\<exists>r reply t. clusterGetReplyFromNode H n s = Some (r, reply, t) \<and> calm s t"
proof -
  obtain d where d: "cc_nodes s = Some d" "owns d s n" using n by (auto simp: known_def)
  then obtain nd where nd: "node_at s n = Some nd" using inv owns_live unfolding cluster_inv_def by blast
  show ?thesis
  proof (cases "n_con nd")
    case None
    with nd inv show ?thesis by (simp add: clusterGetReplyFromNode_def calm_def)
  next
    case (Some c)
    then have c: "con_at s c \<noteq> None" using inv d nd unfolding cluster_inv_def conns_ok_def by blast
    then obtain ctx where ctx: "con_at s c = Some ctx" by blast
    let ?s1 = "if cc_need_update_route s = 0 then
        (let n = cc_retry_count s + 1
         in if n > cc_max_retry_count s then s\<lparr>cc_need_update_route := 1, cc_retry_count := 0\<rparr> else s\<lparr>cc_retry_count := n\<rparr>)
      else s"
    have 1: "calm s ?s1" by (rule calm_fields [OF inv]) (simp_all add: Let_def)
    have "con_at ?s1 c \<noteq> None" using c by (simp add: Let_def)
    then obtain e where e: "con_error c ?s1 = Some e" "calm s e"
      using con_error_ex [of ?s1 c] talk_linked [OF _ calm_inv [OF 1]] calm_trans [OF 1 linked_calm] by blast
    obtain res reply t where t: "on_con (redisGetReply H) c s = Some ((res, reply), t)" "talk c s t"
      using on_con_reply [OF c H] by blast
    have ct: "calm s t" using linked_calm [OF talk_linked [OF t(2) inv]] .
    obtain e2 where e2: "con_error c t = Some e2" "calm s e2"
      using con_error_ex [OF talk_con [OF t(2)]] talk_linked [OF _ calm_inv [OF ct]] calm_trans [OF ct linked_calm] by blast
    have cr: "calm s (t\<lparr>cc_need_update_route := 1\<rparr>)" using calm_trans [OF ct calm_fields [OF calm_inv [OF ct]]] by simp
    consider "rc_err ctx \<noteq> 0" | "rc_err ctx = 0" "res \<noteq> REDIS_OK" | "rc_err ctx = 0" "res = REDIS_OK" by blast
    then show ?thesis
    proof cases
      case 1
      have "clusterGetReplyFromNode H n s = do { s2 \<leftarrow> con_error c ?s1; Some (REDIS_ERR, None, s2) }"
        using nd Some ctx 1 unfolding clusterGetReplyFromNode_def by simp
      with e show ?thesis by simp
    next
      case 2
      with nd Some ctx t(1) e2 show ?thesis by (simp add: clusterGetReplyFromNode_def)
    next
      case 3
      with nd Some ctx t(1) ct cr show ?thesis
        by (cases "cluster_reply_error_type reply = Some CLUSTER_ERR_MOVED") (simp_all add: clusterGetReplyFromNode_def)
    qed
  qed
qed

lemma clusterGetReply_ex:
  assumes inv: "cluster_inv s" and H: "replies_ok H"
  shows "\<exists>r reply t. clusterGetReply H i s = Some (r, reply, t) \<and> calm s t"
proof (cases "i < 0")
  case True
  with inv show ?thesis by (simp add: clusterGetReply_def calm_def)
next
  case False
  obtain n t where t: "node_get_by_table (word_of_int i) s = (n, t)" "linked s t" "\<forall>x. n = Some x \<longrightarrow> known t x"
    using node_get_by_table_ex [OF inv] by blast
  note ct = linked_calm [OF t(2)]
  show ?thesis
  proof (cases n)
    case None
    with False t(1) ct show ?thesis by (simp add: clusterGetReply_def)
  next
    case (Some x)
    with clusterGetReplyFromNode_ex [OF calm_inv [OF ct] _ H, of x] t(3) obtain r reply u
      where "clusterGetReplyFromNode H x t = Some (r, reply, u)" "calm t u" by blast
    with False t(1) Some calm_trans [OF ct] show ?thesis by (auto simp: clusterGetReply_def)
  qed
qed

lemma get_subs_ex:
  assumes "cluster_inv s" and H: "replies_ok H"
  shows "\<exists>r t. get_subs H subs answered s = Some (r, t) \<and> calm s t"
  using assms(1)
proof (induction subs arbitrary: answered s)
  case Nil
  then show ?case by (simp add: calm_def)
next
  case (Cons sub subs)
  show ?case
  proof (cases "r_slot_num sub < 0")
    case True
    with calm_error [OF Cons.prems] show ?thesis by simp
  next
    case False
    obtain r reply t where t: "clusterGetReply H (r_slot_num sub) s = Some (r, reply, t)" "calm s t"
      using clusterGetReply_ex [OF Cons.prems H] by blast
    obtain r' u where u: "get_subs H subs (answered @ [sub\<lparr>r_reply := reply\<rparr>]) t = Some (r', u)" "calm t u"
      using Cons.IH [OF calm_inv [OF t(2)]] by blast
    show ?thesis
      using False t u(1) calm_trans [OF t(2) u(2)] by (cases "r = REDIS_OK") simp_all
  qed
qed

lemma redisClusterGetReply_ex:
  fixes s :: "(request, 'w, 'z) cluster_scheme"
  assumes inv: "cluster_inv s" and H: "replies_ok H" and nodes: "cc_nodes s \<noteq> None"
  shows "\<exists>r reply t. redisClusterGetReply H s = Some (r, reply, t) \<and> calm s t"
proof -
  let ?s0 = "clear_error s"
  have c0: "calm s ?s0" using linked_calm [OF linked_clear [OF inv]] .
  show ?thesis
  proof (cases "\<exists>rq rqs. cc_requests ?s0 = Some (rq # rqs)")
    case False
    then show ?thesis using c0 by (auto simp: redisClusterGetReply_def Let_def split: option.split list.split)
  next
    case True
    then obtain rq rqs where q: "cc_requests ?s0 = Some (rq # rqs)" by blast
    let ?s1 = "?s0\<lparr>cc_requests := Some rqs\<rparr>" and ?command = "rq_cmd rq"
    have c1: "calm s ?s1" using calm_trans [OF c0 calm_fields [OF calm_inv [OF c0]]] by simp
    note i1 = calm_inv [OF c1]
    have err: "calm s (redisClusterSetError e m ?s1)" for e m using calm_trans [OF c1 calm_error [OF i1]] .
    consider (slot) "r_slot_num ?command \<ge> 0" | (node) a where "r_slot_num ?command < 0" "r_node_addr ?command = Some a"
      | (none) "r_slot_num ?command < 0" "r_node_addr ?command = None" "rq_sub rq = None"
      | (subs) cs where "r_slot_num ?command < 0" "r_node_addr ?command = None" "rq_sub rq = Some cs"
      by (metis linorder_not_le not_None_eq)
    then show ?thesis
    proof cases
      case slot
      then obtain r reply t where "clusterGetReply H (r_slot_num ?command) ?s1 = Some (r, reply, t)" "calm ?s1 t"
        using clusterGetReply_ex [OF i1 H] by blast
      with slot q calm_trans [OF c1] show ?thesis by (auto simp: redisClusterGetReply_def Let_def)
    next
      case node
      obtain d where d: "cc_nodes ?s1 = Some d" using nodes by (auto simp: clear_error_def)
      have wf: "dict_wf d" using i1 d by (simp add: cluster_inv_def nodes_own_def)
      show ?thesis
      proof (cases "dictFind d a")
        case None
        with node q d err show ?thesis by (simp add: redisClusterGetReply_def Let_def)
      next
        case (Some kn)
        obtain k n where kn: "kn = (k, n)" by (cases kn)
        have "dict_map d a = Some n" using Some kn dictFind_map [OF wf, of a] by auto
        with known_member [OF d] have "known ?s1 n" .
        then obtain r reply t where "clusterGetReplyFromNode H n ?s1 = Some (r, reply, t)" "calm ?s1 t"
          using clusterGetReplyFromNode_ex [OF i1 _ H] by blast
        with node q d Some kn calm_trans [OF c1] show ?thesis by (auto simp: redisClusterGetReply_def Let_def)
      qed
    next
      case none
      with q err show ?thesis by (simp add: redisClusterGetReply_def Let_def)
    next
      case subs
      obtain answers t where t: "get_subs H cs [] ?s1 = Some (answers, t)" "calm ?s1 t"
        using get_subs_ex [OF i1 H] by blast
      note ct = calm_trans [OF c1 t(2)]
      show ?thesis
      proof (cases answers)
        case None
        with subs q t(1) ct show ?thesis by (simp add: redisClusterGetReply_def Let_def)
      next
        case (Some ss)
        obtain reply u al where u: "command_post_fragment t ?command ss (w_script t) = (reply, u, al)"
          by (cases "command_post_fragment t ?command ss (w_script t)")
        have "calm t (u\<lparr>w_script := al\<rparr>)"
          using command_post_fragment_error [OF u] calm_inv [OF ct]
          by (auto simp: redisClusterSetError_def Let_def intro!: calm_fields)
        with subs q t(1) Some u calm_trans [OF ct] show ?thesis by (simp add: redisClusterGetReply_def Let_def)
      qed
    qed
  qed
qed

end
