(* ===== verification/Pipeline_Reset.thy ===== *)
theory Pipeline_Reset
  imports Pipeline_Inv
begin

text \<open>Ending a pipeline: closing connections, writing what is left, waiting for replies, and all of it together.\<close>

section \<open>Closing the connections\<close>

lemma detach_con:
  assumes inv: "cluster_inv s" and n: "known s n" "node_at s n = Some nd" "n_con nd = Some c"
  shows "calm s (node_put n (nd\<lparr>n_con := None\<rparr>) (redisFree (Some c) s))"
proof -
  let ?t = "node_put n (nd\<lparr>n_con := None\<rparr>) (redisFree (Some c) s)"
  have at: "node_at ?t x = (if x = n then Some (nd\<lparr>n_con := None\<rparr>) else node_at s x)" for x
    using store_at_less [OF n(2)] by (simp add: node_put_def redisFree_def)
  have st: "struct_at ?t x = struct_at s x" for x using n(2) at by (simp add: struct_at_def)
  have ow: "owns d ?t x = owns d s x" for d x by (rule owns_struct) (rule st)
  have f: "cc_nodes ?t = cc_nodes s" "cc_table ?t = cc_table s" "w_acons ?t = w_acons s" "cc_flags ?t = cc_flags s"
    and cons: "con_at ?t a = (if a = c then None else con_at s a)" for a
    by (auto simp: node_put_def redisFree_def store_at_def)
  have "conns_ok d ?t" if d: "cc_nodes s = Some d" "conns_ok d s" for d
  proof -
    have on: "owns d s n" using n(1) d(1) by (auto simp: known_def)
    have other: "n_con m \<noteq> Some c" if "owns d s x" "node_at s x = Some m" "x \<noteq> n" for x m
      using d(2) on n(2,3) that unfolding conns_ok_def by (metis option.distinct(1))
    show ?thesis
      unfolding conns_ok_def ow f
    proof (intro conjI [of "\<forall>x nd. _ x nd"] allI impI)
      show "(\<forall>a. n_con nd' = Some a \<longrightarrow> con_at ?t a \<noteq> None) \<and> (\<forall>a. n_acon nd' = Some a \<longrightarrow> (\<exists>ac. acon_at s a = Some ac \<and> ac_data ac = Some x))"
        if x: "owns d s x" "node_at ?t x = Some nd'" for x nd'
      proof (cases "x = n")
        case True
        then show ?thesis using x at [of x] d(2) n(2) on unfolding conns_ok_def by auto
      next
        case False
        then have at': "node_at s x = Some nd'" using x(2) False unfolding at by simp
        then have "(\<forall>a. n_con nd' = Some a \<longrightarrow> con_at s a \<noteq> None) \<and> (\<forall>a. n_acon nd' = Some a \<longrightarrow> (\<exists>ac. acon_at s a = Some ac \<and> ac_data ac = Some x))"
          using d(2) x(1) unfolding conns_ok_def by blast
        then show ?thesis using other [OF x(1) at' False] cons by auto
      qed
      show "(n_con n1 = None \<or> n_con n1 \<noteq> n_con n2) \<and> (n_acon n1 = None \<or> n_acon n1 \<noteq> n_acon n2)"
        if xy: "owns d s x" "owns d s y" "node_at ?t x = Some n1" "node_at ?t y = Some n2" "x \<noteq> y" for x y n1 n2
      proof -
        have old: "(n_con m1 = None \<or> n_con m1 \<noteq> n_con m2) \<and> (n_acon m1 = None \<or> n_acon m1 \<noteq> n_acon m2)"
          if "node_at s x = Some m1" "node_at s y = Some m2" for m1 m2
          using d(2) xy(1,2,5) that unfolding conns_ok_def by blast
        consider "x = n" "y \<noteq> n" | "x \<noteq> n" "y = n" | "x \<noteq> n" "y \<noteq> n" using xy(5) by blast
        then show ?thesis
        proof cases
          case 1
          then show ?thesis using old [OF n(2) [folded 1(1)]] xy at [of x] at [of y] by auto
        next
          case 2
          then show ?thesis using old [OF _ n(2) [folded 2(2)]] xy at [of x] at [of y] by auto
        next
          case 3
          then show ?thesis using old xy at [of x] at [of y] by simp
        qed
      qed
    qed
  qed
  then have "cluster_inv ?t"
    using inv nodes_own_struct [OF _ st] unfolding cluster_inv_def f by blast
  moreover have "known ?t x = known s x" for x unfolding known_def f ow ..
  ultimately show ?thesis by (simp add: calm_def f)
qed

lemma clear_loop_ex:
  assumes "cluster_inv s" and "\<forall>e \<in> set es. known s (snd e)"
  shows "\<exists>t. clear_loop es s = Some t \<and> calm s t \<and>
     (\<forall>e \<in> set es. \<forall>nd. node_at t (snd e) = Some nd \<longrightarrow> n_con nd = None) \<and>
     (\<forall>x nd. node_at s x = Some nd \<longrightarrow> n_con nd = None \<longrightarrow> node_at t x = Some nd) \<and>
     (\<forall>e \<in> set es. \<forall>nd c. node_at s (snd e) = Some nd \<longrightarrow> n_con nd = Some c \<longrightarrow> con_at t c = None) \<and>
     (\<forall>a. con_at s a = None \<longrightarrow> con_at t a = None)"
  using assms
proof (induction es arbitrary: s)
  case Nil
  then show ?case by (simp add: calm_def)
next
  case (Cons e es)
  let ?n = "snd e"
  have k: "known s ?n" using Cons.prems(2) by simp
  then obtain nd where nd: "node_at s ?n = Some nd" using Cons.prems(1) owns_live unfolding known_def cluster_inv_def by blast
  show ?case
  proof (cases "n_con nd")
    case None
    have "\<forall>e \<in> set es. known s (snd e)" using Cons.prems(2) by simp
    from Cons.IH [OF Cons.prems(1) this] obtain t where t: "clear_loop es s = Some t" "calm s t"
       "\<forall>e \<in> set es. \<forall>nd. node_at t (snd e) = Some nd \<longrightarrow> n_con nd = None"
       "\<forall>x nd. node_at s x = Some nd \<longrightarrow> n_con nd = None \<longrightarrow> node_at t x = Some nd"
       "\<forall>e \<in> set es. \<forall>nd c. node_at s (snd e) = Some nd \<longrightarrow> n_con nd = Some c \<longrightarrow> con_at t c = None"
       "\<forall>a. con_at s a = None \<longrightarrow> con_at t a = None"
      by (elim exE conjE) (rule that)
    have "clear_loop (e # es) s = Some t" using nd None t(1) by simp
    moreover have "\<forall>f \<in> set (e # es). \<forall>nd. node_at t (snd f) = Some nd \<longrightarrow> n_con nd = None" using t(3,4) nd None by auto
    moreover have "\<forall>f \<in> set (e # es). \<forall>nd c. node_at s (snd f) = Some nd \<longrightarrow> n_con nd = Some c \<longrightarrow> con_at t c = None" using t(5) nd None by auto
    ultimately show ?thesis using t(2,4,6) by blast
  next
    case (Some c)
    let ?s1 = "node_put ?n (nd\<lparr>n_con := None\<rparr>) (redisFree (Some c) s)"
    have 1: "calm s ?s1" using detach_con [OF Cons.prems(1) k nd Some] .
    have at: "node_at ?s1 x = (if x = ?n then Some (nd\<lparr>n_con := None\<rparr>) else node_at s x)"
      and cons: "con_at ?s1 a = (if a = c then None else con_at s a)" for x a
      using store_at_less [OF nd] by (auto simp: node_put_def redisFree_def store_at_def)
    have "\<forall>e \<in> set es. known ?s1 (snd e)" using 1 Cons.prems(2) by (simp add: calm_def)
    from Cons.IH [OF calm_inv [OF 1] this] obtain t where t: "clear_loop es ?s1 = Some t" "calm ?s1 t"
       "\<forall>e \<in> set es. \<forall>nd. node_at t (snd e) = Some nd \<longrightarrow> n_con nd = None"
       "\<forall>x nd. node_at ?s1 x = Some nd \<longrightarrow> n_con nd = None \<longrightarrow> node_at t x = Some nd"
       "\<forall>e \<in> set es. \<forall>nd c. node_at ?s1 (snd e) = Some nd \<longrightarrow> n_con nd = Some c \<longrightarrow> con_at t c = None"
       "\<forall>a. con_at ?s1 a = None \<longrightarrow> con_at t a = None"
      by (elim exE conjE) (rule that)
    have "node_at t ?n = Some (nd\<lparr>n_con := None\<rparr>)" using t(4) at by simp
    then have a: "\<forall>f \<in> set (e # es). \<forall>nd. node_at t (snd f) = Some nd \<longrightarrow> n_con nd = None" using t(3) by auto
    have c: "con_at t c = None" using t(6) cons by simp
    have b: "node_at t x = Some m" if "node_at s x = Some m" "n_con m = None" for x m
    proof -
      have "x \<noteq> ?n" using that nd Some by auto
      then show ?thesis using t(4) at [of x] that by simp
    qed
    have d: "con_at t a = None" if "f \<in> set (e # es)" "node_at s (snd f) = Some m" "n_con m = Some a" for f m a
    proof (cases "snd f = ?n")
      case True
      then show ?thesis using that nd Some c by simp
    next
      case False
      then have "f \<in> set es" "node_at ?s1 (snd f) = Some m" using that at [of "snd f"] by auto
      then show ?thesis using t(5) that(3) by blast
    qed
    have o: "\<forall>a. con_at s a = None \<longrightarrow> con_at t a = None" using t(6) cons by simp
    have "clear_loop (e # es) s = Some t" using nd Some t(1) by simp
    with calm_trans [OF 1 t(2)] a b d o show ?thesis by blast
  qed
qed

lemma members_known:
  assumes "cluster_inv s" "cc_nodes s = Some d"
  shows "\<forall>e \<in> set (dict_iter d). known s (snd e)"
proof
  fix e assume e: "e \<in> set (dict_iter d)"
  have wf: "dict_wf d" using assms by (simp add: cluster_inv_def nodes_own_def)
  have "dict_map d (fst e) = Some (snd e)"
    using e dict_map_entries [OF wf, of "fst e" "snd e"] by (simp add: dict_iter_entries [OF wf])
  with assms(2) show "known s (snd e)" by (rule known_member)
qed

lemma redisClusterClearAll_ex:
  assumes inv: "cluster_inv s"
  shows "\<exists>r t. redisClusterClearAll s = Some (r, t) \<and> calm s t \<and>
     (\<forall>d k n nd. cc_nodes s = Some d \<longrightarrow> dict_map d k = Some n \<longrightarrow> node_at s n = Some nd \<longrightarrow>
        (\<forall>c. n_con nd = Some c \<longrightarrow> con_at t c = None) \<and> (\<exists>nd'. node_at t n = Some nd' \<and> n_con nd' = None))"
proof -
  let ?s0 = "if cx_err s \<noteq> 0 then clear_error s else s"
  have c0: "calm s ?s0" using linked_calm [OF linked_clear [OF inv]] inv by (simp add: calm_def)
  show ?thesis
  proof (cases "cc_nodes s")
    case None
    then have "redisClusterClearAll s = Some (REDIS_ERR, ?s0)" by (simp add: redisClusterClearAll_def clear_error_def)
    with c0 None show ?thesis by (intro exI [of _ REDIS_ERR] exI [of _ ?s0]) simp
  next
    case (Some d)
    then have d0: "cc_nodes ?s0 = Some d" by (simp add: clear_error_def)
    have wf: "dict_wf d" using inv Some by (simp add: cluster_inv_def nodes_own_def)
    have w: "w_nodes ?s0 = w_nodes s" "w_cons ?s0 = w_cons s" by (simp_all add: clear_error_def)
    from clear_loop_ex [OF calm_inv [OF c0] members_known [OF calm_inv [OF c0] d0]] obtain t where
      t: "clear_loop (dict_iter d) ?s0 = Some t" "calm ?s0 t"
       "\<forall>e \<in> set (dict_iter d). \<forall>nd. node_at t (snd e) = Some nd \<longrightarrow> n_con nd = None"
       "\<forall>e \<in> set (dict_iter d). \<forall>nd c. node_at ?s0 (snd e) = Some nd \<longrightarrow> n_con nd = Some c \<longrightarrow> con_at t c = None"
      by (elim exE conjE) (rule that)
    have ct: "calm s t" using calm_trans [OF c0 t(2)] .
    have "(\<forall>c. n_con nd = Some c \<longrightarrow> con_at t c = None) \<and> (\<exists>nd'. node_at t n = Some nd' \<and> n_con nd' = None)"
      if kn: "dict_map d k = Some n" "node_at s n = Some nd" for k n nd
    proof -
      have e: "(k, n) \<in> set (dict_iter d)" using kn(1) dict_map_entries [OF wf, of k n] by (simp add: dict_iter_entries [OF wf])
      have "known t n" using ct known_member [OF Some kn(1)] by (simp add: calm_def)
      then obtain nd' where "node_at t n = Some nd'" using calm_inv [OF ct] owns_live unfolding known_def cluster_inv_def by blast
      then show ?thesis using bspec [OF t(3) e] bspec [OF t(4) e] kn(2) w by auto
    qed
    moreover have "redisClusterClearAll s = Some (REDIS_OK, t)" using d0 t(1) by (simp add: redisClusterClearAll_def Let_def split del: if_split)
    ultimately show ?thesis using ct Some by auto
  qed
qed

section \<open>Writing what is left\<close>

text \<open>
  A write that neither fails nor ends makes progress: the measure \<open>m\<close> of what is left to write goes down. It
  stands for the length of the output buffer of a blocking connection.
\<close>

definition progresses :: "(redisContext \<Rightarrow> 'w \<Rightarrow> (int \<times> bool) \<times> redisContext \<times> 'w) \<Rightarrow> (redisContext \<Rightarrow> 'w \<Rightarrow> nat) \<Rightarrow> bool" where
  "progresses write m \<longleftrightarrow>
     (\<forall>ctx w. fst (fst (write ctx w)) \<noteq> REDIS_ERR \<longrightarrow> \<not> snd (fst (write ctx w)) \<longrightarrow>
        m (fst (snd (write ctx w))) (snd (snd (write ctx w))) < m ctx w)"

lemma flush_con_ex:
  assumes p: "progresses write m" and "con_at s c = Some ctx"
  shows "\<exists>r t. flush_con write c s = Some (r, t) \<and> talk c s t"
  using assms(2)
proof (induction "m ctx (w_world s)" arbitrary: s ctx rule: less_induct)
  case less
  obtain res t where t: "on_con write c s = Some (res, t)" "talk c s t" "res = fst (write ctx (w_world s))"
     "w_world t = snd (snd (write ctx (w_world s)))" "con_at t c = Some (fst (snd (write ctx (w_world s))))"
    using on_con_ex [of s c "write"] less.prems by auto
  obtain r fin where res: "res = (r, fin)" by (cases res)
  show ?case
  proof (cases "r = REDIS_ERR \<or> fin")
    case True
    with t(1,2) res show ?thesis by (subst flush_con.simps) auto
  next
    case False
    then have "m (fst (snd (write ctx (w_world s)))) (w_world t) < m ctx (w_world s)"
      using p t(3,4) res unfolding progresses_def by (metis fst_conv snd_conv)
    from less.hyps [OF this t(5)] obtain r' u where "flush_con write c t = Some (r', u)" "talk c t u" by blast
    with t(1,2) res False talk_trans show ?thesis by (subst flush_con.simps) auto
  qed
qed

lemma send_loop_ex:
  assumes "cluster_inv s" and "\<forall>e \<in> set es. known s (snd e)" and p: "progresses write m"
  shows "\<exists>r t. send_loop H write es s = Some (r, t) \<and> linked s t"
  using assms(1,2)
proof (induction es arbitrary: s)
  case (Cons e es)
  obtain c s1 where 1: "ctx_get_by_node H (snd e) s = Some (c, s1)" "linked s s1" "\<forall>a. c = Some a \<longrightarrow> con_at s1 a \<noteq> None"
    using ctx_get_by_node_ex [OF Cons.prems(1), of "snd e" H] Cons.prems(2) by auto
  have rest: "\<exists>r t. send_loop H write es u = Some (r, t) \<and> linked s t" if u: "linked s u" for u
    using Cons.IH [of u] Cons.prems(2) u linked_trans [OF u] by (auto simp: linked_def)
  show ?case
  proof (cases c)
    case None
    with 1(1) rest [OF 1(2)] show ?thesis by simp
  next
    case (Some a)
    with 1(3) obtain ctx where "con_at s1 a = Some ctx" by blast
    from flush_con_ex [OF p this] obtain r u where u: "flush_con write a s1 = Some (r, u)" "talk a s1 u" by blast
    have l: "linked s u" using linked_trans [OF 1(2) talk_linked [OF u(2)]] 1(2) by (simp add: linked_def)
    with 1(1) Some u(1) rest [OF l] show ?thesis by (cases "r = REDIS_ERR") simp_all
  qed
qed simp

lemma redisClusterSendAll_ex:
  assumes inv: "cluster_inv s" and "progresses write m"
  shows "\<exists>r t. redisClusterSendAll H write s = Some (r, t) \<and> linked s t"
proof (cases "cc_nodes s")
  case None
  with inv show ?thesis by (simp add: redisClusterSendAll_def)
next
  case (Some d)
  with send_loop_ex [OF inv members_known [OF inv Some] assms(2), of H] show ?thesis by (simp add: redisClusterSendAll_def)
qed

section \<open>Resetting\<close>

lemma drain_ex:
  assumes "cluster_inv s" "cc_nodes s \<noteq> None" and H: "replies_ok H"
  shows "drain fuel H s \<noteq> FAULT \<and> (\<forall>t. drain fuel H s = RET t \<longrightarrow> calm s t)"
  using assms(1,2)
proof (induction fuel arbitrary: s)
  case (Suc fuel)
  obtain r reply s1 where 1: "redisClusterGetReply H s = Some (r, reply, s1)" "calm s s1"
    using redisClusterGetReply_ex [OF Suc.prems(1) H Suc.prems(2)] by blast
  obtain r2 s2 where 2: "redisClusterClearAll s1 = Some (r2, s2)" "calm s1 s2"
    using redisClusterClearAll_ex [OF calm_inv [OF 1(2)]] by blast
  have "cc_nodes s1 \<noteq> None" using 1(2) Suc.prems(2) by (simp add: calm_def)
  from Suc.IH [OF calm_inv [OF 1(2)] this] 1 2 calm_trans [OF 1(2)] show ?case by auto
qed simp

lemma redisClusterReset_ex:
  assumes inv: "cluster_inv s" and H: "replies_ok H" and rs: "route_safe s" and p: "progresses write m"
  shows "\<exists>t. redisClusterReset L H write s = Some t \<and> cluster_inv t \<and> (cc_nodes s \<noteq> None \<longrightarrow> cc_requests t = None)"
proof (cases "cc_nodes s")
  case None
  with inv show ?thesis by (simp add: redisClusterReset_def)
next
  case (Some d)
  obtain s1 where 1: "(if cx_err s \<noteq> 0 then do { (_, t) \<leftarrow> redisClusterClearAll s; Some t }
      else
        do { (_, t) \<leftarrow> redisClusterSendAll H write s;
             case drain (drain_fuel t) H t of RET t1 \<Rightarrow> Some t1 | _ \<Rightarrow> None }) = Some s1" "calm s s1"
  proof (cases "cx_err s = 0")
    case False
    obtain r t where "redisClusterClearAll s = Some (r, t)" "calm s t" using redisClusterClearAll_ex [OF inv] by blast
    with False show ?thesis using that by simp
  next
    case True
    obtain r t where t: "redisClusterSendAll H write s = Some (r, t)" "linked s t" using redisClusterSendAll_ex [OF inv p] by blast
    note ct = linked_calm [OF t(2)]
    have "cc_nodes t \<noteq> None" using ct Some by (simp add: calm_def)
    from drain_ex [OF calm_inv [OF ct] this H] drain_enough [of t "drain_fuel t" H]
    obtain u where "drain (drain_fuel t) H t = RET u" "calm t u" by (cases "drain (drain_fuel t) H t") auto
    with True t(1) that calm_trans [OF ct] show ?thesis by simp
  qed
  let ?s2 = "s1\<lparr>cc_requests := None\<rparr>"
  have c2: "calm s ?s2" using calm_trans [OF 1(2) calm_fields [OF calm_inv [OF 1(2)]]] by simp
  have "route_safe ?s2" using rs c2 by (simp add: route_safe_def has_flag_def calm_def)
  then obtain r t where t: "redisClusterUpdateSlotmap L H ?s2 = Some (r, t)" "route_result ?s2 r t"
    using redisClusterUpdateSlotmap_ex [OF calm_inv [OF c2] H, of L] by blast
  have inv_t: "cluster_inv t" "cc_requests t = None" using t(2) by (simp_all add: route_result_def same_conf_def)
  have "cluster_inv (t\<lparr>cc_need_update_route := 0\<rparr>)" using inv_t cluster_inv_cong [of "t\<lparr>cc_need_update_route := 0\<rparr>" t] by simp
  moreover have "redisClusterReset L H write s =
      (if cc_need_update_route ?s2 = 0 then Some ?s2
       else do { (status, s3) \<leftarrow> redisClusterUpdateSlotmap L H ?s2; Some (if status \<noteq> REDIS_OK then s3 else s3\<lparr>cc_need_update_route := 0\<rparr>) })"
    using Some 1(1) unfolding redisClusterReset_def by simp
  ultimately show ?thesis using t(1) calm_inv [OF c2] inv_t by auto
qed

end
