(* ===== verification/Sync_Props.thy ===== *)
theory Sync_Props
  imports Pipeline_Reset
begin

text \<open>
  The properties of commands, redirections, pipelines and the node iterator, each with an application to a client
  that knows one server.
\<close>

section \<open>A client with a table\<close>

definition net_dict :: "(string, addr) dict" where
  "net_dict = \<lparr>d_table = [[(''h:1'', 0)]], d_type = clusterNodesDictType, d_size = 1, d_sizemask = 0, d_used = 1\<rparr>"

definition net_node :: redisClusterNode where
  "net_node = zero_node\<lparr>n_addr := Some ''h:1'', n_host := Some ''h'', n_port := 1, n_role := REDIS_ROLE_MASTER, n_con := Some 0\<rparr>"

text \<open>The server holds the slot 5 and is connected; the connection has the descriptor 9.\<close>

definition net :: "(request, unit) cluster" where
  "net = (the (redisClusterContextInit [] ()))
     \<lparr>cc_flags := HIRCLUSTER_FLAG_ROUTE_USE_SLOTS, cc_nodes := Some net_dict, cc_table := Some ((replicate REDIS_CLUSTER_SLOTS None)[5 := Some 0]),
      w_nodes := [Some net_node], w_cons := [Some (demo_ctx\<lparr>rc_fd := 9\<rparr>)]\<rparr>"

definition net_cmd :: cmd where
  "net_cmd = (the (fst (command_get 0 [])))\<lparr>r_cmd := Some ''PING'', r_clen := 4, r_slot_num := 5\<rparr>"

lemma net_simps [simp]:
  "cc_nodes net = Some net_dict" "cc_table net = Some ((replicate REDIS_CLUSTER_SLOTS None)[5 := Some 0])" "w_nodes net = [Some net_node]"
  "w_cons net = [Some (demo_ctx\<lparr>rc_fd := 9\<rparr>)]" "w_script net = []" "w_world net = ()" "cc_flags net = HIRCLUSTER_FLAG_ROUTE_USE_SLOTS"
  "cc_need_update_route net = 0" "cc_requests net = None" "cx_err net = 0" "cc_route_version net = 0" "cc_ssl net = False" "cc_password net = None"
  by (simp_all add: net_def redisClusterContextInit_def)

lemma net_map: "dict_wf net_dict" "dict_map net_dict = [''h:1'' \<mapsto> 0]"
proof -
  have "\<exists>k :: nat \<le> 31. (1 :: nat) = 2 ^ k" by (rule exI [of _ 0]) simp
  then show "dict_wf net_dict"
    by (simp add: dict_wf_def net_dict_def buckets_ok_def hash_index_def dict_entries_def)
  show "dict_map net_dict = [''h:1'' \<mapsto> 0]"
    by (rule ext) (simp add: dict_map_def net_dict_def dict_entries_def)
qed

lemma net_inv: "cluster_inv net"
proof -
  have own: "owns net_dict net x \<longleftrightarrow> x = 0" for x
    by (auto simp: owns_def net_map slaves_at_def owned_slaves_def net_node_def zero_node_def store_at_def)
  have "nodes_own net_dict net"
    using net_map by (auto simp: nodes_own_def member_ok_def net_node_def zero_node_def store_at_def net_dict_def slaves_at_def owned_slaves_def)
  moreover have "conns_ok net_dict net"
    unfolding conns_ok_def own by (simp add: net_node_def zero_node_def store_at_def)
  moreover have "n = 0" if "Some n \<in> set ((replicate REDIS_CLUSTER_SLOTS None)[5 := Some 0])" for n
    using that set_update_subset_insert [of "replicate REDIS_CLUSTER_SLOTS None" 5 "Some 0"] by auto
  ultimately show ?thesis by (auto simp: cluster_inv_def net_map)
qed

lemma net_known: "known net 0"
  by (rule known_member [of _ net_dict "''h:1''"]) (simp_all add: net_map)

lemma net_route: "route_safe net"
  by (simp add: route_safe_def has_flag_def)

lemma net_answers: "replies_ok (demo_hiredis (REDIS_REPLY_STATUS ''OK''))" "no_redirects (demo_hiredis (REDIS_REPLY_STATUS ''OK''))"
proof -
  show "replies_ok (demo_hiredis (REDIS_REPLY_STATUS ''OK''))" by (rule demo_replies) (simp add: reply_ok_def elements_ok_def)
  show "no_redirects (demo_hiredis (REDIS_REPLY_STATUS ''OK''))"
    by (simp add: no_redirects_def demo_hiredis_def cluster_reply_error_type_def redirects_def)
qed

section \<open>Commands\<close>




text \<open>
  C10. A command reaches the owner of its slot: when the slot is served by a node with a working connection and no
  update is due, \<open>redis_cluster_command_execute\<close> sends the bytes of the command on that connection, returns the
  reply received on it, and changes nothing but that connection.
\<close>

theorem command_reaches_slot_owner:
  assumes "cluster_inv s" and "cc_table s = Some tab" "slot < REDIS_CLUSTER_SLOTS" "tab ! slot = Some n" "r_slot_num command = int slot"
    and "node_at s n = Some nd" "n_con nd = Some c" "con_at s c = Some ctx" "rc_err ctx = 0" "cc_need_update_route s = 0"
    and "redisAppendFormattedCommand H (cmd_bytes command) ctx (w_world s) = (REDIS_OK, ctx1, w1)"
    and "redisGetReply H ctx1 w1 = ((REDIS_OK, reply), ctx2, w2)" "\<not> redirects (cluster_reply_error_type reply)"
  shows "redis_cluster_command_execute L H command s = Some (reply, (con_put c ctx2 s)\<lparr>w_world := w2\<rparr>)"
proof -
  let ?s1 = "(con_put c ctx1 s)\<lparr>w_world := w1\<rparr>" and ?s2 = "(con_put c ctx2 s)\<lparr>w_world := w2\<rparr>"
  have len: "c < length (w_cons s)" using assms(8) by (rule store_at_less)
  have slot: "unat (word_of_int (int slot) :: u32) = slot" using assms(3) by (simp add: unsigned_of_nat take_bit_nat_eq_self)
  have "exec_connect L H command s = Some (Some c, s)"
    using assms slot by (simp add: exec_connect_def node_get_by_table_def ctx_get_by_node_def con_failed_def)
  moreover have "append_on H (cmd_bytes command) c s = Some (True, ?s1)"
    using assms(8,11) by (simp add: append_on_def on_con_def)
  moreover have "on_con (redisGetReply H) c ?s1 = Some ((REDIS_OK, reply), ?s2)"
    using assms(12) len by (simp add: on_con_def con_put_def)
  ultimately show ?thesis
    using assms(10,13)
    by (auto simp: redis_cluster_command_execute_def retry_fuel_def exec_request_def exec_done_def con_put_def redirects_def split: option.split)
qed

theorem command_reaches_slot_owner_witness:
  "redis_cluster_command_execute ref_sds (demo_hiredis (REDIS_REPLY_STATUS ''OK'')) net_cmd net =
     Some (Some (REDIS_REPLY_STATUS ''OK''), (con_put 0 (demo_ctx\<lparr>rc_fd := 9\<rparr>) net)\<lparr>w_world := ()\<rparr>)"
proof -
  let ?ctx = "demo_ctx\<lparr>rc_fd := 9\<rparr>" and ?H = "demo_hiredis (REDIS_REPLY_STATUS ''OK'')"
  have n: "node_at net 0 = Some net_node" "n_con net_node = Some 0" "con_at net 0 = Some ?ctx" "rc_err ?ctx = 0"
    by (simp_all add: store_at_def net_node_def zero_node_def demo_ctx_def)
  have H: "redisAppendFormattedCommand ?H (cmd_bytes net_cmd) ?ctx (w_world net) = (REDIS_OK, ?ctx, ())"
    "redisGetReply ?H ?ctx () = ((REDIS_OK, Some (REDIS_REPLY_STATUS ''OK'')), ?ctx, ())"
    by (simp_all add: demo_hiredis_def)
  have tab: "cc_table net = Some ((replicate REDIS_CLUSTER_SLOTS None)[5 := Some 0])" "5 < REDIS_CLUSTER_SLOTS"
    "((replicate REDIS_CLUSTER_SLOTS None)[5 := Some 0]) ! 5 = Some (0 :: addr)" by simp_all
  show ?thesis
    by (rule command_reaches_slot_owner [OF net_inv tab _ n _ H])
      (simp_all add: net_cmd_def cluster_reply_error_type_def redirects_def)
qed

section \<open>Redirections\<close>

text \<open>
  C18. A redirection leads to the node it names: for a reply that is three words, of which the last has a colon
  behind its first character, and when memory suffices, \<open>getNodeFromRedirectReply\<close> returns the node known under
  that address, entering one when there was none. All nodes known before stay as they were, and the invariant is
  kept; the slot returned is the number in the second word.
\<close>

theorem redirect_leads_to_named_node:
  assumes "cluster_inv s" and "cc_nodes s \<noteq> None" and "room 1 s" and "sds_ok L" and "no_oom (w_script s)"
    and "redirect_address str = Some a"
  shows "\<exists>n t. getNodeFromRedirectReply L str True s = Some (Some n, hi_atoi (split_at_sep CHR '' '' str ! 1), t) \<and> filed a n t \<and> grown s t"
proof -
  obtain d where d: "cc_nodes s = Some d" using assms(2) by blast
  have "str \<noteq> []" using assms(6) by (auto simp: redirect_address_def)
  from getNodeFromRedirectReply_ex [OF assms(1) d _ assms(4) this, of 0 True] assms(3,5,6) show ?thesis by fastforce
qed

theorem redirect_leads_to_named_node_witness:
  "\<exists>n t. getNodeFromRedirectReply ref_sds ''MOVED 5 ::1:7001'' True net = Some (Some n, 5, t) \<and> filed ''::1:7001'' n t \<and> known t 0"
proof -
  have ra: "redirect_address ''MOVED 5 ::1:7001'' = Some ''::1:7001''" "split_at_sep CHR '' '' ''MOVED 5 ::1:7001'' ! 1 = ''5''" "hi_atoi ''5'' = 5"
    by code_simp+
  have "room 1 net" by (simp add: room_def net_dict_def)
  with redirect_leads_to_named_node [OF net_inv _ _ ref_sds_ok _ ra(1)] net_known show ?thesis
    unfolding ra(2,3) by (fastforce simp: grown_def)
qed

text \<open>
  A MOVED redirection is trusted with the index into the slot table: when the number in it is 16384 or more, the
  client writes behind the table. The result \<open>None\<close> of \<open>exec_moved\<close> is that write.
\<close>

theorem moved_slot_outside_table:
  assumes "cluster_inv s" and "cc_nodes s \<noteq> None" and "cc_table s \<noteq> None" and "room 1 s" and "sds_ok L" and "no_oom (w_script s)"
    and "redirect_address str = Some a" and "hi_atoi (split_at_sep CHR '' '' str ! 1) \<ge> int REDIS_CLUSTER_SLOTS"
  shows "exec_moved L H str c upd s = None"
proof -
  obtain d where d: "cc_nodes s = Some d" using assms(2) by blast
  have "str \<noteq> []" using assms(7) by (auto simp: redirect_address_def)
  from getNodeFromRedirectReply_ex [OF assms(1) d _ assms(5) this, of 0 True] assms(4,6,7) obtain n t
    where t: "getNodeFromRedirectReply L str True s = Some (Some n, hi_atoi (split_at_sep CHR '' '' str ! 1), t)" "grown s t"
    by fastforce
  have "cluster_inv t" "cc_table t = cc_table s" using t(2) by (simp_all add: grown_def)
  with assms(3) obtain tab where "cc_table t = Some tab" "length tab = REDIS_CLUSTER_SLOTS" by (auto simp: cluster_inv_def)
  with assms(8) have "table_put (hi_atoi (split_at_sep CHR '' '' str ! 1)) n t = None" by (auto simp: table_put_def)
  with t(1) show ?thesis by (simp add: exec_moved_def)
qed

theorem moved_slot_outside_table_witness:
  "exec_moved ref_sds (demo_hiredis (REDIS_REPLY_STATUS ''OK'')) ''MOVED 16384 h:1'' 0 None net = None"
proof -
  have ra: "redirect_address ''MOVED 16384 h:1'' = Some ''h:1''" "hi_atoi (split_at_sep CHR '' '' ''MOVED 16384 h:1'' ! 1) = 16384"
    by code_simp+
  have "room 1 net" by (simp add: room_def net_dict_def)
  then show ?thesis by (intro moved_slot_outside_table [OF net_inv _ _ _ ref_sds_ok _ ra(1)]) (use ra(2) in simp_all)
qed

lemma table_put_inv:
  assumes inv: "cluster_inv s" and n: "filed a n s" and t: "table_put i n s = Some t"
  shows "cluster_inv t" "known t x = known s x" "w_cons t = w_cons s" "same_conf s t" "w_nodes t = w_nodes s"
proof -
  have eq: "t = s \<or> (\<exists>tab. cc_table s = Some tab \<and> t = s\<lparr>cc_table := Some (tab[nat i := Some n])\<rparr>)"
    using t by (auto simp: table_put_def bind_eq_Some_conv split: if_splits)
  then show f: "w_cons t = w_cons s" "same_conf s t" "w_nodes t = w_nodes s" by (auto simp: same_conf_def)
  show "known t x = known s x" using eq own_cong(2) [OF f(3)] by (auto simp: known_def)
  show "cluster_inv t"
    using eq
  proof
    assume "\<exists>tab. cc_table s = Some tab \<and> t = s\<lparr>cc_table := Some (tab[nat i := Some n])\<rparr>"
    then obtain tab where tab: "cc_table s = Some tab" "t = s\<lparr>cc_table := Some (tab[nat i := Some n])\<rparr>" by blast
    have len: "length tab = REDIS_CLUSTER_SLOTS" using inv tab(1) by (simp add: cluster_inv_def)
    have "\<exists>d k. cc_nodes s = Some d \<and> dict_map d k = Some m" if "Some m \<in> set (tab[nat i := Some n])" for m
    proof (cases "m = n")
      case True
      then show ?thesis using n by (auto simp: filed_def)
    next
      case False
      then have "Some m \<in> set tab" using that set_update_subset_insert [of tab "nat i" "Some n"] by auto
      then show ?thesis using inv tab(1) by (simp add: cluster_inv_def)
    qed
    moreover have "nodes_own d t = nodes_own d s" "conns_ok d t = conns_ok d s" for d
      using own_cong(1) [OF f(3)] conns_cong [OF f(3), of d] tab(2) by simp_all
    ultimately show ?thesis using inv tab len by (simp add: cluster_inv_def)
  qed (use inv in simp)
qed

text \<open>
  C39. A MOVED redirection can make the client use a freed node: when the request for the new slot map cannot be
  sent on the connection that redirected, the slot map is fetched from another server, which frees all nodes
  known before, among them the one the redirection named; the client then asks that node for a connection. The
  result \<open>None\<close> of \<open>exec_moved\<close> is that use.
\<close>

theorem moved_uses_freed_node:
  assumes "cluster_inv s" and "cc_nodes s \<noteq> None" and "room 1 s" and "sds_ok L" and "str \<noteq> []" and "con_at s c \<noteq> None" and "replies_ok H" and "route_safe s"
    and "getNodeFromRedirectReply L str True s = Some (Some n, slot, s1)" and "table_put slot n s1 = Some s2"
    and "clusterUpdateRouteSendCommand H c s2 = Some (REDIS_ERR, s3)" and "redisClusterUpdateSlotmap L H s3 = Some (REDIS_OK, s4)"
  shows "exec_moved L H str c None s = None"
proof -
  obtain d where d: "cc_nodes s = Some d" using assms(2) by blast
  obtain a where 1: "grown s s1" "filed a n s1"
    using getNodeFromRedirectReply_ex [OF assms(1) d _ assms(4,5), of 0 True] assms(3,9) by auto
  have inv1: "cluster_inv s1" "same_conf s s1" "w_cons s1 = w_cons s" using 1(1) by (simp_all add: grown_def)
  note 2 = table_put_inv [OF inv1(1) 1(2) assms(10)]
  have c2: "con_at s2 c \<noteq> None" using assms(6) inv1(3) 2(3) by simp
  then have t: "talk c s2 s3" using clusterUpdateRouteSendCommand_ex [OF c2, of H] assms(11) by simp
  have k3: "known s3 n" using talk_kept(3) [OF t] 2(2) filed_known [OF 1(2)] by simp
  have "route_safe s3"
    using assms(8) route_safe_conf [OF inv1(2)] route_safe_conf [OF 2(4)] route_safe_conf [OF talk_kept(4) [OF t]] by simp
  then have "gone s3 s4" using redisClusterUpdateSlotmap_ex [OF talk_kept(2) [OF t 2(1)] assms(7), of L] assms(12) by (auto simp: route_result_def)
  then have "node_at (clear_error s4) n = None" using k3 by (simp add: gone_def clear_error_def)
  then have "connect_node H n (clear_error s4) = None" by (simp add: connect_node_def ctx_get_by_node_def)
  with assms(9-12) show ?thesis by (simp add: exec_moved_def)
qed

text \<open>The same hiredis, but the connection with the descriptor 9 is broken for writing.\<close>

definition broken_hiredis :: "redisReply \<Rightarrow> unit hiredis" where
  "broken_hiredis r = (demo_hiredis r)\<lparr>redisAppendCommand := (\<lambda>args c w. (if rc_fd c = 9 then REDIS_ERR else REDIS_OK, c, w))\<rparr>"

lemma demo_reply_ranges: "demo_reply = REDIS_REPLY_ARRAY [demo_range 0 8191 ''10.0.0.1'' 7000, demo_range 8192 16383 ''10.0.0.2'' 7001]"
  by (simp add: demo_reply_def)

lemma broken_update:
  fixes s :: "(request, unit) cluster"
  assumes "cluster_inv s" "cc_nodes s = Some net_dict" "w_nodes s = [Some net_node]" "length (w_cons s) = 1" "\<not> cc_ssl s" "cc_password s = None"
    "cc_flags s = HIRCLUSTER_FLAG_ROUTE_USE_SLOTS" "\<not> cc_on_connect s" "no_oom (w_script s)"
  shows "\<exists>t. redisClusterUpdateSlotmap ref_sds (broken_hiredis demo_reply) s = Some (REDIS_OK, t)"
proof -
  let ?H = "broken_hiredis demo_reply" and ?s1 = "s\<lparr>w_world := (), w_cons := w_cons s @ [Some demo_ctx]\<rparr>"
  have it: "dict_iter net_dict = [(''h:1'', 0)]" unfolding dict_iter_entries [OF net_map(1)] by (simp add: dict_entries_def net_dict_def)
  have con: "connect_host ?H ''h'' 1 s = (Some 1, ?s1)" using assms(4,8) by (simp add: connect_host_def broken_hiredis_def demo_hiredis_def)
  have at1: "con_at ?s1 1 = Some demo_ctx" using assms(4) by simp
  obtain s2 where s2: "clusterUpdateRouteSendCommand ?H 1 ?s1 = Some (REDIS_OK, s2)" "con_at s2 1 = Some demo_ctx" "w_script s2 = w_script s"
    using at1 assms(4) by (simp add: clusterUpdateRouteSendCommand_def on_con_def con_put_def broken_hiredis_def demo_hiredis_def demo_ctx_def)
  have talk: "talk 1 ?s1 s2" using clusterUpdateRouteSendCommand_ex [of ?s1 1 ?H] at1 s2(1) by simp
  have "cluster_inv ?s1" using connect_host_ex [OF assms(1), of ?H "''h''" 1] con by auto
  then have inv2: "cluster_inv s2" using talk_kept(2) [OF talk] by simp
  have "answers ?H 1 s2 demo_reply (Some ''10.0.0.1'')"
    using s2(2) by (simp add: answers_def broken_hiredis_def demo_hiredis_def demo_ctx_def)
  from slots_reply_table [OF this [unfolded demo_reply_ranges] inv2 demo_reads(1) _ _ ref_sds_ok _ demo_regions_ok(1)] s2(3) assms(9)
  obtain t where t: "handleClusterSlotsReply ref_sds ?H 1 s2 = Some (REDIS_OK, t)" by (auto simp: demo_reply_ranges)
  have "has_flag HIRCLUSTER_FLAG_ROUTE_USE_SLOTS s2" using talk_kept(4) [OF talk] assms(7) by (simp add: same_conf_def has_flag_def)
  then have "update_route_on ref_sds ?H 1 ?s1 = Some (REDIS_OK, t)"
    using at1 s2(1) t assms(5,6) by (simp add: update_route_on_def ssl_init_def authenticate_def clusterUpdateRouteHandleReply_def demo_ctx_def)
  then have "cluster_update_route_by_addr ref_sds ?H ''h'' 1 s = Some (REDIS_OK, redisFree (Some 1) t)"
    using con by (simp add: cluster_update_route_by_addr_def)
  then show ?thesis
    using assms(2,3) it by (simp add: redisClusterUpdateSlotmap_def store_at_def net_node_def zero_node_def)
qed

theorem moved_uses_freed_node_witness: "exec_moved ref_sds (broken_hiredis demo_reply) ''MOVED 5 h:1'' 0 None net = None"
proof -
  let ?H = "broken_hiredis demo_reply" and ?str = "''MOVED 5 h:1''"
  have sp: "split_at_sep CHR '' '' ?str = [''MOVED'', ''5'', ''h:1'']" "hi_atoi ''5'' = 5" "strrchr ''h:1'' CHR '':'' = Some 1" by code_simp+
  obtain al where al: "sds_split ref_sds ?str CHR '' '' net = (Some [''MOVED'', ''5'', ''h:1''], net\<lparr>w_script := al\<rparr>)" "no_oom al"
    using sds_split_ex [of ref_sds ?str "CHR '' ''" net] ref_sds_ok unfolding sp(1) by auto
  let ?s1 = "net\<lparr>w_script := al\<rparr>" and ?tab = "((replicate REDIS_CLUSTER_SLOTS None)[5 := Some 0])"
  have f: "dictFind net_dict ''h:1'' = Some (''h:1'', 0)" using dictFind_map [OF net_map(1)] net_map(2) by simp
  have 1: "getNodeFromRedirectReply ref_sds ?str True net = Some (Some 0, 5, ?s1)"
    using al(1) sp(2,3) f by (simp add: getNodeFromRedirectReply_def)
  let ?s2 = "?s1\<lparr>cc_table := Some (?tab[5 := Some 0])\<rparr>"
  have 2: "table_put 5 0 ?s1 = Some ?s2" by (simp add: table_put_def)
  let ?ctx = "demo_ctx\<lparr>rc_fd := 9\<rparr>"
  have c2: "con_at ?s2 0 = Some ?ctx" by (simp add: store_at_def)
  obtain s3 where 3: "clusterUpdateRouteSendCommand ?H 0 ?s2 = Some (REDIS_ERR, s3)"
    using c2 by (simp add: clusterUpdateRouteSendCommand_def on_con_def con_put_def broken_hiredis_def demo_hiredis_def demo_ctx_def store_at_def)
  have t: "talk 0 ?s2 s3" using clusterUpdateRouteSendCommand_ex [of ?s2 0 ?H] c2 3 by simp
  have "filed ''h:1'' 0 ?s1" by (simp add: filed_def net_map)
  moreover have "cluster_inv ?s1" using off_map_inv [OF off_map_script net_inv] .
  ultimately have "cluster_inv s3" using talk_kept(2) [OF t] table_put_inv(1) [OF _ _ 2] by simp
  moreover have "length (w_cons s3) = 1"
    using 3 c2 by (auto simp: clusterUpdateRouteSendCommand_def on_con_def con_put_def broken_hiredis_def demo_hiredis_def demo_ctx_def store_at_def redisClusterSetError_def Let_def)
  moreover have "cc_on_connect net = False" by (simp add: net_def redisClusterContextInit_def)
  ultimately obtain s4 where 4: "redisClusterUpdateSlotmap ref_sds ?H s3 = Some (REDIS_OK, s4)"
    using broken_update [of s3] t al(2) by (auto simp: talk_def same_conf_def)
  have "replies_ok ?H" using demo_replies [OF demo_reply_ok] by (simp add: replies_ok_def broken_hiredis_def)
  from moved_uses_freed_node [OF net_inv _ _ ref_sds_ok _ _ this net_route 1 2 3 4] show ?thesis
    by (simp add: room_def net_dict_def store_at_def)
qed

section \<open>Pipelines\<close>

abbreviation outstanding :: "(request, 'w, 'z) cluster_scheme \<Rightarrow> request list" where
  "outstanding s \<equiv> (case cc_requests s of None \<Rightarrow> [] | Some rqs \<Rightarrow> rqs)"

lemma append_pushes:
  assumes "redisClusterAppendFormattedCommand H cmd len num_str cid s = Some (r, cid', t)"
  shows "outstanding t = outstanding s \<and> r = REDIS_ERR \<or> (\<exists>rq. cc_requests t = Some (outstanding s @ [rq]) \<and> r = REDIS_OK)"
proof -
  obtain b s1 where 1: "open_requests s = (b, s1)" by (cases "open_requests s")
  have o1: "outstanding s1 = outstanding s" "b \<Longrightarrow> cc_requests s1 = Some (outstanding s)"
    using 1 by (auto simp: open_requests_def split: option.splits prod.splits bool.splits dest!: cc_alloc_keeps settings_requests)
  show ?thesis
  proof (cases b)
    case False
    with assms 1 o1(1) show ?thesis by (auto simp: redisClusterAppendFormattedCommand_def redisClusterSetError_def Let_def)
  next
    case True
    with assms 1 obtain p cid1 s2 where 2: "prepare_command cmd len num_str cid s1 = Some (p, cid1, s2)"
      by (auto simp: redisClusterAppendFormattedCommand_def elim!: bind_SomeE)
    note r2 = settings_requests [OF prepare_command_keeps [OF 2]]
    show ?thesis
    proof (cases p)
      case None
      with assms 1 True 2 r2 o1 show ?thesis by (simp add: redisClusterAppendFormattedCommand_def)
    next
      case (Some cc)
      obtain command commands where cc: "cc = (command, commands)" by (cases cc)
      with assms 1 True 2 Some obtain r3 s3
        where 3: "append_subs H (if length commands = 0 then [command] else commands) s2 = Some (r3, s3)"
        by (auto simp: redisClusterAppendFormattedCommand_def elim!: bind_SomeE)
      note r3 = settings_requests [OF append_subs_keeps [OF 3]]
      obtain ok s4 where 4: "cc_alloc s3 = (ok, s4)" by (cases "cc_alloc s3")
      note r4 = settings_requests [OF cc_alloc_keeps [OF 4]]
      show ?thesis
        using assms 1 True 2 Some cc 3 4 r2 r3 r4 o1
        by (cases "r3 = REDIS_OK"; cases ok) (auto simp: redisClusterAppendFormattedCommand_def push_request_def redisClusterSetError_def Let_def)
    qed
  qed
qed


text \<open>The request \<^verbatim>\<open>GET axh\<close>, whose key is in the slot 5.\<close>

definition get_axh :: string where
  "get_axh = ''*2'' @ [CR, LF] @ ''$3'' @ [CR, LF] @ ''GET'' @ [CR, LF] @ ''$3'' @ [CR, LF] @ ''axh'' @ [CR, LF]"

lemma get_axh_slot:
  "case command_format_by_slot cc ((the (fst (command_get 0 [])))\<lparr>r_cmd := Some get_axh, r_clen := 22\<rparr>) [] '''' 1 [] of
     None \<Rightarrow> False | Some (i, cc', c, cs, cid, al) \<Rightarrow> i = 5 \<and> cs = [] \<and> al = [] \<and> r_slot_num c = 5"
  by code_simp

lemma get_axh_appended:
  "\<exists>cid t. redisClusterAppendFormattedCommand (demo_hiredis (REDIS_REPLY_STATUS ''OK'')) get_axh 22 '''' 0 net = Some (REDIS_OK, cid, t) \<and> calm net t"
proof -
  let ?H = "demo_hiredis (REDIS_REPLY_STATUS ''OK'')" and ?s = "net\<lparr>cc_requests := Some [], w_script := []\<rparr>"
  have "open_requests net = (True, ?s)" by (simp add: open_requests_def cc_alloc_def)
  obtain c0 where c0: "command_get 0 [] = (Some c0, 1, [])" by (simp add: command_get_def hiarray_create_def)
  obtain cc' c cid where f: "command_format_by_slot ?s (c0\<lparr>r_cmd := Some get_axh, r_clen := 22\<rparr>) [] '''' 1 [] = Some (5, cc', c, [], cid, [])"
      "r_slot_num c = 5"
    using get_axh_slot [of ?s] c0 by (auto split: option.split_asm)
  let ?s1 = "cc'\<lparr>w_script := []\<rparr>" and ?ctx = "demo_ctx\<lparr>rc_fd := 9\<rparr>"
  have eq: "w_nodes ?s1 = w_nodes net" "w_cons ?s1 = w_cons net" "w_acons ?s1 = w_acons net" "cc_nodes ?s1 = cc_nodes net" "cc_table ?s1 = cc_table net"
    "cc_flags ?s1 = cc_flags net" "cc_requests ?s1 = Some []"
    using command_format_by_slot_error [OF f(1)] by (auto simp: redisClusterSetError_def Let_def)
  have c1: "calm net ?s1" by (rule calm_fields [OF net_inv eq(1-6)])
  have prep: "prepare_command get_axh 22 '''' 0 ?s = Some (Some (c, []), cid, ?s1)"
    using c0 f(1) by (simp add: prepare_command_def)
  have at: "con_at ?s1 0 = Some ?ctx" "node_at ?s1 0 = Some net_node" "n_con net_node = Some 0" "rc_err ?ctx = 0"
    using eq by (simp_all add: store_at_def net_node_def zero_node_def demo_ctx_def)
  have "((replicate REDIS_CLUSTER_SLOTS None)[5 := Some 0]) ! 5 = Some (0 :: addr)" by simp
  then have "node_get_by_table (word_of_int (r_slot_num c)) ?s1 = (Some 0, ?s1)" using eq(5) f(2) by (simp add: node_get_by_table_def)
  moreover obtain s2 where s2: "append_on ?H (cmd_bytes c) 0 ?s1 = Some (True, s2)"
    using at(1) by (simp add: append_on_def on_con_def demo_hiredis_def)
  ultimately have app: "append_subs ?H [c] ?s1 = Some (REDIS_OK, s2)"
    using at by (simp add: clusterAppendCommand_def ctx_get_by_node_def usable_def)
  have t2: "talk 0 ?s1 s2" using append_on_ex [of ?s1 0 ?H "cmd_bytes c"] at(1) s2 by simp
  have "w_script s2 = []" using t2 by (simp add: talk_def)
  then obtain t where t: "push_request \<lparr>rq_cmd = c\<lparr>r_cmd := None\<rparr>, rq_sub = None\<rparr> s2 = (REDIS_OK, t)" "calm s2 t"
    using calm_fields [of s2] talk_kept(2) [OF t2 calm_inv [OF c1]] by (simp add: push_request_def cc_alloc_def)
  have "calm net t" using calm_trans [OF calm_trans [OF c1 linked_calm [OF talk_linked [OF t2 calm_inv [OF c1]]]] t(2)] .
  moreover have "redisClusterAppendFormattedCommand ?H get_axh 22 '''' 0 net = Some (REDIS_OK, cid, t)"
    using \<open>open_requests net = (True, ?s)\<close> prep app t(1) by (simp add: redisClusterAppendFormattedCommand_def del: append_subs.simps)
  ultimately show ?thesis by blast
qed




text \<open>
  The loop over the outstanding replies ends by itself: every round takes one request off, so as many rounds as
  there are requests and one more are enough, for any behaviour of hiredis, and with more rounds allowed the
  outcome is the same.
\<close>

theorem drain_rounds_bounded:
  "drain (drain_fuel s) H s \<noteq> NO_FUEL \<and> drain (drain_fuel s + k) H s = drain (drain_fuel s) H s"
  using drain_enough [of s "drain_fuel s" H] drain_more [of "drain_fuel s" H s k] by simp

text \<open>
  After an error \<open>redisClusterClearAll\<close> closes the connection of every node in the table, and none of these
  nodes keeps a pointer to it; nothing is freed twice, and the invariant is kept.
\<close>

theorem clear_all_closes_connections:
  assumes "cluster_inv s"
  shows "\<exists>r t. redisClusterClearAll s = Some (r, t) \<and> cluster_inv t \<and> cc_nodes t = cc_nodes s \<and>
     (\<forall>d k n nd. cc_nodes s = Some d \<longrightarrow> dict_map d k = Some n \<longrightarrow> node_at s n = Some nd \<longrightarrow>
        (\<forall>c. n_con nd = Some c \<longrightarrow> con_at t c = None) \<and> (\<exists>nd'. node_at t n = Some nd' \<and> n_con nd' = None))"
  using redisClusterClearAll_ex [OF assms] unfolding calm_def by blast

theorem clear_all_closes_connections_witness:
  "\<exists>r t. redisClusterClearAll net = Some (r, t) \<and> con_at net 0 \<noteq> None \<and> con_at t 0 = None"
proof -
  have n: "node_at net 0 = Some net_node" "n_con net_node = Some 0" "con_at net 0 \<noteq> None"
    by (simp_all add: store_at_def net_node_def zero_node_def)
  obtain r t where t: "redisClusterClearAll net = Some (r, t)"
      "\<forall>d k n nd. cc_nodes net = Some d \<longrightarrow> dict_map d k = Some n \<longrightarrow> node_at net n = Some nd \<longrightarrow>
        (\<forall>c. n_con nd = Some c \<longrightarrow> con_at t c = None) \<and> (\<exists>nd'. node_at t n = Some nd' \<and> n_con nd' = None)"
    using clear_all_closes_connections [OF net_inv] by blast
  have "con_at t 0 = None" using t(2) [rule_format, of net_dict "''h:1''" 0 net_node] n net_map(2) by simp
  with t(1) n(3) show ?thesis by blast
qed

section \<open>The iterator over the nodes\<close>

text \<open>The nodes that up to \<open>fuel\<close> calls of \<open>redisClusterNodeNext\<close> return; a call that returns none ends the iteration.\<close>

fun visited :: "nat \<Rightarrow> ('c, 'w, 'z) cluster_scheme \<Rightarrow> redisClusterNodeIterator \<Rightarrow> addr list option" where
  "visited 0 s iter = Some []"
| "visited (Suc fuel) s iter =
     (case redisClusterNodeNext s iter of
        None \<Rightarrow> None
      | Some (None, _) \<Rightarrow> Some []
      | Some (Some n, iter') \<Rightarrow> map_option ((#) n) (visited fuel s iter'))"

lemma visited_same_version:
  assumes "ni_route_version iter = cc_route_version s" "ni_retries_left iter > 0"
  shows "visited fuel s iter = Some (map snd (iter_upto fuel (ni_dict iter) (ni_di iter)))"
  using assms
proof (induction fuel arbitrary: iter)
  case (Suc fuel)
  obtain de di where n: "dictNext (ni_dict iter) (ni_di iter) = (de, di)" by (cases "dictNext (ni_dict iter) (ni_di iter)")
  then have "redisClusterNodeNext s iter = Some (map_option snd de, iter\<lparr>ni_di := di\<rparr>)"
    using Suc.prems by (simp add: redisClusterNodeNext_def)
  then show ?case using Suc.IH [of "iter\<lparr>ni_di := di\<rparr>"] Suc.prems n by (cases de) simp_all
qed simp

text \<open>
  While the slot map does not change, the iterator visits every node of the client exactly once and then ends.
\<close>

theorem iterator_visits_all_nodes:
  assumes "cluster_inv s" and "cc_nodes s = Some d" and "d_used d < fuel"
  shows "\<exists>iter ns. redisClusterInitNodeIterator s = Some iter \<and> visited fuel s iter = Some ns \<and> distinct ns \<and>
     (\<forall>n. n \<in> set ns \<longleftrightarrow> (\<exists>k. dict_map d k = Some n))"
proof -
  have own: "nodes_own d s" and wf: "dict_wf d" using assms(1,2) by (simp_all add: cluster_inv_def nodes_own_def)
  let ?iter = "\<lparr>ni_route_version = cc_route_version s, ni_retries_left = 1, ni_dict = d, ni_di = dictInitIterator\<rparr>"
  have "iter_upto fuel d dictInitIterator = dict_entries d" using iter_upto_entries [OF wf, of fuel] assms(3) wf by (simp add: dict_wf_def)
  then have "visited fuel s ?iter = Some (map snd (dict_entries d))" using visited_same_version [of ?iter s fuel] by simp
  moreover have "distinct (map snd (dict_entries d))" using dict_nodes_distinct [OF own] .
  moreover have "n \<in> snd ` set (dict_entries d) \<longleftrightarrow> (\<exists>k. dict_map d k = Some n)" for n using dict_map_entries [OF wf] by force
  ultimately show ?thesis using assms(2) by (simp add: redisClusterInitNodeIterator_def)
qed

theorem iterator_visits_all_nodes_witness:
  "\<exists>iter. redisClusterInitNodeIterator net = Some iter \<and> visited 2 net iter = Some [0]"
proof -
  obtain iter ns where i: "redisClusterInitNodeIterator net = Some iter" "visited 2 net iter = Some ns" "distinct ns"
     "\<forall>n. n \<in> set ns \<longleftrightarrow> (\<exists>k. dict_map net_dict k = Some n)"
    using iterator_visits_all_nodes [OF net_inv, of net_dict 2] by (auto simp: net_dict_def)
  have "set ns = {0}" using i(4) by (auto simp: net_map(2) split: if_splits)
  with i(3) have "ns = [0]" by (metis distinct.simps(2) empty_set insert_not_empty list.exhaust set_ConsD singletonD list.set_intros(1,2))
  with i(1,2) show ?thesis by blast
qed

text \<open>
  After a change of the slot map the iterator does not start over: the first call returns the first node of the
  new table, and every further call returns none, however many nodes there are.
\<close>

theorem iterator_stops_after_update:
  assumes "redisClusterInitNodeIterator s = Some iter" and "cc_route_version t \<noteq> cc_route_version s" and "cluster_inv t" and "cc_nodes t = Some d"
  shows "visited (Suc fuel) t iter = Some (take 1 (map snd (dict_entries d)))"
proof -
  have wf: "dict_wf d" using assms(3,4) by (simp add: cluster_inv_def nodes_own_def)
  obtain de di where n: "dictNext d dictInitIterator = (de, di)" by (cases "dictNext d dictInitIterator")
  let ?it = "\<lparr>ni_route_version = cc_route_version t, ni_retries_left = 0, ni_dict = d, ni_di = di\<rparr>"
  have first: "redisClusterNodeNext t iter = Some (map_option snd de, ?it)"
    using assms n by (auto simp: redisClusterInitNodeIterator_def redisClusterNodeNext_def bind_eq_Some_conv)
  have stop: "visited k t ?it = Some []" for k by (cases k) (simp_all add: redisClusterNodeNext_def)
  have "iter_upto 1 d dictInitIterator = take 1 (dict_entries d)" using iter_upto_entries [OF wf] .
  then have "take 1 (dict_entries d) = (case de of None \<Rightarrow> [] | Some e \<Rightarrow> [e])" using n by (cases de) simp_all
  then show ?thesis using first stop by (cases de) (simp_all add: take_map)
qed

theorem iterator_stops_after_update_witness:
  "\<exists>iter. redisClusterInitNodeIterator (net\<lparr>cc_route_version := 7\<rparr>) = Some iter \<and> visited 3 net iter = Some [0]"
proof -
  obtain iter where i: "redisClusterInitNodeIterator (net\<lparr>cc_route_version := 7\<rparr>) = Some iter" by (simp add: redisClusterInitNodeIterator_def)
  have "visited (Suc 2) net iter = Some (take 1 (map snd (dict_entries net_dict)))"
    by (rule iterator_stops_after_update [OF i _ net_inv]) simp_all
  moreover have "map snd (dict_entries net_dict) = [0]" by (simp add: dict_entries_def net_dict_def)
  ultimately show ?thesis using i by (simp add: numeral_3_eq_3 numeral_2_eq_2)
qed

end
