(* ===== verification/Async_Props.thy ===== *)
theory Async_Props
  imports Async_Inv Sync_Props
begin

text \<open>
  The properties of the asynchronous interface, each with an application to a client that knows one or two servers.
\<close>

section \<open>Redirections\<close>

text \<open>A step that sends on the connection \<open>a\<close> only.\<close>

definition asked :: "addr \<Rightarrow> ('c, 'w) redisClusterAsyncContext \<Rightarrow> ('c, 'w) redisClusterAsyncContext \<Rightarrow> bool" where
  "asked a acc acc' \<longleftrightarrow> flows acc acc' \<and> w_nodes (acc_cc acc') = w_nodes (acc_cc acc) \<and> w_script (acc_cc acc') = w_script (acc_cc acc) \<and>
     (\<forall>b. b \<noteq> a \<longrightarrow> acon_at (acc_cc acc') b = acon_at (acc_cc acc) b)"

lemma asked_trans: "asked a acc acc' \<Longrightarrow> asked a acc' acc'' \<Longrightarrow> asked a acc acc''"
  using flows_trans unfolding asked_def by metis

lemma asked_inv: "asked a acc acc' \<Longrightarrow> cluster_inv (acc_cc acc')"
  unfolding asked_def using flows_inv by blast

lemma usec_now_asked:
  assumes "cluster_inv (acc_cc acc)"
  shows "asked a acc (snd (usec_now HA acc))"
  using smooth_flows [OF quiet_smooth [OF assms usec_now_quiet [of acc HA]]]
  by (cases "gettimeofday HA (w_world (acc_cc acc))") (simp add: asked_def usec_now_def)

lemma stamp_asked: "cluster_inv (acc_cc acc) \<Longrightarrow> asked a acc (stamp_attempt HA acc)"
  using usec_now_asked [of acc a HA] by (cases "usec_now HA acc") (simp add: stamp_attempt_def asked_def flows_def)

lemma acon_send_asked:
  assumes inv: "cluster_inv (acc_cc acc)" and a: "acon_at (acc_cc acc) a \<noteq> None" and cb: "cb_users cb = {#}"
  shows "\<exists>r acc'. acon_send f cb a acc = Some (r, acc') \<and> asked a acc acc'"
proof -
  obtain r acc' where s: "acon_send f cb a acc = Some (r, acc')" "flows acc acc'" using ask_flows [OF inv a cb, of f] by blast
  have "w_nodes (acc_cc acc') = w_nodes (acc_cc acc) \<and> w_script (acc_cc acc') = w_script (acc_cc acc) \<and>
      (\<forall>b. b \<noteq> a \<longrightarrow> acon_at (acc_cc acc') b = acon_at (acc_cc acc) b)"
    using s(1) by (auto simp: acon_send_def on_acon_def Let_def elim!: bind_SomeE split: prod.splits)
  with s show ?thesis by (auto simp: asked_def)
qed

lemma updateSlotMapAsync_asked:
  assumes inv: "cluster_inv (acc_cc acc)" and a: "acon_at (acc_cc acc) a \<noteq> None"
  shows "\<exists>r acc'. updateSlotMapAsync HA (Some a) acc = Some (r, acc') \<and> asked a acc acc'"
proof (cases "acc_lastSlotmapUpdateAttempt acc = SLOTMAP_UPDATE_ONGOING \<or> closing acc")
  case True
  then show ?thesis using flows_refl [OF inv] by (auto simp: updateSlotMapAsync_def asked_def)
next
  case False
  define cb ws where "cb = (if has_flag HIRCLUSTER_FLAG_ROUTE_USE_SLOTS (acc_cc acc) then SLOTS_CB else NODES_CB)"
    and "ws = (if has_flag HIRCLUSTER_FLAG_ROUTE_USE_SLOTS (acc_cc acc) then [''CLUSTER'', ''SLOTS''] else [''CLUSTER'', ''NODES''])"
  have "cb_users cb = {#}" by (simp add: cb_def)
  then obtain r acc2 where 2: "acon_send (redisAsyncCommand HA ws) cb a acc = Some (r, acc2)" "asked a acc acc2"
    using acon_send_asked [OF inv a, of cb "redisAsyncCommand HA ws"] by blast
  have "updateSlotMapAsync HA (Some a) acc = Some (if r = REDIS_OK then (REDIS_OK, acc2\<lparr>acc_lastSlotmapUpdateAttempt := SLOTMAP_UPDATE_ONGOING\<rparr>)
      else (REDIS_ERR, stamp_attempt HA acc2))"
    using False 2(1) by (simp add: updateSlotMapAsync_def update_acon_def cb_def ws_def split: if_splits)
  moreover have "asked a acc (acc2\<lparr>acc_lastSlotmapUpdateAttempt := SLOTMAP_UPDATE_ONGOING\<rparr>)" using 2(2) by (simp add: asked_def flows_def)
  moreover have "asked a acc (stamp_attempt HA acc2)" using asked_trans [OF 2(2) stamp_asked [OF asked_inv [OF 2(2)]]] .
  ultimately show ?thesis by simp
qed

lemma throttled_asked:
  assumes inv: "cluster_inv (acc_cc acc)" and a: "acon_at (acc_cc acc) a \<noteq> None"
  shows "\<exists>acc'. throttledUpdateSlotMapAsync HA (Some a) acc = Some acc' \<and> asked a acc acc'"
proof -
  obtain now acc1 where u: "usec_now HA acc = (now, acc1)" by (cases "usec_now HA acc")
  have q: "asked a acc acc1" "acon_at (acc_cc acc1) a \<noteq> None"
    using usec_now_asked [OF inv, of a HA] quiet_live [OF usec_now_quiet a, of HA] u by simp_all
  have inv1: "cluster_inv (acc_cc acc1)" using asked_inv [OF q(1)] .
  obtain r acc2 where 2: "updateSlotMapAsync HA (Some a) acc1 = Some (r, acc2)" "asked a acc1 acc2"
    using updateSlotMapAsync_asked [OF inv1 q(2), of HA] by blast
  have "asked a acc acc" using flows_refl [OF inv] by (simp add: asked_def)
  then show ?thesis using u 2 q(1) asked_trans [OF q(1) 2(2)] by (simp add: throttledUpdateSlotMapAsync_def)
qed

lemma redirect_known:
  assumes inv: "cluster_inv s" and d: "cc_nodes s = Some d" "dict_map d address = Some n" and L: "sds_ok L" "no_oom (w_script s)"
    and str: "redirect_address str = Some address"
  shows "\<exists>al. getNodeFromRedirectReply L str want s = Some (Some n, if want then hi_atoi (split_at_sep CHR '' '' str ! 1) else -1, s\<lparr>w_script := al\<rparr>)"
proof -
  have ne: "str \<noteq> []" using str by (auto simp: redirect_address_def)
  obtain al where sp: "sds_split L str CHR '' '' s = (Some (split_at_sep CHR '' '' str), s\<lparr>w_script := al\<rparr>)"
    using sds_split_ex [of L str "CHR '' ''" s] L ne by auto
  obtain x y p where ps: "split_at_sep CHR '' '' str = [x, y, address]" "strrchr address CHR '':'' = Some (Suc p)"
    using str by (auto simp: redirect_address_def split: list.splits option.splits nat.splits)
  have "dictFind d address = Some (address, n)" using inv d dictFind_map [of d address] by (simp add: cluster_inv_def nodes_own_def)
  with sp ps d(1) show ?thesis by (auto simp: getNodeFromRedirectReply_def)
qed

text \<open>The situation of a redirection: the reply names a known node \<open>n\<close> with the connection \<open>b\<close>, which is not the one that replied.\<close>

definition moved_to :: "string \<Rightarrow> addr \<Rightarrow> nat \<Rightarrow> addr \<Rightarrow> addr \<Rightarrow> ('c, 'w) redisClusterAsyncContext \<Rightarrow> bool" where
  "moved_to str a slot n b acc \<longleftrightarrow> starts_longer ''MOVED'' str \<and> hi_atoi (split_at_sep CHR '' '' str ! 1) = int slot \<and> slot < REDIS_CLUSTER_SLOTS \<and>
     (\<exists>d address nd. redirect_address str = Some address \<and> cc_nodes (acc_cc acc) = Some d \<and> dict_map d address = Some n \<and>
        node_at (acc_cc acc) n = Some nd \<and> n_acon nd = Some b) \<and> acon_at (acc_cc acc) a \<noteq> None \<and> b \<noteq> a \<and> cc_table (acc_cc acc) \<noteq> None"

lemma async_moved_known:
  assumes inv: "cluster_inv (acc_cc acc)" and m: "moved_to str a slot n b acc" and ctx: "acon_at (acc_cc acc) b = Some ctx"
    and L: "sds_ok L" "no_oom (w_script (acc_cc acc))"
  shows "\<exists>acc' ps tab. async_moved L HA str a acc = Some (GOTO_RETRY (if rc_err (ac_c ctx) = 0 then Some b else None), acc') \<and>
     cluster_inv (acc_cc acc') \<and> acon_at (acc_cc acc') b = Some ctx \<and> acc_calls acc' = acc_calls acc \<and> acc_pending acc' = acc_pending acc @ ps \<and>
     waiting ps = {#} \<and> cc_table (acc_cc acc') = Some tab \<and> tab ! slot = Some n"
proof -
  obtain d address nd where d: "redirect_address str = Some address" "cc_nodes (acc_cc acc) = Some d" "dict_map d address = Some n"
      "node_at (acc_cc acc) n = Some nd" "n_acon nd = Some b" and a: "acon_at (acc_cc acc) a \<noteq> None" "b \<noteq> a"
    and slot: "hi_atoi (split_at_sep CHR '' '' str ! 1) = int slot" "slot < REDIS_CLUSTER_SLOTS" and tn: "cc_table (acc_cc acc) \<noteq> None"
    using m unfolding moved_to_def by blast
  obtain acc1 where 1: "throttledUpdateSlotMapAsync HA (Some a) acc = Some acc1" "asked a acc acc1" using throttled_asked [OF inv a(1), of HA] by blast
  let ?s = "acc_cc acc1"
  have f: "linked (acc_cc acc) ?s" "w_nodes ?s = w_nodes (acc_cc acc)" "w_script ?s = w_script (acc_cc acc)" "acon_at ?s b = Some ctx"
    using 1(2) a(2) ctx by (simp_all add: asked_def flows_def)
  have inv1: "cluster_inv ?s" "cc_nodes ?s = Some d" "cc_table ?s = cc_table (acc_cc acc)" using f(1) d(2) by (simp_all add: linked_def)
  obtain tab where tab: "cc_table ?s = Some tab" "length tab = REDIS_CLUSTER_SLOTS" using inv1 tn by (auto simp: cluster_inv_def)
  obtain al where 2: "getNodeFromRedirectReply L str True ?s = Some (Some n, int slot, ?s\<lparr>w_script := al\<rparr>)"
    using redirect_known [OF inv1(1,2) d(3) L(1) _ d(1), of True] L(2) f(3) slot(1) by auto
  let ?t = "?s\<lparr>w_script := al, cc_table := Some (tab[slot := Some n])\<rparr>"
  have 3: "table_put (int slot) n (?s\<lparr>w_script := al\<rparr>) = Some ?t" using tab slot(2) by (simp add: table_put_def)
  have "cluster_inv (?s\<lparr>w_script := al\<rparr>)" using off_map_inv [OF off_map_script inv1(1)] .
  then have it: "cluster_inv ?t" using table_put_inv(1) [OF _ _ 3, of address] inv1(2) d(3) by (simp add: filed_def)
  let ?acc = "acc1\<lparr>acc_cc := ?t\<rparr>"
  have 4: "actx_get_by_node HA (Some n) ?acc = Some (if rc_err (ac_c ctx) = 0 then (Some b, ?acc)
      else (None, redisClusterAsyncSetError (rc_err (ac_c ctx)) (rc_errstr (ac_c ctx)) ?acc))"
    using d(4,5) f(2,4) by (simp add: actx_get_by_node_def)
  obtain ps where ps: "acc_pending acc1 = acc_pending acc @ ps" "waiting ps = {#}" "acc_calls acc1 = acc_calls acc"
    using 1(2) by (auto simp: asked_def flows_def)
  show ?thesis
    using 1(1) 2 3 4 it f(4) ps tab(2) slot(2) by (simp add: async_moved_def redisClusterAsyncSetError_def Let_def)
qed

section \<open>A client of two connections\<close>

text \<open>
  The client of \<open>net\<close> with an asynchronous connection to its server, at the address 0, and one whose node has left
  the cluster, at the address 1. The clock stands at 100 seconds.
\<close>

definition demo_actx :: redisAsyncContext where
  "demo_actx = \<lparr>ac_c = demo_ctx, ac_connected = True, ac_err = 0, ac_errstr = '''', ac_data = None\<rparr>"

definition demo_async :: "unit hiredis_async" where
  "demo_async =
     \<lparr>redisAsyncConnectWithOptions = (\<lambda>h p t1 t2 w. (Some demo_actx, w)), async_ssl_init_fn = (\<lambda>c w. (REDIS_OK, c, w)),
      redisAsyncCommand = (\<lambda>args ac w. (REDIS_OK, ac, w)), redisAsyncFormattedCommand = (\<lambda>bytes ac w. (REDIS_OK, ac, w)),
      redisAsyncDisconnect = (\<lambda>ac w. ((), ac, w)), attach_fn = (\<lambda>ac w. (REDIS_OK, ac, w)),
      gettimeofday = (\<lambda>w. (Some (100, 0), w)), c_random = (\<lambda>w. (0, w))\<rparr>"

definition anet_cc :: "redisContext \<Rightarrow> (request, unit) cluster" where
  "anet_cc c = net\<lparr>w_nodes := [Some (net_node\<lparr>n_acon := Some 0\<rparr>)],
     w_acons := [Some (demo_actx\<lparr>ac_c := c, ac_data := Some 0\<rparr>), Some demo_actx]\<rparr>"

definition anet :: "redisContext \<Rightarrow> (request, unit) redisClusterAsyncContext" where
  "anet c = (the (redisClusterAsyncInitialize (anet_cc c)))\<lparr>acc_adapter := True\<rparr>"

lemma anet_same [simp]: "anet_cc c\<lparr>w_script := []\<rparr> = anet_cc c" "cc_alloc (anet_cc c) = (True, anet_cc c)" "anet c\<lparr>acc_cc := anet_cc c\<rparr> = anet c"
proof -
  show 1: "anet_cc c\<lparr>w_script := []\<rparr> = anet_cc c" by (simp add: anet_cc_def net_def redisClusterContextInit_def)
  then show 2: "cc_alloc (anet_cc c) = (True, anet_cc c)" by (simp add: cc_alloc_def anet_cc_def)
  show "anet c\<lparr>acc_cc := anet_cc c\<rparr> = anet c" by (simp add: anet_def redisClusterAsyncInitialize_def 2)
qed

lemma anet_simps [simp]:
  "acc_cc (anet c) = anet_cc c" "acc_pending (anet c) = []" "acc_calls (anet c) = []" "acc_lastSlotmapUpdateAttempt (anet c) = 0" "acc_err (anet c) = 0"
  by (simp_all add: anet_def redisClusterAsyncInitialize_def) (simp add: anet_cc_def)

lemma anet_cc_simps [simp]:
  "cc_nodes (anet_cc c) = Some net_dict" "cc_table (anet_cc c) = Some ((replicate REDIS_CLUSTER_SLOTS None)[5 := Some 0])"
  "w_script (anet_cc c) = []" "w_world (anet_cc c) = ()" "cc_flags (anet_cc c) = HIRCLUSTER_FLAG_ROUTE_USE_SLOTS" "cx_err (anet_cc c) = 0"
  "node_at (anet_cc c) 0 = Some (net_node\<lparr>n_acon := Some 0\<rparr>)" "acon_at (anet_cc c) 0 = Some (demo_actx\<lparr>ac_c := c, ac_data := Some 0\<rparr>)"
  "acon_at (anet_cc c) 1 = Some demo_actx" "cc_max_retry_count (anet_cc c) = 5"
  by (simp_all add: anet_cc_def store_at_def) (simp add: net_def redisClusterContextInit_def)

lemma anet_inv: "cluster_inv (anet_cc c)"
proof -
  let ?s = "anet_cc c"
  have own: "owns net_dict ?s x \<longleftrightarrow> x = 0" for x
    by (auto simp: owns_def net_map slaves_at_def owned_slaves_def net_node_def zero_node_def)
  have "nodes_own net_dict ?s"
    using net_map by (auto simp: nodes_own_def member_ok_def net_node_def zero_node_def net_dict_def slaves_at_def owned_slaves_def)
  moreover have "conns_ok net_dict ?s"
    unfolding conns_ok_def own by (simp add: net_node_def zero_node_def) (simp add: anet_cc_def store_at_def)
  moreover have "n = 0" if "Some n \<in> set ((replicate REDIS_CLUSTER_SLOTS None)[5 := Some 0])" for n
    using that set_update_subset_insert [of "replicate REDIS_CLUSTER_SLOTS None" 5 "Some 0"] by auto
  ultimately show ?thesis by (auto simp: cluster_inv_def net_map)
qed

lemma anet_open: "\<not> closing (anet c)"
  by (simp add: has_flag_def)

lemma demo_async_ok: "clock_ok demo_async" "accepting demo_async"
  by (simp_all add: clock_ok_def accepting_def demo_async_def hi_usec_now_def)

text \<open>The request \<^verbatim>\<open>GET axh\<close> is accepted.\<close>

lemma get_axh_sent:
  assumes "rc_err c = 0"
  shows "\<exists>cid t command. redisClusterAsyncFormattedCommand demo_async fn get_axh 22 '''' 0 (anet c) = Some (REDIS_OK, cid, t) \<and>
     acc_pending t = [(0, CMD_CB \<lparr>cad_command = command, cad_callback = fn, cad_retry_count = 0\<rparr>)] \<and> acc_calls t = [] \<and>
     acon_at (acc_cc t) 0 = acon_at (anet_cc c) 0 \<and> cc_flags (acc_cc t) = cc_flags (anet_cc c) \<and> acc_err t = 0"
proof -
  have len: "take (nat 22) get_axh = get_axh" by (simp add: get_axh_def)
  obtain c0 where c0: "command_get 0 [] = (Some c0, 1, [])" by (simp add: command_get_def hiarray_create_def)
  have clr: "async_clear_errors (anet c) = anet c" by (simp add: async_clear_errors_def Let_def)
  let ?c = "c0\<lparr>r_cmd := Some get_axh, r_clen := 22\<rparr>"
  have copy: "async_copy_command get_axh 22 0 (anet c) = (Some ?c, 1, anet c)"
    using c0 len by (simp add: async_copy_command_def)
  obtain cc' c1 cid where f: "command_format_by_slot (anet_cc c) ?c [] '''' 1 [] = Some (5, cc', c1, [], cid, [])" "r_slot_num c1 = 5"
    using get_axh_slot [of "anet_cc c"] c0 by (auto split: option.split_asm)
  have slot: "async_slot ?c '''' 1 (anet c) = Some (Some (c1, 5), cid, anet c\<lparr>acc_cc := cc'\<lparr>w_script := []\<rparr>\<rparr>)"
    using f(1) by (simp add: async_slot_def)
  let ?s = "cc'\<lparr>w_script := []\<rparr>"
  have eq: "cc_table ?s = cc_table (anet_cc c)" "w_nodes ?s = w_nodes (anet_cc c)" "w_acons ?s = w_acons (anet_cc c)" "w_world ?s = ()" "cc_flags ?s = cc_flags (anet_cc c)"
    using command_format_by_slot_error [OF f(1)] by (auto simp: redisClusterSetError_def Let_def)
  have at: "node_at ?s 0 = Some (net_node\<lparr>n_acon := Some 0\<rparr>)" "acon_at ?s 0 = Some (demo_actx\<lparr>ac_c := c, ac_data := Some 0\<rparr>)"
    using eq anet_cc_simps(7,8) [of c] by simp_all
  have "((replicate REDIS_CLUSTER_SLOTS None)[5 := Some 0]) ! 5 = Some (0 :: addr)" by simp
  then have nt: "node_get_by_table (word_of_int 5) ?s = (Some 0, ?s)" using eq(1) by (simp add: node_get_by_table_def)
  have ac: "actx_get_by_node demo_async (Some 0) (anet c\<lparr>acc_cc := ?s\<rparr>) = Some (Some 0, anet c\<lparr>acc_cc := ?s\<rparr>)"
    using at assms by (simp add: actx_get_by_node_def)
  let ?cad = "\<lparr>cad_command = c1, cad_callback = fn, cad_retry_count = 0\<rparr>"
  have al: "cluster_async_data_create (anet c\<lparr>acc_cc := ?s\<rparr>) = (True, anet c\<lparr>acc_cc := ?s\<rparr>)" by (simp add: cluster_async_data_create_def cc_alloc_def)
  let ?t = "anet c\<lparr>acc_cc := ?s\<lparr>w_acons := (w_acons ?s)[0 := acon_at ?s 0], w_world := ()\<rparr>, acc_pending := [(0, CMD_CB ?cad)]\<rparr>"
  have "async_submit demo_async get_axh ?cad 0 (anet c\<lparr>acc_cc := ?s\<rparr>) = Some (REDIS_OK, ?t)"
    using at(2) eq(4) by (simp add: async_submit_def acon_send_def on_acon_def demo_async_def Let_def)
  then have "redisClusterAsyncFormattedCommand demo_async fn get_axh 22 '''' 0 (anet c) = Some (REDIS_OK, cid, ?t)"
    using anet_open [of c] clr copy slot nt ac al len by (simp add: redisClusterAsyncFormattedCommand_def)
  moreover have "acon_at (acc_cc ?t) 0 = acon_at (anet_cc c) 0" using at(2) store_at_less [OF at(2)] by simp
  ultimately show ?thesis using eq(5) by auto
qed

section \<open>Updates and callbacks\<close>

text \<open>
  C13. There is one slot map update at a time: from a context on which nothing is pending, after any calls of the user,
  any replies and any events of hiredis, at most one reply to CLUSTER SLOTS or CLUSTER NODES is awaited, and it is
  awaited exactly while \<open>lastSlotmapUpdateAttempt\<close> has the value that marks an update as under way. The clock is
  assumed not to show that value, which is the largest of its type.
\<close>

theorem async_one_update_at_a_time:
  assumes "async_run L HA acc fns acc'" and "clock_ok HA" and "acc_pending acc = []" and "acc_lastSlotmapUpdateAttempt acc \<noteq> SLOTMAP_UPDATE_ONGOING"
  shows "length (filter (\<lambda>p. snd p = SLOTS_CB \<or> snd p = NODES_CB) (acc_pending acc')) =
     (if acc_lastSlotmapUpdateAttempt acc' = SLOTMAP_UPDATE_ONGOING then 1 else 0)"
proof -
  have "one_update acc" using assms(3,4) by (simp add: one_update_def updates_def)
  from async_run_one_update [OF assms(1,2) this] show ?thesis by (simp add: one_update_def updates_def is_update_def)
qed

lemma anet_connects:
  "\<exists>acc'. redisClusterAsyncConnect2 demo_async (anet demo_ctx) = Some (REDIS_OK, acc') \<and> acc_lastSlotmapUpdateAttempt acc' = SLOTMAP_UPDATE_ONGOING"
proof -
  have it: "dict_iter net_dict = [(''h:1'', 0)]" unfolding dict_iter_entries [OF net_map(1)] by (simp add: dict_entries_def net_dict_def)
  have w: "anet_cc demo_ctx\<lparr>w_world := ()\<rparr> = anet_cc demo_ctx" by simp
  have "selectNode demo_async net_dict (anet demo_ctx) = Some (Some 0, anet demo_ctx)"
    using it w by (simp add: selectNode_def usec_now_def demo_async_def hi_usec_now_def nodeIsConnected_def selectedConnected_def net_node_def
        zero_node_def demo_actx_def net_dict_def Let_def)
  moreover have "actx_get_by_node demo_async (Some 0) (anet demo_ctx) = Some (Some 0, anet demo_ctx)"
    by (simp add: actx_get_by_node_def demo_ctx_def)
  moreover have "acc_adapter (anet demo_ctx)" by (simp add: anet_def)
  moreover have "has_flag HIRCLUSTER_FLAG_ROUTE_USE_SLOTS (anet_cc demo_ctx)" by (simp add: has_flag_def)
  ultimately show ?thesis
    using anet_open [of demo_ctx]
    by (simp add: redisClusterAsyncConnect2_def updateSlotMapAsync_def update_acon_def acon_send_def on_acon_def demo_async_def Let_def)
qed

theorem async_one_update_at_a_time_witness:
  "\<exists>acc'. redisClusterAsyncConnect2 demo_async (anet demo_ctx) = Some (REDIS_OK, acc') \<and>
     length (filter (\<lambda>p. snd p = SLOTS_CB \<or> snd p = NODES_CB) (acc_pending acc')) = 1"
proof -
  obtain acc' where c: "redisClusterAsyncConnect2 demo_async (anet demo_ctx) = Some (REDIS_OK, acc')"
      "acc_lastSlotmapUpdateAttempt acc' = SLOTMAP_UPDATE_ONGOING" using anet_connects by blast
  have "async_run ref_sds demo_async (anet demo_ctx) ([] @ []) acc'"
    by (rule async_run.more [OF async_run.start async_step.connect [OF c(1)]])
  from async_one_update_at_a_time [OF this demo_async_ok(1)] c show ?thesis by simp
qed

text \<open>
  C12. Every callback is called at most once: from a fresh context, after any calls, replies and events, the user
  callbacks that have been called and those that are pending, counted together, are among those of the commands that
  were accepted, each as often as it was given. They are all of them, so that each is called or still pending, when
  hiredis takes every command that the client sends; otherwise a callback can be lost, see \<open>refused_retry_loses_callback\<close>.
\<close>

theorem async_callbacks_called_once:
  assumes "async_run L HA acc fns acc'" and "acc_pending acc = []" and "acc_calls acc = []"
  shows "waiting (acc_pending acc') + mset (map (\<lambda>p. Some (fst p)) (acc_calls acc')) \<subseteq># mset fns \<and>
     (accepting HA \<longrightarrow> waiting (acc_pending acc') + mset (map (\<lambda>p. Some (fst p)) (acc_calls acc')) = mset fns)"
  using async_run_account [OF assms(1)] assms(2,3) by (simp add: account_def answered_def)

lemma get_axh_answered:
  "\<exists>cid t u. redisClusterAsyncFormattedCommand demo_async (Some 7) get_axh 22 '''' 0 (anet demo_ctx) = Some (REDIS_OK, cid, t) \<and>
     deliver ref_sds demo_async 0 (demo_actx\<lparr>ac_c := demo_ctx, ac_data := Some 0\<rparr>) (Some (REDIS_REPLY_STATUS ''OK'')) t = Some u \<and>
     acon_at (acc_cc t) 0 = Some (demo_actx\<lparr>ac_c := demo_ctx, ac_data := Some 0\<rparr>) \<and> acc_calls u = [(7, Some (REDIS_REPLY_STATUS ''OK''))] \<and> acc_pending u = []"
proof -
  obtain cid t command where t: "redisClusterAsyncFormattedCommand demo_async (Some 7) get_axh 22 '''' 0 (anet demo_ctx) = Some (REDIS_OK, cid, t)"
      "acc_pending t = [(0, CMD_CB \<lparr>cad_command = command, cad_callback = Some 7, cad_retry_count = 0\<rparr>)]" "acc_calls t = []"
      "acon_at (acc_cc t) 0 = acon_at (anet_cc demo_ctx) 0" "cc_flags (acc_cc t) = cc_flags (anet_cc demo_ctx)" "acc_err t = 0"
    using get_axh_sent [of demo_ctx "Some 7"] by (auto simp: demo_ctx_def)
  have "\<not> has_flag HIRCLUSTER_FLAG_SHUTDOWN (acc_cc t)" using t(5) by (simp add: has_flag_def)
  then have "\<exists>u. deliver ref_sds demo_async 0 (demo_actx\<lparr>ac_c := demo_ctx, ac_data := Some 0\<rparr>) (Some (REDIS_REPLY_STATUS ''OK'')) t = Some u \<and>
      acc_calls u = [(7, Some (REDIS_REPLY_STATUS ''OK''))] \<and> acc_pending u = []"
    using t(2,3,6) by (simp add: deliver_def run_callback_def redisClusterAsyncCallback_def cluster_reply_error_type_def redirects_def async_finish_def Let_def)
  with t show ?thesis by auto
qed

theorem async_callbacks_called_once_witness:
  "\<exists>u. async_run ref_sds demo_async (anet demo_ctx) [Some 7] u \<and> acc_calls u = [(7, Some (REDIS_REPLY_STATUS ''OK''))] \<and>
     waiting (acc_pending u) = {#}"
proof -
  obtain cid t u where t: "redisClusterAsyncFormattedCommand demo_async (Some 7) get_axh 22 '''' 0 (anet demo_ctx) = Some (REDIS_OK, cid, t)"
      "deliver ref_sds demo_async 0 (demo_actx\<lparr>ac_c := demo_ctx, ac_data := Some 0\<rparr>) (Some (REDIS_REPLY_STATUS ''OK'')) t = Some u"
      "acon_at (acc_cc t) 0 = Some (demo_actx\<lparr>ac_c := demo_ctx, ac_data := Some 0\<rparr>)" "acc_calls u = [(7, Some (REDIS_REPLY_STATUS ''OK''))]"
    using get_axh_answered by blast
  have "async_run ref_sds demo_async (anet demo_ctx) (([] @ accepted REDIS_OK (Some 7)) @ []) u"
    by (rule async_run.more [OF async_run.more [OF async_run.start async_step.command [OF t(1)]] async_step.reply [OF t(3,2)]])
  then have r: "async_run ref_sds demo_async (anet demo_ctx) [Some 7] u" by (simp add: accepted_def)
  from async_callbacks_called_once [OF this] demo_async_ok(2) t(4) r show ?thesis by auto
qed

text \<open>
  C14. A command that is accepted waits on the connection of the node that serves its slot: its callback is the last one
  pending, with the bytes given by the user kept for a retry and no retry counted; the connection is the one of the
  node that the slot table gives for the slot, which for a command with one key is the hash slot of that key. The
  invariant of the cluster context is kept and so are its tables; nothing else is pending but replies to AUTH.
\<close>

theorem async_command_reaches_owner:
  assumes "cluster_inv (acc_cc acc)" and "redisClusterAsyncFormattedCommand HA fn cmd len num_str cid acc = Some (REDIS_OK, cid', acc')"
  shows "\<exists>command slot tab n a ps.
     acc_pending acc' = acc_pending acc @ ps @ [(a, CMD_CB \<lparr>cad_command = command, cad_callback = fn, cad_retry_count = 0\<rparr>)] \<and>
     (\<forall>p \<in> set ps. snd p = NO_CB) \<and> linked (acc_cc acc) (acc_cc acc') \<and> acon_of_node n a (acc_cc acc') \<and>
     cc_table (acc_cc acc) = Some tab \<and> 0 \<le> slot \<and> slot < int REDIS_CLUSTER_SLOTS \<and> tab ! nat slot = Some n \<and>
     r_cmd command = Some (take (nat len) cmd) \<and> (sint (hiarray_n (r_keys command)) = 1 \<longrightarrow> slot = key_slot command)"
  using command_accepted [OF assms] .

theorem async_command_reaches_owner_witness:
  "\<exists>cid t n a ps p. redisClusterAsyncFormattedCommand demo_async (Some 7) get_axh 22 '''' 0 (anet demo_ctx) = Some (REDIS_OK, cid, t) \<and>
     acc_pending t = ps @ [(a, p)] \<and> acon_of_node n a (acc_cc t) \<and> cluster_inv (acc_cc t)"
proof -
  obtain cid t where t: "redisClusterAsyncFormattedCommand demo_async (Some 7) get_axh 22 '''' 0 (anet demo_ctx) = Some (REDIS_OK, cid, t)"
    using get_axh_answered by blast
  have "cluster_inv (acc_cc (anet demo_ctx))" using anet_inv by simp
  from async_command_reaches_owner [OF this t] t show ?thesis by (auto simp: linked_def)
qed

text \<open>
  C24. The node that is asked for the slot map is well chosen: on a context that keeps its invariant and knows at least
  one node, \<open>selectNode\<close> returns without using freed memory, whatever number \<open>random\<close> gives. It chooses a connected
  node when there is one among all known nodes, otherwise a node to which no connection has been attempted within the
  last second, and none only when there is no such node either; the choice changes nothing.
\<close>

theorem selectNode_prefers_connected:
  assumes "cluster_inv (acc_cc acc)" and "cc_nodes (acc_cc acc) = Some d" and "d_used d \<noteq> 0"
  shows "\<exists>r acc'. selectNode HA d acc = Some (r, acc') \<and> wired (acc_cc acc) (acc_cc acc') \<and> acc_pending acc' = acc_pending acc \<and>
     (case r of
        None \<Rightarrow> \<forall>n \<in> ran (dict_map d). \<not> connected (acc_cc acc) n \<and> \<not> untried (fst (usec_now HA acc)) (acc_cc acc) n
      | Some n \<Rightarrow> n \<in> ran (dict_map d) \<and>
          (connected (acc_cc acc) n \<or>
           untried (fst (usec_now HA acc)) (acc_cc acc) n \<and> (\<forall>m \<in> ran (dict_map d). \<not> connected (acc_cc acc) m)))"
proof -
  obtain r acc' where r: "selectNode HA d acc = Some (r, acc')" "quiet acc acc'"
     "chooses (connected (acc_cc acc)) (untried (fst (usec_now HA acc)) (acc_cc acc)) (ran (dict_map d)) r"
    using selectNode_ex [OF assms, of HA] by blast
  have "acc_pending acc' = acc_pending acc"
    using r(1) by (auto simp: selectNode_def usec_now_def Let_def elim!: bind_SomeE split: prod.splits if_splits)
  with r show ?thesis unfolding chooses_def quiet_def by (intro exI [of _ r] exI [of _ acc']) blast
qed

theorem selectNode_prefers_connected_witness:
  "\<exists>acc'. selectNode demo_async net_dict (anet demo_ctx) = Some (Some 0, acc') \<and> connected (anet_cc demo_ctx) 0"
proof -
  have i: "cluster_inv (acc_cc (anet demo_ctx))" "cc_nodes (acc_cc (anet demo_ctx)) = Some net_dict" "d_used net_dict \<noteq> 0"
    using anet_inv by (simp_all add: net_dict_def)
  have c: "connected (anet_cc demo_ctx) 0" by (simp add: connected_def nodeIsConnected_def demo_actx_def)
  have "ran (dict_map net_dict) = {0}" by (simp add: net_map)
  with selectNode_prefers_connected [OF i, of demo_async] c show ?thesis by (auto split: option.splits)
qed

text \<open>
  C22. After \<open>redisClusterAsyncDisconnect\<close> the client only winds down: no command is accepted any more, no slot map update
  is begun and no command is sent again, so that of what was pending at the disconnect nothing is added to, in any
  number of further steps.
\<close>

theorem disconnect_only_drains:
  assumes "redisClusterAsyncDisconnect HA acc = Some acc1" and "async_run L HA acc1 fns acc'"
  shows "fns = [] \<and> has_flag HIRCLUSTER_FLAG_SHUTDOWN (acc_cc acc') \<and> mset (acc_pending acc') \<subseteq># mset (acc_pending acc)"
proof -
  have "closing acc1" using settings_flag [OF books_settings [OF redisClusterAsyncDisconnect_books [OF assms(1)]]] async_shutdown_books(5) by blast
  moreover have "acc_pending acc1 = acc_pending acc"
    using assms(1) async_shutdown_books(4) [of acc]
    by (auto simp: redisClusterAsyncDisconnect_def Let_def split: option.splits dest!: disconnect_loop_pending)
  ultimately show ?thesis using async_run_closing [OF assms(2)] by simp
qed

theorem disconnect_only_drains_witness:
  "\<exists>acc1 acc2. redisClusterAsyncDisconnect demo_async (anet demo_ctx) = Some acc1 \<and>
     redisClusterAsyncFormattedCommand demo_async (Some 7) get_axh 22 '''' 0 acc1 = Some (REDIS_ERR, 0, acc2) \<and> acc_pending acc2 = []"
proof -
  have it: "dict_iter net_dict = [(''h:1'', 0)]" unfolding dict_iter_entries [OF net_map(1)] by (simp add: dict_entries_def net_dict_def)
  obtain acc1 where a: "redisClusterAsyncDisconnect demo_async (anet demo_ctx) = Some acc1"
    using it by (simp add: redisClusterAsyncDisconnect_def async_shutdown_def set_flag_def on_acon_def Let_def case_prod_unfold)
  have "closing acc1" using disconnect_only_drains [OF a async_run.start] by simp
  then obtain acc2 where c: "redisClusterAsyncFormattedCommand demo_async (Some 7) get_axh 22 '''' 0 acc1 = Some (REDIS_ERR, 0, acc2)"
    by (simp add: redisClusterAsyncFormattedCommand_def)
  have "async_run ref_sds demo_async acc1 ([] @ accepted REDIS_ERR (Some 7)) acc2"
    by (rule async_run.more [OF async_run.start async_step.command [OF c]])
  from disconnect_only_drains [OF a this] a c show ?thesis by simp
qed

text \<open>
  C23. Freeing the context answers all commands: on a context that keeps its invariant, and when every pending command has
  a callback, \<open>redisClusterAsyncFree\<close> returns without using freed memory, and has called the callback of every command
  pending on a connection of a known node exactly once, without a reply; nothing stays pending on these connections.
\<close>

theorem async_free_answers_all:
  assumes "cluster_inv (acc_cc acc)" and "callbacks_set (acc_pending acc)"
  shows "\<exists>acc'. redisClusterAsyncFree L HA acc = Some acc' \<and>
     mset (acc_calls acc') = mset (acc_calls acc) + mset (answer_none (filter (\<lambda>p. fst p \<in> node_acons (acc_cc acc)) (acc_pending acc))) \<and>
     acc_pending acc' = filter (\<lambda>p. fst p \<notin> node_acons (acc_cc acc)) (acc_pending acc)"
proof -
  let ?acc = "async_shutdown acc"
  let ?s = "acc_cc ?acc" and ?ps = "acc_pending acc"
  have f: "w_nodes ?s = w_nodes (acc_cc acc)" "w_cons ?s = w_cons (acc_cc acc)" "w_acons ?s = w_acons (acc_cc acc)" "cc_nodes ?s = cc_nodes (acc_cc acc)"
    "cc_table ?s = cc_table (acc_cc acc)" "acc_pending ?acc = ?ps" "acc_calls ?acc = acc_calls acc"
    by (simp_all add: async_shutdown_def set_flag_def)
  have inv: "cluster_inv ?s" using cluster_inv_cong [OF f(1-5)] assms(1) by simp
  have na: "node_acons ?s = node_acons (acc_cc acc)" using f(1,4) own_cong(2) [OF f(1)] by (simp add: node_acons_def known_def)
  obtain t where t: "redisClusterFree ?s = Some t" "distinct (freed_acons ?s t)" "set (freed_acons ?s t) = node_acons (acc_cc acc)" "cc_flags t = cc_flags ?s"
    using redisClusterFree_acons [OF inv] na by auto
  let ?calls = "concat (map (\<lambda>a. filter (\<lambda>p. fst p = a) ?ps) (freed_acons ?s t))"
  let ?rest = "filter (\<lambda>p. fst p \<notin> set (freed_acons ?s t)) ?ps"
  let ?acc1 = "?acc\<lparr>acc_cc := t, acc_pending := ?rest\<rparr>"
  have "closing ?acc1" using async_shutdown_books(5) [of acc] t(4) by (simp add: has_flag_def)
  moreover have "callbacks_set ?calls" using assms(2) by (auto simp: callbacks_set_def)
  ultimately obtain acc' where d: "drop_pending L HA (\<lambda>a. the (acon_at ?s a)) ?calls ?acc1 = Some acc'" "acc_pending acc' = ?rest"
      "acc_calls acc' = acc_calls acc @ answer_none ?calls"
    using drop_pending_ex [of ?acc1 ?calls L HA "\<lambda>a. the (acon_at ?s a)"] f(7) by auto
  have "redisClusterAsyncFree L HA acc = Some acc'" using t(1) d(1) f(6) by (simp add: redisClusterAsyncFree_def Let_def)
  moreover have "mset (answer_none ?calls) = mset (answer_none (filter (\<lambda>p. fst p \<in> node_acons (acc_cc acc)) ?ps))"
    using answer_none_mset [OF mset_group [OF t(2)]] t(3) by simp
  ultimately show ?thesis using d(2,3) t(3) by simp
qed

theorem async_free_answers_all_witness:
  "\<exists>cid t acc'. redisClusterAsyncFormattedCommand demo_async (Some 7) get_axh 22 '''' 0 (anet demo_ctx) = Some (REDIS_OK, cid, t) \<and>
     redisClusterAsyncFree ref_sds demo_async t = Some acc' \<and> acc_calls acc' = [(7, None)] \<and> acc_pending acc' = []"
proof -
  obtain cid t command where t: "redisClusterAsyncFormattedCommand demo_async (Some 7) get_axh 22 '''' 0 (anet demo_ctx) = Some (REDIS_OK, cid, t)"
      "acc_pending t = [(0, CMD_CB \<lparr>cad_command = command, cad_callback = Some 7, cad_retry_count = 0\<rparr>)]" "acc_calls t = []"
    using get_axh_sent [of demo_ctx "Some 7"] by (auto simp: demo_ctx_def)
  have "cluster_inv (acc_cc (anet demo_ctx))" using anet_inv by simp
  from command_accepted [OF this t(1)] t(2) obtain n tab slot where n: "linked (acc_cc (anet demo_ctx)) (acc_cc t)" "acon_of_node n 0 (acc_cc t)"
     "cc_table (acc_cc (anet demo_ctx)) = Some tab" "tab ! nat slot = Some n" "0 \<le> slot" "slot < int REDIS_CLUSTER_SLOTS" by auto
  have "known (acc_cc (anet demo_ctx)) n" using table_known [OF anet_inv, of demo_ctx tab "nat slot" n] n(3-6) by auto
  then have "0 \<in> node_acons (acc_cc t)" using n(1,2) by (auto simp: node_acons_def linked_def acon_of_node_def)
  with async_free_answers_all [of t ref_sds demo_async] n(1) t show ?thesis by (auto simp: linked_def callbacks_set_def answer_none_def)
qed

section \<open>Replies\<close>

text \<open>
  C21. A CLUSTER SLOTS reply that arrives asynchronously gives the table it describes: when the reply lists the ranges
  \<open>rs\<close>, which are valid and do not overlap, and memory suffices, the callback replaces the table so that every slot is
  served by a node with the host and port of the range that holds it, or by no node where no range does. A node whose
  address was known keeps its asynchronous connection, the invariant holds, no further update is begun, and the time
  of the update is noted.
\<close>

theorem slots_callback_gives_table:
  assumes "cluster_inv (acc_cc acc)" and "map (region_reads (rc_host (ac_c ac))) es = map Some rs" and "es \<noteq> []" "length es < 2 ^ 30"
    and "sds_ok L" and "no_oom (w_script (acc_cc acc))" and "regions_ok rs"
  shows "\<exists>acc'. clusterSlotsReplyCallback L HA ac (Some (REDIS_REPLY_ARRAY es)) acc = Some acc' \<and> cluster_inv (acc_cc acc') \<and>
     acc_pending acc' = acc_pending acc \<and> acc_lastSlotmapUpdateAttempt acc' = fst (usec_now HA acc) \<and>
     (\<forall>i < REDIS_CLUSTER_SLOTS. routes_to (acc_cc acc') i (slot_owner rs i)) \<and>
     (\<forall>d k n nd. cc_nodes (acc_cc acc') = Some d \<longrightarrow> dict_map d k = Some n \<longrightarrow> node_at (acc_cc acc') n = Some nd \<longrightarrow>
        n_acon nd = old_acon (acc_cc acc) k)"
proof -
  have "acc_lastSlotmapUpdateAttempt (stamp_attempt HA acc) = fst (usec_now HA acc)" by (simp add: stamp_attempt_def case_prod_unfold)
  with clusterSlotsReplyCallback_table [OF assms, of HA] show ?thesis by simp
qed

theorem slots_callback_gives_table_witness:
  "\<exists>acc'. clusterSlotsReplyCallback ref_sds demo_async demo_actx (Some demo_reply) (anet demo_ctx) = Some acc' \<and>
     acc_lastSlotmapUpdateAttempt acc' = 100000000 \<and> routes_to (acc_cc acc') 8191 (Some (''10.0.0.1'', 7000))"
proof -
  have i: "cluster_inv (acc_cc (anet demo_ctx))" using anet_inv by simp
  have "slot_owner demo_regions 8191 = Some (''10.0.0.1'', 7000)" by (simp add: slot_owner_def demo_regions_def holds_def)
  moreover have "fst (usec_now demo_async (anet demo_ctx)) = 100000000" by (simp add: usec_now_def demo_async_def hi_usec_now_def)
  moreover obtain acc' where "clusterSlotsReplyCallback ref_sds demo_async demo_actx (Some demo_reply) (anet demo_ctx) = Some acc'"
      "acc_lastSlotmapUpdateAttempt acc' = fst (usec_now demo_async (anet demo_ctx))"
      and own: "\<forall>i < REDIS_CLUSTER_SLOTS. routes_to (acc_cc acc') i (slot_owner demo_regions i)"
    unfolding demo_reply_ranges
    using slots_callback_gives_table [OF i demo_reads(1), of ref_sds demo_async] ref_sds_ok demo_regions_ok(1) by (simp del: anet_cc_simps(3)) (metis anet_cc_simps(3) no_oom_Nil)
  moreover from own have "routes_to (acc_cc acc') 8191 (slot_owner demo_regions 8191)" by simp
  ultimately show ?thesis by auto
qed


definition demo_cad :: "nat option \<Rightarrow> cluster_async_data" where
  "demo_cad fn = \<lparr>cad_command = net_cmd, cad_callback = fn, cad_retry_count = 0\<rparr>"

lemma anet_moved: "moved_to ''MOVED 5 h:1'' 1 5 0 0 (anet c)"
proof -
  have "starts_longer ''MOVED'' ''MOVED 5 h:1''" "hi_atoi (split_at_sep CHR '' '' ''MOVED 5 h:1'' ! 1) = 5" "redirect_address ''MOVED 5 h:1'' = Some ''h:1''"
    by code_simp+
  moreover have "acon_at (anet_cc c) (Suc 0) = Some demo_actx" using anet_cc_simps(9) [of c] by simp
  ultimately show ?thesis by (simp add: moved_to_def net_map)
qed


section \<open>Failures\<close>

text \<open>
  C40. A MOVED redirection to a node whose connection has failed ends in the use of a null pointer: \<open>actx_get_by_node\<close>
  gives no connection while hiredis is still tearing the failed one down, and unlike the branch for ASK, which then
  calls the user callback, the branch for MOVED goes on to send the command on the connection it did not get. The
  result \<open>None\<close> of the callback is that use.
\<close>

theorem moved_to_failed_node_crashes:
  assumes "cluster_inv (acc_cc acc)" and "moved_to str a slot n b acc" and "acon_at (acc_cc acc) b = Some ctx" "rc_err (ac_c ctx) \<noteq> 0"
    and "sds_ok L" and "no_oom (w_script (acc_cc acc))" and "\<not> has_flag HIRCLUSTER_FLAG_SHUTDOWN (acc_cc acc)"
    and "0 \<le> cad_retry_count cad" "cad_retry_count cad < cc_max_retry_count (acc_cc acc)"
  shows "redisClusterAsyncCallback L HA a ac (Some (REDIS_REPLY_ERROR str)) cad acc = None"
proof -
  obtain acc1 where 1: "async_moved L HA str a acc = Some (GOTO_RETRY None, acc1)"
    using async_moved_known [OF assms(1-3,5,6), of HA] assms(4) by auto
  have m: "starts_longer ''MOVED'' str" using assms(2) by (simp add: moved_to_def)
  show ?thesis
    using assms(7-9) m 1
    by (simp add: redisClusterAsyncCallback_def cluster_reply_error_type_def redirects_def async_redirect_def error_text_def async_retry_def Let_def)
qed

theorem moved_to_failed_node_crashes_witness:
  "redisClusterAsyncCallback ref_sds demo_async 1 demo_actx (Some (REDIS_REPLY_ERROR ''MOVED 5 h:1'')) (demo_cad (Some 7))
     (anet (demo_ctx\<lparr>rc_err := REDIS_ERR_EOF\<rparr>)) = None"
proof -
  let ?c = "demo_ctx\<lparr>rc_err := REDIS_ERR_EOF\<rparr>"
  have i: "cluster_inv (acc_cc (anet ?c))" using anet_inv by simp
  have a: "acon_at (acc_cc (anet ?c)) 0 = Some (demo_actx\<lparr>ac_c := ?c, ac_data := Some 0\<rparr>)" by simp
  show ?thesis
    by (rule moved_to_failed_node_crashes [OF i anet_moved a _ ref_sds_ok _ anet_open]) (simp_all add: demo_cad_def)
qed

text \<open>
  A callback is lost when hiredis refuses to take the command a second time: on a TRYAGAIN or CLUSTERDOWN error the
  command is sent again on the connection that replied, and when that fails the command is freed without its
  callback being called.
\<close>

theorem refused_retry_loses_callback:
  assumes "starts_longer ''TRYAGAIN'' str" "\<not> starts_longer ''MOVED'' str" "\<not> starts_longer ''ASK'' str"
    and "\<not> has_flag HIRCLUSTER_FLAG_SHUTDOWN (acc_cc acc)"
    and "0 \<le> cad_retry_count cad" "cad_retry_count cad < cc_max_retry_count (acc_cc acc)"
    and "acon_at (acc_cc acc) a = Some ac" "redisAsyncFormattedCommand HA (cmd_bytes (cad_command cad)) ac (w_world (acc_cc acc)) = (REDIS_ERR, ac', w)"
  shows "\<exists>acc'. redisClusterAsyncCallback L HA a ac (Some (REDIS_REPLY_ERROR str)) cad acc = Some acc' \<and>
     acc_calls acc' = acc_calls acc \<and> acc_pending acc' = acc_pending acc"
  using assms
  by (simp add: redisClusterAsyncCallback_def cluster_reply_error_type_def redirects_def async_redirect_def error_text_def async_retry_def
      acon_send_def on_acon_def Let_def)

text \<open>
  A command with a null callback, which the documentation allows, crashes the client when its reply arrives: the
  callback is called without a check.
\<close>

theorem null_callback_crashes:
  assumes "cad_callback cad = None" and "\<not> redirects (cluster_reply_error_type (Some r))"
  shows "redisClusterAsyncCallback L HA a ac (Some r) cad acc = None"
  using assms by (auto simp: redisClusterAsyncCallback_def async_finish_def split: option.split)

text \<open>
  An empty table of nodes, which a refused address leaves behind, makes the connect a division by zero in
  \<open>selectNode\<close>.
\<close>

theorem empty_table_divides_by_zero:
  assumes "cc_nodes (acc_cc acc) = Some d" "d_used d = 0" "acc_adapter acc" "\<not> has_flag HIRCLUSTER_FLAG_SHUTDOWN (acc_cc acc)"
    "acc_lastSlotmapUpdateAttempt acc \<noteq> SLOTMAP_UPDATE_ONGOING"
  shows "redisClusterAsyncConnect2 HA acc = None"
  using assms
  by (simp add: redisClusterAsyncConnect2_def updateSlotMapAsync_def update_acon_def selectNode_def case_prod_unfold Let_def)

end
