(* ===== verification/Spec2Isabelle.thy ===== *)
theory Spec2Isabelle
  imports Adlist Sockets Async_Props
begin

text \<open>
  Verification of hiredis-cluster, the C client library for Redis Cluster (\<^verbatim>\<open>src/hircluster.c\<close> and the files it
  uses). A client keeps a table from hash slots to nodes, learnt from a server; a command is parsed to find its
  keys, the slot of a key gives the node, and the command is sent on the connection of that node, following
  redirections. Commands with keys in several slots are split, and their replies are put together again.

  \<^bold>\<open>Theories and source files.\<close>

  \<^item> \<open>Cluster_Prelude\<close>: words, C strings, the allocator script, list lemmas; \<open>Cluster_Reply\<close>: replies, the error
    members of the contexts (\<open>__redisClusterSetError\<close>), \<open>cluster_reply_error_type\<close>.
  \<^item> \<open>Hiutil\<close> and \<open>Sockets\<close> (\<^verbatim>\<open>hiutil.c\<close>: numbers and the clock; descriptors, with the loops that send and receive);
    \<open>Hiarray\<close> (\<^verbatim>\<open>hiarray.c\<close>), \<open>Adlist\<close> (\<^verbatim>\<open>adlist.c\<close>, on a heap of list nodes), \<open>Dict\<close> (\<^verbatim>\<open>dict.c\<close>): the containers,
    each with its invariant, an abstraction to lists or maps, and a locale with the contract its clients use,
    interpreted on the modelled operations.
  \<^item> \<open>Keyslot\<close> (\<^verbatim>\<open>crc16.c\<close>, \<open>keyHashSlot\<close>); \<open>Cmddef\<close> (\<^verbatim>\<open>cmddef.h\<close>, all entries); \<open>Command\<close> and \<open>Command_Spec\<close>
    (\<^verbatim>\<open>command.c\<close>: lookup and request parser, and a specification on the list of arguments which it refines);
    \<open>Fragment\<close> (\<open>command_pre_fragment\<close>, \<open>command_post_fragment\<close>, \<open>command_format_by_slot\<close>).
  \<^item> \<open>Cluster_State\<close>: \<open>redisClusterContext\<close>, nodes, connections. Nodes and connections live in stores indexed by
    address; an address is never used twice, so that using or freeing freed memory is visible: it makes an
    operation return \<open>None\<close>. Allocation results are a script, so that every failure is a branch.
  \<^item> \<open>Cluster_Node\<close> (\<open>parse_cluster_slots\<close> and what it calls), \<open>Nodes_Reply\<close> (\<open>parse_cluster_nodes\<close>), \<open>Slotmap\<close>
    (\<open>updateNodesAndSlotmap\<close> to \<open>redisClusterUpdateSlotmap\<close>), \<open>Options\<close> (creating, configuring, connecting, freeing),
    \<open>Sync_API\<close> (\<open>ctx_get_by_node\<close> to \<open>redis_cluster_command_execute\<close>), \<open>Pipeline\<close> (the entry points for commands,
    pipelining, \<open>redisClusterReset\<close>, the node iterator).
  \<^item> \<open>Async_API\<close> (the asynchronous interface from \<open>actx_get_by_node\<close> to \<open>redisClusterAsyncFree\<close>, the functions of
    \<^verbatim>\<open>adapters/\<close> that register an event loop, and \<^verbatim>\<open>hircluster_ssl.c\<close>). The commands that hiredis has taken and not
    answered are a list of connections with callbacks, and the calls of user callbacks are recorded. A run of a
    client is a sequence of steps (\<open>async_step\<close>): calls of the user, replies, lost connections, changes that hiredis
    makes to a connection. A call that a user makes inside a callback is a step after it; the callbacks of a
    connection that is freed with its node are steps after that.

  \<^bold>\<open>Lemma groups.\<close>

  \<^item> \<open>Cluster_Node_Inv\<close>, \<open>Slots_Reply_Inv\<close>, \<open>Slots_Reply\<close>: a table under construction owns its nodes once
    (\<open>building\<close>); \<open>parse_cluster_slots\<close> keeps this through all exits.
  \<^item> \<open>Slotmap_Inv\<close>, \<open>Slotmap_Update\<close>: the invariant \<open>cluster_inv\<close> of a context (the known nodes own their memory
    once, their connections are open and not shared, the slot table points to known nodes) and its preservation
    by an update, for any answers of hiredis; \<open>Slotmap_Table\<close>: the table that a reply describes.
  \<^item> \<open>Options_Inv\<close>, \<open>Sync_Inv\<close>, \<open>Pipeline_Inv\<close>, \<open>Pipeline_Reset\<close>: the same for options, commands, redirections and
    pipelines. \<open>Frame\<close>: what no operation changes, from any state; this bounds the retries.
  \<^item> \<open>Async_Frame\<close>: what every step keeps of the pending callbacks, the calls made and the update under way,
    from any state, by induction on runs; \<open>Async_Inv\<close>: \<open>cluster_inv\<close> for the asynchronous operations, and that
    they return.
  \<^item> \<open>Slotmap_Props\<close>, \<open>Sync_Props\<close>, \<open>Async_Props\<close> and the end of this theory hold the properties of the client, each with an
    application to a concrete client.

  \<^bold>\<open>Parameters.\<close> hiredis (\<^verbatim>\<open>redisConnectWithOptions\<close>, \<^verbatim>\<open>redisGetReply\<close> and others) is a record of functions on a
  context and an unknown world; sds is a record of three functions. Hypotheses on them are named: \<open>sds_ok\<close> (the
  sds functions do what they document), \<open>replies_ok\<close> (a successful \<^verbatim>\<open>redisGetReply\<close> gives a complete reply),
  \<open>no_redirects\<close>, \<open>progresses\<close> (a blocking write that does not fail writes something). For the asynchronous interface
  hiredis, the clock and \<^verbatim>\<open>random\<close> are the record \<open>hiredis_async\<close>; \<open>accepting\<close> says that hiredis refuses no
  command, which a live connection in good order does not, and where the mark of an update under way matters the clock is assumed not to show it. \<open>route_safe\<close> restricts an
  invariant to clients that use CLUSTER SLOTS, since the parser of CLUSTER NODES frees a node twice on a
  reply with two masters of one name (\<open>same_name_freed_twice\<close>).

  \<^bold>\<open>Bounds and fuel.\<close> The retry loop of a command takes as fuel the retries that \<open>max_retry_count\<close> leaves and one;
  \<open>exec_retries_bounded\<close> shows that this is enough in every state. \<open>drain\<close> takes the number of outstanding
  requests and one (\<open>drain_rounds_bounded\<close>). Writing until a buffer is empty has no bound in the code and is a
  \<open>partial_function\<close>; \<open>reset_ends_pipeline\<close> shows that it returns. The loops of \<open>Sockets\<close> return when the
  interruptions end (\<open>hi_sendn_sends_all\<close>, \<open>hi_recvn_receives_sent\<close>). The asynchronous interface needs no fuel. Tables of nodes are limited to \<open>2\<^sup>3\<^sup>0\<close> entries,
  where the size of \<^verbatim>\<open>dict.c\<close> is still a power of two.

  \<^bold>\<open>Not modelled.\<close> Subscriptions of the asynchronous interface, whose callback runs once for every message; replies of
  RESP3 types as an answer to CLUSTER NODES; null pointers given for a context; the stack trace of \<^verbatim>\<open>hiutil.c\<close>; \<open>hiarray_sort\<close>
  and \<open>hiarray_destroy\<close>; the generator of \<^verbatim>\<open>cmddef.h\<close>, tests and examples.
  Formatting a command from a format string is done by hiredis: its result is an argument.
\<close>

section \<open>From the reply of a server to the node of a key\<close>

text \<open>
  C2. A key is routed to the server that the cluster names for its slot: once a CLUSTER SLOTS reply with the valid,
  disjoint ranges \<open>rs\<close> has been handled, \<open>redisClusterGetNodeByKey\<close> returns for every key a node with the host and
  port of the range that holds the hash slot of the key, and none, with an error, when no range does.
\<close>

theorem key_routed_to_owner:
  assumes "answers H c s (REDIS_REPLY_ARRAY es) th" and "map (region_reads th) es = map Some rs" and "es \<noteq> []" "length es < 2 ^ 30"
    and "regions_ok rs" and "cluster_inv s" and "sds_ok L" and "no_oom (w_script s)"
  shows "\<exists>t. handleClusterSlotsReply L H c s = Some (REDIS_OK, t) \<and>
     (\<forall>key. case slot_owner rs (keyHashSlot (cstr key)) of
        Some (host, port) \<Rightarrow>
          (\<exists>n nd. redisClusterGetNodeByKey key t = (Some n, t) \<and> node_at t n = Some nd \<and> n_host nd = Some (cstr host) \<and> n_port nd = word_of_int port)
      | None \<Rightarrow> redisClusterGetNodeByKey key t = (None, redisClusterSetError REDIS_ERR_OTHER ''slot not served by any node'' t))"
proof -
  obtain t where t: "handleClusterSlotsReply L H c s = Some (REDIS_OK, t)" "\<forall>i < 16384. routes_to t i (slot_owner rs i)"
    using slots_reply_table [OF assms(1,6,2,3,4,7,8,5)] by blast
  have "case slot_owner rs (keyHashSlot (cstr key)) of
        Some (host, port) \<Rightarrow>
          (\<exists>n nd. redisClusterGetNodeByKey key t = (Some n, t) \<and> node_at t n = Some nd \<and> n_host nd = Some (cstr host) \<and> n_port nd = word_of_int port)
      | None \<Rightarrow> redisClusterGetNodeByKey key t = (None, redisClusterSetError REDIS_ERR_OTHER ''slot not served by any node'' t)" for key
  proof -
    let ?i = "keyHashSlot (cstr key)"
    have i: "?i < 16384" by (rule keyHashSlot_less)
    then have le: "(16384 \<le> ?i) = False" by (simp only: not_le [symmetric] simp_thms)
    have "?i < 2 ^ 32" by (rule less_trans [OF i]) simp
    then have u: "unat (word_of_nat ?i :: u32) = ?i" by (simp add: unsigned_of_nat take_bit_nat_eq_self)
    have r: "routes_to t ?i (slot_owner rs ?i)" using t(2) i by blast
    then obtain tab where tab: "cc_table t = Some tab" by (auto simp: routes_to_def split: option.splits)
    show ?thesis
      using r tab u by (auto simp: le routes_to_def redisClusterGetNodeByKey_def node_get_by_table_def split: option.splits)
  qed
  with t(1) show ?thesis by blast
qed

theorem key_routed_to_owner_witness:
  "\<exists>t n nd. handleClusterSlotsReply ref_sds (demo_hiredis demo_reply) 0 (demo_cc\<lparr>w_cons := [Some (demo_ctx\<lparr>rc_host := None\<rparr>)]\<rparr>) = Some (REDIS_OK, t) \<and>
     redisClusterGetNodeByKey ''{user1}.name'' t = (Some n, t) \<and> node_at t n = Some nd \<and> n_host nd = Some ''10.0.0.1'' \<and> n_port nd = 7000"
proof -
  let ?s = "demo_cc\<lparr>w_cons := [Some (demo_ctx\<lparr>rc_host := None\<rparr>)]\<rparr>" and ?key = "''{user1}.name''"
  have inv: "cluster_inv ?s" by (simp add: cluster_inv_def)
  have own: "slot_owner demo_regions (keyHashSlot (cstr ?key)) = Some (''10.0.0.1'', 7000)" "cstr ''10.0.0.1'' = ''10.0.0.1''" by code_simp+
  have an: "answers (demo_hiredis demo_reply) 0 ?s (REDIS_REPLY_ARRAY [demo_range 0 8191 ''10.0.0.1'' 7000, demo_range 8192 16383 ''10.0.0.2'' 7001]) None"
    using demo_answers [of demo_reply] by (simp add: demo_reply_ranges)
  obtain t where t: "handleClusterSlotsReply ref_sds (demo_hiredis demo_reply) 0 ?s = Some (REDIS_OK, t)"
      "case slot_owner demo_regions (keyHashSlot (cstr ?key)) of
        Some (host, port) \<Rightarrow>
          (\<exists>n nd. redisClusterGetNodeByKey ?key t = (Some n, t) \<and> node_at t n = Some nd \<and> n_host nd = Some (cstr host) \<and> n_port nd = word_of_int port)
      | None \<Rightarrow> redisClusterGetNodeByKey ?key t = (None, redisClusterSetError REDIS_ERR_OTHER ''slot not served by any node'' t)"
    using key_routed_to_owner [OF an demo_reads(1) _ _ demo_regions_ok(1) inv ref_sds_ok] that unfolding demo_reply_ranges by fastforce
  show ?thesis using t [unfolded own] by auto
qed

end
